(* ===== verification/Prelude.thy ===== *)
theory Prelude
  imports Complex_Main "HOL-Library.Word" "HOL-Library.Multiset"
begin

text \<open>
  Shared vocabulary of the development: the names of the machine types, the
  result type of fallible code and Rust's \<open>?\<close> on it, panics as \<open>None\<close>, and the
  collections and generic lemmas on lists that the component theories use.

  A Rust \<open>Result<T, E>\<close> is \<open>'e + 'a\<close> with \<open>Inl\<close> for \<open>Err\<close>. Code that can panic
  (an index out of range, a failed \<open>assert!\<close>) returns \<open>'a option\<close> with \<open>None\<close> for the
  panic; a theorem that it returns \<open>Some\<close> is a theorem that it does not panic.
  \<open>u64\<close> and \<open>i64\<close> are the same 64 bits, so \<open>as\<close> between them is the identity: signed
  reading is \<open>sint\<close>, and every comparison in the code goes through the unsigned view.
\<close>

unbundle bit_operations_syntax

section \<open>Machine types\<close>

type_synonym u8 = "8 word"
type_synonym u16 = "16 word"
type_synonym u32 = "32 word"
type_synonym u64 = "64 word"
type_synonym i64 = "64 word"
type_synonym u128 = "128 word"
type_synonym bytes = "u8 list"

text \<open>\<open>usize\<close> is modelled by \<open>nat\<close>; where the code guards an overflow the bound is explicit.\<close>

abbreviation usize_max :: nat where
  "usize_max \<equiv> 2 ^ 64 - 1"

definition checked_add :: "nat \<Rightarrow> nat \<Rightarrow> nat option" where
  "checked_add a b = (if a + b \<le> usize_max then Some (a + b) else None)"

definition checked_mul :: "nat \<Rightarrow> nat \<Rightarrow> nat option" where
  "checked_mul a b = (if a * b \<le> usize_max then Some (a * b) else None)"

section \<open>Collections of rules\<close>

named_theorems code_eqs \<open>defining equations of the modelled operations, for evaluation\<close>
named_theorems panic_free \<open>operations that return \<open>Some\<close> under their precondition\<close>
named_theorems res_simps \<open>inversion of results\<close>

section \<open>Results and the question mark operator\<close>

definition andthen :: "'e + 'a \<Rightarrow> ('a \<Rightarrow> 'e + 'b) \<Rightarrow> 'e + 'b" where
  "andthen m f = (case m of Inl e \<Rightarrow> Inl e | Inr x \<Rightarrow> f x)"

definition ok_or :: "'e \<Rightarrow> 'a option \<Rightarrow> 'e + 'a" where
  "ok_or e x = (case x of None \<Rightarrow> Inl e | Some v \<Rightarrow> Inr v)"

lemma andthen_simps [simp]:
  "andthen (Inl e) f = Inl e"
  "andthen (Inr x) f = f x"
  by (simp_all add: andthen_def)

lemma andthen_eq_Inr [res_simps]:
  "andthen m f = Inr y \<longleftrightarrow> (\<exists>x. m = Inr x \<and> f x = Inr y)"
  by (cases m) simp_all

lemma andthen_eq_Inl [res_simps]:
  "andthen m f = Inl e \<longleftrightarrow> m = Inl e \<or> (\<exists>x. m = Inr x \<and> f x = Inl e)"
  by (cases m) simp_all

lemma ok_or_simps [simp]:
  "ok_or e None = Inl e"
  "ok_or e (Some v) = Inr v"
  by (simp_all add: ok_or_def)

lemma ok_or_eq_Inr [res_simps]: "ok_or e x = Inr v \<longleftrightarrow> x = Some v"
  by (cases x) simp_all

lemma ok_or_eq_Inl [res_simps]: "ok_or e x = Inl e' \<longleftrightarrow> x = None \<and> e' = e"
  by (cases x) auto

definition index :: "'a list \<Rightarrow> nat \<Rightarrow> 'a option" where
  "index xs i = (if i < length xs then Some (xs ! i) else None)"

lemma index_Some [panic_free]: "i < length xs \<Longrightarrow> index xs i = Some (xs ! i)"
  by (simp add: index_def)

lemma index_eq_Some [res_simps]: "index xs i = Some v \<longleftrightarrow> i < length xs \<and> xs ! i = v"
  by (auto simp: index_def)

text \<open>A loop whose body can panic, over the elements of a list.\<close>

fun try_map :: "('a \<Rightarrow> 'b option) \<Rightarrow> 'a list \<Rightarrow> 'b list option" where
  "try_map f [] = Some []"
| "try_map f (x # xs) =
     (case f x of None \<Rightarrow> None
      | Some y \<Rightarrow> (case try_map f xs of None \<Rightarrow> None | Some ys \<Rightarrow> Some (y # ys)))"

lemma try_map_Some:
  assumes "\<And>x. x \<in> set xs \<Longrightarrow> f x = Some (g x)"
  shows "try_map f xs = Some (map g xs)"
  using assms by (induction xs) auto

lemma try_map_eq_Some:
  "try_map f xs = Some ys \<longleftrightarrow> list_all2 (\<lambda>x y. f x = Some y) xs ys"
proof (induction xs arbitrary: ys)
  case Nil
  show ?case by auto
next
  case (Cons x xs)
  show ?case
  proof (cases "try_map f xs")
    case None
    with Cons.IH have "\<not> list_all2 (\<lambda>x y. f x = Some y) xs zs" for zs
      by (metis option.distinct(1))
    with None show ?thesis
      by (auto simp: list_all2_Cons1 split: option.splits)
  next
    case (Some zs)
    with Cons.IH have "list_all2 (\<lambda>x y. f x = Some y) xs zs' \<longleftrightarrow> zs' = zs" for zs'
      by (metis option.inject)
    with Some show ?thesis
      by (auto simp: list_all2_Cons1 split: option.splits)
  qed
qed

section \<open>Lists\<close>

text \<open>\<open>slice::windows\<close>: the contiguous sublists of length \<open>k\<close>, left to right.\<close>

definition windows :: "nat \<Rightarrow> 'a list \<Rightarrow> 'a list list" where
  "windows k xs = map (\<lambda>i. take k (drop i xs)) [0..<Suc (length xs) - k]"

lemma length_windows [simp]: "length (windows k xs) = Suc (length xs) - k"
  by (simp add: windows_def)

lemma nth_windows: "i < Suc (length xs) - k \<Longrightarrow> windows k xs ! i = take k (drop i xs)"
  by (simp add: windows_def del: upt_Suc)

text \<open>\<open>[T]::join\<close> with a separator.\<close>

fun join :: "'a list \<Rightarrow> 'a list list \<Rightarrow> 'a list" where
  "join sep [] = []"
| "join sep [t] = t"
| "join sep (t # ts) = t @ sep @ join sep ts"

lemma join_Cons: "ts \<noteq> [] \<Longrightarrow> join sep (t # ts) = t @ sep @ join sep ts"
  by (cases ts) simp_all

lemma join_snoc: "ts \<noteq> [] \<Longrightarrow> join sep (ts @ [t]) = join sep ts @ sep @ t"
proof (induction ts)
  case Nil
  then show ?case by simp
next
  case (Cons u us)
  show ?case
  proof (cases "us = []")
    case True
    then show ?thesis by simp
  next
    case False
    with Cons.IH show ?thesis by (simp add: join_Cons)
  qed
qed

text \<open>\<open>str::split\<close> by one character: never empty, one piece more than separators.\<close>

fun split_on :: "'a \<Rightarrow> 'a list \<Rightarrow> 'a list list" where
  "split_on c [] = [[]]"
| "split_on c (x # xs) =
     (if x = c then [] # split_on c xs
      else (case split_on c xs of [] \<Rightarrow> [[x]] | t # ts \<Rightarrow> (x # t) # ts))"

lemma split_on_nonempty [simp]: "split_on c xs \<noteq> []"
  by (induction xs) (auto split: list.splits)

lemma split_on_no_sep: "c \<notin> set xs \<Longrightarrow> split_on c xs = [xs]"
  by (induction xs) auto

lemma split_on_append_sep: "c \<notin> set t \<Longrightarrow> split_on c (t @ c # xs) = t # split_on c xs"
  by (induction t) auto

lemma split_on_join:
  assumes "ts \<noteq> []" and "\<forall>t \<in> set ts. c \<notin> set t"
  shows "split_on c (join [c] ts) = ts"
  using assms
proof (induction ts)
  case Nil
  then show ?case by simp
next
  case (Cons t ts)
  then show ?case
    by (cases "ts = []") (simp_all add: join_Cons split_on_no_sep split_on_append_sep)
qed

lemma join_split_on: "join [c] (split_on c xs) = xs"
proof (induction xs)
  case Nil
  show ?case by simp
next
  case (Cons x xs)
  obtain t ts where s: "split_on c xs = t # ts"
    by (cases "split_on c xs") auto
  with Cons show ?case
    by (cases ts) (auto simp: join_Cons)
qed

text \<open>
  Deduplication with a \<open>HashSet\<close> of what was seen: the first occurrence is kept, in
  order of appearance.
\<close>

fun dedup_seen :: "'a set \<Rightarrow> 'a list \<Rightarrow> 'a list" where
  "dedup_seen seen [] = []"
| "dedup_seen seen (x # xs) =
     (if x \<in> seen then dedup_seen seen xs else x # dedup_seen (insert x seen) xs)"

lemma set_dedup_seen: "set (dedup_seen seen xs) = set xs - seen"
  by (induction xs arbitrary: seen) auto

lemma distinct_dedup_seen: "distinct (dedup_seen seen xs)"
  by (induction xs arbitrary: seen) (auto simp: set_dedup_seen)

text \<open>\<open>slice::sort_by\<close>: a stable sort by a total preorder \<open>le\<close>, as insertion sort.\<close>

fun insort_by :: "('a \<Rightarrow> 'a \<Rightarrow> bool) \<Rightarrow> 'a \<Rightarrow> 'a list \<Rightarrow> 'a list" where
  "insort_by le x [] = [x]"
| "insort_by le x (y # ys) = (if le x y then x # y # ys else y # insort_by le x ys)"

definition sort_by :: "('a \<Rightarrow> 'a \<Rightarrow> bool) \<Rightarrow> 'a list \<Rightarrow> 'a list" where
  "sort_by le xs = foldr (insort_by le) xs []"

lemma set_insort_by [simp]: "set (insort_by le x xs) = insert x (set xs)"
  by (induction xs) auto

lemma length_insort_by [simp]: "length (insort_by le x xs) = Suc (length xs)"
  by (induction xs) auto

lemma mset_insort_by: "mset (insort_by le x xs) = add_mset x (mset xs)"
  by (induction xs) simp_all

lemma mset_sort_by: "mset (sort_by le xs) = mset xs"
  by (induction xs) (simp_all add: sort_by_def mset_insort_by)

lemma set_sort_by [simp]: "set (sort_by le xs) = set xs"
  by (induction xs) (auto simp: sort_by_def)

lemma length_sort_by [simp]: "length (sort_by le xs) = length xs"
  by (induction xs) (auto simp: sort_by_def)

lemma distinct_map_sort_by [simp]: "distinct (map f (sort_by le xs)) = distinct (map f xs)"
  by (rule mset_eq_imp_distinct_iff) (simp add: mset_sort_by)

lemma sorted_insort_by:
  assumes "\<And>x y. le x y \<or> le y x" and "\<And>x y z. le x y \<Longrightarrow> le y z \<Longrightarrow> le x z"
    and "sorted_wrt le xs"
  shows "sorted_wrt le (insort_by le x xs)"
  using assms(3)
proof (induction xs)
  case Nil
  show ?case by simp
next
  case (Cons y ys)
  then show ?case
    using assms(1,2) by (auto split: if_splits)
qed

lemma sorted_sort_by:
  assumes "\<And>x y. le x y \<or> le y x" and "\<And>x y z. le x y \<Longrightarrow> le y z \<Longrightarrow> le x z"
  shows "sorted_wrt le (sort_by le xs)"
proof (induction xs)
  case Nil
  show ?case by (simp add: sort_by_def)
next
  case (Cons x xs)
  then show ?case
    using sorted_insort_by [OF assms] by (simp add: sort_by_def)
qed

text \<open>Sorting by a key whose values are distinct is strict.\<close>

lemma strict_sorted_sort_by_key:
  fixes f :: "'a \<Rightarrow> 'k::linorder"
  assumes "distinct (map f xs)"
  shows "sorted_wrt (<) (map f (sort_by (\<lambda>a b. f a \<le> f b) xs))"
proof -
  have "sorted_wrt (\<lambda>a b. f a \<le> f b) (sort_by (\<lambda>a b. f a \<le> f b) xs)"
    by (rule sorted_sort_by) auto
  then have "sorted (map f (sort_by (\<lambda>a b. f a \<le> f b) xs))" by (simp add: sorted_wrt_map)
  with assms show ?thesis by (simp add: strict_sorted_iff)
qed

end
