(* ===== verification/Rust_Std.thy ===== *)
theory Rust_Std
  imports Prelude
begin

text \<open>
  The parts of Rust's standard library that the agent relies on: strings as lists of
  Unicode scalar values, their UTF-8 bytes, the ASCII and white-space operations,
  decimal printing and parsing, little-endian integers, \<open>slice::partition_point\<close> as the
  binary search it is, and \<open>BTreeMap<K, Vec<V>>\<close> used as an ordered multimap. The
  multimap's contract is the locale \<open>multimap\<close>, interpreted on the sorted association
  list; the matchers use its facts.
\<close>

section \<open>Strings\<close>

text \<open>
  A \<open>char\<close> is a Unicode scalar value, a \<open>String\<close> a list of them. \<open>lit\<close> reads an ASCII
  literal. \<open>str::len\<close> counts UTF-8 bytes, \<open>chars().count()\<close> counts list elements.
\<close>

type_synonym uchar = nat
type_synonym ustring = "uchar list"

definition lit :: "string \<Rightarrow> ustring" where
  "lit s = map of_char s"

abbreviation space :: uchar where
  "space \<equiv> 32"

lemma lit_append [simp]: "lit (s @ t) = lit s @ lit t"
  by (simp add: lit_def)

lemma lit_eq_Nil [simp]: "lit s = [] \<longleftrightarrow> s = []"
  by (simp add: lit_def)

definition utf8_char :: "uchar \<Rightarrow> bytes" where
  "utf8_char c =
     (if c < 128 then [of_nat c]
      else if c < 2048 then [of_nat (192 + c div 64), of_nat (128 + c mod 64)]
      else if c < 65536 then
        [of_nat (224 + c div 4096), of_nat (128 + c div 64 mod 64), of_nat (128 + c mod 64)]
      else [of_nat (240 + c div 262144), of_nat (128 + c div 4096 mod 64),
            of_nat (128 + c div 64 mod 64), of_nat (128 + c mod 64)])"

definition utf8 :: "ustring \<Rightarrow> bytes" where
  "utf8 s = concat (map utf8_char s)"

definition str_len :: "ustring \<Rightarrow> nat" where
  "str_len s = length (utf8 s)"

lemma utf8_append [simp]: "utf8 (s @ t) = utf8 s @ utf8 t"
  by (simp add: utf8_def)

lemma utf8_char_nonempty [simp]: "utf8_char c \<noteq> []"
  by (simp add: utf8_char_def)

text \<open>The \<open>White_Space\<close> property of \<open>char::is_whitespace\<close>, and \<open>str::trim\<close> by it.\<close>

definition is_whitespace :: "uchar \<Rightarrow> bool" where
  "is_whitespace c \<longleftrightarrow> 9 \<le> c \<and> c \<le> 13 \<or> c = 32 \<or> c = 133 \<or> c = 160 \<or> c = 5760 \<or>
     8192 \<le> c \<and> c \<le> 8202 \<or> c = 8232 \<or> c = 8233 \<or> c = 8239 \<or> c = 8287 \<or> c = 12288"

definition trim_start_matches :: "(uchar \<Rightarrow> bool) \<Rightarrow> ustring \<Rightarrow> ustring" where
  "trim_start_matches p s = dropWhile p s"

definition trim_end_matches :: "(uchar \<Rightarrow> bool) \<Rightarrow> ustring \<Rightarrow> ustring" where
  "trim_end_matches p s = rev (dropWhile p (rev s))"

definition trim :: "ustring \<Rightarrow> ustring" where
  "trim s = trim_end_matches is_whitespace (trim_start_matches is_whitespace s)"

definition is_ascii_digit :: "uchar \<Rightarrow> bool" where
  "is_ascii_digit c \<longleftrightarrow> 48 \<le> c \<and> c \<le> 57"

definition is_ascii_upper :: "uchar \<Rightarrow> bool" where
  "is_ascii_upper c \<longleftrightarrow> 65 \<le> c \<and> c \<le> 90"

definition is_ascii_alphabetic :: "uchar \<Rightarrow> bool" where
  "is_ascii_alphabetic c \<longleftrightarrow> 65 \<le> c \<and> c \<le> 90 \<or> 97 \<le> c \<and> c \<le> 122"

text \<open>\<open>is_ascii_whitespace\<close> is space, tab, line feed, form feed and carriage return.\<close>

definition is_ascii_whitespace :: "uchar \<Rightarrow> bool" where
  "is_ascii_whitespace c \<longleftrightarrow> c = 32 \<or> c = 9 \<or> c = 10 \<or> c = 12 \<or> c = 13"

definition ascii_lower :: "uchar \<Rightarrow> uchar" where
  "ascii_lower c = (if is_ascii_upper c then c + 32 else c)"

definition to_ascii_lowercase :: "ustring \<Rightarrow> ustring" where
  "to_ascii_lowercase s = map ascii_lower s"

definition eq_ignore_ascii_case :: "ustring \<Rightarrow> ustring \<Rightarrow> bool" where
  "eq_ignore_ascii_case s t \<longleftrightarrow> to_ascii_lowercase s = to_ascii_lowercase t"

lemma ascii_lower_idem [simp]: "ascii_lower (ascii_lower c) = ascii_lower c"
  by (auto simp: ascii_lower_def is_ascii_upper_def)

lemma to_ascii_lowercase_idem [simp]:
  "to_ascii_lowercase (to_ascii_lowercase s) = to_ascii_lowercase s"
  by (simp add: to_ascii_lowercase_def)

definition starts_with :: "'a list \<Rightarrow> 'a list \<Rightarrow> bool" where
  "starts_with s p \<longleftrightarrow> take (length p) s = p"

definition ends_with :: "'a list \<Rightarrow> 'a list \<Rightarrow> bool" where
  "ends_with s p \<longleftrightarrow> starts_with (rev s) (rev p)"

fun str_contains :: "'a list \<Rightarrow> 'a list \<Rightarrow> bool" where
  "str_contains [] p = (p = [])"
| "str_contains (x # xs) p = (starts_with (x # xs) p \<or> str_contains xs p)"

definition replace_char :: "'a \<Rightarrow> 'a \<Rightarrow> 'a list \<Rightarrow> 'a list" where
  "replace_char a b s = map (\<lambda>c. if c = a then b else c) s"

text \<open>\<open>rsplit(p).next()\<close>: the piece after the last separator.\<close>

definition rsplit_first :: "('a \<Rightarrow> bool) \<Rightarrow> 'a list \<Rightarrow> 'a list" where
  "rsplit_first p s = rev (takeWhile (\<lambda>c. \<not> p c) (rev s))"

text \<open>\<open>split_once\<close>: around the first occurrence.\<close>

definition split_once :: "'a \<Rightarrow> 'a list \<Rightarrow> ('a list \<times> 'a list) option" where
  "split_once c s =
     (if c \<in> set s then Some (takeWhile (\<lambda>x. x \<noteq> c) s, tl (dropWhile (\<lambda>x. x \<noteq> c) s))
      else None)"

lemma starts_with_iff: "starts_with s p \<longleftrightarrow> (\<exists>t. s = p @ t)"
  by (auto simp: starts_with_def) (metis append_take_drop_id)

lemma ends_with_iff: "ends_with s p \<longleftrightarrow> (\<exists>t. s = t @ p)"
proof -
  have "(\<exists>t. rev s = rev p @ t) \<longleftrightarrow> (\<exists>t. s = t @ p)"
    by (metis rev_append rev_rev_ident)
  then show ?thesis by (simp add: ends_with_def starts_with_iff)
qed

section \<open>Decimal numbers\<close>

fun show_nat :: "nat \<Rightarrow> ustring" where
  "show_nat n = (if n < 10 then [48 + n] else show_nat (n div 10) @ [48 + n mod 10])"

declare show_nat.simps [simp del]

definition show_int :: "int \<Rightarrow> ustring" where
  "show_int i = (if i < 0 then 45 # show_nat (nat (- i)) else show_nat (nat i))"

text \<open>\<open>{:0w}\<close>: zero-padded on the left to at least \<open>w\<close> characters.\<close>

definition show_padded :: "nat \<Rightarrow> nat \<Rightarrow> ustring" where
  "show_padded w n = replicate (w - length (show_nat n)) 48 @ show_nat n"

text \<open>The value of a run of ASCII digits.\<close>

definition digits_value :: "ustring \<Rightarrow> nat" where
  "digits_value s = foldl (\<lambda>acc c. 10 * acc + (c - 48)) 0 s"

lemma digits_value_snoc [simp]: "digits_value (s @ [c]) = 10 * digits_value s + (c - 48)"
  by (simp add: digits_value_def)

lemma digits_value_Nil [simp]: "digits_value [] = 0"
  by (simp add: digits_value_def)

lemma show_nat_digits: "list_all is_ascii_digit (show_nat n)"
proof (induction n rule: show_nat.induct)
  case (1 n)
  then show ?case
    by (subst show_nat.simps) (cases "n < 10"; simp add: is_ascii_digit_def [of "48 + _"])
qed

lemma digits_value_show_nat [simp]: "digits_value (show_nat n) = n"
proof (induction n rule: show_nat.induct)
  case (1 n)
  show ?case
  proof (cases "n < 10")
    case True
    have "digits_value ([] @ [48 + n]) = n"
      by (simp only: digits_value_snoc) simp
    with True show ?thesis by (subst show_nat.simps) simp
  next
    case False
    with 1 have "digits_value (show_nat (n div 10)) = n div 10" by simp
    with False show ?thesis by (subst show_nat.simps) simp
  qed
qed

lemma show_nat_inj: "show_nat m = show_nat n \<Longrightarrow> m = n"
  by (metis digits_value_show_nat)

lemma show_nat_nonempty [simp]: "show_nat n \<noteq> []"
  by (subst show_nat.simps) simp

lemma digits_value_append: "digits_value (s @ t) = digits_value s * 10 ^ length t + digits_value t"
  by (induction t rule: rev_induct) (simp_all add: algebra_simps flip: append_assoc)

lemma digits_value_bound: "list_all is_ascii_digit s \<Longrightarrow> digits_value s < 10 ^ length s"
  by (induction s rule: rev_induct) (auto simp: is_ascii_digit_def)

lemma digits_value_leading_zeros: "digits_value (dropWhile (\<lambda>c. c = 48) s) = digits_value s"
proof -
  have z: "\<forall>c \<in> set t. c = 48 \<Longrightarrow> digits_value t = 0" for t
    by (induction t rule: rev_induct) simp_all
  have "digits_value s = digits_value (takeWhile (\<lambda>c. c = 48) s @ dropWhile (\<lambda>c. c = 48) s)" by simp
  also have "\<dots> = digits_value (dropWhile (\<lambda>c. c = 48) s)"
    unfolding digits_value_append using z [of "takeWhile (\<lambda>c. c = 48) s"] set_takeWhileD by fastforce
  finally show ?thesis by simp
qed

lemma ascii_digitE:
  assumes "is_ascii_digit c"
  obtains k where "c = 48 + k" "k < 10"
  using assms that [of "c - 48"] by (auto simp: is_ascii_digit_def)

lemma show_nat_digits_value:
  "list_all is_ascii_digit s \<Longrightarrow> s \<noteq> [] \<Longrightarrow> hd s \<noteq> 48 \<or> s = [48] \<Longrightarrow> show_nat (digits_value s) = s"
proof (induction s rule: rev_induct)
  case Nil
  then show ?case by simp
next
  case (snoc c s)
  then obtain k where c: "c = 48 + k" "k < 10" by (auto elim: ascii_digitE)
  show ?case
  proof (cases "s = []")
    case True
    have "digits_value ([] @ [c]) = k" by (simp only: digits_value_snoc) (simp add: c)
    with True c show ?thesis by (subst show_nat.simps) simp
  next
    case False
    with snoc have IH: "show_nat (digits_value s) = s" by simp
    have "digits_value s \<noteq> 0"
    proof
      assume "digits_value s = 0"
      with IH have "s = [48]" by (simp add: show_nat.simps [of 0])
      with snoc.prems show False by simp
    qed
    then have "\<not> 10 * digits_value s + k < 10" by simp
    with IH c show ?thesis by (subst show_nat.simps) simp
  qed
qed

lemma digits_value_inj:
  "length s = length t \<Longrightarrow> list_all is_ascii_digit s \<Longrightarrow> list_all is_ascii_digit t
     \<Longrightarrow> digits_value s = digits_value t \<Longrightarrow> s = t"
proof (induction s arbitrary: t rule: rev_induct)
  case (snoc c s)
  then obtain d t' where t: "t = t' @ [d]" by (cases t rule: rev_cases) auto
  with snoc.prems obtain k l where k: "c = 48 + k" "k < 10" and l: "d = 48 + l" "l < 10"
    by (auto elim!: ascii_digitE)
  from snoc.prems(4) have "10 * digits_value s + k = 10 * digits_value t' + l"
    by (simp add: t k(1) l(1))
  with k(2) l(2) have "digits_value s = digits_value t'" "k = l" by presburger+
  with k l have "digits_value s = digits_value t'" "c = d" by simp_all
  with snoc t show ?case by simp
qed simp

section \<open>Little-endian integers\<close>

fun le_nat :: "bytes \<Rightarrow> nat" where
  "le_nat [] = 0"
| "le_nat (b # bs) = unat b + 256 * le_nat bs"

fun to_le :: "nat \<Rightarrow> nat \<Rightarrow> bytes" where
  "to_le 0 x = []"
| "to_le (Suc n) x = of_nat (x mod 256) # to_le n (x div 256)"

text \<open>Big-endian, as \<open>to_be_bytes\<close> and \<open>from_be_bytes\<close>.\<close>

definition be_nat :: "bytes \<Rightarrow> nat" where
  "be_nat bs = le_nat (rev bs)"

definition to_be :: "nat \<Rightarrow> nat \<Rightarrow> bytes" where
  "to_be n x = rev (to_le n x)"

lemma length_to_le [simp]: "length (to_le n x) = n"
  by (induction n arbitrary: x) simp_all

lemma unat_byte_of_nat: "unat (of_nat (x mod 256) :: u8) = x mod 256"
  by (simp add: unat_of_nat)

lemma le_nat_to_le: "le_nat (to_le n x) = x mod 256 ^ n"
proof (induction n arbitrary: x)
  case 0
  show ?case by simp
next
  case (Suc n)
  have "le_nat (to_le (Suc n) x) = x mod 256 + 256 * (x div 256 mod 256 ^ n)"
    by (simp add: Suc unat_byte_of_nat)
  also have "\<dots> = x mod (256 * 256 ^ n)"
    by (simp add: mod_mult2_eq)
  finally show ?case by simp
qed

lemma le_nat_bound: "le_nat bs < 256 ^ length bs"
proof (induction bs)
  case Nil
  show ?case by simp
next
  case (Cons b bs)
  have "unat b < 256"
    using unsigned_less [of b] by simp
  then have "le_nat (b # bs) < 256 + 256 * le_nat bs" by simp
  also have "\<dots> = 256 * Suc (le_nat bs)" by simp
  also have "\<dots> \<le> 256 * 256 ^ length bs"
    using Cons by (intro mult_le_mono2) simp
  finally show ?case by simp
qed

lemma to_le_le_nat: "to_le (length bs) (le_nat bs) = bs"
proof (induction bs)
  case Nil
  show ?case by simp
next
  case (Cons b bs)
  have b: "unat b < 256"
    using unsigned_less [of b] by simp
  then have "(unat b + 256 * le_nat bs) mod 256 = unat b" by simp
  moreover from b have "(unat b + 256 * le_nat bs) div 256 = le_nat bs" by simp
  ultimately show ?case using Cons by simp
qed

text \<open>Machine words from naturals: in range the value is kept, beyond it is reduced.\<close>

lemma unat_of_nat_in_range: "n < 2 ^ LENGTH('a) \<Longrightarrow> unat (of_nat n :: 'a::len word) = n"
  by (simp add: unat_of_nat)

lemma of_nat_mod_length: "(of_nat (n mod 2 ^ LENGTH('a)) :: 'a::len word) = of_nat n"
  by (simp add: word_unat_eq_iff unat_of_nat)

lemma from_le_to_le_u16: "(of_nat (le_nat (to_le 2 v)) :: u16) = of_nat v"
  using of_nat_mod_length [where ?'a = 16, of v] by (simp add: le_nat_to_le)

lemma from_le_to_le_u32: "(of_nat (le_nat (to_le 4 v)) :: u32) = of_nat v"
  using of_nat_mod_length [where ?'a = 32, of v] by (simp add: le_nat_to_le)

lemma from_le_to_le_u64: "(of_nat (le_nat (to_le 8 v)) :: u64) = of_nat v"
  using of_nat_mod_length [where ?'a = 64, of v] by (simp add: le_nat_to_le)

section \<open>Binary search\<close>

text \<open>\<open>slice::partition_point\<close>, as the halving loop of the standard library.\<close>

function pp_loop :: "('a \<Rightarrow> bool) \<Rightarrow> 'a list \<Rightarrow> nat \<Rightarrow> nat \<Rightarrow> nat" where
  "pp_loop p xs base sz =
     (if 1 < sz then
        let half = sz div 2; mid = base + half
        in pp_loop p xs (if p (xs ! mid) then mid else base) (sz - half)
      else base)"
  by pat_completeness auto
termination
  by (relation "measure (\<lambda>(p, xs, base, sz). sz)") auto

declare pp_loop.simps [simp del]

definition partition_point :: "('a \<Rightarrow> bool) \<Rightarrow> 'a list \<Rightarrow> nat" where
  "partition_point p xs =
     (if xs = [] then 0
      else let base = pp_loop p xs 0 (length xs) in if p (xs ! base) then base + 1 else base)"

lemma pp_loop_bound:
  assumes "0 < sz"
  shows "base \<le> pp_loop p xs base sz \<and> pp_loop p xs base sz < base + sz"
  using assms
proof (induction p xs base sz rule: pp_loop.induct)
  case (1 p xs base sz)
  show ?case
  proof (cases "1 < sz")
    case True
    with "1.IH" [OF True refl refl] show ?thesis
      by (auto simp: pp_loop.simps [of p xs base sz] Let_def split: if_splits)
  next
    case False
    with "1.prems" show ?thesis by (simp add: pp_loop.simps [of p xs base sz])
  qed
qed

lemma pp_loop_correct:
  assumes "\<And>i. i < length xs \<Longrightarrow> p (xs ! i) \<longleftrightarrow> i < k"
    and "0 < sz" and "base + sz \<le> length xs" and "base = 0 \<or> base < k" and "k \<le> base + sz"
  shows "(pp_loop p xs base sz = 0 \<or> pp_loop p xs base sz < k)
    \<and> k \<le> Suc (pp_loop p xs base sz)"
  using assms
proof (induction p xs base sz rule: pp_loop.induct)
  case (1 p xs base sz)
  show ?case
  proof (cases "1 < sz")
    case True
    let ?half = "sz div 2" and ?mid = "base + sz div 2"
    from True "1.prems" have mid: "?mid < length xs" by linarith
    have "(pp_loop p xs (if p (xs ! ?mid) then ?mid else base) (sz - ?half) = 0
        \<or> pp_loop p xs (if p (xs ! ?mid) then ?mid else base) (sz - ?half) < k)
      \<and> k \<le> Suc (pp_loop p xs (if p (xs ! ?mid) then ?mid else base) (sz - ?half))"
      using "1.prems" True mid
      by (intro "1.IH" [OF True refl refl]) (auto split: if_splits)
    with True show ?thesis
      by (simp add: pp_loop.simps [of p xs base sz] Let_def)
  next
    case False
    with "1.prems" show ?thesis by (simp add: pp_loop.simps [of p xs base sz])
  qed
qed

lemma partition_point_eq:
  assumes "\<And>i. i < length xs \<Longrightarrow> p (xs ! i) \<longleftrightarrow> i < k" and "k \<le> length xs"
  shows "partition_point p xs = k"
proof (cases "xs = []")
  case True
  with assms(2) show ?thesis by (simp add: partition_point_def)
next
  case False
  let ?b = "pp_loop p xs 0 (length xs)"
  from False have pos: "0 < length xs" by simp
  from pp_loop_bound [OF pos, of 0 p xs] have "?b < length xs" by simp
  moreover from pp_loop_correct [of xs p k "length xs" 0] assms pos
  have "(?b = 0 \<or> ?b < k) \<and> k \<le> Suc ?b" by simp
  ultimately show ?thesis
    using False assms(1) [of ?b] by (auto simp: partition_point_def Let_def)
qed

text \<open>On a slice that a monotone key sorts, it is the length of the strictly smaller prefix.\<close>

lemma takeWhile_less_sorted_nth:
  fixes f :: "'a \<Rightarrow> 'k::linorder"
  assumes "sorted (map f xs)" and "i < length xs"
  shows "f (xs ! i) < k \<longleftrightarrow> i < length (takeWhile (\<lambda>x. f x < k) xs)"
  using assms
proof (induction xs arbitrary: i)
  case Nil
  then show ?case by simp
next
  case (Cons x xs)
  show ?case
  proof (cases i)
    case 0
    then show ?thesis by simp
  next
    case (Suc j)
    with Cons.prems have "f x \<le> f (xs ! j)" by simp
    moreover from Cons Suc
    have "f (xs ! j) < k \<longleftrightarrow> j < length (takeWhile (\<lambda>x. f x < k) xs)" by simp
    ultimately show ?thesis using Suc by auto
  qed
qed

lemma partition_point_sorted:
  fixes f :: "'a \<Rightarrow> 'k::linorder"
  assumes "sorted (map f xs)"
  shows "partition_point (\<lambda>x. f x < k) xs = length (takeWhile (\<lambda>x. f x < k) xs)"
  by (rule partition_point_eq) (simp_all add: takeWhile_less_sorted_nth [OF assms] length_takeWhile_le)

section \<open>Ordered multimaps\<close>

text \<open>
  \<open>BTreeMap<K, Vec<V>>\<close> used with \<open>entry(k).or_default().push(v)\<close>: the contract is
  that a push appends to the bucket of its key only. \<open>buckets\<close> iterates in key order.
\<close>

locale multimap =
  fixes empty :: "'m"
    and push :: "'k::linorder \<Rightarrow> 'v \<Rightarrow> 'm \<Rightarrow> 'm"
    and bucket :: "'m \<Rightarrow> 'k \<Rightarrow> 'v list"
    and buckets :: "'m \<Rightarrow> ('k \<times> 'v list) list"
    and invar :: "'m \<Rightarrow> bool"
  assumes invar_empty: "invar empty"
    and invar_push: "invar m \<Longrightarrow> invar (push k v m)"
    and bucket_empty: "bucket empty k = []"
    and bucket_push: "invar m \<Longrightarrow> bucket (push k v m) k' = bucket m k' @ (if k = k' then [v] else [])"
    and buckets_iff: "invar m \<Longrightarrow> (k, vs) \<in> set (buckets m) \<longleftrightarrow> vs \<noteq> [] \<and> bucket m k = vs"
    and buckets_sorted: "invar m \<Longrightarrow> sorted_wrt (<) (map fst (buckets m))"
begin

lemma invar_pushes: "invar m \<Longrightarrow> invar (fold (\<lambda>(k, v). push k v) kvs m)"
  by (induction kvs arbitrary: m) (auto simp: invar_push)

lemma bucket_pushes:
  "invar m \<Longrightarrow> bucket (fold (\<lambda>(k, v). push k v) kvs m) k
     = bucket m k @ map snd (filter (\<lambda>kv. fst kv = k) kvs)"
  by (induction kvs arbitrary: m) (auto simp: invar_push bucket_push)

text \<open>Pushing a whole sequence into the empty map groups it by key, keeping the order.\<close>

lemma buckets_pushes_iff:
  "(k, vs) \<in> set (buckets (fold (\<lambda>(k, v). push k v) kvs empty))
     \<longleftrightarrow> vs \<noteq> [] \<and> vs = map snd (filter (\<lambda>kv. fst kv = k) kvs)"
  using invar_pushes [OF invar_empty, of kvs]
  by (auto simp: buckets_iff bucket_pushes [OF invar_empty] bucket_empty)

lemma buckets_pushes_set:
  assumes "(k, vs) \<in> set (buckets (fold (\<lambda>(k, v). push k v) kvs empty))"
  shows "set vs = {v. (k, v) \<in> set kvs}"
  using assms unfolding buckets_pushes_iff by force

lemma buckets_pushes_keys:
  "k \<in> fst ` set (buckets (fold (\<lambda>(k, v). push k v) kvs empty)) \<longleftrightarrow> (\<exists>v. (k, v) \<in> set kvs)"
proof
  assume "k \<in> fst ` set (buckets (fold (\<lambda>(k, v). push k v) kvs empty))"
  then obtain vs where "vs \<noteq> []" "vs = map snd (filter (\<lambda>kv. fst kv = k) kvs)"
    using buckets_pushes_iff by force
  then show "\<exists>v. (k, v) \<in> set kvs" by (auto simp: filter_empty_conv)
next
  assume "\<exists>v. (k, v) \<in> set kvs"
  then have "map snd (filter (\<lambda>kv. fst kv = k) kvs) \<noteq> []" by (force simp: filter_empty_conv)
  then have "(k, map snd (filter (\<lambda>kv. fst kv = k) kvs))
      \<in> set (buckets (fold (\<lambda>(k, v). push k v) kvs empty))"
    using buckets_pushes_iff by blast
  then show "k \<in> fst ` set (buckets (fold (\<lambda>(k, v). push k v) kvs empty))" by force
qed

lemma buckets_pushes_distinct:
  "distinct (map fst (buckets (fold (\<lambda>(k, v). push k v) kvs empty)))"
  using buckets_sorted [OF invar_pushes [OF invar_empty, of kvs]]
  by (simp add: strict_sorted_iff)

end

fun bt_push :: "'k::linorder \<Rightarrow> 'v \<Rightarrow> ('k \<times> 'v list) list \<Rightarrow> ('k \<times> 'v list) list" where
  "bt_push k v [] = [(k, [v])]"
| "bt_push k v ((k', vs) # m) =
     (if k < k' then (k, [v]) # (k', vs) # m
      else if k = k' then (k', vs @ [v]) # m
      else (k', vs) # bt_push k v m)"

definition bt_bucket :: "('k \<times> 'v list) list \<Rightarrow> 'k \<Rightarrow> 'v list" where
  "bt_bucket m k = (case map_of m k of None \<Rightarrow> [] | Some vs \<Rightarrow> vs)"

definition bt_invar :: "('k::linorder \<times> 'v list) list \<Rightarrow> bool" where
  "bt_invar m \<longleftrightarrow> sorted_wrt (<) (map fst m) \<and> [] \<notin> snd ` set m"

lemma fst_bt_push: "fst ` set (bt_push k v m) = insert k (fst ` set m)"
  by (induction k v m rule: bt_push.induct) auto

lemma bt_invar_push: "bt_invar m \<Longrightarrow> bt_invar (bt_push k v m)"
proof (induction k v m rule: bt_push.induct)
  case (1 k v)
  show ?case by (simp add: bt_invar_def)
next
  case (2 k v k' vs m)
  then have m: "bt_invar m" and lt: "\<forall>x \<in> fst ` set m. k' < x" and ne: "vs \<noteq> []"
    by (auto simp: bt_invar_def)
  show ?case
  proof (cases "k < k' \<or> k = k'")
    case True
    with 2 show ?thesis by (auto simp: bt_invar_def)
  next
    case False
    with 2(1) m have "bt_invar (bt_push k v m)" by auto
    moreover from False lt have "\<forall>x \<in> fst ` set (bt_push k v m). k' < x"
      by (auto simp: fst_bt_push)
    ultimately show ?thesis using False ne by (auto simp: bt_invar_def)
  qed
qed

lemma map_of_bt_push:
  "bt_invar m \<Longrightarrow>
   map_of (bt_push k v m) = (map_of m)(k \<mapsto> bt_bucket m k @ [v])"
proof (induction k v m rule: bt_push.induct)
  case (1 k v)
  show ?case by (simp add: bt_bucket_def)
next
  case (2 k v k' vs m)
  then have m: "bt_invar m" and lt: "\<forall>x \<in> fst ` set m. k' < x"
    by (auto simp: bt_invar_def)
  show ?case
  proof (cases "k < k'")
    case True
    with lt have "k \<notin> fst ` set m" by force
    then have "map_of m k = None" by (simp add: map_of_eq_None_iff)
    with True show ?thesis by (auto simp: bt_bucket_def)
  next
    case False
    with 2(1) m show ?thesis by (auto simp: bt_bucket_def fun_eq_iff)
  qed
qed

interpretation bt: multimap "[]" bt_push bt_bucket "\<lambda>m. m" bt_invar
proof unfold_locales
  fix m :: "('k::linorder \<times> 'v list) list" and k k' v vs
  show "bt_invar ([] :: ('k \<times> 'v list) list)" and "bt_bucket ([] :: ('k \<times> 'v list) list) k = []"
    by (simp_all add: bt_invar_def bt_bucket_def)
  assume m: "bt_invar m"
  then show "bt_invar (bt_push k v m)" by (rule bt_invar_push)
  from m show "bt_bucket (bt_push k v m) k' = bt_bucket m k' @ (if k = k' then [v] else [])"
    by (simp add: bt_bucket_def map_of_bt_push)
  from m show sorted: "sorted_wrt (<) (map fst m)" by (simp add: bt_invar_def)
  then have dist: "distinct (map fst m)" by (simp add: strict_sorted_iff)
  show "(k, vs) \<in> set m \<longleftrightarrow> vs \<noteq> [] \<and> bt_bucket m k = vs"
  proof
    assume "(k, vs) \<in> set m"
    moreover with m have "vs \<noteq> []" by (force simp: bt_invar_def)
    ultimately show "vs \<noteq> [] \<and> bt_bucket m k = vs"
      using dist by (simp add: bt_bucket_def)
  next
    assume "vs \<noteq> [] \<and> bt_bucket m k = vs"
    then show "(k, vs) \<in> set m"
      by (auto simp: bt_bucket_def split: option.splits dest: map_of_SomeD)
  qed
qed

end
