(* ===== verification/Float64.thy ===== *)
theory Float64
  imports Complex_Main "HOL-Library.Log_Nat"
begin

text \<open>
  The double-precision scores of the matcher. The agent only ever computes
  \<open>count as f64 / count as f64\<close> and compares the result with thresholds, so the model is
  the set of finite values as exact rationals plus the three special values, with
  \<open>fl64\<close> the rounding to a 53-bit significand, ties to even. The ratios of 64-bit counts
  lie between \<open>2^-64\<close> and \<open>2^64\<close>, so subnormal numbers and overflow do not occur; the
  sign of zero is not represented, since no operation of the agent observes it.
  Thresholds come from a TOML file, which may hold \<open>nan\<close> or \<open>inf\<close>: a comparison with
  \<open>NaN\<close> is false.
\<close>

datatype f64 = NaN | PosInf | NegInf | Fin rat

definition pow2 :: "int \<Rightarrow> rat" where
  "pow2 e = (if 0 \<le> e then 2 ^ nat e else 1 / 2 ^ nat (- e))"

text \<open>The exponent \<open>e\<close> with \<open>pow2 e \<le> x < pow2 (e + 1)\<close>, from the bit lengths of the fraction.\<close>

definition exponent :: "rat \<Rightarrow> int" where
  "exponent x =
     (let (a, b) = quotient_of x; k = bitlen a - bitlen b
      in if pow2 k \<le> x then k else k - 1)"

definition round_half_even :: "rat \<Rightarrow> int" where
  "round_half_even s =
     (let f = \<lfloor>s\<rfloor>; d = s - of_int f
      in if d < 1 / 2 then f else if 1 / 2 < d then f + 1 else if even f then f else f + 1)"

definition fl64_pos :: "rat \<Rightarrow> rat" where
  "fl64_pos x =
     (let e = exponent x in of_int (round_half_even (x * pow2 (52 - e))) * pow2 (e - 52))"

definition fl64 :: "rat \<Rightarrow> rat" where
  "fl64 x = (if x = 0 then 0 else if x < 0 then - fl64_pos (- x) else fl64_pos x)"

text \<open>\<open>n as f64\<close> and division.\<close>

definition as_f64 :: "nat \<Rightarrow> f64" where
  "as_f64 n = Fin (fl64 (of_nat n))"

fun f64_div :: "f64 \<Rightarrow> f64 \<Rightarrow> f64" where
  "f64_div (Fin a) (Fin b) =
     (if b = 0 then (if a = 0 then NaN else if 0 < a then PosInf else NegInf)
      else Fin (fl64 (a / b)))"
| "f64_div _ _ = NaN"

fun f64_le :: "f64 \<Rightarrow> f64 \<Rightarrow> bool" where
  "f64_le NaN _ = False"
| "f64_le _ NaN = False"
| "f64_le NegInf _ = True"
| "f64_le _ PosInf = True"
| "f64_le (Fin a) (Fin b) = (a \<le> b)"
| "f64_le _ _ = False"

definition f64_ge :: "f64 \<Rightarrow> f64 \<Rightarrow> bool" where
  "f64_ge x y = f64_le y x"

abbreviation f64_zero :: f64 where
  "f64_zero \<equiv> Fin 0"

section \<open>Rounding\<close>

lemma pow2_pos [simp]: "0 < pow2 e"
  by (simp add: pow2_def)

lemma pow2_nonneg [simp]: "0 \<le> pow2 e"
  using pow2_pos [of e] by linarith

lemma pow2_powi: "pow2 e = 2 powi e"
  by (simp add: pow2_def power_int_def power_one_over inverse_eq_divide)

lemma pow2_add: "pow2 (a + b) = pow2 a * pow2 b"
  by (simp add: pow2_powi power_int_add)

lemma pow2_0 [simp]: "pow2 0 = 1"
  by (simp add: pow2_def)

lemma pow2_mono: "a \<le> b \<Longrightarrow> pow2 a \<le> pow2 b"
  by (simp add: pow2_powi power_int_increasing)

lemma pow2_strict_mono: "a < b \<Longrightarrow> pow2 a < pow2 b"
  by (simp add: pow2_powi power_int_strict_increasing)

lemma pow2_less_iff: "pow2 a < pow2 b \<longleftrightarrow> a < b"
  using pow2_mono [of b a] pow2_strict_mono [of a b] by linarith

lemma bitlen_pos: "0 < c \<Longrightarrow> 0 < bitlen c"
  using bitlen_nonneg [of c] bitlen_eq_zero_iff [of c] by linarith

lemma exponent_bounds:
  assumes "0 < x"
  shows "pow2 (exponent x) \<le> x" and "x < pow2 (exponent x + 1)"
proof -
  obtain a b where q: "quotient_of x = (a, b)" by fastforce
  then have b: "0 < b" and x: "x = of_int a / of_int b"
    using quotient_of_denom_pos quotient_of_div by blast+
  with assms have a: "0 < a" by (simp add: zero_less_divide_iff)
  let ?A = "bitlen a" and ?B = "bitlen b"
  have pos: "0 < ?A" "0 < ?B" using a b by (simp_all add: bitlen_pos)
  have bl: "pow2 (bitlen c - 1) \<le> of_int c \<and> of_int c < pow2 (bitlen c)" if "0 < c" for c
  proof -
    have "2 ^ nat (bitlen c - 1) \<le> c \<and> c < 2 ^ nat (bitlen c)"
      using bitlen_bounds [OF that] .
    moreover have "0 < bitlen c" using that by (rule bitlen_pos)
    ultimately show ?thesis
      by (simp add: pow2_def)
  qed
  have hi: "x < pow2 (?A - ?B + 1)"
  proof -
    have "of_int a < pow2 (?A - ?B + 1) * pow2 (?B - 1)"
      using bl [OF a] by (simp flip: pow2_add)
    also have "\<dots> \<le> pow2 (?A - ?B + 1) * of_int b"
      using bl [OF b] by (intro mult_left_mono) simp_all
    finally show ?thesis using b x by (simp add: divide_less_eq)
  qed
  have lo: "pow2 (?A - ?B - 1) \<le> x"
  proof -
    have "pow2 (?A - ?B - 1) * of_int b \<le> pow2 (?A - ?B - 1) * pow2 ?B"
      using bl [OF b] by (intro mult_left_mono) simp_all
    also have "\<dots> \<le> of_int a"
      using bl [OF a] by (simp flip: pow2_add)
    finally show ?thesis using b x by (simp add: le_divide_eq)
  qed
  have e: "exponent x = (if pow2 (?A - ?B) \<le> x then ?A - ?B else ?A - ?B - 1)"
    by (simp add: exponent_def q Let_def)
  show "pow2 (exponent x) \<le> x" using e lo by simp
  show "x < pow2 (exponent x + 1)" using e hi by simp
qed

lemma exponent_unique:
  assumes "pow2 e \<le> x" and "x < pow2 (e + 1)"
  shows "exponent x = e"
proof -
  have x: "0 < x" using assms(1) pow2_pos [of e] by linarith
  from assms exponent_bounds [OF x]
  have "pow2 e < pow2 (exponent x + 1)" and "pow2 (exponent x) < pow2 (e + 1)" by linarith+
  then show ?thesis by (simp add: pow2_less_iff)
qed

lemma round_half_even_bounds:
  "\<lfloor>s\<rfloor> \<le> round_half_even s" "round_half_even s \<le> \<lfloor>s\<rfloor> + 1"
  by (simp_all add: round_half_even_def Let_def)

lemma round_half_even_of_int [simp]: "round_half_even (of_int i) = i"
  by (simp add: round_half_even_def)

lemma round_half_even_mono:
  assumes "s \<le> t"
  shows "round_half_even s \<le> round_half_even t"
proof (cases "\<lfloor>s\<rfloor> = \<lfloor>t\<rfloor>")
  case True
  with assms show ?thesis by (auto simp: round_half_even_def Let_def)
next
  case False
  with floor_mono [OF assms] have "\<lfloor>s\<rfloor> + 1 \<le> \<lfloor>t\<rfloor>" by linarith
  with round_half_even_bounds [of s] round_half_even_bounds [of t] show ?thesis by linarith
qed

text \<open>The scaled significand lies in the 53-bit binade, and rounding keeps it there.\<close>

lemma significand_bounds:
  assumes "0 < x"
  shows "2 ^ 52 \<le> round_half_even (x * pow2 (52 - exponent x))"
    and "round_half_even (x * pow2 (52 - exponent x)) \<le> 2 ^ 53"
proof -
  let ?e = "exponent x" and ?s = "x * pow2 (52 - exponent x)"
  have "pow2 ?e * pow2 (52 - ?e) \<le> ?s"
    using exponent_bounds(1) [OF assms] by (intro mult_right_mono) simp_all
  then have lo: "of_int (2 ^ 52) \<le> ?s"
    by (simp flip: pow2_add) (simp add: pow2_def)
  have "?s \<le> pow2 (?e + 1) * pow2 (52 - ?e)"
    using exponent_bounds(2) [OF assms] by (intro mult_right_mono) simp_all
  then have hi: "?s \<le> of_int (2 ^ 53)"
    by (simp flip: pow2_add) (simp add: pow2_def)
  from round_half_even_mono [OF lo] show "2 ^ 52 \<le> round_half_even ?s"
    by (simp only: round_half_even_of_int)
  from round_half_even_mono [OF hi] show "round_half_even ?s \<le> 2 ^ 53"
    by (simp only: round_half_even_of_int)
qed

lemma fl64_pos_bounds:
  assumes "0 < x"
  shows "pow2 (exponent x) \<le> fl64_pos x" and "fl64_pos x \<le> pow2 (exponent x + 1)"
proof -
  let ?e = "exponent x" and ?r = "round_half_even (x * pow2 (52 - exponent x))"
  have "(of_int (2 ^ 52) :: rat) \<le> of_int ?r" "(of_int ?r :: rat) \<le> of_int (2 ^ 53)"
    using significand_bounds [OF assms] by (simp_all only: of_int_le_iff)
  then have "pow2 52 \<le> of_int ?r" "of_int ?r \<le> pow2 53"
    by (simp_all add: pow2_def)
  then have "pow2 52 * pow2 (?e - 52) \<le> of_int ?r * pow2 (?e - 52)"
    and "of_int ?r * pow2 (?e - 52) \<le> pow2 53 * pow2 (?e - 52)"
    by (auto intro!: mult_right_mono)
  then show "pow2 ?e \<le> fl64_pos x" and "fl64_pos x \<le> pow2 (?e + 1)"
    by (simp_all add: fl64_pos_def Let_def add.commute flip: pow2_add)
qed

lemma fl64_pos_mono:
  assumes "0 < x" and "x \<le> y"
  shows "fl64_pos x \<le> fl64_pos y"
proof -
  have y: "0 < y" using assms by linarith
  have "pow2 (exponent x) < pow2 (exponent y + 1)"
    using exponent_bounds(1) [OF assms(1)] exponent_bounds(2) [OF y] assms(2) by linarith
  then have "exponent x \<le> exponent y" by (simp add: pow2_less_iff)
  then consider "exponent x = exponent y" | "exponent x + 1 \<le> exponent y" by linarith
  then show ?thesis
  proof cases
    case 1
    have "round_half_even (x * pow2 (52 - exponent y)) \<le> round_half_even (y * pow2 (52 - exponent y))"
      using assms(2) by (intro round_half_even_mono mult_right_mono) simp_all
    then show ?thesis
      by (simp add: fl64_pos_def Let_def 1 mult_right_mono)
  next
    case 2
    have "fl64_pos x \<le> pow2 (exponent x + 1)" by (rule fl64_pos_bounds(2) [OF assms(1)])
    also have "\<dots> \<le> pow2 (exponent y)" by (rule pow2_mono [OF 2])
    also have "\<dots> \<le> fl64_pos y" by (rule fl64_pos_bounds(1) [OF y])
    finally show ?thesis .
  qed
qed

lemma fl64_1 [simp]: "fl64 1 = 1"
proof -
  have "exponent 1 = 0" by (rule exponent_unique) (simp_all add: pow2_def)
  moreover have "round_half_even (pow2 52) = 2 ^ 52"
    using round_half_even_of_int [of "2 ^ 52"] by (simp add: pow2_def)
  ultimately show ?thesis by (simp add: fl64_def fl64_pos_def Let_def) (simp add: pow2_def)
qed

lemma fl64_0 [simp]: "fl64 0 = 0"
  by (simp add: fl64_def)

lemma fl64_pos_gt_0: "0 < x \<Longrightarrow> 0 < fl64_pos x"
  using fl64_pos_bounds(1) [of x] pow2_pos [of "exponent x"] by linarith

lemma fl64_gt_0: "0 < x \<Longrightarrow> 0 < fl64 x"
  by (simp add: fl64_def fl64_pos_gt_0)

lemma fl64_mono_nonneg: "0 \<le> x \<Longrightarrow> x \<le> y \<Longrightarrow> fl64 x \<le> fl64 y"
  using fl64_pos_mono [of x y] fl64_gt_0 [of y]
  by (cases "x = 0") (auto simp: fl64_def less_le)

section \<open>Scores\<close>

text \<open>A score \<open>m / n\<close> of counts with \<open>m \<le> n\<close> and \<open>n\<close> positive is a number in the unit interval.\<close>

definition score :: "nat \<Rightarrow> nat \<Rightarrow> f64" where
  "score m n = f64_div (as_f64 m) (as_f64 n)"

lemma fl64_of_nat_pos: "0 < n \<Longrightarrow> 0 < fl64 (of_nat n)"
  by (simp add: fl64_gt_0)

lemma score_Fin:
  assumes "0 < n"
  shows "score m n = Fin (fl64 (fl64 (of_nat m) / fl64 (of_nat n)))"
  using fl64_of_nat_pos [OF assms] by (simp add: score_def as_f64_def)

lemma score_le_1:
  assumes "0 < n" and "m \<le> n"
  shows "f64_le (score m n) (Fin 1)"
proof -
  have n: "0 < fl64 (of_nat n)" by (rule fl64_of_nat_pos [OF assms(1)])
  have "fl64 (of_nat m) \<le> fl64 (of_nat n)" using assms(2) by (intro fl64_mono_nonneg) simp_all
  moreover have m: "0 \<le> fl64 (of_nat m)"
    using fl64_mono_nonneg [of 0 "of_nat m"] by simp
  ultimately have "fl64 (of_nat m) / fl64 (of_nat n) \<le> 1" and "0 \<le> fl64 (of_nat m) / fl64 (of_nat n)"
    using n by (simp_all add: divide_le_eq)
  with fl64_mono_nonneg [of "fl64 (of_nat m) / fl64 (of_nat n)" 1] show ?thesis
    by (simp add: score_Fin [OF assms(1)])
qed

lemma score_mono:
  assumes "0 < n" and "m \<le> m'"
  shows "f64_le (score m n) (score m' n)"
proof -
  have n: "0 < fl64 (of_nat n)" by (rule fl64_of_nat_pos [OF assms(1)])
  have "fl64 (of_nat m) \<le> fl64 (of_nat m')" and m: "0 \<le> fl64 (of_nat m)"
    using assms(2) fl64_mono_nonneg [of "of_nat m" "of_nat m'"] fl64_mono_nonneg [of 0 "of_nat m"]
    by simp_all
  then have "fl64 (fl64 (of_nat m) / fl64 (of_nat n)) \<le> fl64 (fl64 (of_nat m') / fl64 (of_nat n))"
    using n by (intro fl64_mono_nonneg [of "_ / _"]) (simp_all add: divide_right_mono)
  then show ?thesis by (simp add: score_Fin [OF assms(1)])
qed

lemma score_pos:
  assumes "0 < m" and "0 < n"
  shows "\<exists>q > 0. score m n = Fin q"
proof -
  have "0 < fl64 (of_nat m) / fl64 (of_nat n)"
    using assms by (simp add: fl64_of_nat_pos)
  then show ?thesis
    using fl64_gt_0 by (auto simp: score_Fin [OF assms(2)])
qed

lemma score_zero [simp]: "0 < n \<Longrightarrow> score 0 n = Fin 0"
  by (simp add: score_Fin)

lemma score_self [simp]:
  assumes "0 < n"
  shows "score n n = Fin 1"
  using fl64_of_nat_pos [OF assms] by (simp add: score_Fin [OF assms])

lemma f64_le_trans: "f64_le x y \<Longrightarrow> f64_le y z \<Longrightarrow> f64_le x z"
  by (cases x; cases y; cases z) auto

lemma f64_not_le: "x \<noteq> NaN \<Longrightarrow> y \<noteq> NaN \<Longrightarrow> \<not> f64_le x y \<Longrightarrow> f64_le y x"
  by (cases x; cases y) auto

end
