(* ===== verification/Fingerprint.thy ===== *)
theory Fingerprint
  imports Rust_Std Float64
begin

text \<open>
  Document fingerprinting: \<open>detect/normalize.rs\<close>, \<open>detect/shingle.rs\<close> and
  \<open>detect/mod.rs\<close>. Text is normalized to tokens, the tokens to \<open>k\<close>-token shingles, the
  shingles to FNV-1a hashes, and winnowing selects the fingerprints from the hashes.

  The Unicode tables (NFKC, case mappings, general categories) are data of the
  \<open>unicode-normalization\<close> and \<open>unicode-properties\<close> crates and of the standard library's
  generated tables: they are the record \<open>unicode\<close>, an argument of every definition that
  uses them. What a theorem needs of them is a hypothesis of the theorem.
\<close>

section \<open>Definitions\<close>

datatype general_category_group =
  Letter | Mark | Number | Punctuation | Symbol | Separator | Other

record unicode =
  nfkc :: "ustring \<Rightarrow> ustring"
  to_lowercase :: "uchar \<Rightarrow> ustring"
  to_uppercase :: "ustring \<Rightarrow> ustring"
  category_group :: "uchar \<Rightarrow> general_category_group"

record normalized =
  canonical :: ustring
  tokens :: "ustring list"

definition is_letter_or_number :: "unicode \<Rightarrow> uchar \<Rightarrow> bool" where
  "is_letter_or_number u c \<longleftrightarrow> category_group u c = Letter \<or> category_group u c = Number"

text \<open>One turn of the loop over the lowered characters: the text so far and the pending separator.\<close>

fun normalize_step :: "unicode \<Rightarrow> uchar \<Rightarrow> ustring \<times> bool \<Rightarrow> ustring \<times> bool" where
  "normalize_step u c (canon, pending_space) =
     (if is_letter_or_number u c
      then ((if pending_space \<and> canon \<noteq> [] then canon @ [space] else canon) @ [c], False)
      else (canon, True))"

definition lowered :: "unicode \<Rightarrow> ustring \<Rightarrow> ustring" where
  "lowered u text = concat (map (to_lowercase u) (nfkc u text))"

definition normalize :: "unicode \<Rightarrow> ustring \<Rightarrow> normalized" where
  "normalize u text =
     (let canon = fst (fold (normalize_step u) (lowered u text) ([], False))
      in \<lparr>canonical = canon, tokens = (if canon = [] then [] else split_on space canon)\<rparr>)"

definition DEFAULT_K :: nat where
  "DEFAULT_K = 8"

definition DEFAULT_W :: nat where
  "DEFAULT_W = 8"

definition FNV_OFFSET_BASIS :: u64 where
  "FNV_OFFSET_BASIS = 0xcbf29ce484222325"

definition FNV_PRIME :: u64 where
  "FNV_PRIME = 0x00000100000001b3"

definition fnv1a64_bytes :: "bytes \<Rightarrow> u64" where
  "fnv1a64_bytes bs = fold (\<lambda>b h. (h XOR ucast b) * FNV_PRIME) bs FNV_OFFSET_BASIS"

definition fnv1a64 :: "ustring \<Rightarrow> i64" where
  "fnv1a64 s = fnv1a64_bytes (utf8 s)"

text \<open>\<open>assert!(k >= 1)\<close> panics on \<open>k = 0\<close>.\<close>

definition shingles_of :: "ustring list \<Rightarrow> nat \<Rightarrow> ustring list option" where
  "shingles_of ts k =
     (if k < 1 then None
      else if ts = [] then Some []
      else if length ts < k then Some [join [space] ts]
      else Some (map (join [space]) (windows k ts)))"

record fingerprint =
  fp_hash :: i64
  fp_seq :: u32

text \<open>Rightmost minimum in \<open>[start, end)\<close>.\<close>

definition min_index_in :: "u64 list \<Rightarrow> nat \<Rightarrow> nat \<Rightarrow> nat" where
  "min_index_in us start stop = fold (\<lambda>i m. if us ! i \<le> us ! m then i else m) [start + 1..<stop] start"

definition fp_at :: "i64 list \<Rightarrow> nat \<Rightarrow> fingerprint" where
  "fp_at hashes m = \<lparr>fp_hash = hashes ! m, fp_seq = of_nat m\<rparr>"

fun winnow_step ::
  "i64 list \<Rightarrow> nat \<Rightarrow> nat \<Rightarrow> fingerprint list \<times> nat option \<Rightarrow> fingerprint list \<times> nat option" where
  "winnow_step hashes w start (out, prev_min) =
     (let m = min_index_in hashes start (start + w)
      in if prev_min \<noteq> Some m then (out @ [fp_at hashes m], Some m) else (out, prev_min))"

definition winnow :: "i64 list \<Rightarrow> nat \<Rightarrow> fingerprint list option" where
  "winnow hashes w =
     (let n = length hashes in
      if w < 1 then None
      else if n = 0 then Some []
      else if n < w then Some [fp_at hashes (min_index_in hashes 0 n)]
      else Some (fst (fold (winnow_step hashes w) [0..<Suc (n - w)] ([], None))))"

record fingerprint_result =
  fingerprints :: "fingerprint list"
  shingle_count :: nat
  token_count :: nat

definition fingerprint_text :: "unicode \<Rightarrow> ustring \<Rightarrow> nat \<Rightarrow> nat \<Rightarrow> fingerprint_result option" where
  "fingerprint_text u text k w =
     (let n = normalize u text in
      case shingles_of (tokens n) k of None \<Rightarrow> None
      | Some shingles \<Rightarrow>
        (case winnow (map fnv1a64 shingles) w of None \<Rightarrow> None
         | Some fps \<Rightarrow> Some \<lparr>fingerprints = fps, shingle_count = length shingles,
                             token_count = length (tokens n)\<rparr>))"

definition to_hash_set :: "fingerprint list \<Rightarrow> i64 set" where
  "to_hash_set fp = fp_hash ` set fp"

definition intersection_size :: "i64 set \<Rightarrow> i64 set \<Rightarrow> nat" where
  "intersection_size a b =
     (let (small, large) = (if card a \<le> card b then (a, b) else (b, a))
      in card (Set.filter (\<lambda>h. h \<in> large) small))"

definition containment :: "fingerprint list \<Rightarrow> fingerprint list \<Rightarrow> f64" where
  "containment fp_a fp_b =
     (let a = to_hash_set fp_a in
      if a = {} then f64_zero
      else score (intersection_size a (to_hash_set fp_b)) (card a))"

record similarity =
  sim_containment :: f64
  sim_coverage :: f64

definition similarity_of :: "fingerprint list \<Rightarrow> fingerprint list \<Rightarrow> similarity" where
  "similarity_of fp_a fp_b =
     (let a = to_hash_set fp_a; b = to_hash_set fp_b; inter = intersection_size a b
      in \<lparr>sim_containment = (if a = {} then f64_zero else score inter (card a)),
          sim_coverage = (if b = {} then f64_zero else score inter (card b))\<rparr>)"

section \<open>Normalization\<close>

text \<open>
  The reference: every character that is not a letter or number becomes a space, the
  text is split at spaces and empty pieces are dropped. It is what the server's
  \<open>normalize\<close> computes with a regular expression, \<open>trim\<close> and \<open>split\<close>.
\<close>

definition blank_separators :: "unicode \<Rightarrow> ustring \<Rightarrow> ustring" where
  "blank_separators u s = map (\<lambda>c. if is_letter_or_number u c then c else space) s"

definition reference_tokens :: "unicode \<Rightarrow> ustring \<Rightarrow> ustring list" where
  "reference_tokens u s = filter (\<lambda>t. t \<noteq> []) (split_on space (blank_separators u s))"

lemma split_on_snoc:
  "split_on c (xs @ [x]) =
     (if x = c then split_on c xs @ [[]]
      else butlast (split_on c xs) @ [last (split_on c xs) @ [x]])"
proof (induction xs)
  case Nil
  show ?case by simp
next
  case (Cons y ys)
  obtain t ts where s: "split_on c ys = t # ts" by (cases "split_on c ys") auto
  with Cons show ?case by (auto split: list.splits)
qed

lemma join_last_append: "join sep (ts @ [t @ [x]]) = join sep (ts @ [t]) @ [x]"
  by (cases "ts = []") (simp_all add: join_snoc)

lemma filter_butlast_last:
  assumes "xs \<noteq> []"
  shows "filter P xs = filter P (butlast xs) @ (if P (last xs) then [last xs] else [])"
proof -
  have "filter P xs = filter P (butlast xs @ [last xs])" using assms by simp
  then show ?thesis by (simp only: filter_append) simp
qed

definition normalize_inv :: "unicode \<Rightarrow> ustring \<Rightarrow> ustring \<times> bool \<Rightarrow> bool" where
  "normalize_inv u xs st \<longleftrightarrow>
     fst st = join [space] (reference_tokens u xs) \<and>
     (fst st = [] \<longleftrightarrow> reference_tokens u xs = []) \<and>
     (if last (split_on space (blank_separators u xs)) = [] then snd st \<or> fst st = [] else \<not> snd st)"

lemma normalize_step_inv:
  assumes "\<not> is_letter_or_number u space" and "normalize_inv u xs st"
  shows "normalize_inv u (xs @ [x]) (normalize_step u x st)"
proof -
  obtain c p where st: "st = (c, p)" by fastforce
  let ?S = "split_on space (blank_separators u xs)"
  let ?ne = "filter (\<lambda>t. t \<noteq> [])"
  have ne: "?ne ?S = ?ne (butlast ?S) @ (if last ?S = [] then [] else [last ?S])"
    using filter_butlast_last [of ?S "\<lambda>t. t \<noteq> []"] by simp
  show ?thesis
  proof (cases "is_letter_or_number u x")
    case False
    with assms(2) st show ?thesis
      by (auto simp: normalize_inv_def reference_tokens_def blank_separators_def split_on_snoc)
  next
    case True
    with assms(1) have x: "x \<noteq> space" by auto
    have r: "reference_tokens u (xs @ [x]) = ?ne (butlast ?S) @ [last ?S @ [x]]"
      using True x by (simp add: reference_tokens_def blank_separators_def split_on_snoc)
    have r0: "reference_tokens u xs = ?ne ?S"
      by (simp add: reference_tokens_def)
    show ?thesis
    proof (cases "last ?S = []")
      case True
      with assms(2) st r r0 ne \<open>is_letter_or_number u x\<close> x show ?thesis
        by (auto simp: normalize_inv_def blank_separators_def split_on_snoc join_snoc)
    next
      case False
      with assms(2) st r r0 ne \<open>is_letter_or_number u x\<close> x show ?thesis
        by (auto simp: normalize_inv_def blank_separators_def split_on_snoc join_last_append)
    qed
  qed
qed

lemma normalize_fold_inv:
  assumes "\<not> is_letter_or_number u space"
  shows "normalize_inv u xs (fold (normalize_step u) xs ([], False))"
proof (induction xs rule: rev_induct)
  case Nil
  show ?case by (simp add: normalize_inv_def reference_tokens_def blank_separators_def)
next
  case (snoc x xs)
  with normalize_step_inv [OF assms] show ?case by simp
qed

lemma set_split_on: "t \<in> set (split_on c xs) \<Longrightarrow> x \<in> set t \<Longrightarrow> x \<in> set xs \<and> x \<noteq> c"
proof (induction xs arbitrary: t)
  case Nil
  then show ?case by simp
next
  case (Cons y ys)
  obtain s ss where "split_on c ys = s # ss" by (cases "split_on c ys") auto
  with Cons.prems Cons.IH [of s] Cons.IH [of t] show ?case
    by (auto split: if_splits)
qed

lemma reference_tokens_chars:
  assumes "t \<in> set (reference_tokens u xs)"
  shows "t \<noteq> []" and "\<forall>c \<in> set t. is_letter_or_number u c \<and> c \<in> set xs \<and> c \<noteq> space"
proof -
  show "t \<noteq> []" using assms by (simp add: reference_tokens_def)
  show "\<forall>c \<in> set t. is_letter_or_number u c \<and> c \<in> set xs \<and> c \<noteq> space"
    using assms set_split_on [of t space "blank_separators u xs"]
    by (force simp: reference_tokens_def blank_separators_def split: if_splits)
qed

lemma normalize_tokens:
  assumes "\<not> is_letter_or_number u space"
  shows "tokens (normalize u text) = reference_tokens u (lowered u text)"
    and "canonical (normalize u text) = join [space] (reference_tokens u (lowered u text))"
proof -
  let ?r = "reference_tokens u (lowered u text)"
  let ?c = "fst (fold (normalize_step u) (lowered u text) ([], False))"
  have c: "?c = join [space] ?r" "?c = [] \<longleftrightarrow> ?r = []"
    using normalize_fold_inv [OF assms, of "lowered u text"] unfolding normalize_inv_def by blast+
  have "split_on space (join [space] ?r) = ?r" if "?r \<noteq> []"
    using that reference_tokens_chars(2) [of _ u "lowered u text"] by (intro split_on_join) blast+
  with c show "tokens (normalize u text) = ?r"
    by (auto simp: normalize_def Let_def)
  from c show "canonical (normalize u text) = join [space] ?r"
    by (simp add: normalize_def Let_def)
qed

section \<open>Winnowing\<close>

text \<open>The inner loop finds the rightmost minimum of its window.\<close>

definition rightmost_min :: "u64 list \<Rightarrow> nat \<Rightarrow> nat \<Rightarrow> nat \<Rightarrow> bool" where
  "rightmost_min us start stop m \<longleftrightarrow>
     start \<le> m \<and> m < stop \<and>
     (\<forall>i. start \<le> i \<and> i < stop \<longrightarrow> us ! m \<le> us ! i) \<and>
     (\<forall>i. m < i \<and> i < stop \<longrightarrow> us ! m < us ! i)"

lemma rightmost_min_extend:
  assumes "rightmost_min us start stop m"
  shows "rightmost_min us start (Suc stop) (if us ! stop \<le> us ! m then stop else m)"
  using assms by (auto simp: rightmost_min_def less_Suc_eq intro: order_trans)

lemma min_index_in_rightmost:
  assumes "start < stop"
  shows "rightmost_min us start stop (min_index_in us start stop)"
  using assms
proof (induction stop)
  case 0
  then show ?case by simp
next
  case (Suc stop)
  show ?case
  proof (cases "start = stop")
    case True
    then show ?thesis
      by (auto simp: min_index_in_def rightmost_min_def less_Suc_eq_le dest: le_antisym)
  next
    case False
    with Suc have "start < stop" and "rightmost_min us start stop (min_index_in us start stop)"
      by simp_all
    with rightmost_min_extend show ?thesis
      by (simp add: min_index_in_def)
  qed
qed

lemma rightmost_min_unique:
  assumes "rightmost_min us a b m" and "rightmost_min us a b m'"
  shows "m = m'"
proof (rule ccontr)
  assume "m \<noteq> m'"
  then consider "m < m'" | "m' < m" by linarith
  then show False
    using assms by cases (fastforce simp: rightmost_min_def)+
qed

text \<open>Equal windows have their minimum at the same offset.\<close>

lemma rightmost_min_shift:
  assumes "\<And>d. d < w \<Longrightarrow> us ! (i + d) = vs ! (j + d)" and "rightmost_min us i (i + w) (i + d)"
  shows "rightmost_min vs j (j + w) (j + d)"
proof -
  have d: "d < w" using assms(2) by (simp add: rightmost_min_def)
  have "vs ! (j + d) \<le> vs ! x" if "j \<le> x" "x < j + w" for x
    using that assms(1) [of d] assms(1) [of "x - j"] assms(2) d
    by (auto simp: rightmost_min_def dest: spec [of _ "i + (x - j)"])
  moreover have "vs ! (j + d) < vs ! x" if "j + d < x" "x < j + w" for x
    using that assms(1) [of d] assms(1) [of "x - j"] assms(2) d
    by (auto simp: rightmost_min_def dest: spec [of _ "i + (x - j)"])
  ultimately show ?thesis using d by (simp add: rightmost_min_def)
qed

text \<open>The selected position never moves left when the window slides right.\<close>

lemma min_index_in_slide:
  assumes "0 < w"
  shows "min_index_in us s (s + w) \<le> min_index_in us (Suc s) (Suc s + w)"
proof (rule ccontr)
  let ?m = "min_index_in us s (s + w)" and ?m' = "min_index_in us (Suc s) (Suc s + w)"
  assume less: "\<not> ?m \<le> ?m'"
  have m: "rightmost_min us s (s + w) ?m" and m': "rightmost_min us (Suc s) (Suc s + w) ?m'"
    using assms by (auto intro: min_index_in_rightmost)
  from m m' less have "us ! ?m \<le> us ! ?m'" and "us ! ?m' < us ! ?m"
    by (auto simp: rightmost_min_def)
  then show False by simp
qed

text \<open>Winnowing is: the minimum position of every window, repetitions of the last one dropped.\<close>

definition window_minima :: "i64 list \<Rightarrow> nat \<Rightarrow> nat list" where
  "window_minima hashes w =
     map (\<lambda>s. min_index_in hashes s (s + w)) [0..<Suc (length hashes - w)]"

lemma remdups_adj_snoc:
  "xs \<noteq> [] \<Longrightarrow> remdups_adj (xs @ [x]) = (if last xs = x then remdups_adj xs else remdups_adj xs @ [x])"
proof (induction xs rule: remdups_adj.induct)
  case (3 y z zs)
  then show ?case by (cases "y = z") auto
qed auto

lemma winnow_fold:
  "fold (winnow_step hashes w) [0..<n] ([], None) =
     (let ms = map (\<lambda>s. min_index_in hashes s (s + w)) [0..<n]
      in (map (fp_at hashes) (remdups_adj ms), if ms = [] then None else Some (last ms)))"
proof (induction n)
  case 0
  show ?case by simp
next
  case (Suc n)
  then show ?case
    by (cases "n = 0") (auto simp: Let_def remdups_adj_snoc last_map)
qed

lemma winnow_windows:
  assumes "1 \<le> w" and "w \<le> length hashes"
  shows "winnow hashes w = Some (map (fp_at hashes) (remdups_adj (window_minima hashes w)))"
proof -
  have "0 < length hashes" and "\<not> length hashes < w" using assms by linarith+
  then show ?thesis
    using assms(1) by (simp add: winnow_def winnow_fold window_minima_def Let_def del: upt_Suc)
qed

lemma window_minima_mono:
  assumes "0 < w" and "s \<le> t"
  shows "min_index_in hashes s (s + w) \<le> min_index_in hashes t (t + w)"
  using assms(2)
proof (induction t rule: dec_induct)
  case base
  show ?case by simp
next
  case (step t)
  with min_index_in_slide [OF assms(1), of hashes t] show ?case by simp
qed

lemma strict_sorted_remdups_adj: "sorted xs \<Longrightarrow> sorted_wrt (<) (remdups_adj xs)"
  for xs :: "nat list"
  by (induction xs rule: remdups_adj.induct) (auto simp: less_le)

lemma window_minima_strict:
  assumes "0 < w"
  shows "sorted_wrt (<) (remdups_adj (window_minima hashes w))"
proof (rule strict_sorted_remdups_adj)
  show "sorted (window_minima hashes w)"
    using window_minima_mono [OF assms]
    by (auto simp: window_minima_def sorted_iff_nth_mono simp del: upt_Suc)
qed

lemma set_window_minima:
  "m \<in> set (window_minima hashes w) \<longleftrightarrow>
     (\<exists>s \<le> length hashes - w. m = min_index_in hashes s (s + w))"
  by (auto simp: window_minima_def less_Suc_eq_le simp del: upt_Suc)

lemma winnow_Some [panic_free]: "1 \<le> w \<Longrightarrow> \<exists>fps. winnow hashes w = Some fps"
  by (simp add: winnow_def Let_def)

text \<open>Every full window contributes the fingerprint at its rightmost minimum.\<close>

lemma winnow_covers:
  assumes "1 \<le> w" and "i + w \<le> length hashes" and "winnow hashes w = Some fps"
  shows "hashes ! min_index_in hashes i (i + w) \<in> to_hash_set fps"
proof -
  have "w \<le> length hashes" using assms(2) by simp
  with assms(1,3) have "fps = map (fp_at hashes) (remdups_adj (window_minima hashes w))"
    by (simp add: winnow_windows)
  moreover have "min_index_in hashes i (i + w) \<in> set (window_minima hashes w)"
    using assms(2) by (auto simp: set_window_minima intro: exI [of _ i])
  ultimately show ?thesis
    by (force simp: to_hash_set_def fp_at_def)
qed

text \<open>Equal windows of two sequences contribute the same hash to both.\<close>

lemma winnow_common_window:
  assumes w: "1 \<le> w"
    and i: "i + w \<le> length as" and j: "j + w \<le> length bs"
    and eq: "take w (drop i as) = take w (drop j bs)"
    and as: "winnow as w = Some fa" and bs: "winnow bs w = Some fb"
  shows "as ! min_index_in as i (i + w) \<in> to_hash_set fa \<inter> to_hash_set fb"
proof -
  have nth: "as ! (i + d) = bs ! (j + d)" if "d < w" for d
    using arg_cong [OF eq, of "\<lambda>xs. xs ! d"] that i j by simp
  let ?m = "min_index_in as i (i + w)"
  have m: "rightmost_min as i (i + w) ?m" using w by (intro min_index_in_rightmost) simp
  define d where "d = ?m - i"
  with m have d: "?m = i + d" "d < w" by (auto simp: rightmost_min_def)
  from m have "rightmost_min as i (i + w) (i + d)" by (simp only: d)
  with nth have "rightmost_min bs j (j + w) (j + d)" by (rule rightmost_min_shift)
  moreover have "rightmost_min bs j (j + w) (min_index_in bs j (j + w))"
    using w by (intro min_index_in_rightmost) simp
  ultimately have "min_index_in bs j (j + w) = j + d" by (metis rightmost_min_unique)
  with d nth have "as ! ?m = bs ! min_index_in bs j (j + w)" by simp
  with winnow_covers [OF w i as] winnow_covers [OF w j bs] show ?thesis by auto
qed

text \<open>Every recorded hash is the one some window contributes.\<close>

lemma winnow_from_window:
  assumes "1 \<le> w" and "w \<le> length hashes" and "winnow hashes w = Some fps" and "h \<in> to_hash_set fps"
  shows "\<exists>i. i + w \<le> length hashes \<and> h = hashes ! min_index_in hashes i (i + w)"
proof -
  have "fps = map (fp_at hashes) (remdups_adj (window_minima hashes w))"
    using assms(1-3) by (simp add: winnow_windows)
  with assms(4) obtain m where "m \<in> set (window_minima hashes w)" "h = hashes ! m"
    by (auto simp: to_hash_set_def fp_at_def)
  with assms(2) show ?thesis by (auto simp: set_window_minima le_diff_conv2)
qed

section \<open>From tokens to fingerprints\<close>

lemma finite_to_hash_set [simp]: "finite (to_hash_set fps)"
  by (simp add: to_hash_set_def)

lemma intersection_size_card:
  assumes "finite a" and "finite b"
  shows "intersection_size a b = card (a \<inter> b)"
proof -
  have "Set.filter (\<lambda>h. h \<in> b) a = a \<inter> b" and "Set.filter (\<lambda>h. h \<in> a) b = a \<inter> b"
    by auto
  then show ?thesis by (simp add: intersection_size_def)
qed

lemma shingles_of_windows:
  assumes "1 \<le> k" and "k \<le> length ts"
  shows "shingles_of ts k = Some (map (join [space]) (windows k ts))"
proof -
  have "ts \<noteq> []" and "\<not> length ts < k" using assms by auto
  with assms(1) show ?thesis by (simp add: shingles_of_def)
qed

lemma shingles_of_Some [panic_free]: "1 \<le> k \<Longrightarrow> \<exists>ss. shingles_of ts k = Some ss"
  by (simp add: shingles_of_def)

text \<open>A shared run of tokens is a shared run of shingles, and of their hashes.\<close>

lemma shingles_shared_run:
  assumes "0 < w" and "i + (k + w - 1) \<le> length as" and "j + (k + w - 1) \<le> length bs"
    and "take (k + w - 1) (drop i as) = take (k + w - 1) (drop j bs)"
  shows "take w (drop i (map f (windows k as))) = take w (drop j (map f (windows k bs)))"
proof (rule nth_equalityI)
  have la: "i + w \<le> Suc (length as) - k" and lb: "j + w \<le> Suc (length bs) - k"
    using assms(1-3) by linarith+
  then show "length (take w (drop i (map f (windows k as)))) =
    length (take w (drop j (map f (windows k bs))))" by simp
  fix d
  assume "d < length (take w (drop i (map f (windows k as))))"
  then have d: "d < w" by simp
  have run: "take k (drop (x + d) xs) = take k (drop d (take (k + w - 1) (drop x xs)))"
    for x and xs :: "'a list"
  proof -
    have k: "k = min k (k + w - 1 - d)" using d by linarith
    have "take k (drop d (take (k + w - 1) (drop x xs))) = take k (take (k + w - 1 - d) (drop d (drop x xs)))"
      by (simp add: drop_take)
    also have "\<dots> = take k (drop (x + d) xs)" using k by (simp add: add.commute)
    finally show ?thesis by simp
  qed
  have "i + d < Suc (length as) - k" and "j + d < Suc (length bs) - k"
    using d la lb by linarith+
  then show "take w (drop i (map f (windows k as))) ! d = take w (drop j (map f (windows k bs))) ! d"
    using d assms(4) by (simp add: nth_windows run)
qed

lemma fingerprint_text_Some:
  assumes "fingerprint_text u text k w = Some r"
  shows "\<exists>ss. shingles_of (tokens (normalize u text)) k = Some ss
    \<and> winnow (map fnv1a64 ss) w = Some (fingerprints r)
    \<and> shingle_count r = length ss \<and> token_count r = length (tokens (normalize u text))"
  using assms by (auto simp: fingerprint_text_def Let_def split: option.splits)

lemma fingerprint_text_total [panic_free]:
  assumes "1 \<le> k" and "1 \<le> w"
  shows "\<exists>r. fingerprint_text u text k w = Some r"
proof -
  obtain ss where "shingles_of (tokens (normalize u text)) k = Some ss"
    using shingles_of_Some [OF assms(1)] by blast
  moreover obtain fps where "winnow (map fnv1a64 ss) w = Some fps"
    using winnow_Some [OF assms(2)] by blast
  ultimately show ?thesis by (simp add: fingerprint_text_def Let_def)
qed

lemma containment_eq:
  "containment fa fb =
     (if to_hash_set fa = {} then Fin 0
      else score (card (to_hash_set fa \<inter> to_hash_set fb)) (card (to_hash_set fa)))"
  by (simp add: containment_def Let_def intersection_size_card)

lemma containment_pos:
  assumes "to_hash_set fa \<inter> to_hash_set fb \<noteq> {}"
  shows "\<exists>q > 0. containment fa fb = Fin q"
proof -
  have "0 < card (to_hash_set fa \<inter> to_hash_set fb)" and "0 < card (to_hash_set fa)"
    using assms by (auto simp: card_gt_0_iff)
  with score_pos show ?thesis using assms by (auto simp: containment_eq)
qed

text \<open>A concrete instance of the tables, exact on ASCII text, for evaluation.\<close>

definition ascii_tables :: unicode where
  "ascii_tables =
     \<lparr>nfkc = (\<lambda>s. s), to_lowercase = (\<lambda>c. [ascii_lower c]),
      to_uppercase = map (\<lambda>c. if 97 \<le> c \<and> c \<le> 122 then c - 32 else c),
      category_group = (\<lambda>c. if is_ascii_alphabetic c then Letter
        else if is_ascii_digit c then Number else Other)\<rparr>"

section \<open>Shared passages\<close>

text \<open>The hash sequence that a text is winnowed over.\<close>

definition text_hashes :: "unicode \<Rightarrow> ustring \<Rightarrow> nat \<Rightarrow> i64 list" where
  "text_hashes u s k = map (fnv1a64 \<circ> join [space]) (windows k (tokens (normalize u s)))"

lemma fingerprint_text_hashes:
  assumes "fingerprint_text u s k w = Some f" and "1 \<le> k" and "k \<le> token_count f"
  shows "winnow (text_hashes u s k) w = Some (fingerprints f)"
    and "length (text_hashes u s k) = Suc (token_count f) - k"
  using fingerprint_text_Some [OF assms(1)] assms(2,3)
  by (auto simp: text_hashes_def shingles_of_windows)

lemma text_hashes_shared_run:
  assumes "0 < w" and "i + (k + w - 1) \<le> length (tokens (normalize u a))"
    and "j + (k + w - 1) \<le> length (tokens (normalize u b))"
    and "take (k + w - 1) (drop i (tokens (normalize u a))) = take (k + w - 1) (drop j (tokens (normalize u b)))"
  shows "take w (drop i (text_hashes u a k)) = take w (drop j (text_hashes u b k))"
  unfolding text_hashes_def by (rule shingles_shared_run [OF assms])

lemma token_count_tokens:
  "fingerprint_text u s k w = Some f \<Longrightarrow> token_count f = length (tokens (normalize u s))"
  using fingerprint_text_Some by blast

lemma shared_passage_hash:
  assumes "1 \<le> k" and "1 \<le> w"
    and "fingerprint_text u a k w = Some fa" and "fingerprint_text u b k w = Some fb"
    and "i + (k + w - 1) \<le> token_count fa" and "j + (k + w - 1) \<le> token_count fb"
    and "take (k + w - 1) (drop i (tokens (normalize u a)))
       = take (k + w - 1) (drop j (tokens (normalize u b)))"
  shows "text_hashes u a k ! min_index_in (text_hashes u a k) i (i + w)
    \<in> to_hash_set (fingerprints fa) \<inter> to_hash_set (fingerprints fb)"
proof (rule winnow_common_window [OF assms(2)])
  have "k \<le> token_count fa" and "k \<le> token_count fb" using assms(2,5,6) by linarith+
  then show "i + w \<le> length (text_hashes u a k)" and "j + w \<le> length (text_hashes u b k)"
    and "winnow (text_hashes u a k) w = Some (fingerprints fa)"
    and "winnow (text_hashes u b k) w = Some (fingerprints fb)"
    using assms(1,2,5,6) by (simp_all add: fingerprint_text_hashes [OF assms(3)] fingerprint_text_hashes [OF assms(4)])
  show "take w (drop i (text_hashes u a k)) = take w (drop j (text_hashes u b k))"
    using text_hashes_shared_run [of w i k u a j b] assms(2,5-7) token_count_tokens [OF assms(3)] token_count_tokens [OF assms(4)]
    by simp
qed

text \<open>A text that holds a whole document holds every fingerprint of it.\<close>

lemma whole_document_hashes:
  assumes "1 \<le> k" and "1 \<le> w"
    and "fingerprint_text u a k w = Some fa" and "fingerprint_text u b k w = Some fb"
    and "k + w - 1 \<le> token_count fa" and "tokens (normalize u b) = pre @ tokens (normalize u a) @ post"
  shows "to_hash_set (fingerprints fa) \<subseteq> to_hash_set (fingerprints fb)"
proof
  fix h
  assume h: "h \<in> to_hash_set (fingerprints fa)"
  let ?ta = "tokens (normalize u a)" and ?tb = "tokens (normalize u b)"
  have k: "k \<le> token_count fa" using assms(2,5) by linarith
  have wl: "w \<le> length (text_hashes u a k)"
    using fingerprint_text_hashes(2) [OF assms(3,1) k] assms(1,5) by linarith
  obtain i where i: "i + w \<le> length (text_hashes u a k)"
    "h = text_hashes u a k ! min_index_in (text_hashes u a k) i (i + w)"
    using winnow_from_window [OF assms(2) wl fingerprint_text_hashes(1) [OF assms(3,1) k] h] by blast
  have len: "i + (k + w - 1) \<le> length ?ta"
    using i(1) fingerprint_text_hashes(2) [OF assms(3,1) k] token_count_tokens [OF assms(3)] assms(1,2) by linarith
  then have "take (k + w - 1) (drop i ?ta) = take (k + w - 1) (drop (length pre + i) ?tb)"
    by (simp add: assms(6))
  moreover have "length pre + i + (k + w - 1) \<le> token_count fb"
    using len token_count_tokens [OF assms(4)] by (simp add: assms(6))
  ultimately show "h \<in> to_hash_set (fingerprints fb)"
    using shared_passage_hash [OF assms(1-4), of i "length pre + i"] len token_count_tokens [OF assms(3)] i(2) by simp
qed

section \<open>Properties\<close>

text \<open>
  C3. Detection guarantee of the fingerprinting pipeline: when two texts share a run of
  \<open>k + w - 1\<close> consecutive tokens, anywhere in either, their fingerprints have a hash in
  common and the containment score of either in the other is a positive number, so the
  copy is visible to the matcher however the rest of the text was changed.
\<close>

theorem shared_passage_detected:
  assumes "1 \<le> k" and "1 \<le> w"
    and "fingerprint_text u a k w = Some fa" and "fingerprint_text u b k w = Some fb"
    and "i + (k + w - 1) \<le> token_count fa" and "j + (k + w - 1) \<le> token_count fb"
    and "take (k + w - 1) (drop i (tokens (normalize u a)))
       = take (k + w - 1) (drop j (tokens (normalize u b)))"
  shows "\<exists>q > 0. containment (fingerprints fa) (fingerprints fb) = Fin q"
  using shared_passage_hash [OF assms] by (intro containment_pos) blast

lemma shared_passage_detected_witness:
  "\<exists>fa fb q. fingerprint_text ascii_tables (lit ''Top secret plan'') 1 2 = Some fa
     \<and> fingerprint_text ascii_tables (lit ''re: secret-PLAN x'') 1 2 = Some fb
     \<and> q > 0 \<and> containment (fingerprints fa) (fingerprints fb) = Fin q"
proof -
  let ?a = "lit ''Top secret plan''" and ?b = "lit ''re: secret-PLAN x''"
  have ta: "tokens (normalize ascii_tables ?a) = [lit ''top'', lit ''secret'', lit ''plan'']"
    and tb: "tokens (normalize ascii_tables ?b) = [lit ''re'', lit ''secret'', lit ''plan'', lit ''x'']"
    by code_simp+
  obtain fa fb where fa: "fingerprint_text ascii_tables ?a 1 2 = Some fa"
    and fb: "fingerprint_text ascii_tables ?b 1 2 = Some fb"
    using fingerprint_text_total [of 1 2] by fastforce
  then have "token_count fa = 3" and "token_count fb = 4"
    using fingerprint_text_Some [OF fa] fingerprint_text_Some [OF fb] ta tb by auto
  then have "\<exists>q > 0. containment (fingerprints fa) (fingerprints fb) = Fin q"
    by (intro shared_passage_detected [OF _ _ fa fb, of 1 1]) (simp_all add: ta tb)
  with fa fb show ?thesis by blast
qed

text \<open>
  What winnowing selects. On a hash sequence of at least \<open>w\<close> values the recorded
  positions are strictly increasing, each is the rightmost minimum (unsigned order) of
  some window and carries the hash found there, and every window has its rightmost
  minimum among them.
\<close>

theorem winnow_selects_window_minima:
  assumes "1 \<le> w" and "w \<le> length hashes"
  shows "\<exists>ms. winnow hashes w = Some (map (\<lambda>m. \<lparr>fp_hash = hashes ! m, fp_seq = of_nat m\<rparr>) ms)
    \<and> sorted_wrt (<) ms
    \<and> (\<forall>m. m \<in> set ms \<longleftrightarrow> (\<exists>s. s + w \<le> length hashes \<and> rightmost_min hashes s (s + w) m))"
proof (intro exI conjI allI)
  let ?ms = "remdups_adj (window_minima hashes w)"
  show "winnow hashes w = Some (map (\<lambda>m. \<lparr>fp_hash = hashes ! m, fp_seq = of_nat m\<rparr>) ?ms)"
    using winnow_windows [OF assms] by (simp add: fp_at_def [abs_def])
  show "sorted_wrt (<) ?ms" using assms(1) by (intro window_minima_strict) simp
  fix m
  have "rightmost_min hashes s (s + w) m \<longleftrightarrow> m = min_index_in hashes s (s + w)" for s
    using min_index_in_rightmost [of s "s + w" hashes] rightmost_min_unique assms(1) by auto
  then show "m \<in> set ?ms \<longleftrightarrow> (\<exists>s. s + w \<le> length hashes \<and> rightmost_min hashes s (s + w) m)"
    using assms(2) by (auto simp: set_window_minima le_diff_conv2)
qed

lemma winnow_selects_window_minima_witness:
  "\<exists>ms. winnow [5, 3, 3, 9] 2 = Some (map (\<lambda>m. \<lparr>fp_hash = [5, 3, 3, 9] ! m, fp_seq = of_nat m\<rparr>) ms)
    \<and> sorted_wrt (<) ms
    \<and> (\<forall>m. m \<in> set ms \<longleftrightarrow> (\<exists>s. s + 2 \<le> length [5, 3, 3, 9 :: i64] \<and> rightmost_min [5, 3, 3, 9] s (s + 2) m))"
  by (rule winnow_selects_window_minima) simp_all

text \<open>
  Normalization equals the server's definition: the tokens are the maximal runs of
  letters and numbers of the NFKC-normalized, lower-cased text, the canonical text is
  those tokens joined by single spaces, and no token is empty or holds a separator.
\<close>

theorem normalize_reference:
  assumes "\<not> is_letter_or_number u space"
  shows "tokens (normalize u text) = reference_tokens u (lowered u text)
    \<and> canonical (normalize u text) = join [space] (tokens (normalize u text))
    \<and> (\<forall>t. t \<in> set (tokens (normalize u text)) \<longrightarrow> t \<noteq> [] \<and> list_all (is_letter_or_number u) t)"
  using normalize_tokens [OF assms] reference_tokens_chars [of _ u "lowered u text"]
  by (auto simp: list_all_iff)

lemma normalize_reference_witness:
  "\<not> is_letter_or_number ascii_tables space
   \<and> canonical (normalize ascii_tables (lit ''  Smith, J.''))
     = join [space] (tokens (normalize ascii_tables (lit ''  Smith, J.'')))
   \<and> tokens (normalize ascii_tables (lit ''  Smith, J.'')) = [lit ''smith'', lit ''j'']"
proof -
  have h: "\<not> is_letter_or_number ascii_tables space" by code_simp
  have "tokens (normalize ascii_tables (lit ''  Smith, J.'')) = [lit ''smith'', lit ''j'']"
    by code_simp
  with h normalize_reference [OF h, of "lit ''  Smith, J.''"] show ?thesis by blast
qed

text \<open>
  The containment score is a finite number between 0 and 1; it is 0 exactly when the
  protected document shares no hash with the scanned text (an empty protected document
  never matches), and 1 when every hash of a non-empty protected document occurs.
\<close>

theorem containment_range:
  "\<exists>q. containment fa fb = Fin q \<and> 0 \<le> q \<and> q \<le> 1
     \<and> (q = 0 \<longleftrightarrow> to_hash_set fa \<inter> to_hash_set fb = {})
     \<and> (to_hash_set fa \<noteq> {} \<and> to_hash_set fa \<subseteq> to_hash_set fb \<longrightarrow> q = 1)"
proof (cases "to_hash_set fa = {}")
  case True
  then show ?thesis by (simp add: containment_eq)
next
  case False
  let ?n = "card (to_hash_set fa)" and ?m = "card (to_hash_set fa \<inter> to_hash_set fb)"
  have n: "0 < ?n" using False by (simp add: card_gt_0_iff)
  have m: "?m \<le> ?n" by (intro card_mono) auto
  have zero: "score ?m ?n = Fin 0 \<longleftrightarrow> to_hash_set fa \<inter> to_hash_set fb = {}"
    using score_pos [OF _ n, of ?m] score_zero [OF n] by (cases "?m = 0") auto
  obtain q where q: "score ?m ?n = Fin q" using score_Fin [OF n] by blast
  have "0 \<le> q" using score_mono [OF n, of 0 ?m] q by (simp add: score_zero [OF n])
  moreover have "q \<le> 1" using score_le_1 [OF n m] q by simp
  moreover have "q = 1" if "to_hash_set fa \<subseteq> to_hash_set fb"
    using that q score_self [OF n] by (simp add: Int_absorb2)
  ultimately show ?thesis using zero q False by (auto simp: containment_eq)
qed

lemma containment_range_witness:
  "\<exists>q. containment [\<lparr>fp_hash = 7, fp_seq = 0\<rparr>] [\<lparr>fp_hash = 7, fp_seq = 3\<rparr>] = Fin q
     \<and> 0 \<le> q \<and> q \<le> 1 \<and> q = 1"
proof -
  let ?a = "[\<lparr>fp_hash = 7, fp_seq = 0\<rparr>]" and ?b = "[\<lparr>fp_hash = 7, fp_seq = 3\<rparr>] :: fingerprint list"
  have "to_hash_set ?a \<noteq> {}" and "to_hash_set ?a \<subseteq> to_hash_set ?b" by (simp_all add: to_hash_set_def)
  with containment_range [of ?a ?b] show ?thesis by blast
qed

end
