(* ===== verification/Bundle.thy ===== *)
theory Bundle
  imports Fingerprint "HOL-Library.Product_Lexorder"
begin

text \<open>
  The signed index bundle: the agent's loader and lookups (\<open>detect/bundle.rs\<close>). Parsing runs over a bounds-checked reader; every rejection is a value of
  \<open>bundle_error\<close>. The certificate and RSA operations, and the JSON codec of the
  header belong to other packages and are arguments.

  \<open>bundle_wf\<close> is what a successful load establishes. The contract of the two sorted
  sections towards the matchers is the locale \<open>hash_section\<close>, interpreted for the IDM and
  the EDM section: a lookup returns exactly the records of a hash.
\<close>

section \<open>Data\<close>

record params =
  prm_k :: nat
  prm_w :: nat
  prm_hash_bits :: u32

record counts =
  cnt_idm :: nat
  cnt_edm :: nat
  cnt_docs :: nat

record doc =
  doc_version_id :: ustring
  doc_document_id :: ustring
  doc_collection_id :: ustring
  doc_title :: ustring
  doc_fp_count :: nat

record edm_field =
  fld_field_id :: u16
  fld_name :: ustring
  fld_type :: ustring
  fld_primary :: bool

record edm_source =
  src_source_id :: ustring
  src_name :: ustring
  src_fields :: "edm_field list"

record header =
  hdr_bundle_version :: u64
  hdr_params :: params
  hdr_edm_salts :: "ustring \<rightharpoonup> ustring"
  hdr_scope :: "ustring list"
  hdr_counts :: counts
  hdr_docs :: "doc list"
  hdr_edm_sources :: "edm_source list"

record idm_entry =
  idm_hash :: i64
  idm_doc_index :: u32

record edm_entry =
  edm_hash :: i64
  edm_source_index :: u16
  edm_row_id :: u32
  edm_field_id :: u16

record bloom =
  blm_m_bits :: u32
  blm_k_hashes :: u32
  blm_bits :: bytes

record index_bundle =
  bdl_format_version :: u16
  bdl_header :: header
  bdl_bloom :: bloom
  bdl_idm :: "idm_entry list"
  bdl_edm :: "edm_entry list"

datatype bundle_error =
    Truncated string
  | BadMagic
  | UnsupportedVersion u16
  | BadBloomParameters
  | CountOverflow string
  | TrailingBytes
  | CaCertificate
  | CaKeyEncoding
  | CaKeyNotRsa
  | MalformedSignature
  | SignatureFailed
  | HeaderNotJson
  | ForeignParameters
  | IdmNotSorted
  | DocIndexOutOfRange
  | EdmNotSorted
  | SourceIndexOutOfRange
  | CountsMismatch

definition MAGIC :: bytes where
  "MAGIC = utf8 (lit ''DLPX1'')"

definition FORMAT_VERSION :: u16 where
  "FORMAT_VERSION = 1"

section \<open>Bloom filter\<close>

definition splitmix64 :: "u64 \<Rightarrow> u64" where
  "splitmix64 x =
     (let z0 = x + 0x9E3779B97F4A7C15;
          z1 = (z0 XOR drop_bit 30 z0) * 0xBF58476D1CE4E5B9;
          z2 = (z1 XOR drop_bit 27 z1) * 0x94D049BB133111EB
      in z2 XOR drop_bit 31 z2)"

text \<open>The \<open>i\<close>-th probe of a hash in a filter of \<open>m\<close> bits (double hashing over the LE key).\<close>

definition bloom_bit :: "u32 \<Rightarrow> i64 \<Rightarrow> nat \<Rightarrow> u64" where
  "bloom_bit m hash i =
     (let h1 = fnv1a64_bytes (to_le 8 (unat hash)); h2 = splitmix64 h1
      in (h1 + of_nat i * h2) mod ucast m)"

definition bit_set :: "u8 \<Rightarrow> u64 \<Rightarrow> bool" where
  "bit_set byte bt \<longleftrightarrow> byte AND push_bit (unat (bt AND 7)) 1 \<noteq> 0"

text \<open>The probe loop: \<open>None\<close> for a remainder by zero or a byte index out of range.\<close>

fun bloom_probe :: "bloom \<Rightarrow> i64 \<Rightarrow> nat list \<Rightarrow> bool option" where
  "bloom_probe b hash [] = Some True"
| "bloom_probe b hash (i # is) =
     (if blm_m_bits b = 0 then None
      else let bt = bloom_bit (blm_m_bits b) hash i
      in case index (blm_bits b) (unat (drop_bit 3 bt)) of
           None \<Rightarrow> None
         | Some byte \<Rightarrow> if \<not> bit_set byte bt then Some False else bloom_probe b hash is)"

definition bloom_has :: "bloom \<Rightarrow> i64 \<Rightarrow> bool option" where
  "bloom_has b hash = bloom_probe b hash [0..<unat (blm_k_hashes b)]"

section \<open>Byte reader\<close>

record reader =
  rd_buf :: bytes
  rd_off :: nat

definition reader_take :: "reader \<Rightarrow> nat \<Rightarrow> string \<Rightarrow> bundle_error + bytes \<times> reader" where
  "reader_take r n what =
     (case checked_add (rd_off r) n of
        None \<Rightarrow> Inl (Truncated what)
      | Some e \<Rightarrow>
          if e \<le> length (rd_buf r)
          then Inr (take n (drop (rd_off r) (rd_buf r)), r\<lparr>rd_off := e\<rparr>)
          else Inl (Truncated what))"

definition reader_u16 :: "reader \<Rightarrow> string \<Rightarrow> bundle_error + u16 \<times> reader" where
  "reader_u16 r what = andthen (reader_take r 2 what) (\<lambda>(bs, r). Inr (of_nat (le_nat bs), r))"

definition reader_u32 :: "reader \<Rightarrow> string \<Rightarrow> bundle_error + u32 \<times> reader" where
  "reader_u32 r what = andthen (reader_take r 4 what) (\<lambda>(bs, r). Inr (of_nat (le_nat bs), r))"

section \<open>Signature\<close>

record ('cert, 'key, 'sig) signature_api =
  cert_from_pem :: "bytes \<Rightarrow> 'cert option"
  spki_to_der :: "'cert \<Rightarrow> bytes option"
  rsa_key_from_der :: "bytes \<Rightarrow> 'key option"
  signature_from_bytes :: "bytes \<Rightarrow> 'sig option"
  rsa_verify :: "'key \<Rightarrow> bytes \<Rightarrow> 'sig \<Rightarrow> bool"

definition verify_signature ::
  "('cert, 'key, 'sig) signature_api \<Rightarrow> bytes \<Rightarrow> bytes \<Rightarrow> bytes \<Rightarrow> bundle_error + unit" where
  "verify_signature api message signature ca_cert_pem =
     andthen (ok_or CaCertificate (cert_from_pem api ca_cert_pem)) (\<lambda>cert.
     andthen (ok_or CaKeyEncoding (spki_to_der api cert)) (\<lambda>spki_der.
     andthen (ok_or CaKeyNotRsa (rsa_key_from_der api spki_der)) (\<lambda>public_key.
     andthen (ok_or MalformedSignature (signature_from_bytes api signature)) (\<lambda>sig.
     if rsa_verify api public_key message sig then Inr () else Inl SignatureFailed))))"

section \<open>Loading\<close>

text \<open>Pass 1 locates the sections from raw lengths only.\<close>

record sections =
  sec_format_version :: u16
  sec_header :: bytes
  sec_bloom :: bloom
  sec_idm :: bytes
  sec_edm :: bytes
  sec_signed_end :: nat
  sec_signature :: bytes

definition bloom_byte_len :: "u32 \<Rightarrow> nat" where
  "bloom_byte_len m = unat m div 8 + (if unat m mod 8 \<noteq> 0 then 1 else 0)"

text \<open>The four runs of reads, in the order of the file.\<close>

definition read_preamble :: "reader \<Rightarrow> bundle_error + u16 \<times> bytes \<times> reader" where
  "read_preamble r =
     andthen (reader_take r (length MAGIC) ''magic'') (\<lambda>(magic, r).
     if magic \<noteq> MAGIC then Inl BadMagic
     else andthen (reader_u16 r ''format version'') (\<lambda>(version, r).
     if version \<noteq> FORMAT_VERSION then Inl (UnsupportedVersion version)
     else andthen (reader_u32 r ''header length'') (\<lambda>(header_len, r).
     andthen (reader_take r (unat header_len) ''header'') (\<lambda>(hdr, r).
     Inr (version, hdr, r)))))"

definition read_bloom :: "reader \<Rightarrow> bundle_error + bloom \<times> reader" where
  "read_bloom r =
     andthen (reader_u32 r ''bloom mBits'') (\<lambda>(m_bits, r).
     andthen (reader_u32 r ''bloom kHashes'') (\<lambda>(k_hashes, r).
     if m_bits < 8 \<or> k_hashes < 1 \<or> 64 < k_hashes then Inl BadBloomParameters
     else andthen (reader_take r (bloom_byte_len m_bits) ''bloom bits'') (\<lambda>(bits, r).
     Inr (\<lparr>blm_m_bits = m_bits, blm_k_hashes = k_hashes, blm_bits = bits\<rparr>, r))))"

definition read_entries :: "reader \<Rightarrow> bundle_error + bytes \<times> bytes \<times> reader" where
  "read_entries r =
     andthen (reader_u32 r ''idm count'') (\<lambda>(idm_count, r).
     andthen (ok_or (CountOverflow ''idm'') (checked_mul (unat idm_count) 12)) (\<lambda>idm_len.
     andthen (reader_take r idm_len ''idm entries'') (\<lambda>(idm_bytes, r).
     andthen (reader_u32 r ''edm count'') (\<lambda>(edm_count, r).
     andthen (ok_or (CountOverflow ''edm'') (checked_mul (unat edm_count) 16)) (\<lambda>edm_len.
     andthen (reader_take r edm_len ''edm entries'') (\<lambda>(edm_bytes, r).
     Inr (idm_bytes, edm_bytes, r)))))))"

definition read_signature :: "reader \<Rightarrow> bundle_error + nat \<times> bytes" where
  "read_signature r =
     (let signed_end = rd_off r in
      andthen (reader_u32 r ''signature length'') (\<lambda>(sig_len, r).
      andthen (reader_take r (unat sig_len) ''signature'') (\<lambda>(signature, r).
      if rd_off r \<noteq> length (rd_buf r) then Inl TrailingBytes else Inr (signed_end, signature))))"

definition locate_sections :: "bytes \<Rightarrow> bundle_error + sections" where
  "locate_sections bs =
     andthen (read_preamble \<lparr>rd_buf = bs, rd_off = 0\<rparr>) (\<lambda>(version, hdr, r).
     andthen (read_bloom r) (\<lambda>(blm, r).
     andthen (read_entries r) (\<lambda>(idm_bytes, edm_bytes, r).
     andthen (read_signature r) (\<lambda>(signed_end, signature).
     Inr \<lparr>sec_format_version = version, sec_header = hdr, sec_bloom = blm, sec_idm = idm_bytes,
           sec_edm = edm_bytes, sec_signed_end = signed_end, sec_signature = signature\<rparr>))))"

text \<open>\<open>slice::chunks_exact\<close>: the chunks of length \<open>n\<close>, a shorter rest dropped.\<close>

function chunks_exact :: "nat \<Rightarrow> 'a list \<Rightarrow> 'a list list" where
  "chunks_exact n xs =
     (if n = 0 \<or> length xs < n then [] else take n xs # chunks_exact n (drop n xs))"
  by pat_completeness auto
termination
  by (relation "measure (\<lambda>(n, xs). length xs)") auto

declare chunks_exact.simps [simp del]

definition decode_idm :: "bytes \<Rightarrow> idm_entry" where
  "decode_idm rec =
     \<lparr>idm_hash = of_nat (le_nat (take 8 rec)),
      idm_doc_index = of_nat (le_nat (take 4 (drop 8 rec)))\<rparr>"

definition idm_key :: "idm_entry \<Rightarrow> u64 \<times> u32" where
  "idm_key e = (idm_hash e, idm_doc_index e)"

text \<open>Pass 2: the record loops, with the previous key and the range check of each record.\<close>

fun parse_idm :: "nat \<Rightarrow> (u64 \<times> u32) option \<Rightarrow> bytes list \<Rightarrow> bundle_error + idm_entry list" where
  "parse_idm docs prev [] = Inr []"
| "parse_idm docs prev (rec # recs) =
     (let e = decode_idm rec in
      if (case prev of None \<Rightarrow> False | Some p \<Rightarrow> idm_key e \<le> p) then Inl IdmNotSorted
      else if docs \<le> unat (idm_doc_index e) then Inl DocIndexOutOfRange
      else andthen (parse_idm docs (Some (idm_key e)) recs) (\<lambda>es. Inr (e # es)))"

definition decode_edm :: "bytes \<Rightarrow> edm_entry" where
  "decode_edm rec =
     \<lparr>edm_hash = of_nat (le_nat (take 8 rec)),
      edm_source_index = of_nat (le_nat (take 2 (drop 8 rec))),
      edm_row_id = of_nat (le_nat (take 4 (drop 10 rec))),
      edm_field_id = of_nat (le_nat (take 2 (drop 14 rec)))\<rparr>"

definition edm_key :: "edm_entry \<Rightarrow> u64 \<times> u16 \<times> u32 \<times> u16" where
  "edm_key e = (edm_hash e, edm_source_index e, edm_row_id e, edm_field_id e)"

fun parse_edm ::
  "nat \<Rightarrow> (u64 \<times> u16 \<times> u32 \<times> u16) option \<Rightarrow> bytes list \<Rightarrow> bundle_error + edm_entry list" where
  "parse_edm sources prev [] = Inr []"
| "parse_edm sources prev (rec # recs) =
     (let e = decode_edm rec in
      if (case prev of None \<Rightarrow> False | Some p \<Rightarrow> edm_key e \<le> p) then Inl EdmNotSorted
      else if sources \<le> unat (edm_source_index e) then Inl SourceIndexOutOfRange
      else andthen (parse_edm sources (Some (edm_key e)) recs) (\<lambda>es. Inr (e # es)))"

definition interpret_sections ::
  "(bytes \<Rightarrow> header option) \<Rightarrow> sections \<Rightarrow> bundle_error + index_bundle" where
  "interpret_sections parse_json s =
     andthen (ok_or HeaderNotJson (parse_json (sec_header s))) (\<lambda>h.
     if prm_k (hdr_params h) \<noteq> DEFAULT_K \<or> prm_w (hdr_params h) \<noteq> DEFAULT_W
        \<or> prm_hash_bits (hdr_params h) \<noteq> 64
     then Inl ForeignParameters
     else andthen (parse_idm (length (hdr_docs h)) None (chunks_exact 12 (sec_idm s))) (\<lambda>idm.
     andthen (parse_edm (length (hdr_edm_sources h)) None (chunks_exact 16 (sec_edm s))) (\<lambda>edm.
     if cnt_idm (hdr_counts h) \<noteq> length idm \<or> cnt_edm (hdr_counts h) \<noteq> length edm
        \<or> cnt_docs (hdr_counts h) \<noteq> length (hdr_docs h)
     then Inl CountsMismatch
     else Inr \<lparr>bdl_format_version = sec_format_version s, bdl_header = h,
                bdl_bloom = sec_bloom s, bdl_idm = idm, bdl_edm = edm\<rparr>)))"

definition load ::
  "('cert, 'key, 'sig) signature_api \<Rightarrow> (bytes \<Rightarrow> header option) \<Rightarrow> bytes \<Rightarrow> bytes
   \<Rightarrow> bundle_error + index_bundle" where
  "load api parse_json bs ca_cert_pem =
     andthen (locate_sections bs) (\<lambda>s.
     andthen (verify_signature api (take (sec_signed_end s) bs) (sec_signature s) ca_cert_pem) (\<lambda>_.
     interpret_sections parse_json s))"

definition version :: "index_bundle \<Rightarrow> u64" where
  "version b = hdr_bundle_version (bdl_header b)"

definition bloom_params :: "index_bundle \<Rightarrow> u32 \<times> u32" where
  "bloom_params b = (blm_m_bits (bdl_bloom b), blm_k_hashes (bdl_bloom b))"

definition bundle_bloom_has :: "index_bundle \<Rightarrow> i64 \<Rightarrow> bool option" where
  "bundle_bloom_has b hash = bloom_has (bdl_bloom b) hash"

text \<open>Binary search for the first record of a hash, then the run of equal hashes.\<close>

definition lookup_idm :: "index_bundle \<Rightarrow> i64 \<Rightarrow> idm_entry list" where
  "lookup_idm b hash =
     (let start = partition_point (\<lambda>e. idm_hash e < hash) (bdl_idm b);
          len = length (takeWhile (\<lambda>e. idm_hash e = hash) (drop start (bdl_idm b)))
      in take len (drop start (bdl_idm b)))"

definition lookup_edm :: "index_bundle \<Rightarrow> i64 \<Rightarrow> edm_entry list" where
  "lookup_edm b hash =
     (let start = partition_point (\<lambda>e. edm_hash e < hash) (bdl_edm b);
          len = length (takeWhile (\<lambda>e. edm_hash e = hash) (drop start (bdl_edm b)))
      in take len (drop start (bdl_edm b)))"

section \<open>Invariant\<close>

definition idm_sorted :: "idm_entry list \<Rightarrow> bool" where
  "idm_sorted es \<longleftrightarrow> sorted_wrt (<) (map idm_key es)"

definition edm_sorted :: "edm_entry list \<Rightarrow> bool" where
  "edm_sorted es \<longleftrightarrow> sorted_wrt (<) (map edm_key es)"

definition bloom_wf :: "bloom \<Rightarrow> bool" where
  "bloom_wf b \<longleftrightarrow> 8 \<le> unat (blm_m_bits b) \<and> 1 \<le> unat (blm_k_hashes b) \<and> unat (blm_k_hashes b) \<le> 64
     \<and> length (blm_bits b) = bloom_byte_len (blm_m_bits b)"

definition header_wf :: "header \<Rightarrow> bool" where
  "header_wf h \<longleftrightarrow> hdr_params h = \<lparr>prm_k = DEFAULT_K, prm_w = DEFAULT_W, prm_hash_bits = 64\<rparr>
     \<and> cnt_docs (hdr_counts h) = length (hdr_docs h)"

definition bundle_wf :: "index_bundle \<Rightarrow> bool" where
  "bundle_wf b \<longleftrightarrow>
     bdl_format_version b = FORMAT_VERSION \<and> header_wf (bdl_header b) \<and> bloom_wf (bdl_bloom b)
     \<and> idm_sorted (bdl_idm b) \<and> edm_sorted (bdl_edm b)
     \<and> (\<forall>e \<in> set (bdl_idm b). unat (idm_doc_index e) < length (hdr_docs (bdl_header b)))
     \<and> (\<forall>e \<in> set (bdl_edm b). unat (edm_source_index e) < length (hdr_edm_sources (bdl_header b)))
     \<and> cnt_idm (hdr_counts (bdl_header b)) = length (bdl_idm b)
     \<and> cnt_edm (hdr_counts (bdl_header b)) = length (bdl_edm b)"

section \<open>Pass 1\<close>

lemma reader_take_Inr [res_simps]:
  "reader_take r n what = Inr (bs, r') \<longleftrightarrow>
     rd_off r + n \<le> usize_max \<and> rd_off r + n \<le> length (rd_buf r)
     \<and> bs = take n (drop (rd_off r) (rd_buf r)) \<and> r' = r\<lparr>rd_off := rd_off r + n\<rparr>"
  by (auto simp: reader_take_def checked_add_def split: if_splits)

lemma reader_u16_Inr [res_simps]:
  "reader_u16 r what = Inr (v, r') \<longleftrightarrow>
     (\<exists>bs. reader_take r 2 what = Inr (bs, r') \<and> v = of_nat (le_nat bs))"
  by (auto simp: reader_u16_def andthen_eq_Inr)

lemma reader_u32_Inr [res_simps]:
  "reader_u32 r what = Inr (v, r') \<longleftrightarrow>
     (\<exists>bs. reader_take r 4 what = Inr (bs, r') \<and> v = of_nat (le_nat bs))"
  by (auto simp: reader_u32_def andthen_eq_Inr)

lemma reader_take_buf: "reader_take r n what = Inr (bs, r') \<Longrightarrow> rd_buf r' = rd_buf r"
  by (auto simp: reader_take_Inr)

lemma read_preamble_Inr:
  "read_preamble r = Inr (v, hdr, r') \<Longrightarrow> v = FORMAT_VERSION \<and> rd_buf r' = rd_buf r"
  by (auto simp: read_preamble_def andthen_eq_Inr reader_u16_Inr reader_u32_Inr
      dest!: reader_take_buf split: if_splits)

lemma read_bloom_Inr: "read_bloom r = Inr (blm, r') \<Longrightarrow> bloom_wf blm \<and> rd_buf r' = rd_buf r"
  by (auto simp: read_bloom_def andthen_eq_Inr reader_u32_Inr reader_take_Inr bloom_wf_def
      word_less_nat_alt not_less split: if_splits)

lemma read_entries_Inr: "read_entries r = Inr (is, es, r') \<Longrightarrow> rd_buf r' = rd_buf r"
  by (auto simp: read_entries_def andthen_eq_Inr reader_u32_Inr dest!: reader_take_buf)

text \<open>The signed part, the length field and the signature are the whole file.\<close>

lemma read_signature_covers:
  assumes "read_signature r = Inr (e, sig)"
  shows "rd_buf r = take e (rd_buf r) @ take 4 (drop e (rd_buf r)) @ sig"
proof -
  have e: "e = rd_off r" and "sig = drop (4 + rd_off r) (rd_buf r)"
    using assms
    by (auto simp: read_signature_def Let_def andthen_eq_Inr reader_take_Inr reader_u32_Inr add.commute
        split: if_splits)
  then have "sig = drop 4 (drop e (rd_buf r))" by (simp only: drop_drop)
  then show ?thesis by (simp only: append_take_drop_id)
qed

lemma read_signature_length:
  assumes "read_signature r = Inr (e, sig)"
  shows "rd_buf r = take e (rd_buf r) @ to_le 4 (length sig) @ sig"
proof -
  have "length (take 4 (drop e (rd_buf r))) = 4 \<and> le_nat (take 4 (drop e (rd_buf r))) = length sig"
    using assms le_nat_bound [of "take 4 (drop e (rd_buf r))"]
    by (auto simp: read_signature_def Let_def andthen_eq_Inr reader_take_Inr reader_u32_Inr
        unat_of_nat split: if_splits)
  then have "take 4 (drop e (rd_buf r)) = to_le 4 (length sig)"
    using to_le_le_nat [of "take 4 (drop e (rd_buf r))"] by simp
  with read_signature_covers [OF assms] show ?thesis by simp
qed

lemma locate_sections_Inr:
  assumes "locate_sections bs = Inr s"
  shows "sec_format_version s = FORMAT_VERSION" and "bloom_wf (sec_bloom s)"
    and "bs = take (sec_signed_end s) bs @ to_le 4 (length (sec_signature s)) @ sec_signature s"
proof -
  obtain r1 r2 r3 idms edms where
    "read_preamble \<lparr>rd_buf = bs, rd_off = 0\<rparr> = Inr (sec_format_version s, sec_header s, r1)"
    and "read_bloom r1 = Inr (sec_bloom s, r2)" and "read_entries r2 = Inr (idms, edms, r3)"
    and sig: "read_signature r3 = Inr (sec_signed_end s, sec_signature s)"
    using assms by (auto simp: locate_sections_def andthen_eq_Inr)
  then have "sec_format_version s = FORMAT_VERSION \<and> bloom_wf (sec_bloom s) \<and> rd_buf r3 = bs"
    by (auto dest!: read_preamble_Inr read_bloom_Inr read_entries_Inr)
  with read_signature_length [OF sig]
  show "sec_format_version s = FORMAT_VERSION" and "bloom_wf (sec_bloom s)"
    and "bs = take (sec_signed_end s) bs @ to_le 4 (length (sec_signature s)) @ sec_signature s"
    by auto
qed

section \<open>Pass 2\<close>

lemma chunks_exact_concat:
  assumes "\<forall>xs \<in> set xss. length xs = n" and "0 < n"
  shows "chunks_exact n (concat xss) = xss"
  using assms(1)
proof (induction xss)
  case Nil
  show ?case using assms(2) by (simp add: chunks_exact.simps [of n "[]"])
next
  case (Cons xs xss)
  then show ?case using assms(2) by (simp add: chunks_exact.simps [of n "xs @ concat xss"])
qed

definition opt_list :: "'a option \<Rightarrow> 'a list" where
  "opt_list x = (case x of None \<Rightarrow> [] | Some v \<Rightarrow> [v])"

text \<open>Both record loops are one loop over a decoder, a key and a range check.\<close>

fun parse_sorted ::
  "(bytes \<Rightarrow> 'e) \<Rightarrow> ('e \<Rightarrow> 'k::linorder) \<Rightarrow> ('e \<Rightarrow> bool) \<Rightarrow> 'x \<Rightarrow> 'x
   \<Rightarrow> 'k option \<Rightarrow> bytes list \<Rightarrow> 'x + 'e list" where
  "parse_sorted dec key ok unsorted bad prev [] = Inr []"
| "parse_sorted dec key ok unsorted bad prev (rec # recs) =
     (let e = dec rec in
      if (case prev of None \<Rightarrow> False | Some p \<Rightarrow> key e \<le> p) then Inl unsorted
      else if \<not> ok e then Inl bad
      else andthen (parse_sorted dec key ok unsorted bad (Some (key e)) recs) (\<lambda>es. Inr (e # es)))"

lemma parse_sorted_iff:
  "parse_sorted dec key ok unsorted bad prev recs = Inr es \<longleftrightarrow>
     es = map dec recs \<and> sorted_wrt (<) (opt_list prev @ map key es) \<and> (\<forall>e \<in> set es. ok e)"
proof (induction recs arbitrary: prev es)
  case Nil
  show ?case by (auto simp: opt_list_def split: option.splits)
next
  case (Cons rec recs)
  let ?e = "dec rec"
  show ?case
  proof (cases "(case prev of None \<Rightarrow> False | Some p \<Rightarrow> key ?e \<le> p) \<or> \<not> ok ?e")
    case True
    then have "parse_sorted dec key ok unsorted bad prev (rec # recs) \<noteq> Inr es"
      by (auto simp: Let_def)
    with True show ?thesis by (auto simp: opt_list_def split: option.splits)
  next
    case False
    then have e: "sorted_wrt (<) (opt_list prev @ [key ?e])" and d: "ok ?e"
      by (auto simp: opt_list_def not_le split: option.splits)
    have step: "parse_sorted dec key ok unsorted bad prev (rec # recs) = Inr es \<longleftrightarrow>
        (\<exists>es'. parse_sorted dec key ok unsorted bad (Some (key ?e)) recs = Inr es' \<and> es = ?e # es')"
      using False by (auto simp: Let_def andthen_eq_Inr)
    show ?thesis
      unfolding step Cons.IH using e d
      by (force simp: opt_list_def intro: less_trans split: option.splits)
  qed
qed

lemma parse_idm_sorted:
  "parse_idm docs prev recs =
     parse_sorted decode_idm idm_key (\<lambda>e. unat (idm_doc_index e) < docs) IdmNotSorted DocIndexOutOfRange
       prev recs"
  by (induction docs prev recs rule: parse_idm.induct) (auto simp: Let_def not_less)

lemma parse_edm_sorted:
  "parse_edm sources prev recs =
     parse_sorted decode_edm edm_key (\<lambda>e. unat (edm_source_index e) < sources) EdmNotSorted
       SourceIndexOutOfRange prev recs"
  by (induction sources prev recs rule: parse_edm.induct) (auto simp: Let_def not_less)

lemma parse_idm_iff:
  "parse_idm docs prev recs = Inr es \<longleftrightarrow>
     es = map decode_idm recs \<and> sorted_wrt (<) (opt_list prev @ map idm_key es)
     \<and> (\<forall>e \<in> set es. unat (idm_doc_index e) < docs)"
  unfolding parse_idm_sorted by (rule parse_sorted_iff)

lemma parse_edm_iff:
  "parse_edm sources prev recs = Inr es \<longleftrightarrow>
     es = map decode_edm recs \<and> sorted_wrt (<) (opt_list prev @ map edm_key es)
     \<and> (\<forall>e \<in> set es. unat (edm_source_index e) < sources)"
  unfolding parse_edm_sorted by (rule parse_sorted_iff)

lemma interpret_sections_wf:
  assumes "interpret_sections parse_json s = Inr b"
    and "sec_format_version s = FORMAT_VERSION"
    and "bloom_wf (sec_bloom s)"
  shows "bundle_wf b"
  using assms
  by (auto simp: interpret_sections_def andthen_eq_Inr ok_or_eq_Inr parse_idm_iff parse_edm_iff
      bundle_wf_def header_wf_def idm_sorted_def edm_sorted_def opt_list_def
      split: if_splits)

lemma load_Inr:
  "load api parse_json bs ca = Inr b \<longleftrightarrow>
     (\<exists>s. locate_sections bs = Inr s
        \<and> verify_signature api (take (sec_signed_end s) bs) (sec_signature s) ca = Inr ()
        \<and> interpret_sections parse_json s = Inr b)"
  by (auto simp: load_def andthen_eq_Inr)

lemma verify_signature_Inr:
  "verify_signature api msg sig ca = Inr () \<longleftrightarrow>
     (\<exists>cert der key sg. cert_from_pem api ca = Some cert \<and> spki_to_der api cert = Some der
        \<and> rsa_key_from_der api der = Some key \<and> signature_from_bytes api sig = Some sg
        \<and> rsa_verify api key msg sg)"
  by (auto simp: verify_signature_def andthen_eq_Inr ok_or_eq_Inr)

lemma load_wf:
  assumes "load api parse_json bs ca = Inr b"
  shows "bundle_wf b"
  using assms locate_sections_Inr interpret_sections_wf by (auto simp: load_Inr)

section \<open>Lookups in the sorted sections\<close>

text \<open>
  The contract of a section towards the matchers: \<open>lookup\<close> returns the records whose key
  is the hash, in the order of the section.
\<close>

locale hash_section =
  fixes wf :: "'b \<Rightarrow> bool"
    and entries :: "'b \<Rightarrow> 'e list"
    and key :: "'e \<Rightarrow> i64"
    and lookup :: "'b \<Rightarrow> i64 \<Rightarrow> 'e list"
  assumes lookup_filter: "wf b \<Longrightarrow> lookup b h = filter (\<lambda>e. key e = h) (entries b)"
begin

lemma lookup_iff: "wf b \<Longrightarrow> e \<in> set (lookup b h) \<longleftrightarrow> e \<in> set (entries b) \<and> key e = h"
  by (auto simp: lookup_filter)

lemma lookup_found: "wf b \<Longrightarrow> e \<in> set (entries b) \<Longrightarrow> e \<in> set (lookup b (key e))"
  by (simp add: lookup_iff)

lemma lookup_empty_iff: "wf b \<Longrightarrow> lookup b h = [] \<longleftrightarrow> h \<notin> key ` set (entries b)"
  by (auto simp: lookup_filter filter_empty_conv)

lemma lookup_disjoint: "wf b \<Longrightarrow> h \<noteq> h' \<Longrightarrow> set (lookup b h) \<inter> set (lookup b h') = {}"
  by (auto simp: lookup_iff)

end

lemma takeWhile_dropWhile_sorted:
  fixes f :: "'a \<Rightarrow> 'k::linorder"
  assumes "sorted (map f xs)"
  shows "takeWhile (\<lambda>x. f x = k) (dropWhile (\<lambda>x. f x < k) xs) = filter (\<lambda>x. f x = k) xs"
  using assms
proof (induction xs)
  case Nil
  show ?case by simp
next
  case (Cons x xs)
  show ?case
  proof (cases "f x < k")
    case True
    with Cons show ?thesis by auto
  next
    case False
    with Cons have d: "dropWhile (\<lambda>x. f x < k) xs = xs"
      by (cases xs) auto
    show ?thesis
    proof (cases "f x = k")
      case True
      with Cons d show ?thesis by auto
    next
      case False
      with \<open>\<not> f x < k\<close> Cons.prems have "\<forall>y \<in> set xs. f y \<noteq> k" by auto
      then have "filter (\<lambda>x. f x = k) xs = []" by (auto simp: filter_empty_conv)
      with False \<open>\<not> f x < k\<close> show ?thesis by simp
    qed
  qed
qed

lemma binary_lookup_filter:
  fixes f :: "'a \<Rightarrow> 'k::linorder"
  assumes "sorted (map f xs)"
  shows "(let start = partition_point (\<lambda>x. f x < k) xs;
              len = length (takeWhile (\<lambda>x. f x = k) (drop start xs))
          in take len (drop start xs)) = filter (\<lambda>x. f x = k) xs"
proof -
  have "drop (partition_point (\<lambda>x. f x < k) xs) xs = dropWhile (\<lambda>x. f x < k) xs"
    by (simp add: partition_point_sorted [OF assms] dropWhile_eq_drop)
  then show ?thesis
    by (simp add: Let_def takeWhile_eq_take [symmetric] takeWhile_dropWhile_sorted [OF assms])
qed

lemma idm_sorted_hash: "idm_sorted es \<Longrightarrow> sorted (map idm_hash es)"
  by (induction es) (auto simp: idm_sorted_def idm_key_def less_prod_def' intro: less_imp_le)

lemma edm_sorted_hash: "edm_sorted es \<Longrightarrow> sorted (map edm_hash es)"
  by (induction es) (auto simp: edm_sorted_def edm_key_def less_prod_def' intro: less_imp_le)

interpretation idm: hash_section bundle_wf bdl_idm idm_hash lookup_idm
  by unfold_locales
    (unfold lookup_idm_def, rule binary_lookup_filter, simp add: idm_sorted_hash bundle_wf_def)

interpretation edm: hash_section bundle_wf bdl_edm edm_hash lookup_edm
  by unfold_locales
    (unfold lookup_edm_def, rule binary_lookup_filter, simp add: edm_sorted_hash bundle_wf_def)

section \<open>The filter\<close>

lemma bit_set_bit: "bit_set byte bt \<longleftrightarrow> bit byte (unat (bt AND 7))"
  by (simp add: bit_set_def bit_iff_and_push_bit_not_eq_0)

lemma unat_lt_max_unsigned: "unat (m :: u32) < 2 ^ 32"
  using unsigned_less [of m] by simp

lemma unat_bloom_bit:
  assumes "0 < unat m"
  shows "unat (bloom_bit m h i) < unat m"
proof -
  have "unat (ucast m :: u64) = unat m"
    using unat_lt_max_unsigned [of m]
    by (simp add: unsigned_ucast_eq take_bit_nat_eq_self)
  then show ?thesis
    using assms by (simp add: bloom_bit_def Let_def unat_mod_distrib)
qed

lemma byte_index_bound:
  fixes bt :: u64
  assumes "unat bt < unat m"
  shows "unat (drop_bit 3 bt) < bloom_byte_len m"
proof -
  have "unat (drop_bit 3 bt) = unat bt div 8"
    by (simp add: drop_bit_eq_div unat_div_distrib)
  moreover have "unat bt div 8 < unat m div 8 + (if unat m mod 8 \<noteq> 0 then 1 else 0)"
    using assms by (cases "unat m mod 8 = 0") (auto simp: less_Suc_eq_le div_le_mono less_mult_imp_div_less)
  ultimately show ?thesis by (simp add: bloom_byte_len_def)
qed

lemma bloom_probe_wf:
  assumes "bloom_wf b"
  shows "bloom_probe b h is =
    Some (\<forall>i \<in> set is. bit_set (blm_bits b ! unat (drop_bit 3 (bloom_bit (blm_m_bits b) h i)))
      (bloom_bit (blm_m_bits b) h i))"
proof (induction "is")
  case Nil
  show ?case by simp
next
  case (Cons i "is")
  have m: "0 < unat (blm_m_bits b)" using assms by (simp add: bloom_wf_def)
  then have "blm_m_bits b \<noteq> 0" by auto
  moreover have "unat (drop_bit 3 (bloom_bit (blm_m_bits b) h i)) < length (blm_bits b)"
    using byte_index_bound [OF unat_bloom_bit [OF m]] assms by (simp add: bloom_wf_def)
  ultimately show ?case using Cons by (simp add: Let_def index_Some)
qed

lemma bloom_has_wf:
  assumes "bloom_wf b"
  shows "bloom_has b h =
    Some (\<forall>i < unat (blm_k_hashes b).
      bit_set (blm_bits b ! unat (drop_bit 3 (bloom_bit (blm_m_bits b) h i))) (bloom_bit (blm_m_bits b) h i))"
  by (auto simp: bloom_has_def bloom_probe_wf [OF assms])

lemma bundle_bloom_has_total [panic_free]:
  "bundle_wf b \<Longrightarrow> \<exists>r. bundle_bloom_has b h = Some r"
  by (simp add: bundle_bloom_has_def bundle_wf_def bloom_has_wf)

lemma bloom_all_ones:
  assumes "bundle_wf b" and "set (blm_bits (bdl_bloom b)) \<subseteq> {255}"
  shows "bundle_bloom_has b h = Some True"
proof -
  have wf: "bloom_wf (bdl_bloom b)" using assms(1) by (simp add: bundle_wf_def)
  have ones: "bit_set 255 bt" for bt
  proof -
    have "unat (bt AND 7) \<le> unat (7 :: u64)" by (metis word_and_le1 word_le_nat_alt)
    then have "unat (bt AND 7) < 8" by simp
    moreover have "(255 :: u8) = mask 8" by (simp add: mask_eq_exp_minus_1)
    ultimately show ?thesis unfolding bit_set_bit by (simp only: bit_mask_iff) simp
  qed
  have "blm_bits (bdl_bloom b) ! unat (drop_bit 3 (bloom_bit (blm_m_bits (bdl_bloom b)) h i)) = 255" for i
  proof -
    have "unat (drop_bit 3 (bloom_bit (blm_m_bits (bdl_bloom b)) h i)) < length (blm_bits (bdl_bloom b))"
      using byte_index_bound [OF unat_bloom_bit, of "blm_m_bits (bdl_bloom b)" h i] wf
      by (simp add: bloom_wf_def)
    then have "blm_bits (bdl_bloom b) ! unat (drop_bit 3 (bloom_bit (blm_m_bits (bdl_bloom b)) h i)) \<in> set (blm_bits (bdl_bloom b))"
      by (rule nth_mem)
    with assms(2) show ?thesis by blast
  qed
  with ones show ?thesis by (simp add: bundle_bloom_has_def bloom_has_wf [OF wf])
qed

section \<open>An example file\<close>

text \<open>A one-document bundle, with a signature scheme that accepts one fixed signature.\<close>

definition example_api :: "(unit, unit, bytes) signature_api" where
  "example_api =
     \<lparr>cert_from_pem = (\<lambda>_. Some ()), spki_to_der = (\<lambda>_. Some []), rsa_key_from_der = (\<lambda>_. Some ()),
      signature_from_bytes = Some, rsa_verify = (\<lambda>_ _ sig. sig = [1, 2])\<rparr>"

definition example_header :: header where
  "example_header =
     \<lparr>hdr_bundle_version = 3, hdr_params = \<lparr>prm_k = 8, prm_w = 8, prm_hash_bits = 64\<rparr>,
      hdr_edm_salts = Map.empty, hdr_scope = [],
      hdr_counts = \<lparr>cnt_idm = 1, cnt_edm = 0, cnt_docs = 1\<rparr>,
      hdr_docs = [\<lparr>doc_version_id = lit ''v'', doc_document_id = lit ''d'',
                   doc_collection_id = lit ''c'', doc_title = lit ''t'', doc_fp_count = 1\<rparr>],
      hdr_edm_sources = []\<rparr>"

definition example_json :: "bytes \<Rightarrow> header option" where
  "example_json bs = (if bs = [123, 125] then Some example_header else None)"

definition example_file :: bytes where
  "example_file =
     MAGIC @ [1, 0] @ [2, 0, 0, 0] @ [123, 125] @ [8, 0, 0, 0] @ [1, 0, 0, 0] @ [255]
     @ [1, 0, 0, 0] @ [5, 0, 0, 0, 0, 0, 0, 0, 0, 0, 0, 0] @ [0, 0, 0, 0] @ [2, 0, 0, 0] @ [1, 2]"

definition example_bundle :: index_bundle where
  "example_bundle =
     \<lparr>bdl_format_version = 1, bdl_header = example_header,
      bdl_bloom = \<lparr>blm_m_bits = 8, blm_k_hashes = 1, blm_bits = [255]\<rparr>,
      bdl_idm = [\<lparr>idm_hash = 5, idm_doc_index = 0\<rparr>], bdl_edm = []\<rparr>"

lemma MAGIC_bytes: "MAGIC = [68, 76, 80, 88, 49]"
  by code_simp

lemmas load_eval =
  load_def locate_sections_def read_preamble_def read_bloom_def read_entries_def
  read_signature_def reader_u16_def reader_u32_def reader_take_def checked_add_def checked_mul_def
  verify_signature_def interpret_sections_def decode_idm_def decode_edm_def idm_key_def edm_key_def
  FORMAT_VERSION_def bloom_byte_len_def DEFAULT_K_def DEFAULT_W_def chunks_exact.simps
  MAGIC_bytes Let_def

lemma example_load: "load example_api example_json example_file [] = Inr example_bundle"
  by (simp add: load_eval example_api_def example_file_def example_json_def example_header_def
      example_bundle_def)

lemma example_load_bad_header: "load example_api (\<lambda>_. None) example_file [] = Inl HeaderNotJson"
  by (simp add: load_eval example_api_def example_file_def)

section \<open>Properties\<close>

text \<open>
  C4. Fail-closed loading. A bundle that loads has its CA signature verified over exactly
  the bytes in front of the signature field, the file holds nothing beyond prefix, length
  field and signature, and every structural invariant that the lookups and the matchers
  rely on holds: format version, matcher parameters, filter parameters and size, both
  sections strictly sorted, every document and source index in range, counts equal.
\<close>

theorem load_establishes_bundle_wf:
  assumes "load api parse_json bs ca = Inr b"
  shows "bundle_wf b \<and> (\<exists>prefix sig cert der key sg.
    bs = prefix @ to_le 4 (length sig) @ sig
    \<and> cert_from_pem api ca = Some cert \<and> spki_to_der api cert = Some der
    \<and> rsa_key_from_der api der = Some key \<and> signature_from_bytes api sig = Some sg
    \<and> rsa_verify api key prefix sg)"
proof
  show "bundle_wf b" by (rule load_wf [OF assms])
  from assms obtain s where s: "locate_sections bs = Inr s"
    and v: "verify_signature api (take (sec_signed_end s) bs) (sec_signature s) ca = Inr ()"
    by (auto simp: load_Inr)
  note whole = locate_sections_Inr(3) [OF s]
  show "\<exists>prefix sig cert der key sg.
    bs = prefix @ to_le 4 (length sig) @ sig
    \<and> cert_from_pem api ca = Some cert \<and> spki_to_der api cert = Some der
    \<and> rsa_key_from_der api der = Some key \<and> signature_from_bytes api sig = Some sg
    \<and> rsa_verify api key prefix sg"
    using v whole unfolding verify_signature_Inr by blast
qed

lemma load_establishes_bundle_wf_witness:
  "load example_api example_json example_file [] = Inr example_bundle \<and> bundle_wf example_bundle"
  using example_load load_establishes_bundle_wf [OF example_load] by blast

text \<open>
  Nothing is interpreted before the signature checks out: if the outcome of loading
  depends in any way on what the header parser makes of the bytes, then the CA signature
  over the prefix has been verified.
\<close>

theorem unverified_content_not_interpreted:
  assumes "load api parse_json bs ca \<noteq> load api parse_json' bs ca"
  shows "\<exists>s. locate_sections bs = Inr s
    \<and> verify_signature api (take (sec_signed_end s) bs) (sec_signature s) ca = Inr ()"
proof (cases "locate_sections bs")
  case (Inl e)
  with assms show ?thesis by (simp add: load_def)
next
  case (Inr s)
  with assms show ?thesis
    by (cases "verify_signature api (take (sec_signed_end s) bs) (sec_signature s) ca")
      (simp_all add: load_def)
qed

lemma unverified_content_not_interpreted_witness:
  "\<exists>s. locate_sections example_file = Inr s
    \<and> verify_signature example_api (take (sec_signed_end s) example_file) (sec_signature s) [] = Inr ()"
proof (rule unverified_content_not_interpreted)
  show "load example_api example_json example_file [] \<noteq> load example_api (\<lambda>_. None) example_file []"
    by (simp add: example_load example_load_bad_header)
qed

text \<open>
  The binary search with its run scan returns exactly the records of the hash, in
  section order, for both sections of a loaded bundle, and the filter answers for every
  hash without an index out of range or a remainder by zero.
\<close>

theorem bundle_lookups_exact:
  assumes "load api parse_json bs ca = Inr b"
  shows "lookup_idm b h = filter (\<lambda>e. idm_hash e = h) (bdl_idm b)
    \<and> lookup_edm b h = filter (\<lambda>e. edm_hash e = h) (bdl_edm b)
    \<and> (\<exists>r. bundle_bloom_has b h = Some r)"
  using load_wf [OF assms] by (simp add: idm.lookup_filter edm.lookup_filter bundle_bloom_has_total)

lemma bundle_lookups_exact_witness:
  "lookup_idm example_bundle 5 = [\<lparr>idm_hash = 5, idm_doc_index = 0\<rparr>]
    \<and> lookup_idm example_bundle 6 = [] \<and> (\<exists>r. bundle_bloom_has example_bundle 5 = Some r)"
  using bundle_lookups_exact [OF example_load, of 5] bundle_lookups_exact [OF example_load, of 6]
  by (simp add: example_bundle_def)

end
