(* ===== verification/Bundle_Builder.thy ===== *)
theory Bundle_Builder
  imports Bundle
begin

text \<open>
  The server's side of the bundle format (\<open>buildBloom\<close> and \<open>buildBundle\<close> of
  \<open>dlp-management-server/lib/indexBundle.js\<close>), so that the format is checked from both
  ends: what the server writes the agent reads back unchanged, and the filter that the
  server builds has no false negative in the agent's membership test.
\<close>

section \<open>Definitions\<close>

text \<open>
  \<open>buildBloom\<close> and \<open>buildBundle\<close> of the server. \<open>Buffer.writeUInt32LE\<close> raises on a value
  out of range, which the model shows by \<open>None\<close>.
\<close>

record bundle_data =
  dat_header :: header
  dat_idm :: "idm_entry list"
  dat_edm :: "edm_entry list"

definition set_bit :: "bytes \<Rightarrow> u64 \<Rightarrow> bytes" where
  "set_bit bits bt =
     (let i = unat (drop_bit 3 bt)
      in bits[i := (bits ! i) OR push_bit (unat (bt AND 7)) 1])"

definition bloom_m_bits_for :: "nat \<Rightarrow> nat" where
  "bloom_m_bits_for n = (let m = max 1024 (n * 10) in (m + 63) div 64 * 64)"

definition build_bloom :: "i64 list \<Rightarrow> bloom option" where
  "build_bloom hashes =
     (let distinct_hashes = dedup_seen {} hashes; m = bloom_m_bits_for (length distinct_hashes)
      in if 2 ^ 32 \<le> m then None
         else Some \<lparr>blm_m_bits = of_nat m, blm_k_hashes = 7,
           blm_bits = fold (\<lambda>h bits. fold (\<lambda>i bits. set_bit bits (bloom_bit (of_nat m) h i)) [0..<7] bits)
                        distinct_hashes (replicate (m div 8) 0)\<rparr>)"

definition encode_idm :: "idm_entry \<Rightarrow> bytes" where
  "encode_idm e = to_le 8 (unat (idm_hash e)) @ to_le 4 (unat (idm_doc_index e))"

definition encode_edm :: "edm_entry \<Rightarrow> bytes" where
  "encode_edm e = to_le 8 (unat (edm_hash e)) @ to_le 2 (unat (edm_source_index e))
     @ to_le 4 (unat (edm_row_id e)) @ to_le 2 (unat (edm_field_id e))"

definition u32le :: "nat \<Rightarrow> bytes option" where
  "u32le v = (if v < 2 ^ 32 then Some (to_le 4 v) else None)"

definition built_header :: "bundle_data \<Rightarrow> header" where
  "built_header d =
     (dat_header d)\<lparr>hdr_counts := \<lparr>cnt_idm = length (dat_idm d), cnt_edm = length (dat_edm d),
                                    cnt_docs = length (hdr_docs (dat_header d))\<rparr>\<rparr>"

definition build_unsigned :: "(header \<Rightarrow> bytes) \<Rightarrow> bundle_data \<Rightarrow> bytes option" where
  "build_unsigned to_json d =
     (let idm = sort_by (\<lambda>a b. idm_key a \<le> idm_key b) (dat_idm d);
          edm = sort_by (\<lambda>a b. edm_key a \<le> edm_key b) (dat_edm d);
          hj = to_json (built_header d)
      in case (u32le (length hj), build_bloom (map idm_hash idm @ map edm_hash edm),
               u32le (length idm), u32le (length edm)) of
           (Some hl, Some blm, Some ni, Some ne) \<Rightarrow>
             Some (MAGIC @ to_le 2 1 @ hl @ hj
               @ to_le 4 (unat (blm_m_bits blm)) @ to_le 4 (unat (blm_k_hashes blm)) @ blm_bits blm
               @ ni @ concat (map encode_idm idm) @ ne @ concat (map encode_edm edm))
         | _ \<Rightarrow> None)"

definition build_bundle :: "(header \<Rightarrow> bytes) \<Rightarrow> (bytes \<Rightarrow> bytes) \<Rightarrow> bundle_data \<Rightarrow> bytes option" where
  "build_bundle to_json sign d =
     (case build_unsigned to_json d of None \<Rightarrow> None
      | Some unsigned_part \<Rightarrow>
          let sig = sign unsigned_part
          in case u32le (length sig) of None \<Rightarrow> None
             | Some sl \<Rightarrow> Some (unsigned_part @ sl @ sig))"

text \<open>
  The document part of \<open>compileBundle\<close>: each ready document comes with the rows of its
  \<open>select distinct hash\<close>; its index is the number of documents before it.
\<close>

record doc_row =
  row_version_id :: ustring
  row_document_id :: ustring
  row_collection_id :: ustring
  row_title :: ustring
  row_hashes :: "i64 list"

definition compile_doc :: "doc_row \<Rightarrow> doc list \<times> idm_entry list \<Rightarrow> doc list \<times> idm_entry list" where
  "compile_doc row = (\<lambda>(docs, idm_entries).
     (docs @ [\<lparr>doc_version_id = row_version_id row, doc_document_id = row_document_id row,
               doc_collection_id = row_collection_id row, doc_title = row_title row,
               doc_fp_count = length (row_hashes row)\<rparr>],
      idm_entries @ map (\<lambda>h. \<lparr>idm_hash = h, idm_doc_index = of_nat (length docs)\<rparr>) (row_hashes row)))"

definition compile_docs :: "doc_row list \<Rightarrow> doc list \<times> idm_entry list" where
  "compile_docs rows = fold compile_doc rows ([], [])"

section \<open>The filter has no false negatives\<close>

definition probe_ok :: "bytes \<Rightarrow> u64 \<Rightarrow> bool" where
  "probe_ok bits bt \<longleftrightarrow> bit_set (bits ! unat (drop_bit 3 bt)) bt"

lemma length_set_bit [simp]: "length (set_bit bits bt) = length bits"
  by (simp add: set_bit_def Let_def)

lemma and_7_less: "unat (bt AND 7 :: u64) < 8"
proof -
  have "bt AND 7 \<le> 7" by (rule word_and_le1)
  then have "unat (bt AND 7) \<le> unat (7 :: u64)" by (simp only: word_le_nat_alt)
  then show ?thesis by simp
qed

lemma probe_ok_set_bit:
  assumes "unat (drop_bit 3 bt) < length bits"
  shows "probe_ok (set_bit bits bt) bt"
  using assms and_7_less [of bt]
  by (simp add: probe_ok_def set_bit_def Let_def bit_set_bit bit_or_iff bit_exp_iff)

lemma probe_ok_mono:
  assumes "unat (drop_bit 3 bt) < length bits" and "probe_ok bits bt"
  shows "probe_ok (set_bit bits bt') bt"
  using assms
  by (cases "unat (drop_bit 3 bt') = unat (drop_bit 3 bt)")
    (simp_all add: probe_ok_def set_bit_def Let_def bit_set_bit bit_or_iff)

lemma probe_ok_fold:
  assumes "\<forall>bt \<in> set bts. unat (drop_bit 3 bt) < length bits"
    and "unat (drop_bit 3 b) < length bits" and "b \<in> set bts \<or> probe_ok bits b"
  shows "probe_ok (fold (\<lambda>bt bits. set_bit bits bt) bts bits) b"
  using assms
proof (induction bts arbitrary: bits)
  case Nil
  then show ?case by simp
next
  case (Cons bt bts)
  then show ?case
    using probe_ok_set_bit [of bt bits] probe_ok_mono [of b bits bt] by auto
qed

lemma length_fold_set_bit: "length (fold (\<lambda>bt bits. set_bit bits bt) bts bits) = length bits"
  by (induction bts arbitrary: bits) simp_all

lemma fold_nested:
  "fold (\<lambda>h bits. fold (\<lambda>i bits. set_bit bits (f h i)) is bits) hs bits
     = fold (\<lambda>bt bits. set_bit bits bt) (concat (map (\<lambda>h. map (f h) is) hs)) bits"
  by (induction hs arbitrary: bits) (simp_all add: fold_map comp_def)

lemma build_bloom_Some:
  assumes "build_bloom hashes = Some b"
  shows "bloom_wf b" and "h \<in> set hashes \<Longrightarrow> bloom_has b h = Some True"
proof -
  define m where "m = bloom_m_bits_for (length (dedup_seen {} hashes))"
  have m: "m < 2 ^ 32" "1024 \<le> m" "m mod 64 = 0"
    using assms by (auto simp: build_bloom_def Let_def m_def bloom_m_bits_for_def split: if_splits)
  then have m8: "m mod 8 = 0" by presburger
  have um: "unat (of_nat m :: u32) = m" using m(1) by (simp add: unat_of_nat_in_range)
  let ?bts = "concat (map (\<lambda>h. map (bloom_bit (of_nat m) h) [0..<7]) (dedup_seen {} hashes))"
  let ?bits = "replicate (m div 8) (0 :: u8)"
  have b: "b = \<lparr>blm_m_bits = of_nat m, blm_k_hashes = 7,
      blm_bits = fold (\<lambda>bt bits. set_bit bits bt) ?bts ?bits\<rparr>"
    using assms by (auto simp: build_bloom_def Let_def fold_nested simp flip: m_def split: if_splits)
  have len: "bloom_byte_len (of_nat m) = m div 8" using um m8 by (simp add: bloom_byte_len_def)
  with m um show wf: "bloom_wf b"
    by (simp add: b bloom_wf_def length_fold_set_bit)
  have range: "unat (drop_bit 3 (bloom_bit (of_nat m) x i)) < length ?bits" for x i
    using byte_index_bound [OF unat_bloom_bit [of "of_nat m" x i]] um m len by simp
  show "bloom_has b h = Some True" if "h \<in> set hashes"
  proof -
    have "probe_ok (fold (\<lambda>bt bits. set_bit bits bt) ?bts ?bits) (bloom_bit (of_nat m) h i)" if "i < 7" for i
    proof (rule probe_ok_fold)
      show "\<forall>bt \<in> set ?bts. unat (drop_bit 3 bt) < length ?bits" using range by auto
      show "unat (drop_bit 3 (bloom_bit (of_nat m) h i)) < length ?bits" by (rule range)
      have "bloom_bit (of_nat m) h i \<in> set (map (bloom_bit (of_nat m) h) [0..<7])" using that by simp
      then show "bloom_bit (of_nat m) h i \<in> set ?bts \<or> probe_ok ?bits (bloom_bit (of_nat m) h i)"
        using \<open>h \<in> set hashes\<close> by (auto simp: set_dedup_seen)
    qed
    then show ?thesis
      by (simp add: bloom_has_wf [OF wf]) (simp add: b probe_ok_def)
  qed
qed

section \<open>Reading back what was written\<close>

text \<open>\<open>reads r rest\<close>: the reader stands in front of \<open>rest\<close>.\<close>

definition reads :: "reader \<Rightarrow> bytes \<Rightarrow> bool" where
  "reads r rest \<longleftrightarrow> rd_off r \<le> length (rd_buf r) \<and> length (rd_buf r) \<le> usize_max
     \<and> drop (rd_off r) (rd_buf r) = rest"

definition skip :: "reader \<Rightarrow> nat \<Rightarrow> reader" where
  "skip r n = r\<lparr>rd_off := rd_off r + n\<rparr>"

lemma reads_length: "reads r rest \<Longrightarrow> length (rd_buf r) = rd_off r + length rest"
  by (auto simp: reads_def)

lemma reads_skip: "reads r (xs @ rest) \<Longrightarrow> n = length xs \<Longrightarrow> reads (skip r n) rest"
proof -
  assume r: "reads r (xs @ rest)" and n: "n = length xs"
  have "drop (n + rd_off r) (rd_buf r) = drop n (xs @ rest)"
    using r by (simp add: reads_def flip: drop_drop)
  then have "drop (rd_off r + n) (rd_buf r) = rest" using n by (simp add: add.commute)
  then show ?thesis using r reads_length [OF r] n by (simp add: reads_def skip_def)
qed

lemma reader_take_reads:
  assumes "reads r (xs @ rest)" and "n = length xs"
  shows "reader_take r n what = Inr (xs, skip r n)"
proof -
  have "drop (rd_off r) (rd_buf r) = xs @ rest" and "length (rd_buf r) \<le> usize_max"
    using assms(1) by (simp_all add: reads_def)
  moreover have "length (rd_buf r) = rd_off r + length xs + length rest"
    using reads_length [OF assms(1)] by simp
  ultimately show ?thesis
    using assms(2) by (simp add: reader_take_Inr skip_def)
qed

lemma reader_u32_reads:
  assumes "reads r (to_le 4 v @ rest)"
  shows "reader_u32 r what = Inr (of_nat v, skip r 4)"
  using reader_take_reads [OF assms, of 4 what] by (simp add: reader_u32_def from_le_to_le_u32)

lemma reader_u16_reads:
  assumes "reads r (to_le 2 v @ rest)"
  shows "reader_u16 r what = Inr (of_nat v, skip r 2)"
  using reader_take_reads [OF assms, of 2 what] by (simp add: reader_u16_def from_le_to_le_u16)

lemma skip_skip [simp]: "skip (skip r m) n = skip r (m + n)"
  by (simp add: skip_def add.assoc)

lemma length_MAGIC [simp]: "length MAGIC = 5"
  by (simp add: MAGIC_bytes)

lemma read_preamble_reads:
  assumes "reads r (MAGIC @ to_le 2 1 @ to_le 4 (length hdr) @ hdr @ rest)" and "length hdr < 2 ^ 32"
  shows "read_preamble r = Inr (1, hdr, skip r (11 + length hdr)) \<and> reads (skip r (11 + length hdr)) rest"
proof -
  have a: "reads (skip r 5) (to_le 2 1 @ to_le 4 (length hdr) @ hdr @ rest)"
    by (rule reads_skip [OF assms(1)]) simp
  have b: "reads (skip r 7) (to_le 4 (length hdr) @ hdr @ rest)"
    using reads_skip [OF a, of 2] by simp
  have c: "reads (skip r 11) (hdr @ rest)"
    using reads_skip [OF b, of 4] by simp
  have "unat (of_nat (length hdr) :: u32) = length hdr"
    using assms(2) by (simp add: unat_of_nat_in_range)
  then have "read_preamble r = Inr (1, hdr, skip r (11 + length hdr))"
    using reader_take_reads [OF assms(1), of 5] reader_u16_reads [OF a] reader_u32_reads [OF b]
      reader_take_reads [OF c refl]
    by (simp add: read_preamble_def FORMAT_VERSION_def)
  with reads_skip [OF c refl] show ?thesis by simp
qed

lemma read_bloom_reads:
  assumes "reads r (to_le 4 (unat (blm_m_bits b)) @ to_le 4 (unat (blm_k_hashes b)) @ blm_bits b @ rest)"
    and "bloom_wf b"
  shows "read_bloom r = Inr (b, skip r (8 + length (blm_bits b))) \<and> reads (skip r (8 + length (blm_bits b))) rest"
proof -
  have a: "reads (skip r 4) (to_le 4 (unat (blm_k_hashes b)) @ blm_bits b @ rest)"
    by (rule reads_skip [OF assms(1)]) simp
  have c: "reads (skip r 8) (blm_bits b @ rest)"
    using reads_skip [OF a, of 4] by simp
  have "\<not> (blm_m_bits b < 8 \<or> blm_k_hashes b < 1 \<or> 64 < blm_k_hashes b)"
    and len: "length (blm_bits b) = bloom_byte_len (blm_m_bits b)"
    using assms(2) by (auto simp: bloom_wf_def word_less_nat_alt)
  then have "read_bloom r = Inr (b, skip r (8 + length (blm_bits b)))"
    using reader_u32_reads [OF assms(1)] reader_u32_reads [OF a] reader_take_reads [OF c len [symmetric]]
    by (simp add: read_bloom_def)
  with reads_skip [OF c refl] show ?thesis by simp
qed

lemma read_entries_reads:
  assumes "reads r (to_le 4 ni @ is @ to_le 4 ne @ es @ rest)"
    and "ni < 2 ^ 32" "ne < 2 ^ 32" "length is = ni * 12" "length es = ne * 16"
  shows "\<exists>r'. read_entries r = Inr (is, es, r') \<and> reads r' rest
    \<and> rd_buf r' = rd_buf r"
proof -
  have a: "reads (skip r 4) (is @ to_le 4 ne @ es @ rest)"
    by (rule reads_skip [OF assms(1)]) simp
  have b: "reads (skip r (4 + ni * 12)) (to_le 4 ne @ es @ rest)"
    using reads_skip [OF a, of "ni * 12"] assms(4) by simp
  have c: "reads (skip r (8 + ni * 12)) (es @ rest)"
    using reads_skip [OF b, of 4] by (simp add: add.commute add.left_commute)
  have u: "unat (of_nat ni :: u32) = ni" "unat (of_nat ne :: u32) = ne"
    using assms(2,3) by (simp_all add: unat_of_nat_in_range)
  have m: "checked_mul ni 12 = Some (ni * 12)" "checked_mul ne 16 = Some (ne * 16)"
    using assms(2,3) by (simp_all add: checked_mul_def)
  have "read_entries r = Inr (is, es, skip r (8 + ni * 12 + ne * 16))"
    using reader_u32_reads [OF assms(1)] reader_take_reads [OF a, of "ni * 12"] reader_u32_reads [OF b]
      reader_take_reads [OF c, of "ne * 16"] assms(4,5)
    by (simp add: read_entries_def u m add.commute add.left_commute)
  moreover have "reads (skip r (8 + ni * 12 + ne * 16)) rest"
    using reads_skip [OF c, of "ne * 16"] assms(5) by simp
  ultimately show ?thesis by (auto simp: skip_def)
qed

lemma read_signature_reads:
  assumes "reads r (to_le 4 (length sig) @ sig)" and "length sig < 2 ^ 32"
  shows "read_signature r = Inr (rd_off r, sig)"
proof -
  have a: "reads (skip r 4) (sig @ [])"
    using reads_skip [OF assms(1), of 4] by simp
  have "unat (of_nat (length sig) :: u32) = length sig"
    using assms(2) by (simp add: unat_of_nat_in_range)
  moreover have "rd_off (skip r (4 + length sig)) = length (rd_buf r)"
    using reads_length [OF assms(1)] by (simp add: skip_def)
  moreover have "rd_buf (skip r (4 + length sig)) = rd_buf r" by (simp add: skip_def)
  ultimately show ?thesis
    using reader_u32_reads [OF assms(1)] reader_take_reads [OF a refl]
    by (simp add: read_signature_def Let_def)
qed

lemma decode_encode_idm [simp]: "decode_idm (encode_idm e) = e"
  by (simp add: decode_idm_def encode_idm_def from_le_to_le_u64 from_le_to_le_u32)

lemma decode_encode_edm [simp]: "decode_edm (encode_edm e) = e"
  by (simp add: decode_edm_def encode_edm_def from_le_to_le_u64 from_le_to_le_u32 from_le_to_le_u16)

lemma length_encode_idm [simp]: "length (encode_idm e) = 12"
  by (simp add: encode_idm_def)

lemma length_encode_edm [simp]: "length (encode_edm e) = 16"
  by (simp add: encode_edm_def)

lemma length_concat_uniform: "\<forall>x \<in> set xs. length (f x) = n \<Longrightarrow> length (concat (map f xs)) = length xs * n"
  by (induction xs) simp_all

definition sorted_idm :: "bundle_data \<Rightarrow> idm_entry list" where
  "sorted_idm d = sort_by (\<lambda>a b. idm_key a \<le> idm_key b) (dat_idm d)"

definition sorted_edm :: "bundle_data \<Rightarrow> edm_entry list" where
  "sorted_edm d = sort_by (\<lambda>a b. edm_key a \<le> edm_key b) (dat_edm d)"

text \<open>What the server may assume of its data, and what makes it a valid bundle.\<close>

definition data_wf :: "bundle_data \<Rightarrow> bool" where
  "data_wf d \<longleftrightarrow>
     hdr_params (dat_header d) = \<lparr>prm_k = DEFAULT_K, prm_w = DEFAULT_W, prm_hash_bits = 64\<rparr>
     \<and> distinct (map idm_key (dat_idm d)) \<and> distinct (map edm_key (dat_edm d))
     \<and> (\<forall>e \<in> set (dat_idm d). unat (idm_doc_index e) < length (hdr_docs (dat_header d)))
     \<and> (\<forall>e \<in> set (dat_edm d). unat (edm_source_index e) < length (hdr_edm_sources (dat_header d)))"

lemma interpret_built:
  assumes "data_wf d" and "parse_json (sec_header s) = Some (built_header d)"
    and "sec_idm s = concat (map encode_idm (sorted_idm d))"
    and "sec_edm s = concat (map encode_edm (sorted_edm d))"
  shows "interpret_sections parse_json s =
    Inr \<lparr>bdl_format_version = sec_format_version s, bdl_header = built_header d,
         bdl_bloom = sec_bloom s, bdl_idm = sorted_idm d, bdl_edm = sorted_edm d\<rparr>"
proof -
  have "parse_idm (length (hdr_docs (dat_header d))) None (map encode_idm (sorted_idm d)) = Inr (sorted_idm d)"
    using assms(1) by (auto simp: parse_idm_iff opt_list_def comp_def data_wf_def sorted_idm_def
        strict_sorted_sort_by_key)
  moreover have "parse_edm (length (hdr_edm_sources (dat_header d))) None (map encode_edm (sorted_edm d))
      = Inr (sorted_edm d)"
    using assms(1) by (auto simp: parse_edm_iff opt_list_def comp_def data_wf_def sorted_edm_def
        strict_sorted_sort_by_key)
  moreover have "chunks_exact 12 (sec_idm s) = map encode_idm (sorted_idm d)"
    unfolding assms(3) by (rule chunks_exact_concat) auto
  moreover have "chunks_exact 16 (sec_edm s) = map encode_edm (sorted_edm d)"
    unfolding assms(4) by (rule chunks_exact_concat) auto
  moreover have "length (sorted_idm d) = length (dat_idm d)" "length (sorted_edm d) = length (dat_edm d)"
    by (simp_all add: sorted_idm_def sorted_edm_def)
  ultimately show ?thesis
    using assms(1,2) by (simp add: interpret_sections_def built_header_def data_wf_def)
qed

lemma build_unsigned_Some:
  assumes "build_unsigned to_json d = Some up"
  shows "\<exists>blm. build_bloom (map idm_hash (sorted_idm d) @ map edm_hash (sorted_edm d)) = Some blm
    \<and> length (to_json (built_header d)) < 2 ^ 32 \<and> length (dat_idm d) < 2 ^ 32 \<and> length (dat_edm d) < 2 ^ 32
    \<and> up = MAGIC @ to_le 2 1 @ to_le 4 (length (to_json (built_header d))) @ to_json (built_header d)
        @ to_le 4 (unat (blm_m_bits blm)) @ to_le 4 (unat (blm_k_hashes blm)) @ blm_bits blm
        @ to_le 4 (length (dat_idm d)) @ concat (map encode_idm (sorted_idm d))
        @ to_le 4 (length (dat_edm d)) @ concat (map encode_edm (sorted_edm d))"
  using assms
  by (auto simp: build_unsigned_def Let_def u32le_def simp flip: sorted_idm_def sorted_edm_def
      split: option.splits if_splits)
    (simp_all add: sorted_idm_def sorted_edm_def)

lemma locate_built:
  assumes "build_unsigned to_json d = Some up" and "length sig < 2 ^ 32"
    and "length (up @ to_le 4 (length sig) @ sig) \<le> usize_max"
  shows "\<exists>blm. build_bloom (map idm_hash (sorted_idm d) @ map edm_hash (sorted_edm d)) = Some blm
    \<and> locate_sections (up @ to_le 4 (length sig) @ sig) =
      Inr \<lparr>sec_format_version = 1, sec_header = to_json (built_header d), sec_bloom = blm,
           sec_idm = concat (map encode_idm (sorted_idm d)), sec_edm = concat (map encode_edm (sorted_edm d)),
           sec_signed_end = length up, sec_signature = sig\<rparr>"
proof -
  let ?hj = "to_json (built_header d)" and ?r = "\<lparr>rd_buf = up @ to_le 4 (length sig) @ sig, rd_off = 0\<rparr>"
  from build_unsigned_Some [OF assms(1)] obtain blm where
    blm: "build_bloom (map idm_hash (sorted_idm d) @ map edm_hash (sorted_edm d)) = Some blm"
    and lens: "length ?hj < 2 ^ 32" "length (dat_idm d) < 2 ^ 32" "length (dat_edm d) < 2 ^ 32"
    and up: "up = MAGIC @ to_le 2 1 @ to_le 4 (length ?hj) @ ?hj
        @ to_le 4 (unat (blm_m_bits blm)) @ to_le 4 (unat (blm_k_hashes blm)) @ blm_bits blm
        @ to_le 4 (length (dat_idm d)) @ concat (map encode_idm (sorted_idm d))
        @ to_le 4 (length (dat_edm d)) @ concat (map encode_edm (sorted_edm d))"
    by blast
  have r0: "reads ?r (up @ to_le 4 (length sig) @ sig)" using assms(3) by (simp add: reads_def)
  obtain r1 where r1: "read_preamble ?r = Inr (1, ?hj, r1)" "rd_buf r1 = rd_buf ?r"
    "reads r1 (to_le 4 (unat (blm_m_bits blm)) @ to_le 4 (unat (blm_k_hashes blm)) @ blm_bits blm
        @ to_le 4 (length (dat_idm d)) @ concat (map encode_idm (sorted_idm d))
        @ to_le 4 (length (dat_edm d)) @ concat (map encode_edm (sorted_edm d)) @ to_le 4 (length sig) @ sig)"
    using read_preamble_reads [of ?r ?hj, OF _ lens(1)] r0 unfolding up by (auto simp: skip_def)
  obtain r2 where r2: "read_bloom r1 = Inr (blm, r2)" "rd_buf r2 = rd_buf r1"
    "reads r2 (to_le 4 (length (dat_idm d)) @ concat (map encode_idm (sorted_idm d))
        @ to_le 4 (length (dat_edm d)) @ concat (map encode_edm (sorted_edm d)) @ to_le 4 (length sig) @ sig)"
    using read_bloom_reads [OF r1(3) build_bloom_Some(1) [OF blm]] by (auto simp: skip_def)
  obtain r3 where r3: "read_entries r2 =
      Inr (concat (map encode_idm (sorted_idm d)), concat (map encode_edm (sorted_edm d)), r3)"
    "rd_buf r3 = rd_buf r2" "reads r3 (to_le 4 (length sig) @ sig)"
    using read_entries_reads [OF r2(3) lens(2,3)]
    by (auto simp: length_concat_uniform [where n = 12] length_concat_uniform [where n = 16]
        sorted_idm_def sorted_edm_def)
  have "rd_off r3 = length up"
    using reads_length [OF r3(3)] r1(2) r2(2) r3(2) by simp
  then have "read_signature r3 = Inr (length up, sig)"
    using read_signature_reads [OF r3(3) assms(2)] by simp
  with blm r1(1) r2(1) r3(1) show ?thesis
    by (simp add: locate_sections_def)
qed

section \<open>Loading what was built\<close>

lemma server_bundle_loads:
  assumes "build_bundle to_json sign d = Some bs" and "length bs \<le> usize_max" and "data_wf d"
    and "parse_json (to_json (built_header d)) = Some (built_header d)"
    and "\<And>msg. verify_signature api msg (sign msg) ca = Inr ()"
  shows "\<exists>b. load api parse_json bs ca = Inr b \<and> bdl_header b = built_header d
    \<and> mset (bdl_idm b) = mset (dat_idm d) \<and> mset (bdl_edm b) = mset (dat_edm d)
    \<and> (\<forall>e. e \<in> set (dat_idm d) \<longrightarrow> bundle_bloom_has b (idm_hash e) = Some True)
    \<and> (\<forall>e. e \<in> set (dat_edm d) \<longrightarrow> bundle_bloom_has b (edm_hash e) = Some True)"
proof -
  obtain up where up: "build_unsigned to_json d = Some up"
    and sig: "length (sign up) < 2 ^ 32" and bs: "bs = up @ to_le 4 (length (sign up)) @ sign up"
    using assms(1)
    by (auto simp: build_bundle_def Let_def u32le_def split: option.splits if_splits)
  from locate_built [OF up sig] assms(2) obtain blm where
    blm: "build_bloom (map idm_hash (sorted_idm d) @ map edm_hash (sorted_edm d)) = Some blm"
    and loc: "locate_sections bs =
      Inr \<lparr>sec_format_version = 1, sec_header = to_json (built_header d), sec_bloom = blm,
           sec_idm = concat (map encode_idm (sorted_idm d)), sec_edm = concat (map encode_edm (sorted_edm d)),
           sec_signed_end = length up, sec_signature = sign up\<rparr>"
    unfolding bs by blast
  let ?b = "\<lparr>bdl_format_version = 1, bdl_header = built_header d, bdl_bloom = blm,
      bdl_idm = sorted_idm d, bdl_edm = sorted_edm d\<rparr>"
  have "take (length up) bs = up" by (simp add: bs)
  then have "load api parse_json bs ca = Inr ?b"
    using interpret_built [OF assms(3), of parse_json] assms(4,5) by (simp add: load_def loc)
  moreover have "bundle_bloom_has ?b h = Some True"
    if "h \<in> set (map idm_hash (sorted_idm d) @ map edm_hash (sorted_edm d))" for h
    using build_bloom_Some(2) [OF blm that] by (simp add: bundle_bloom_has_def)
  ultimately show ?thesis
    by (intro exI [of _ ?b]) (auto simp: sorted_idm_def sorted_edm_def mset_sort_by)
qed

text \<open>What \<open>compileBundle\<close> hands to the builder for its documents.\<close>

definition row_doc :: "doc_row \<Rightarrow> doc" where
  "row_doc row = \<lparr>doc_version_id = row_version_id row, doc_document_id = row_document_id row,
     doc_collection_id = row_collection_id row, doc_title = row_title row,
     doc_fp_count = length (row_hashes row)\<rparr>"

lemma upt_0_Suc: "[0..<Suc n] = 0 # map Suc [0..<n]"
  by (simp add: map_Suc_upt upt_conv_Cons del: upt_Suc)

lemma compile_fold:
  "fold compile_doc rows (docs, es) = (docs @ map row_doc rows,
     es @ concat (map (\<lambda>i. map (\<lambda>h. \<lparr>idm_hash = h, idm_doc_index = of_nat (length docs + i)\<rparr>) (row_hashes (rows ! i)))
       [0..<length rows]))"
proof (induction rows arbitrary: docs es)
  case (Cons r rows)
  have "compile_doc r (docs, es) = (docs @ [row_doc r],
      es @ map (\<lambda>h. \<lparr>idm_hash = h, idm_doc_index = of_nat (length docs)\<rparr>) (row_hashes r))"
    by (simp add: compile_doc_def row_doc_def)
  then show ?case by (simp add: Cons.IH upt_0_Suc comp_def del: upt_Suc of_nat_add)
qed simp

lemma distinct_concat_upt:
  assumes "\<And>i. i < n \<Longrightarrow> distinct (f i)"
    and "\<And>i j. i < j \<Longrightarrow> j < n \<Longrightarrow> set (f i) \<inter> set (f j) = {}"
  shows "distinct (concat (map f [0..<n]))"
  using assms by (induction n) (auto, metis disjoint_iff lessI)

lemma compile_docs_eq:
  "compile_docs rows = (map row_doc rows,
     concat (map (\<lambda>i. map (\<lambda>h. \<lparr>idm_hash = h, idm_doc_index = of_nat i\<rparr>) (row_hashes (rows ! i))) [0..<length rows]))"
  by (simp add: compile_docs_def compile_fold)

lemma compile_docs_entry:
  assumes "length rows < 2 ^ 32"
  shows "e \<in> set (snd (compile_docs rows)) \<longleftrightarrow>
    unat (idm_doc_index e) < length rows \<and> idm_hash e \<in> set (row_hashes (rows ! unat (idm_doc_index e)))"
proof -
  have "unat (of_nat i :: u32) = i" if "i < length rows" for i
    using that assms by (simp add: unat_of_nat_in_range)
  then show ?thesis
    by (cases e) (force simp: compile_docs_eq intro!: bexI [of _ "unat (idm_doc_index e)"])
qed

lemma compile_docs_distinct:
  assumes "length rows < 2 ^ 32" and "list_all (\<lambda>r. distinct (row_hashes r)) rows"
  shows "distinct (map idm_key (snd (compile_docs rows)))"
proof -
  have nat: "unat (of_nat i :: u32) = i" if "i < length rows" for i
    using that assms(1) by (simp add: unat_of_nat_in_range)
  have "of_nat i \<noteq> (of_nat j :: u32)" if "i < j" "j < length rows" for i j
    using that nat [of i] nat [of j] by auto
  then have "distinct (snd (compile_docs rows))"
    unfolding compile_docs_eq snd_conv using assms(2)
    by (intro distinct_concat_upt) (auto simp: distinct_map inj_on_def list_all_length)
  moreover have "inj_on idm_key A" for A
    by (auto simp: inj_on_def idm_key_def intro: idm_entry.equality)
  ultimately show ?thesis by (simp add: distinct_map)
qed

section \<open>Properties\<close>

text \<open>
  C6. Round trip of the bundle format across the two programs: a bundle that the server
  builds from well-formed data and signs loads on the agent, with the header, both
  record sets (sorted) and the filter unchanged; and the filter answers \<open>true\<close> for the
  hash of every record, so the pre-filter never hides a protected document.
\<close>

theorem server_bundle_round_trip:
  assumes "build_bundle to_json sign d = Some bs" and "length bs \<le> usize_max" and "data_wf d"
    and "parse_json (to_json (built_header d)) = Some (built_header d)"
    and "\<And>msg. verify_signature api msg (sign msg) ca = Inr ()"
  shows "\<exists>b. load api parse_json bs ca = Inr b \<and> bdl_header b = built_header d
    \<and> mset (bdl_idm b) = mset (dat_idm d) \<and> mset (bdl_edm b) = mset (dat_edm d)
    \<and> (\<forall>e. e \<in> set (dat_idm d) \<longrightarrow> bundle_bloom_has b (idm_hash e) = Some True)
    \<and> (\<forall>e. e \<in> set (dat_edm d) \<longrightarrow> bundle_bloom_has b (edm_hash e) = Some True)"
  using assms by (rule server_bundle_loads)

definition example_data :: "i64 \<Rightarrow> bundle_data" where
  "example_data h =
     \<lparr>dat_header = example_header, dat_idm = [\<lparr>idm_hash = h, idm_doc_index = 0\<rparr>], dat_edm = []\<rparr>"

lemma example_build_length:
  "\<exists>bs. build_bundle (\<lambda>_. [123, 125]) (\<lambda>_. [1, 2]) (example_data h) = Some bs \<and> length bs \<le> usize_max"
proof -
  let ?blm = "\<lparr>blm_m_bits = 1024, blm_k_hashes = 7,
      blm_bits = fold (\<lambda>i bits. set_bit bits (bloom_bit 1024 h i)) [0..<7] (replicate 128 0)\<rparr>"
  have "length (fold (\<lambda>i bits. set_bit bits (bloom_bit 1024 h i)) is bits) = length bits" for "is" bits
    by (induction "is" arbitrary: bits) simp_all
  moreover have "build_bloom [h] = Some ?blm"
    by (simp add: build_bloom_def bloom_m_bits_for_def Let_def)
  ultimately show ?thesis
    by (simp add: build_bundle_def build_unsigned_def example_data_def sort_by_def u32le_def Let_def
        del: upt_Suc)
qed

lemma example_built_header: "built_header (example_data h) = example_header"
  by (simp add: built_header_def example_data_def example_header_def)

lemma server_bundle_round_trip_witness:
  "\<exists>bs b. build_bundle (\<lambda>_. [123, 125]) (\<lambda>_. [1, 2]) (example_data 5) = Some bs
    \<and> load example_api example_json bs [] = Inr b \<and> bundle_bloom_has b 5 = Some True"
proof -
  obtain bs where bs: "build_bundle (\<lambda>_. [123, 125]) (\<lambda>_. [1, 2]) (example_data 5) = Some bs"
    and len: "length bs \<le> usize_max"
    using example_build_length by blast
  have "data_wf (example_data 5)"
    by (simp add: data_wf_def example_data_def example_header_def DEFAULT_K_def DEFAULT_W_def)
  moreover have "example_json [123, 125] = Some (built_header (example_data 5))"
    by (simp add: example_json_def built_header_def example_data_def example_header_def)
  moreover have "verify_signature example_api msg [1, 2] [] = Inr ()" for msg
    by (simp add: verify_signature_def example_api_def)
  ultimately show ?thesis
    using server_bundle_round_trip [OF bs len, of example_json example_api "[]"] bs
    by (force simp: example_data_def)
qed

end
