(* ===== verification/Edm.thy ===== *)
theory Edm
  imports Bundle
begin

text \<open>
  Exact data matching, \<open>detect/edm.rs\<close>: the typed normalization of cell values, the
  salted cell hash, the candidates that the token stream may contain, and the matcher
  with its proximity rule. SHA-256 is the argument \<open>sha256\<close>; the byte positions of the
  source index ASCII text only, so they are list positions here.
\<close>

section \<open>Typed normalization\<close>

definition PROXIMITY_WINDOW_CHARS :: nat where
  "PROXIMITY_WINDOW_CHARS = 300"

definition MIN_MATCHED_FIELDS :: nat where
  "MIN_MATCHED_FIELDS = 2"

definition MAX_NGRAM_TOKENS :: nat where
  "MAX_NGRAM_TOKENS = 4"

text \<open>The optional fraction: \<open>None\<close> for a point without digits.\<close>

definition split_fraction :: "ustring \<Rightarrow> (ustring \<times> ustring) option" where
  "split_fraction s =
     (case s of
        c # r \<Rightarrow>
          if c = 46 then
            let frc = takeWhile is_ascii_digit r
            in if frc = [] then None else Some (frc, dropWhile is_ascii_digit r)
          else Some ([], s)
      | [] \<Rightarrow> Some ([], []))"

definition split_sign :: "ustring \<Rightarrow> ustring \<times> ustring" where
  "split_sign s =
     (case s of
        c # r \<Rightarrow> if c = 43 then ([], r) else if c = 45 then ([45], r) else ([], s)
      | [] \<Rightarrow> ([], []))"

definition canonical_number :: "ustring \<Rightarrow> ustring \<Rightarrow> ustring \<Rightarrow> ustring" where
  "canonical_number sign int_part frac_part =
     (let t = trim_start_matches (\<lambda>c. c = 48) int_part;
          i = (if t = [] then [48] else t);
          f = trim_end_matches (\<lambda>c. c = 48) frac_part;
          out = (if f = [] then i else i @ [46] @ f)
      in if out = [48] then [48] else sign @ out)"

definition strip_grouping :: "ustring \<Rightarrow> ustring" where
  "strip_grouping s = filter (\<lambda>c. c \<noteq> 44 \<and> c \<noteq> 95 \<and> \<not> is_whitespace c) s"

definition normalize_number :: "ustring \<Rightarrow> ustring option" where
  "normalize_number s =
     (let (sign, r) = split_sign (strip_grouping s);
          int_part = takeWhile is_ascii_digit r
      in if int_part = [] then None
         else case split_fraction (dropWhile is_ascii_digit r) of
                None \<Rightarrow> None
              | Some (frc, rest) \<Rightarrow>
                  if rest \<noteq> [] then None else Some (canonical_number sign int_part frc))"

definition MONTHS :: "ustring list" where
  "MONTHS = map lit [''january'', ''february'', ''march'', ''april'', ''may'', ''june'',
     ''july'', ''august'', ''september'', ''october'', ''november'', ''december'']"

fun position :: "('a \<Rightarrow> bool) \<Rightarrow> 'a list \<Rightarrow> nat option" where
  "position p [] = None"
| "position p (x # xs) = (if p x then Some 0 else map_option Suc (position p xs))"

definition month_from_name :: "ustring \<Rightarrow> nat option" where
  "month_from_name word =
     (if length word < 3 \<or> \<not> list_all is_ascii_alphabetic word then None
      else let lower = to_ascii_lowercase word
      in case position (\<lambda>m. starts_with m (take 3 lower)) MONTHS of
           None \<Rightarrow> None
         | Some i \<Rightarrow>
             if 3 < length lower \<and> lower \<noteq> MONTHS ! i then None else Some (i + 1))"

definition is_leap_year :: "nat \<Rightarrow> bool" where
  "is_leap_year year \<longleftrightarrow> (year mod 4 = 0 \<and> year mod 100 \<noteq> 0) \<or> year mod 400 = 0"

definition days_in_month :: "nat \<Rightarrow> nat \<Rightarrow> nat" where
  "days_in_month year month =
     (if month \<in> {1, 3, 5, 7, 8, 10, 12} then 31
      else if month \<in> {4, 6, 9, 11} then 30
      else if month = 2 then (if is_leap_year year then 29 else 28)
      else 0)"

definition to_iso_date :: "nat \<Rightarrow> nat \<Rightarrow> nat \<Rightarrow> ustring option" where
  "to_iso_date day month year =
     (if \<not> (1 \<le> month \<and> month \<le> 12) \<or> day < 1 \<or> days_in_month year month < day then None
      else Some (show_nat year @ [45] @ show_padded 2 month @ [45] @ show_padded 2 day))"

text \<open>The \<open>dd Mon yyyy\<close> shape, after the day digits; the three numeric shapes.\<close>

definition named_date :: "ustring \<Rightarrow> ustring \<Rightarrow> ustring option" where
  "named_date d1 r =
     (let r1 = dropWhile is_ascii_whitespace r;
          word = takeWhile is_ascii_alphabetic r1;
          r2 = dropWhile is_ascii_alphabetic r1;
          r3 = dropWhile is_ascii_whitespace r2;
          y = takeWhile is_ascii_digit r3;
          r4 = dropWhile is_ascii_digit r3
      in if 3 \<le> length word \<and> length r3 < length r2 \<and> length y = 4 \<and> r4 = []
         then (case month_from_name word of None \<Rightarrow> None
               | Some month \<Rightarrow> to_iso_date (digits_value d1) month (digits_value y))
         else None)"

definition numeric_date :: "ustring \<Rightarrow> uchar \<Rightarrow> ustring \<Rightarrow> uchar \<Rightarrow> ustring \<Rightarrow> ustring option" where
  "numeric_date d1 sep1 d2 sep2 d3 =
     (if length d1 \<le> 2 \<and> length d2 \<le> 2 \<and> length d3 = 4
      then to_iso_date (digits_value d1) (digits_value d2) (digits_value d3)
      else if length d1 = 4 \<and> length d2 \<le> 2 \<and> length d3 \<le> 2 \<and> sep1 = 45 \<and> sep2 = 45
      then to_iso_date (digits_value d3) (digits_value d2) (digits_value d1)
      else None)"

definition is_date_sep :: "uchar \<Rightarrow> bool" where
  "is_date_sep c \<longleftrightarrow> c = 47 \<or> c = 45"

definition normalize_date :: "ustring \<Rightarrow> ustring option" where
  "normalize_date s =
     (let d1 = takeWhile is_ascii_digit s; r1 = dropWhile is_ascii_digit s
      in if d1 = [] then None
         else case r1 of
           [] \<Rightarrow> None
         | sep1 # r2 \<Rightarrow>
             if length d1 \<le> 2 \<and> is_ascii_whitespace sep1 then named_date d1 r1
             else if \<not> is_date_sep sep1 then None
             else let d2 = takeWhile is_ascii_digit r2; r3 = dropWhile is_ascii_digit r2
             in if d2 = [] then None
                else case r3 of
                  [] \<Rightarrow> None
                | sep2 # r4 \<Rightarrow>
                    if \<not> is_date_sep sep2 then None
                    else let d3 = takeWhile is_ascii_digit r4; r5 = dropWhile is_ascii_digit r4
                    in if d3 = [] \<or> r5 \<noteq> [] then None else numeric_date d1 sep1 d2 sep2 d3)"

definition normalize_field :: "unicode \<Rightarrow> ustring \<Rightarrow> ustring \<Rightarrow> ustring option" where
  "normalize_field u value field_type =
     (let s = trim value in
      if s = [] then None
      else if field_type = lit ''text'' then
        (let n = normalize u s in if canonical n = [] then None else Some (canonical n))
      else if field_type = lit ''id'' then
        (let out = to_uppercase u (filter (is_letter_or_number u) (nfkc u s))
         in if out = [] then None else Some out)
      else if field_type = lit ''number'' then normalize_number s
      else if field_type = lit ''date'' then normalize_date s
      else None)"

section \<open>Salted hashing\<close>

definition hash_field :: "(bytes \<Rightarrow> bytes) \<Rightarrow> bytes \<Rightarrow> u16 \<Rightarrow> ustring \<Rightarrow> i64" where
  "hash_field sha256 salt field_id normalized_value =
     of_nat (be_nat (take 8 (sha256 (salt @ to_be 2 (unat field_id) @ utf8 normalized_value))))"

definition hex_digit :: "u8 \<Rightarrow> nat option" where
  "hex_digit b =
     (let c = unat b in
      if 48 \<le> c \<and> c \<le> 57 then Some (c - 48)
      else if 97 \<le> c \<and> c \<le> 102 then Some (c - 87)
      else if 65 \<le> c \<and> c \<le> 70 then Some (c - 55)
      else None)"

text \<open>\<open>u8::from_str_radix\<close> on two bytes: one leading plus sign is accepted.\<close>

definition hex_pair :: "u8 \<Rightarrow> u8 \<Rightarrow> u8 option" where
  "hex_pair a b =
     (if a = 43 then map_option of_nat (hex_digit b)
      else case (hex_digit a, hex_digit b) of
        (Some x, Some y) \<Rightarrow> Some (of_nat (16 * x + y))
      | _ \<Rightarrow> None)"

fun hex_pairs :: "bytes \<Rightarrow> bytes option" where
  "hex_pairs (a # b # r) =
     (case hex_pair a b of None \<Rightarrow> None
      | Some v \<Rightarrow> (case hex_pairs r of None \<Rightarrow> None | Some vs \<Rightarrow> Some (v # vs)))"
| "hex_pairs _ = Some []"

definition hex_decode :: "ustring \<Rightarrow> bytes option" where
  "hex_decode s = (if str_len s mod 2 \<noteq> 0 \<or> s = [] then None else hex_pairs (utf8 s))"

section \<open>Candidates\<close>

record candidate =
  cand_value :: ustring
  cand_pos :: nat

definition all_ascii_digits :: "ustring \<Rightarrow> bool" where
  "all_ascii_digits s \<longleftrightarrow> s \<noteq> [] \<and> list_all is_ascii_digit s"

definition date_from_window :: "ustring \<Rightarrow> ustring \<Rightarrow> ustring \<Rightarrow> ustring option" where
  "date_from_window t0 t1 t2 =
     (if all_ascii_digits t0 \<and> length t0 = 4 \<and> all_ascii_digits t1 \<and> length t1 \<le> 2
         \<and> all_ascii_digits t2 \<and> length t2 \<le> 2
      then to_iso_date (digits_value t2) (digits_value t1) (digits_value t0)
      else if all_ascii_digits t0 \<and> length t0 \<le> 2 \<and> all_ascii_digits t2 \<and> length t2 = 4
      then (if all_ascii_digits t1 \<and> length t1 \<le> 2
            then to_iso_date (digits_value t0) (digits_value t1) (digits_value t2)
            else case month_from_name t1 of
                   Some month \<Rightarrow> to_iso_date (digits_value t0) month (digits_value t2)
                 | None \<Rightarrow> None)
      else None)"

definition ngram_candidates ::
  "(ustring list \<Rightarrow> ustring) \<Rightarrow> ustring list \<Rightarrow> nat list \<Rightarrow> candidate list" where
  "ngram_candidates glue ts starts =
     concat (map (\<lambda>n. map (\<lambda>i. \<lparr>cand_value = glue (take n (drop i ts)), cand_pos = starts ! i\<rparr>)
                        [0..<Suc (length ts - n)])
               [1..<Suc (min MAX_NGRAM_TOKENS (length ts))])"

definition opt_candidate :: "nat \<Rightarrow> ustring option \<Rightarrow> candidate list" where
  "opt_candidate pos v = (case v of None \<Rightarrow> [] | Some x \<Rightarrow> [\<lparr>cand_value = x, cand_pos = pos\<rparr>])"

definition number_candidates :: "ustring list \<Rightarrow> nat list \<Rightarrow> candidate list" where
  "number_candidates ts starts =
     concat (map (\<lambda>i. opt_candidate (starts ! i) (normalize_number (ts ! i))
        @ (if i + 1 < length ts \<and> all_ascii_digits (ts ! i) \<and> all_ascii_digits (ts ! (i + 1))
           then opt_candidate (starts ! i) (normalize_number (ts ! i @ [46] @ ts ! (i + 1)))
           else [])) [0..<length ts])"

definition date_candidates :: "ustring list \<Rightarrow> nat list \<Rightarrow> candidate list" where
  "date_candidates ts starts =
     concat (map (\<lambda>i. opt_candidate (starts ! i) (normalize_date (ts ! i))
        @ (if i + 2 < length ts
           then opt_candidate (starts ! i) (date_from_window (ts ! i) (ts ! (i + 1)) (ts ! (i + 2)))
           else [])) [0..<length ts])"

definition candidates_for_type ::
  "unicode \<Rightarrow> ustring list \<Rightarrow> nat list \<Rightarrow> ustring \<Rightarrow> candidate list" where
  "candidates_for_type u ts starts field_type =
     (if field_type = lit ''text'' then ngram_candidates (join [space]) ts starts
      else if field_type = lit ''id'' then ngram_candidates (\<lambda>g. to_uppercase u (concat g)) ts starts
      else if field_type = lit ''number'' then number_candidates ts starts
      else if field_type = lit ''date'' then date_candidates ts starts
      else [])"

section \<open>Matching\<close>

record edm_row_hit =
  rh_row_id :: u32
  rh_fields :: "ustring list"

record edm_source_hit =
  sh_source_id :: ustring
  sh_name :: ustring
  sh_rows_hit :: "edm_row_hit list"

text \<open>Character offset of each token in the canonical text.\<close>

fun token_starts :: "nat \<Rightarrow> ustring list \<Rightarrow> nat list" where
  "token_starts pos [] = []"
| "token_starts pos (t # ts) = pos # token_starts (pos + length t + 1) ts"

text \<open>
  The inner scan of the proximity rule over the cells from \<open>base\<close> on; \<open>None\<close> would be a
  subtraction below zero.
\<close>

fun scan_window :: "nat \<Rightarrow> u16 set \<Rightarrow> (nat \<times> u16) list \<Rightarrow> u16 set \<Rightarrow> bool \<Rightarrow> (u16 set \<times> bool) option" where
  "scan_window base primary [] fids has_primary = Some (fids, has_primary)"
| "scan_window base primary ((pos, field_id) # cells) fids has_primary =
     (if pos < base then None
      else if PROXIMITY_WINDOW_CHARS < pos - base then Some (fids, has_primary)
      else scan_window base primary cells (insert field_id fids) (has_primary \<or> field_id \<in> primary))"

fun row_qualifies :: "u16 set \<Rightarrow> (nat \<times> u16) list \<Rightarrow> bool option" where
  "row_qualifies primary [] = Some False"
| "row_qualifies primary (c # cells) =
     (case scan_window (fst c) primary (c # cells) {} False of
        None \<Rightarrow> None
      | Some (fids, has_primary) \<Rightarrow>
          if MIN_MATCHED_FIELDS \<le> card fids \<and> has_primary then Some True
          else row_qualifies primary cells)"

text \<open>The cells that one candidate of one field contributes, row by row.\<close>

definition candidate_cells ::
  "(bytes \<Rightarrow> bytes) \<Rightarrow> index_bundle \<Rightarrow> nat \<Rightarrow> bytes \<Rightarrow> edm_field \<times> candidate
   \<Rightarrow> (u32 \<times> nat \<times> u16) list option" where
  "candidate_cells sha256 b source_index salt fc =
     (let field = fst fc; cand = snd fc;
          hash = hash_field sha256 salt (fld_field_id field) (cand_value cand)
      in case bundle_bloom_has b hash of
           None \<Rightarrow> None
         | Some has \<Rightarrow>
             if \<not> has then Some []
             else Some (map (\<lambda>e. (edm_row_id e, cand_pos cand, fld_field_id field))
               (filter (\<lambda>e. unat (edm_source_index e) = source_index
                          \<and> edm_field_id e = fld_field_id field) (lookup_edm b hash))))"

definition field_candidates ::
  "unicode \<Rightarrow> edm_source \<Rightarrow> ustring list \<Rightarrow> (edm_field \<times> candidate) list" where
  "field_candidates u source ts =
     concat (map (\<lambda>f. map (Pair f) (candidates_for_type u ts (token_starts 0 ts) (fld_type f)))
               (src_fields source))"

definition source_rows ::
  "unicode \<Rightarrow> (bytes \<Rightarrow> bytes) \<Rightarrow> index_bundle \<Rightarrow> nat \<Rightarrow> edm_source \<Rightarrow> bytes \<Rightarrow> ustring list
   \<Rightarrow> (u32 \<times> (nat \<times> u16) list) list option" where
  "source_rows u sha256 b source_index source salt ts =
     map_option (\<lambda>cells. fold (\<lambda>(k, v). bt_push k v) (concat cells) [])
       (try_map (candidate_cells sha256 b source_index salt) (field_candidates u source ts))"

definition primary_fields :: "edm_source \<Rightarrow> u16 set" where
  "primary_fields source = fld_field_id ` set (filter fld_primary (src_fields source))"

definition field_names :: "edm_source \<Rightarrow> (nat \<times> u16) list \<Rightarrow> ustring list" where
  "field_names source cells =
     List.map_filter (\<lambda>i. map_option fld_name (find (\<lambda>f. fld_field_id f = i) (src_fields source)))
       (sorted_list_of_set (snd ` set cells))"

definition row_hit :: "edm_source \<Rightarrow> u32 \<times> (nat \<times> u16) list \<Rightarrow> edm_row_hit list option" where
  "row_hit source row =
     (let cells = remdups_adj (sort (snd row))
      in case row_qualifies (primary_fields source) cells of
           None \<Rightarrow> None
         | Some q \<Rightarrow>
             if \<not> q then Some []
             else Some [\<lparr>rh_row_id = fst row, rh_fields = field_names source cells\<rparr>])"

definition source_hit ::
  "unicode \<Rightarrow> (bytes \<Rightarrow> bytes) \<Rightarrow> index_bundle \<Rightarrow> ustring list \<Rightarrow> nat \<times> edm_source
   \<Rightarrow> edm_source_hit list option" where
  "source_hit u sha256 b ts is =
     (let source = snd is in
      case Option.bind (hdr_edm_salts (bdl_header b) (src_source_id source)) hex_decode of
        None \<Rightarrow> Some []
      | Some salt \<Rightarrow>
          (case source_rows u sha256 b (fst is) source salt ts of
             None \<Rightarrow> None
           | Some rows \<Rightarrow>
               (case try_map (row_hit source) rows of
                  None \<Rightarrow> None
                | Some hits \<Rightarrow>
                    let rows_hit = concat hits
                    in if rows_hit = [] then Some []
                       else Some [\<lparr>sh_source_id = src_source_id source, sh_name = src_name source,
                                   sh_rows_hit = rows_hit\<rparr>])))"

definition match_edm ::
  "unicode \<Rightarrow> (bytes \<Rightarrow> bytes) \<Rightarrow> index_bundle \<Rightarrow> ustring list \<Rightarrow> edm_source_hit list option" where
  "match_edm u sha256 b ts =
     (if ts = [] then Some []
      else map_option concat
        (try_map (source_hit u sha256 b ts)
          (List.enumerate 0 (hdr_edm_sources (bdl_header b)))))"

section \<open>The proximity rule\<close>

text \<open>The cells within the window that starts at \<open>base\<close>, and when they qualify.\<close>

definition window_cells :: "(nat \<times> u16) set \<Rightarrow> nat \<Rightarrow> (nat \<times> u16) set" where
  "window_cells C base = {x \<in> C. base \<le> fst x \<and> fst x \<le> base + PROXIMITY_WINDOW_CHARS}"

definition fields_qualify :: "u16 set \<Rightarrow> u16 set \<Rightarrow> bool" where
  "fields_qualify primary F \<longleftrightarrow> MIN_MATCHED_FIELDS \<le> card F \<and> F \<inter> primary \<noteq> {}"

definition proximity :: "u16 set \<Rightarrow> (nat \<times> u16) set \<Rightarrow> bool" where
  "proximity primary C \<longleftrightarrow> (\<exists>c \<in> C. fields_qualify primary (snd ` window_cells C (fst c)))"

lemma scan_window_sorted:
  assumes "sorted (map fst cells)" and "\<forall>c \<in> set cells. base \<le> fst c"
  shows "scan_window base primary cells F hp =
    Some (F \<union> snd ` window_cells (set cells) base,
      hp \<or> snd ` window_cells (set cells) base \<inter> primary \<noteq> {})"
  using assms
proof (induction cells arbitrary: F hp)
  case Nil
  show ?case by (simp add: window_cells_def)
next
  case (Cons c cells)
  obtain pos f where c: "c = (pos, f)" by fastforce
  show ?case
  proof (cases "PROXIMITY_WINDOW_CHARS < pos - base")
    case True
    with Cons.prems c have "window_cells (set (c # cells)) base = {}"
      by (fastforce simp: window_cells_def)
    with True Cons.prems c show ?thesis by simp
  next
    case False
    with Cons.prems c have "window_cells (set (c # cells)) base = insert c (window_cells (set cells) base)"
      by (auto simp: window_cells_def)
    with False Cons c show ?thesis by auto
  qed
qed

lemma fields_qualify_mono:
  "fields_qualify primary F \<Longrightarrow> F \<subseteq> G \<Longrightarrow> finite G \<Longrightarrow> fields_qualify primary G"
  using card_mono [of G F] by (auto simp: fields_qualify_def)

lemma proximity_Cons:
  assumes "\<forall>x \<in> set cells. fst c \<le> fst x"
  shows "proximity primary (set (c # cells)) \<longleftrightarrow>
    fields_qualify primary (snd ` window_cells (set (c # cells)) (fst c)) \<or> proximity primary (set cells)"
proof
  assume "proximity primary (set (c # cells))"
  then obtain d where d: "d \<in> set (c # cells)"
    and q: "fields_qualify primary (snd ` window_cells (set (c # cells)) (fst d))"
    unfolding proximity_def by blast
  show "fields_qualify primary (snd ` window_cells (set (c # cells)) (fst c)) \<or> proximity primary (set cells)"
  proof (cases "fst d = fst c")
    case True
    with q show ?thesis by simp
  next
    case False
    with d assms have "d \<in> set cells" and "fst c < fst d" by force+
    then have "window_cells (set (c # cells)) (fst d) = window_cells (set cells) (fst d)"
      by (auto simp: window_cells_def)
    with q \<open>d \<in> set cells\<close> show ?thesis by (auto simp: proximity_def)
  qed
next
  assume "fields_qualify primary (snd ` window_cells (set (c # cells)) (fst c)) \<or> proximity primary (set cells)"
  then show "proximity primary (set (c # cells))"
  proof
    assume "proximity primary (set cells)"
    then obtain d where "d \<in> set cells" "fields_qualify primary (snd ` window_cells (set cells) (fst d))"
      by (auto simp: proximity_def)
    moreover have "snd ` window_cells (set cells) (fst d) \<subseteq> snd ` window_cells (set (c # cells)) (fst d)"
      by (auto simp: window_cells_def)
    moreover have "finite (snd ` window_cells (set (c # cells)) (fst d))"
      by (simp add: window_cells_def)
    ultimately have "fields_qualify primary (snd ` window_cells (set (c # cells)) (fst d))"
      by (metis fields_qualify_mono)
    with \<open>d \<in> set cells\<close> show ?thesis unfolding proximity_def by (meson list.set_intros(2))
  qed (auto simp: proximity_def)
qed

lemma row_qualifies_proximity:
  assumes "sorted (map fst cells)"
  shows "row_qualifies primary cells = Some (proximity primary (set cells))"
  using assms
proof (induction cells)
  case Nil
  show ?case by (simp add: proximity_def)
next
  case (Cons c cells)
  then have ge: "\<forall>x \<in> set cells. fst c \<le> fst x" by auto
  let ?W = "snd ` window_cells (set (c # cells)) (fst c)"
  have "scan_window (fst c) primary (c # cells) {} False = Some (?W, ?W \<inter> primary \<noteq> {})"
    using scan_window_sorted [OF Cons.prems, of "fst c" primary "{}" False] ge by simp
  then show ?case
    using Cons proximity_Cons [OF ge, of primary]
    by (simp del: scan_window.simps) (auto simp: fields_qualify_def)
qed

section \<open>Rows and evidence\<close>

text \<open>
  Evidence for a cell: a candidate value of the field occurs at the position, the bundle
  holds its salted hash for this source, row and field, and the filter lets it pass.
\<close>

definition cell_evidence ::
  "unicode \<Rightarrow> (bytes \<Rightarrow> bytes) \<Rightarrow> index_bundle \<Rightarrow> nat \<Rightarrow> edm_source \<Rightarrow> bytes \<Rightarrow> ustring list
   \<Rightarrow> u32 \<Rightarrow> (nat \<times> u16) set" where
  "cell_evidence u sha256 b source_index source salt ts row =
     {(pos, fid). \<exists>field cand e.
        (field, cand) \<in> set (field_candidates u source ts) \<and> fid = fld_field_id field
        \<and> pos = cand_pos cand \<and> e \<in> set (bdl_edm b)
        \<and> edm_hash e = hash_field sha256 salt fid (cand_value cand)
        \<and> bundle_bloom_has b (edm_hash e) = Some True
        \<and> unat (edm_source_index e) = source_index \<and> edm_row_id e = row \<and> edm_field_id e = fid}"

lemma candidate_cells_total:
  assumes "bundle_wf b"
  shows "\<exists>cells. candidate_cells sha256 b si salt fc = Some cells"
proof -
  obtain field cand where fc: "fc = (field, cand)" by fastforce
  obtain r where "bundle_bloom_has b (hash_field sha256 salt (fld_field_id field) (cand_value cand)) = Some r"
    using bundle_bloom_has_total [OF assms] by blast
  with fc show ?thesis by (simp add: candidate_cells_def Let_def)
qed

lemma candidate_cells_set:
  assumes "bundle_wf b" and "candidate_cells sha256 b si salt (field, cand) = Some cells"
  shows "(row, pos, fid) \<in> set cells \<longleftrightarrow>
    fid = fld_field_id field \<and> pos = cand_pos cand \<and> (\<exists>e \<in> set (bdl_edm b).
      edm_hash e = hash_field sha256 salt fid (cand_value cand)
      \<and> bundle_bloom_has b (edm_hash e) = Some True
      \<and> unat (edm_source_index e) = si \<and> edm_row_id e = row \<and> edm_field_id e = fid)"
proof -
  let ?h = "hash_field sha256 salt (fld_field_id field) (cand_value cand)"
  obtain r where r: "bundle_bloom_has b ?h = Some r"
    using bundle_bloom_has_total [OF assms(1)] by blast
  have cells: "cells = (if r then map (\<lambda>e. (edm_row_id e, cand_pos cand, fld_field_id field))
      (filter (\<lambda>e. unat (edm_source_index e) = si \<and> edm_field_id e = fld_field_id field) (lookup_edm b ?h))
      else [])"
    using assms(2) r by (auto simp: candidate_cells_def Let_def)
  show ?thesis
  proof (cases r)
    case True
    then show ?thesis using r unfolding cells by (auto simp: edm.lookup_iff [OF assms(1)])
  next
    case False
    then show ?thesis using r unfolding cells by auto
  qed
qed

lemma candidate_cells_mem:
  assumes "bundle_wf b"
  shows "(\<exists>cells. candidate_cells sha256 b si salt (field, cand) = Some cells \<and> (row, pos, fid) \<in> set cells)
    \<longleftrightarrow> fid = fld_field_id field \<and> pos = cand_pos cand \<and> (\<exists>e \<in> set (bdl_edm b).
      edm_hash e = hash_field sha256 salt fid (cand_value cand)
      \<and> bundle_bloom_has b (edm_hash e) = Some True
      \<and> unat (edm_source_index e) = si \<and> edm_row_id e = row \<and> edm_field_id e = fid)"
proof -
  obtain cells where cells: "candidate_cells sha256 b si salt (field, cand) = Some cells"
    using candidate_cells_total [OF assms] by blast
  show ?thesis using candidate_cells_set [OF assms cells] by (simp add: cells)
qed

lemma try_map_total:
  assumes "\<And>x. x \<in> set xs \<Longrightarrow> \<exists>y. f x = Some y"
  shows "\<exists>ys. try_map f xs = Some ys"
  using assms by (induction xs) fastforce+

lemma try_map_concat_iff:
  assumes "try_map f xs = Some yss"
  shows "z \<in> set (concat yss) \<longleftrightarrow> (\<exists>x \<in> set xs. \<exists>ys. f x = Some ys \<and> z \<in> set ys)"
  using assms by (induction xs arbitrary: yss) (fastforce split: option.splits)+

lemma source_rows_total:
  assumes "bundle_wf b"
  shows "\<exists>rows. source_rows u sha256 b si source salt ts = Some rows"
  using try_map_total [of "field_candidates u source ts" "candidate_cells sha256 b si salt"]
    candidate_cells_total [OF assms]
  by (fastforce simp: source_rows_def)

lemma source_rows_iff:
  assumes "bundle_wf b" and "source_rows u sha256 b si source salt ts = Some rows"
  shows "(\<forall>row cells. (row, cells) \<in> set rows \<longrightarrow> set cells = cell_evidence u sha256 b si source salt ts row)
    \<and> (\<forall>row. row \<in> fst ` set rows \<longleftrightarrow> cell_evidence u sha256 b si source salt ts row \<noteq> {})"
proof -
  obtain css where css: "try_map (candidate_cells sha256 b si salt) (field_candidates u source ts) = Some css"
    and rows: "rows = fold (\<lambda>(k, v). bt_push k v) (concat css) []"
    using assms(2) by (auto simp: source_rows_def)
  have ev: "(row, c) \<in> set (concat css) \<longleftrightarrow> c \<in> cell_evidence u sha256 b si source salt ts row" for row c
  proof (cases c)
    case (Pair pos fid)
    have "(row, pos, fid) \<in> set (concat css) \<longleftrightarrow>
        (\<exists>field cand. (field, cand) \<in> set (field_candidates u source ts)
           \<and> (\<exists>cells. candidate_cells sha256 b si salt (field, cand) = Some cells \<and> (row, pos, fid) \<in> set cells))"
      unfolding try_map_concat_iff [OF css] by auto
    also have "\<dots> \<longleftrightarrow> c \<in> cell_evidence u sha256 b si source salt ts row"
      unfolding candidate_cells_mem [OF assms(1)] using Pair by (auto simp: cell_evidence_def)
    finally show ?thesis using Pair by simp
  qed
  then have "{c. (row, c) \<in> set (concat css)} = cell_evidence u sha256 b si source salt ts row" for row
    by blast
  moreover have "set cells = {c. (row, c) \<in> set (concat css)}" if "(row, cells) \<in> set rows" for row cells
    using bt.buckets_pushes_set [of row cells "concat css"] that unfolding rows by simp
  moreover have "row \<in> fst ` set rows \<longleftrightarrow> (\<exists>c. (row, c) \<in> set (concat css))" for row
    using bt.buckets_pushes_keys [of row "concat css"] unfolding rows by simp
  ultimately show ?thesis by blast
qed

lemma sorted_map_fst: "sorted xs \<Longrightarrow> sorted (map fst xs)"
  for xs :: "('a::linorder \<times> 'b::linorder) list"
  by (induction xs) (auto simp: less_eq_prod_def)

lemma sorted_remdups_adj: "sorted xs \<Longrightarrow> sorted (remdups_adj xs)"
  by (induction xs rule: remdups_adj.induct) auto

lemma row_hit_proximity:
  "row_hit source (row, cells) =
     Some (if proximity (primary_fields source) (set cells)
       then [\<lparr>rh_row_id = row, rh_fields = field_names source (remdups_adj (sort cells))\<rparr>] else [])"
proof -
  have "sorted (map fst (remdups_adj (sort cells)))"
    by (intro sorted_map_fst sorted_remdups_adj) simp
  then show ?thesis
    by (simp add: row_hit_def Let_def row_qualifies_proximity)
qed

lemma source_hit_rows:
  assumes "bundle_wf b"
    and "Option.bind (hdr_edm_salts (bdl_header b) (src_source_id source)) hex_decode = Some salt"
  shows "\<exists>hits. source_hit u sha256 b ts (si, source) = Some hits
    \<and> (\<forall>row. row \<in> rh_row_id ` set (concat (map sh_rows_hit hits)) \<longleftrightarrow>
        proximity (primary_fields source) (cell_evidence u sha256 b si source salt ts row))"
proof -
  obtain rows where rows: "source_rows u sha256 b si source salt ts = Some rows"
    using source_rows_total [OF assms(1)] by blast
  let ?h = "\<lambda>(row, cells). if proximity (primary_fields source) (set cells)
       then [\<lparr>rh_row_id = row, rh_fields = field_names source (remdups_adj (sort cells))\<rparr>] else []"
  have tm: "try_map (row_hit source) rows = Some (map ?h rows)"
    by (rule try_map_Some) (auto simp: row_hit_proximity)
  let ?rh = "concat (map ?h rows)"
  define hits where "hits = (if ?rh = [] then []
      else [\<lparr>sh_source_id = src_source_id source, sh_name = src_name source, sh_rows_hit = ?rh\<rparr>])"
  have "source_hit u sha256 b ts (si, source) = Some hits"
    using assms(2) rows tm by (auto simp: source_hit_def Let_def hits_def)
  moreover have "concat (map sh_rows_hit hits) = ?rh" by (simp add: hits_def)
  moreover have "row \<in> rh_row_id ` set ?rh \<longleftrightarrow>
      proximity (primary_fields source) (cell_evidence u sha256 b si source salt ts row)" for row
  proof -
    have "row \<in> rh_row_id ` set ?rh \<longleftrightarrow>
        (\<exists>cells. (row, cells) \<in> set rows \<and> proximity (primary_fields source) (set cells))"
      by (force simp: image_iff split: if_splits)
    then show ?thesis
      using source_rows_iff [OF assms(1) rows] by (fastforce simp: proximity_def image_iff)
  qed
  ultimately show ?thesis by metis
qed

lemma source_hit_total:
  assumes "bundle_wf b"
  shows "\<exists>hits. source_hit u sha256 b ts is = Some hits"
proof (cases "Option.bind (hdr_edm_salts (bdl_header b) (src_source_id (snd is))) hex_decode")
  case None
  then show ?thesis by (simp add: source_hit_def Let_def)
next
  case (Some salt)
  with source_hit_rows [OF assms, of "snd is" salt u sha256 ts "fst is"] show ?thesis by auto
qed

lemma match_edm_total [panic_free]:
  assumes "bundle_wf b"
  shows "\<exists>hits. match_edm u sha256 b ts = Some hits"
  using try_map_total [OF source_hit_total [OF assms]] by (fastforce simp: match_edm_def)

text \<open>The rows reported for a source, over all hits that carry its id.\<close>

definition reported_rows :: "edm_source_hit list \<Rightarrow> ustring \<Rightarrow> u32 set" where
  "reported_rows hits source_id =
     {row. \<exists>h \<in> set hits. sh_source_id h = source_id \<and> row \<in> rh_row_id ` set (sh_rows_hit h)}"

lemma source_hit_id:
  "source_hit u sha256 b ts is = Some hits \<Longrightarrow> h \<in> set hits \<Longrightarrow> sh_source_id h = src_source_id (snd is)"
  by (auto simp: source_hit_def Let_def split: option.splits if_splits)

lemma match_edm_hits:
  assumes "match_edm u sha256 b ts = Some hits" and "ts \<noteq> []"
  shows "h \<in> set hits \<longleftrightarrow> (\<exists>si < length (hdr_edm_sources (bdl_header b)). \<exists>hs.
    source_hit u sha256 b ts (si, hdr_edm_sources (bdl_header b) ! si) = Some hs \<and> h \<in> set hs)"
proof -
  obtain hss where "try_map (source_hit u sha256 b ts)
      (List.enumerate 0 (hdr_edm_sources (bdl_header b))) = Some hss" and "hits = concat hss"
    using assms by (auto simp: match_edm_def)
  then show ?thesis
    using try_map_concat_iff by (fastforce simp: in_set_enumerate_eq)
qed

lemma match_edm_reported:
  assumes wf: "bundle_wf b" and ts: "ts \<noteq> []"
    and ids: "distinct (map src_source_id (hdr_edm_sources (bdl_header b)))"
    and si: "si < length (hdr_edm_sources (bdl_header b))"
      "source = hdr_edm_sources (bdl_header b) ! si"
    and salt: "Option.bind (hdr_edm_salts (bdl_header b) (src_source_id source)) hex_decode = Some salt"
    and hits: "match_edm u sha256 b ts = Some hits"
  shows "row \<in> reported_rows hits (src_source_id source) \<longleftrightarrow>
    proximity (primary_fields source) (cell_evidence u sha256 b si source salt ts row)"
proof -
  obtain hs where hs: "source_hit u sha256 b ts (si, source) = Some hs"
    and rows: "row \<in> rh_row_id ` set (concat (map sh_rows_hit hs)) \<longleftrightarrow>
      proximity (primary_fields source) (cell_evidence u sha256 b si source salt ts row)"
    using source_hit_rows [OF wf salt, of u sha256 ts si] by blast
  have "h \<in> set hits \<and> sh_source_id h = src_source_id source \<longleftrightarrow> h \<in> set hs" for h
  proof
    assume h: "h \<in> set hits \<and> sh_source_id h = src_source_id source"
    then obtain sj hs' where sj: "sj < length (hdr_edm_sources (bdl_header b))"
      and hs': "source_hit u sha256 b ts (sj, hdr_edm_sources (bdl_header b) ! sj) = Some hs'" "h \<in> set hs'"
      using match_edm_hits [OF hits ts] by blast
    from source_hit_id [OF hs'] h have "map src_source_id (hdr_edm_sources (bdl_header b)) ! sj
        = map src_source_id (hdr_edm_sources (bdl_header b)) ! si" using si sj by simp
    with ids si(1) sj have "sj = si" by (metis length_map nth_eq_iff_index_eq)
    with hs hs' si show "h \<in> set hs" by simp
  next
    assume "h \<in> set hs"
    with hs si source_hit_id [OF hs] show "h \<in> set hits \<and> sh_source_id h = src_source_id source"
      using match_edm_hits [OF hits ts] by auto
  qed
  then have "row \<in> reported_rows hits (src_source_id source) \<longleftrightarrow> row \<in> rh_row_id ` set (concat (map sh_rows_hit hs))"
    by (auto simp: reported_rows_def)
  with rows show ?thesis by simp
qed

section \<open>An example source\<close>

definition edm_example_source :: edm_source where
  "edm_example_source = \<lparr>src_source_id = lit ''s'', src_name = lit ''people'',
     src_fields = [\<lparr>fld_field_id = 1, fld_name = lit ''name'', fld_type = lit ''text'', fld_primary = True\<rparr>,
       \<lparr>fld_field_id = 2, fld_name = lit ''born'', fld_type = lit ''date'', fld_primary = False\<rparr>]\<rparr>"

text \<open>A stand-in digest that keeps the last byte, enough to tell the two cells apart.\<close>

definition edm_example_sha256 :: "bytes \<Rightarrow> bytes" where
  "edm_example_sha256 m = replicate 7 0 @ [last m] @ replicate 24 0"

definition edm_example_bundle :: index_bundle where
  "edm_example_bundle = example_bundle \<lparr>
     bdl_header := example_header \<lparr>hdr_edm_salts := [lit ''s'' \<mapsto> lit ''01''],
       hdr_edm_sources := [edm_example_source], hdr_counts := \<lparr>cnt_idm = 1, cnt_edm = 2, cnt_docs = 1\<rparr>\<rparr>,
     bdl_edm := [\<lparr>edm_hash = 50, edm_source_index = 0, edm_row_id = 7, edm_field_id = 2\<rparr>,
                 \<lparr>edm_hash = 98, edm_source_index = 0, edm_row_id = 7, edm_field_id = 1\<rparr>]\<rparr>"

definition edm_example_tokens :: "ustring list" where
  "edm_example_tokens = map lit [''bob'', ''1990'', ''07'', ''02'']"

lemma edm_example_wf: "bundle_wf edm_example_bundle"
  by (simp add: bundle_wf_def edm_example_bundle_def example_bundle_def example_header_def
    header_wf_def bloom_wf_def idm_sorted_def edm_sorted_def edm_key_def FORMAT_VERSION_def
    DEFAULT_K_def DEFAULT_W_def bloom_byte_len_def word_sless_alt)

lemma edm_example_candidates:
  "(src_fields edm_example_source ! 0, \<lparr>cand_value = lit ''bob'', cand_pos = 0\<rparr>)
     \<in> set (field_candidates ascii_tables edm_example_source edm_example_tokens)"
  "(src_fields edm_example_source ! 1, \<lparr>cand_value = lit ''1990-07-02'', cand_pos = 4\<rparr>)
     \<in> set (field_candidates ascii_tables edm_example_source edm_example_tokens)"
  by code_simp+

lemma edm_example_hashes:
  "hash_field edm_example_sha256 [1] 1 (lit ''bob'') = 98"
  "hash_field edm_example_sha256 [1] 2 (lit ''1990-07-02'') = 50"
  by code_simp+
lemma edm_example_salt:
  "Option.bind (hdr_edm_salts (bdl_header edm_example_bundle) (src_source_id edm_example_source)) hex_decode = Some [1]"
  by code_simp

lemma edm_example_evidence:
  "{(0, 1), (4, 2)} \<subseteq> cell_evidence ascii_tables edm_example_sha256 edm_example_bundle 0 edm_example_source [1]
     edm_example_tokens 7"
proof -
  have ones: "bundle_bloom_has edm_example_bundle h = Some True" for h
    by (rule bloom_all_ones [OF edm_example_wf]) (simp add: edm_example_bundle_def example_bundle_def)
  have es: "bdl_edm edm_example_bundle = [\<lparr>edm_hash = 50, edm_source_index = 0, edm_row_id = 7, edm_field_id = 2\<rparr>,
      \<lparr>edm_hash = 98, edm_source_index = 0, edm_row_id = 7, edm_field_id = 1\<rparr>]"
    by (simp add: edm_example_bundle_def)
  have "(0, 1) \<in> cell_evidence ascii_tables edm_example_sha256 edm_example_bundle 0 edm_example_source [1]
      edm_example_tokens 7"
    unfolding cell_evidence_def mem_Collect_eq prod.case
    by (rule exI, rule exI, rule exI [of _ "bdl_edm edm_example_bundle ! 1"],
        rule conjI [OF edm_example_candidates(1)])
      (simp add: ones edm_example_hashes es edm_example_source_def)
  moreover have "(4, 2) \<in> cell_evidence ascii_tables edm_example_sha256 edm_example_bundle 0 edm_example_source [1]
      edm_example_tokens 7"
    unfolding cell_evidence_def mem_Collect_eq prod.case
    by (rule exI, rule exI, rule exI [of _ "bdl_edm edm_example_bundle ! 0"],
        rule conjI [OF edm_example_candidates(2)])
      (simp add: ones edm_example_hashes es edm_example_source_def)
  ultimately show ?thesis by blast
qed

lemma proximity_two:
  assumes "{(p, f), (q, g)} \<subseteq> C" and "finite (snd ` C)" and "f \<in> primary" and "f \<noteq> g"
    and "p \<le> q" and "q \<le> p + PROXIMITY_WINDOW_CHARS"
  shows "proximity primary C"
proof -
  let ?W = "snd ` window_cells C p"
  have "{f, g} \<subseteq> ?W" using assms by (force simp: window_cells_def)
  moreover have "finite ?W" by (rule finite_subset [OF _ assms(2)]) (auto simp: window_cells_def)
  ultimately have "fields_qualify primary ?W"
    using assms(3,4) card_mono [of ?W "{f, g}"] by (auto simp: fields_qualify_def MIN_MATCHED_FIELDS_def)
  moreover have "(p, f) \<in> C" using assms(1) by simp
  ultimately show ?thesis unfolding proximity_def by (metis fst_conv)
qed

section \<open>Canonical numbers\<close>

lemma canonical_int:
  assumes "list_all is_ascii_digit s"
  shows "(let t = trim_start_matches (\<lambda>c. c = 48) s in if t = [] then [48] else t) = show_nat (digits_value s)"
proof -
  let ?t = "dropWhile (\<lambda>c. c = 48) s"
  have d: "list_all is_ascii_digit ?t" using assms by (auto simp: list_all_iff dest: set_dropWhileD)
  show ?thesis
  proof (cases "?t = []")
    case True
    with digits_value_leading_zeros [of s] show ?thesis
      by (simp add: trim_start_matches_def show_nat.simps [of 0])
  next
    case False
    from False hd_dropWhile [OF False] have "show_nat (digits_value ?t) = ?t"
      by (intro show_nat_digits_value [OF d]) simp_all
    with False show ?thesis by (simp only: trim_start_matches_def digits_value_leading_zeros Let_def if_False)
  qed
qed

text \<open>The value of a fraction, and its canonical digits.\<close>

definition fraction_value :: "ustring \<Rightarrow> rat" where
  "fraction_value f = of_nat (digits_value f) / 10 ^ length f"

lemma fraction_value_range: "list_all is_ascii_digit f \<Longrightarrow> 0 \<le> fraction_value f \<and> fraction_value f < 1"
  using digits_value_bound [of f] of_nat_less_iff [of "digits_value f" "10 ^ length f", where ?'a = rat]
  by (simp add: fraction_value_def)

lemma fraction_value_trim: "fraction_value (trim_end_matches (\<lambda>c. c = 48) f) = fraction_value f"
proof (induction f rule: rev_induct)
  case (snoc c f)
  then show ?case
    by (cases "c = 48") (simp_all add: trim_end_matches_def fraction_value_def)
qed (simp add: trim_end_matches_def)

lemma trim_end_trimmed: "trim_end_matches P s = [] \<or> \<not> P (last (trim_end_matches P s))"
  using hd_dropWhile [of P "rev s"] by (auto simp: trim_end_matches_def last_rev)

lemma fraction_value_longer:
  assumes "length f < length g" and "list_all is_ascii_digit g" and "last g \<noteq> 48"
  shows "fraction_value f \<noteq> fraction_value g"
proof
  assume eq: "fraction_value f = fraction_value g"
  obtain n where n: "length g = length f + Suc n" using assms(1) less_iff_Suc_add by auto
  have "(of_nat (digits_value g) :: rat) = of_nat (digits_value f * 10 ^ Suc n)"
    using eq unfolding fraction_value_def n by (simp add: field_simps power_add)
  then have "digits_value g = 10 * (digits_value f * 10 ^ n)" unfolding of_nat_eq_iff by simp
  moreover obtain g' c where g: "g = g' @ [c]" using assms(1) by (cases g rule: rev_cases) auto
  moreover obtain k where k: "c = 48 + k" "k < 10" using assms(2) g by (auto elim: ascii_digitE)
  ultimately have "10 * digits_value g' + k = 10 * (digits_value f * 10 ^ n)" by simp
  with k(2) have "k = 0" by presburger
  with assms(3) g k show False by simp
qed

lemma fraction_value_inj:
  assumes "list_all is_ascii_digit f" "list_all is_ascii_digit g"
    and "f = [] \<or> last f \<noteq> 48" "g = [] \<or> last g \<noteq> 48"
    and eq: "fraction_value f = fraction_value g"
  shows "f = g"
proof (cases "length f" "length g" rule: linorder_cases)
  case equal
  with eq have "digits_value f = digits_value g" by (simp add: fraction_value_def)
  with equal assms show ?thesis by (intro digits_value_inj)
next
  case less
  with fraction_value_longer [OF less assms(2)] assms(4) eq show ?thesis by auto
next
  case greater
  with fraction_value_longer [OF greater assms(1)] assms(3) eq show ?thesis by auto
qed

text \<open>The number that a cell denotes: sign, digits and fraction digits, grouping ignored.\<close>

definition signed_value :: "ustring \<Rightarrow> ustring \<Rightarrow> ustring \<Rightarrow> rat" where
  "signed_value sign i f =
     (if sign = [] then 1 else - 1) * (of_nat (digits_value i) + fraction_value f)"

definition number_value :: "ustring \<Rightarrow> rat" where
  "number_value s =
     (let (sign, r) = split_sign (strip_grouping s)
      in signed_value sign (takeWhile is_ascii_digit r)
           (takeWhile is_ascii_digit (tl (dropWhile is_ascii_digit r))))"

lemma takeWhile_digits: "list_all is_ascii_digit (takeWhile is_ascii_digit r)"
  by (auto simp: list_all_iff dest: set_takeWhileD)

lemma normalize_number_Some:
  assumes "normalize_number s = Some t"
  obtains sign i f where "t = canonical_number sign i f" "number_value s = signed_value sign i f"
    "list_all is_ascii_digit i" "list_all is_ascii_digit f" "sign = [] \<or> sign = [45]"
proof -
  obtain sign r where sr: "split_sign (strip_grouping s) = (sign, r)" by fastforce
  then have sign: "sign = [] \<or> sign = [45]" by (auto simp: split_sign_def split: list.splits if_splits)
  let ?i = "takeWhile is_ascii_digit r"
  let ?f = "takeWhile is_ascii_digit (tl (dropWhile is_ascii_digit r))"
  have "split_fraction d = Some (frc, []) \<Longrightarrow> frc = takeWhile is_ascii_digit (tl d)" for d frc
    by (auto simp: split_fraction_def Let_def split: list.splits if_splits)
  then have "t = canonical_number sign ?i ?f"
    using assms sr by (auto simp: normalize_number_def Let_def split: option.splits if_splits)
  moreover have "number_value s = signed_value sign ?i ?f" by (simp add: number_value_def sr)
  ultimately show ?thesis using that sign takeWhile_digits by blast
qed

definition canonical_fraction :: "ustring \<Rightarrow> ustring" where
  "canonical_fraction f = (if trim_end_matches (\<lambda>c. c = 48) f = [] then []
     else 46 # trim_end_matches (\<lambda>c. c = 48) f)"

lemma canonical_number_show:
  assumes "list_all is_ascii_digit i"
  shows "canonical_number sign i f =
    (if digits_value i = 0 \<and> trim_end_matches (\<lambda>c. c = 48) f = [] then [48]
     else sign @ show_nat (digits_value i) @ canonical_fraction f)"
proof -
  have "show_nat n = [48] \<longleftrightarrow> n = 0" for n
    using show_nat_inj [of n 0] by (auto simp: show_nat.simps [of 0])
  then show ?thesis
    using canonical_int [OF assms]
    by (cases "trim_end_matches (\<lambda>c. c = 48) f = []")
      (auto simp: canonical_number_def canonical_fraction_def Let_def append_eq_Cons_conv)
qed

lemma trim_end_digits: "list_all is_ascii_digit f \<Longrightarrow> list_all is_ascii_digit (trim_end_matches P f)"
  by (auto simp: trim_end_matches_def list_all_iff dest: set_dropWhileD)

lemma signed_value_zero:
  assumes "list_all is_ascii_digit f"
  shows "signed_value sign i f = 0 \<longleftrightarrow> digits_value i = 0 \<and> trim_end_matches (\<lambda>c. c = 48) f = []"
proof -
  have "fraction_value f = 0 \<longleftrightarrow> trim_end_matches (\<lambda>c. c = 48) f = []"
    using fraction_value_inj [of "trim_end_matches (\<lambda>c. c = 48) f" "[]"] trim_end_digits [OF assms]
      trim_end_trimmed [of "\<lambda>c. c = 48" f]
      fraction_value_trim [of f] fraction_value_def [of "[]"]
    by auto
  moreover have "0 \<le> fraction_value f" using fraction_value_range [OF assms] by simp
  ultimately show ?thesis by (auto simp: signed_value_def add_nonneg_eq_0_iff)
qed

lemma signs_agree:
  fixes p q :: rat
  assumes "(if A then 1 else - 1) * p = (if B then 1 else - 1) * q" and "(if A then 1 else - 1) * p \<noteq> 0"
    and "0 \<le> p" and "0 \<le> q"
  shows "A \<longleftrightarrow> B"
  using assms by (cases A; cases B) auto

lemma signed_value_inj:
  assumes "list_all is_ascii_digit f" and "list_all is_ascii_digit g"
    and "signed_value a i f = signed_value b j g" and "signed_value a i f \<noteq> 0"
  shows "(a = [] \<longleftrightarrow> b = []) \<and> digits_value i = digits_value j
    \<and> trim_end_matches (\<lambda>c. c = 48) f = trim_end_matches (\<lambda>c. c = 48) g"
proof -
  note rf = fraction_value_range [OF assms(1)] and rg = fraction_value_range [OF assms(2)]
  have sg: "a = [] \<longleftrightarrow> b = []"
  proof -
    have nonneg: "0 \<le> of_nat (digits_value i) + fraction_value f" "0 \<le> of_nat (digits_value j) + fraction_value g"
      using rf rg by simp_all
    show ?thesis
      by (rule signs_agree [OF _ _ nonneg]) (use assms(3,4) in \<open>simp_all only: signed_value_def not_False_eq_True\<close>)
  qed
  then have eq: "of_nat (digits_value i) + fraction_value f = of_nat (digits_value j) + fraction_value g"
    using assms(3) by (simp add: signed_value_def split: if_splits)
  have ij: "digits_value i = digits_value j"
  proof -
    have "floor (of_nat (digits_value i) + fraction_value f) = int (digits_value i)"
      "floor (of_nat (digits_value j) + fraction_value g) = int (digits_value j)"
      using rf rg by (simp_all add: floor_eq_iff)
    with eq show ?thesis by simp
  qed
  with eq have "fraction_value (trim_end_matches (\<lambda>c. c = 48) f) = fraction_value (trim_end_matches (\<lambda>c. c = 48) g)"
    by (simp add: fraction_value_trim)
  then have "trim_end_matches (\<lambda>c. c = 48) f = trim_end_matches (\<lambda>c. c = 48) g"
    by (rule fraction_value_inj [OF trim_end_digits [OF assms(1)] trim_end_digits [OF assms(2)]
      trim_end_trimmed trim_end_trimmed])
  with sg ij show ?thesis by simp
qed

lemma digit_not_grouping: "is_ascii_digit c \<Longrightarrow> c \<noteq> 44 \<and> c \<noteq> 95 \<and> \<not> is_whitespace c \<and> c \<noteq> 43 \<and> c \<noteq> 45 \<and> c \<noteq> 46"
  by (auto simp: is_ascii_digit_def is_whitespace_def)

lemma parse_canonical:
  assumes "list_all is_ascii_digit i" "i \<noteq> []" "list_all is_ascii_digit f" "sign = [] \<or> sign = [45]"
  shows "split_sign (strip_grouping (sign @ i @ (if f = [] then [] else 46 # f)))
      = (sign, i @ (if f = [] then [] else 46 # f))"
    and "takeWhile is_ascii_digit (i @ (if f = [] then [] else 46 # f)) = i"
    and "dropWhile is_ascii_digit (i @ (if f = [] then [] else 46 # f)) = (if f = [] then [] else 46 # f)"
proof -
  have d46: "\<not> is_ascii_digit 46" by (simp add: is_ascii_digit_def)
  have g: "strip_grouping (sign @ i @ (if f = [] then [] else 46 # f)) = sign @ i @ (if f = [] then [] else 46 # f)"
  proof -
    have ks: "filter (\<lambda>c. c \<noteq> 44 \<and> c \<noteq> 95 \<and> \<not> is_whitespace c) xs = xs" if "list_all is_ascii_digit xs" for xs
      using that digit_not_grouping by (induction xs) simp_all
    show ?thesis
      unfolding strip_grouping_def filter_append ks [OF assms(1)]
      using assms(3,4) ks [OF assms(3)] by (auto simp: is_whitespace_def)
  qed
  obtain c i' where i: "i = c # i'" "is_ascii_digit c" using assms by (cases i) auto
  then have "c \<noteq> 43" "c \<noteq> 45" using digit_not_grouping by blast+
  with assms(4) i show "split_sign (strip_grouping (sign @ i @ (if f = [] then [] else 46 # f)))
      = (sign, i @ (if f = [] then [] else 46 # f))"
    unfolding g by (auto simp: split_sign_def)
  show "takeWhile is_ascii_digit (i @ (if f = [] then [] else 46 # f)) = i"
    using assms d46 by (simp add: list_all_iff takeWhile_append)
  show "dropWhile is_ascii_digit (i @ (if f = [] then [] else 46 # f)) = (if f = [] then [] else 46 # f)"
    using assms d46 by (simp add: list_all_iff dropWhile_append)
qed

lemma canonical_number_parse:
  assumes "list_all is_ascii_digit i" "list_all is_ascii_digit f" "sign = [] \<or> sign = [45]"
  shows "normalize_number (canonical_number sign i f) = Some (canonical_number sign i f)
    \<and> number_value (canonical_number sign i f) = signed_value sign i f"
proof (cases "signed_value sign i f = 0")
  case True
  then have "canonical_number sign i f = [48]"
    using signed_value_zero [OF assms(2)] by (simp add: canonical_number_show [OF assms(1)])
  moreover have "normalize_number [48] = Some [48]" by code_simp
  moreover have "number_value [48] = 0" by code_simp
  ultimately show ?thesis using True by simp
next
  case False
  let ?i = "show_nat (digits_value i)" and ?f = "trim_end_matches (\<lambda>c. c = 48) f"
  let ?t = "if ?f = [] then [] else 46 # ?f"
  have t: "canonical_number sign i f = sign @ ?i @ ?t"
    using False signed_value_zero [OF assms(2)]
    by (auto simp: canonical_number_show [OF assms(1)] canonical_fraction_def)
  note p = parse_canonical [OF show_nat_digits show_nat_nonempty trim_end_digits [OF assms(2)] assms(3)]
  have tw: "takeWhile is_ascii_digit ?f = ?f" "dropWhile is_ascii_digit ?f = []"
    using trim_end_digits [OF assms(2)] by (simp_all add: list_all_iff)
  have f: "split_fraction ?t = Some (?f, [])"
    by (simp add: split_fraction_def Let_def tw)
  have sv: "signed_value sign ?i ?f = signed_value sign i f"
    by (simp add: signed_value_def fraction_value_trim)
  have idem: "trim_end_matches (\<lambda>c. c = 48) ?f = ?f"
    using dropWhile_idem [of "\<lambda>c. c = 48" "rev f"] by (simp add: trim_end_matches_def)
  have "canonical_number sign ?i ?f = sign @ ?i @ ?t"
    using False signed_value_zero [OF trim_end_digits [OF assms(2), of "\<lambda>c. c = 48"], of sign ?i]
    by (auto simp: canonical_number_show [OF show_nat_digits] canonical_fraction_def idem sv)
  then have "normalize_number (sign @ ?i @ ?t) = Some (sign @ ?i @ ?t)"
    unfolding normalize_number_def Let_def p prod.case f by simp
  moreover have "number_value (sign @ ?i @ ?t) = signed_value sign i f"
    unfolding number_value_def Let_def p prod.case by (simp add: tw sv [symmetric])
  ultimately show ?thesis unfolding t by simp
qed

section \<open>Properties\<close>

text \<open>
  C32. Exact data matching reports a row exactly when the proximity rule holds of the
  evidence for it. On a loaded bundle the matcher never panics, and row \<open>row\<close> of a source
  whose salt decodes is reported iff, within one window of 300 characters, at least two
  distinct fields of that same row have a candidate value whose salted hash passes the
  filter and stands in the bundle for this source, row and field, one of them primary.
\<close>

theorem edm_row_reported_iff:
  assumes "bundle_wf b" and "ts \<noteq> []"
    and "distinct (map src_source_id (hdr_edm_sources (bdl_header b)))"
    and "si < length (hdr_edm_sources (bdl_header b))"
    and "source = hdr_edm_sources (bdl_header b) ! si"
    and "Option.bind (hdr_edm_salts (bdl_header b) (src_source_id source)) hex_decode = Some salt"
  shows "\<exists>hits. match_edm u sha256 b ts = Some hits
    \<and> reported_rows hits (src_source_id source) =
        {row. proximity (primary_fields source) (cell_evidence u sha256 b si source salt ts row)}"
proof -
  obtain hits where "match_edm u sha256 b ts = Some hits" using match_edm_total [OF assms(1)] by blast
  with match_edm_reported [OF assms] show ?thesis by blast
qed

lemma edm_row_reported_iff_witness:
  "\<exists>hits. match_edm ascii_tables edm_example_sha256 edm_example_bundle edm_example_tokens = Some hits
    \<and> 7 \<in> reported_rows hits (lit ''s'')"
proof -
  have s: "src_source_id edm_example_source = lit ''s''" by (simp add: edm_example_source_def)
  have "\<exists>hits. match_edm ascii_tables edm_example_sha256 edm_example_bundle edm_example_tokens = Some hits
    \<and> reported_rows hits (src_source_id edm_example_source) =
        {row. proximity (primary_fields edm_example_source) (cell_evidence ascii_tables edm_example_sha256
           edm_example_bundle 0 edm_example_source [1] edm_example_tokens row)}"
    by (rule edm_row_reported_iff [OF edm_example_wf _ _ _ _ edm_example_salt])
      (simp_all add: edm_example_bundle_def edm_example_tokens_def)
  moreover have "proximity (primary_fields edm_example_source) (cell_evidence ascii_tables edm_example_sha256
       edm_example_bundle 0 edm_example_source [1] edm_example_tokens 7)"
    by (rule proximity_two [OF edm_example_evidence])
      (simp_all add: primary_fields_def edm_example_source_def PROXIMITY_WINDOW_CHARS_def)
  ultimately show ?thesis unfolding s by auto
qed

text \<open>
  Numbers are put into one canonical form: two cells that both parse get the same
  normalized string, and so the same salted hash, exactly when they denote the same
  number, whatever their grouping, sign, leading or trailing zeros; and the canonical form
  is a fixed point.
\<close>

theorem normalize_number_canonical:
  assumes "normalize_number s = Some t" and "normalize_number s' = Some t'"
  shows "(t = t' \<longleftrightarrow> number_value s = number_value s') \<and> number_value t = number_value s
    \<and> normalize_number t = Some t"
proof -
  obtain a i f where 1: "t = canonical_number a i f" "number_value s = signed_value a i f"
    "list_all is_ascii_digit i" "list_all is_ascii_digit f" "a = [] \<or> a = [45]"
    using normalize_number_Some [OF assms(1)] by metis
  obtain b j g where 2: "t' = canonical_number b j g" "number_value s' = signed_value b j g"
    "list_all is_ascii_digit j" "list_all is_ascii_digit g" "b = [] \<or> b = [45]"
    using normalize_number_Some [OF assms(2)] by metis
  note p = canonical_number_parse [OF 1(3-5)] canonical_number_parse [OF 2(3-5)]
  have "t = t'" if eq: "number_value s = number_value s'"
  proof (cases "signed_value a i f = 0")
    case True
    moreover have "signed_value b j g = 0" using True eq 1(2) 2(2) by simp
    ultimately show ?thesis
      using signed_value_zero [OF 1(4)] signed_value_zero [OF 2(4)]
      by (simp add: 1(1) 2(1) canonical_number_show [OF 1(3)] canonical_number_show [OF 2(3)])
  next
    case False
    with signed_value_inj [OF 1(4) 2(4), of a i b j] eq 1(2,5) 2(2,5) show ?thesis
      by (auto simp: 1(1) 2(1) canonical_number_show [OF 1(3)] canonical_number_show [OF 2(3)]
        canonical_fraction_def)
  qed
  with p 1(1,2) 2(1,2) show ?thesis by metis
qed

lemma normalize_number_canonical_witness:
  "normalize_number (lit ''+1,234.50'') = Some (lit ''1234.5'')
    \<and> number_value (lit ''+1,234.50'') = number_value (lit ''01234.5'')
    \<and> normalize_number (lit ''1234.5'') = Some (lit ''1234.5'')"
proof -
  have s: "normalize_number (lit ''+1,234.50'') = Some (lit ''1234.5'')"
    "normalize_number (lit ''01234.5'') = Some (lit ''1234.5'')"
    by (simp_all add: normalize_number_def strip_grouping_def is_whitespace_def split_sign_def
      split_fraction_def is_ascii_digit_def canonical_number_def trim_start_matches_def
      trim_end_matches_def lit_def Let_def)
  from normalize_number_canonical [OF s] s show ?thesis by simp
qed

text \<open>
  The ISO rendering does not pad the year, so a year before 1000 gives a string that is not
  of the documented shape and does not parse again.
\<close>

lemma normalize_date_early_year:
  "normalize_date (lit ''01/02/0050'') = Some (lit ''50-02-01'') \<and> normalize_date (lit ''50-02-01'') = None"
  by code_simp

end
