(* ===== verification/Text_Codec.thy ===== *)
theory Text_Codec
  imports Rust_Std
begin

text \<open>
  The decoders of the standard library that the extraction code calls: \<open>str::from_utf8\<close>
  (strict), \<open>String::from_utf8_lossy\<close> and \<open>String::from_utf16_lossy\<close>, with their round
  trips against the encoder \<open>utf8\<close>, and substring search. A byte is its value here.
\<close>

section \<open>UTF-8\<close>

text \<open>Unicode scalar values: the code points a \<open>char\<close> can hold.\<close>

definition is_scalar :: "uchar \<Rightarrow> bool" where
  "is_scalar c \<longleftrightarrow> c < 55296 \<or> 57344 \<le> c \<and> c \<le> 1114111"

definition is_cont :: "nat \<Rightarrow> bool" where
  "is_cont b \<longleftrightarrow> 128 \<le> b \<and> b < 192"

text \<open>
  One step of the validator: the character and its width, or the length of the maximal
  invalid prefix that is replaced as a unit.
\<close>

definition utf8_tail :: "nat list \<Rightarrow> nat \<Rightarrow> nat \<Rightarrow> nat \<Rightarrow> uchar option \<times> nat" where
  "utf8_tail r acc n width =
     (if n = 1 then
        (case r of b # _ \<Rightarrow> if is_cont b then (Some (acc * 64 + (b - 128)), width) else (None, width - 1)
         | [] \<Rightarrow> (None, width - 1))
      else
        (case r of
           b # c # _ \<Rightarrow>
             if \<not> is_cont b then (None, width - 2)
             else if is_cont c then (Some ((acc * 64 + (b - 128)) * 64 + (c - 128)), width)
             else (None, width - 1)
         | [b] \<Rightarrow> if is_cont b then (None, width - 1) else (None, width - 2)
         | [] \<Rightarrow> (None, width - 2)))"

definition utf8_next :: "nat \<Rightarrow> nat list \<Rightarrow> uchar option \<times> nat" where
  "utf8_next b0 r =
     (if b0 < 128 then (Some b0, 1)
      else if 194 \<le> b0 \<and> b0 \<le> 223 then
        (case r of b1 # _ \<Rightarrow> if is_cont b1 then (Some ((b0 - 192) * 64 + (b1 - 128)), 2) else (None, 1)
         | [] \<Rightarrow> (None, 1))
      else if 224 \<le> b0 \<and> b0 \<le> 239 then
        (case r of b1 # r1 \<Rightarrow>
           if (if b0 = 224 then 160 else 128) \<le> b1 \<and> b1 \<le> (if b0 = 237 then 159 else 191)
           then utf8_tail r1 ((b0 - 224) * 64 + (b1 - 128)) 1 3 else (None, 1)
         | [] \<Rightarrow> (None, 1))
      else if 240 \<le> b0 \<and> b0 \<le> 244 then
        (case r of b1 # r1 \<Rightarrow>
           if (if b0 = 240 then 144 else 128) \<le> b1 \<and> b1 \<le> (if b0 = 244 then 143 else 191)
           then utf8_tail r1 ((b0 - 240) * 64 + (b1 - 128)) 2 4 else (None, 1)
         | [] \<Rightarrow> (None, 1))
      else (None, 1))"

fun utf8_decode :: "nat list \<Rightarrow> uchar option list" where
  "utf8_decode [] = []"
| "utf8_decode (b # bs) = fst (utf8_next b bs) # utf8_decode (drop (snd (utf8_next b bs) - 1) bs)"

definition from_utf8 :: "bytes \<Rightarrow> ustring option" where
  "from_utf8 bs = try_map (\<lambda>c. c) (utf8_decode (map unat bs))"

definition from_utf8_lossy :: "bytes \<Rightarrow> ustring" where
  "from_utf8_lossy bs = map (case_option 65533 (\<lambda>c. c)) (utf8_decode (map unat bs))"

text \<open>The base-64 digits of a code point.\<close>

lemma base64_digits:
  fixes c :: nat
  shows "c div 64 * 64 + c mod 64 = c" "c div 4096 * 64 + c div 64 mod 64 = c div 64"
    "c div 262144 * 64 + c div 4096 mod 64 = c div 4096"
proof -
  have "c div 4096 = c div 64 div 64" "c div 262144 = c div 4096 div 64"
    by (simp_all flip: div_mult2_eq)
  then show "c div 64 * 64 + c mod 64 = c" "c div 4096 * 64 + c div 64 mod 64 = c div 64"
    "c div 262144 * 64 + c div 4096 mod 64 = c div 4096"
    by (simp_all only: div_mult_mod_eq)
qed

lemma unat_u8: "k < 256 \<Longrightarrow> unat (of_nat k :: u8) = k"
  by (simp add: unat_of_nat_in_range)

lemma utf8_next_2:
  assumes "128 \<le> c" "c < 2048"
  shows "utf8_next (192 + c div 64) ((128 + c mod 64) # r) = (Some c, 2)"
proof -
  have "2 \<le> c div 64" "c div 64 \<le> 31" using assms by linarith+
  then show ?thesis using base64_digits(1) [of c] by (simp add: utf8_next_def is_cont_def)
qed

lemma utf8_next_3:
  assumes "2048 \<le> c" "c < 65536" "is_scalar c"
  shows "utf8_next (224 + c div 4096) ((128 + c div 64 mod 64) # (128 + c mod 64) # r) = (Some c, 3)"
proof -
  let ?q = "c div 64" and ?h = "c div 4096"
  have q: "32 \<le> ?q" "?q < 1024" using assms by linarith+
  have qh: "?h * 64 + ?q mod 64 = ?q" by (rule base64_digits)
  have h: "?h \<le> 15" using q qh by linarith
  have lo: "?h = 0 \<Longrightarrow> 32 \<le> ?q mod 64" using q qh by linarith
  have "c < 55296 \<or> 57344 \<le> c" using assms(3) by (auto simp: is_scalar_def)
  then have hi: "?h = 13 \<Longrightarrow> ?q mod 64 \<le> 31"
    using qh by linarith
  have m: "?q mod 64 < 64" "c mod 64 < 64" by simp_all
  from h lo hi m show ?thesis
    using base64_digits(1) [of c] qh
    by (auto simp: utf8_next_def utf8_tail_def is_cont_def)
qed

lemma utf8_next_4:
  assumes "65536 \<le> c" "c \<le> 1114111"
  shows "utf8_next (240 + c div 262144)
    ((128 + c div 4096 mod 64) # (128 + c div 64 mod 64) # (128 + c mod 64) # r) = (Some c, 4)"
proof -
  let ?q = "c div 64" and ?h = "c div 4096" and ?t = "c div 262144"
  have h: "16 \<le> ?h" "?h \<le> 271" using assms by linarith+
  have ht: "?t * 64 + ?h mod 64 = ?h" by (rule base64_digits)
  have t: "?t \<le> 4" "?t = 0 \<Longrightarrow> 16 \<le> ?h mod 64" "?t = 4 \<Longrightarrow> ?h mod 64 \<le> 15"
    using h ht by linarith+
  have m: "?h mod 64 < 64" "?q mod 64 < 64" "c mod 64 < 64" by simp_all
  have v: "((?t * 64 + ?h mod 64) * 64 + ?q mod 64) * 64 + c mod 64 = c"
    by (simp only: base64_digits)
  have "?h mod 64 \<le> 63" using m by linarith
  with t m v show ?thesis
    by (auto simp: utf8_next_def utf8_tail_def is_cont_def)
qed

lemma utf8_next_char:
  assumes "is_scalar c"
  shows "\<exists>b bs. map unat (utf8_char c) = b # bs \<and> utf8_next b (bs @ r) = (Some c, Suc (length bs))"
proof -
  consider "c < 128" | "128 \<le> c" "c < 2048" | "2048 \<le> c" "c < 65536" | "65536 \<le> c" "c \<le> 1114111"
    using assms by (force simp: is_scalar_def)
  then show ?thesis
  proof cases
    case 1
    then show ?thesis by (simp add: utf8_char_def unat_u8 utf8_next_def)
  next
    case 2
    then have "map unat (utf8_char c) = [192 + c div 64, 128 + c mod 64]"
      by (simp add: utf8_char_def unat_u8 del: of_nat_add)
    with utf8_next_2 [OF 2] show ?thesis by simp
  next
    case 3
    then have "map unat (utf8_char c) = [224 + c div 4096, 128 + c div 64 mod 64, 128 + c mod 64]"
      by (simp add: utf8_char_def unat_u8 del: of_nat_add)
    with utf8_next_3 [OF 3 assms] show ?thesis by simp
  next
    case 4
    then have "map unat (utf8_char c) = [240 + c div 262144, 128 + c div 4096 mod 64,
        128 + c div 64 mod 64, 128 + c mod 64]"
      by (simp add: utf8_char_def unat_u8 del: of_nat_add)
    with utf8_next_4 [OF 4] show ?thesis by simp
  qed
qed

lemma utf8_decode_char:
  assumes "is_scalar c"
  shows "utf8_decode (map unat (utf8_char c) @ r) = Some c # utf8_decode r"
proof -
  from utf8_next_char [OF assms, of r] show ?thesis by (elim exE conjE) simp
qed

lemma utf8_decode_utf8: "list_all is_scalar s \<Longrightarrow> utf8_decode (map unat (utf8 s)) = map Some s"
  by (induction s) (simp_all add: utf8_def utf8_decode_char)

lemma try_map_id_Some: "try_map (\<lambda>c. c) (map Some s) = Some s"
  by (induction s) simp_all

lemma from_utf8_utf8: "list_all is_scalar s \<Longrightarrow> from_utf8 (utf8 s) = Some s"
  by (simp add: from_utf8_def utf8_decode_utf8 try_map_id_Some)

lemma from_utf8_lossy_utf8: "list_all is_scalar s \<Longrightarrow> from_utf8_lossy (utf8 s) = s"
  by (simp add: from_utf8_lossy_def utf8_decode_utf8 comp_def)

lemma from_utf8_lossy_strict: "from_utf8 bs = Some s \<Longrightarrow> from_utf8_lossy bs = s"
proof -
  have "try_map (\<lambda>c. c) cs = Some s \<Longrightarrow> map (case_option 65533 (\<lambda>c. c)) cs = s" for cs
    by (induction cs arbitrary: s) (auto split: option.splits)
  then show "from_utf8 bs = Some s \<Longrightarrow> from_utf8_lossy bs = s"
    by (simp add: from_utf8_def from_utf8_lossy_def)
qed

section \<open>UTF-16\<close>

text \<open>Unpaired surrogates become the replacement character.\<close>

fun from_utf16_lossy :: "nat list \<Rightarrow> ustring" where
  "from_utf16_lossy [] = []"
| "from_utf16_lossy (u # us) =
     (if u < 55296 \<or> 57343 < u then u # from_utf16_lossy us
      else if 56320 \<le> u then 65533 # from_utf16_lossy us
      else case us of
             [] \<Rightarrow> [65533]
           | v # vs \<Rightarrow>
               if 56320 \<le> v \<and> v \<le> 57343
               then (65536 + (u - 55296) * 1024 + (v - 56320)) # from_utf16_lossy vs
               else 65533 # from_utf16_lossy us)"

definition utf16_units :: "uchar \<Rightarrow> nat list" where
  "utf16_units c =
     (if c < 65536 then [c] else [55296 + (c - 65536) div 1024, 56320 + (c - 65536) mod 1024])"

lemma from_utf16_lossy_units:
  assumes "is_scalar c"
  shows "from_utf16_lossy (utf16_units c @ r) = c # from_utf16_lossy r"
proof (cases "c < 65536")
  case True
  with assms show ?thesis by (auto simp: utf16_units_def is_scalar_def)
next
  case False
  then obtain d where c: "c = 65536 + d" using nat_le_iff_add [of 65536 c] by auto
  with assms have "d div 1024 < 1024" by (simp add: is_scalar_def)
  moreover have "d mod 1024 < 1024" by simp
  ultimately show ?thesis using c by (simp add: utf16_units_def)
qed

lemma from_utf16_lossy_utf16:
  "list_all is_scalar s \<Longrightarrow> from_utf16_lossy (concat (map utf16_units s)) = s"
  by (induction s) (simp_all add: from_utf16_lossy_units del: from_utf16_lossy.simps(2))

section \<open>Substring search\<close>

fun find_str :: "'a list \<Rightarrow> 'a list \<Rightarrow> nat option" where
  "find_str p [] = (if p = [] then Some 0 else None)"
| "find_str p (x # xs) = (if starts_with (x # xs) p then Some 0 else map_option Suc (find_str p xs))"

lemma find_str_bound: "find_str p s = Some i \<Longrightarrow> i + length p \<le> length s"
proof (induction s arbitrary: i)
  case (Cons x s)
  show ?case
  proof (cases "starts_with (x # s) p")
    case True
    then obtain t where "x # s = p @ t" by (auto simp: starts_with_iff)
    then have "length p \<le> length (x # s)" by (metis le_add1 length_append)
    with True Cons.prems show ?thesis by simp
  next
    case False
    with Cons show ?thesis by auto
  qed
qed (auto split: if_splits)

lemma find_str_split: "find_str p s = Some i \<Longrightarrow> s = take i s @ p @ drop (i + length p) s"
  by (induction s arbitrary: i) (auto simp: starts_with_iff split: if_splits)

definition strip_prefix :: "'a list \<Rightarrow> 'a list \<Rightarrow> 'a list option" where
  "strip_prefix p s = (if starts_with s p then Some (drop (length p) s) else None)"

definition strip_suffix :: "'a list \<Rightarrow> 'a list \<Rightarrow> 'a list option" where
  "strip_suffix p s = (if ends_with s p then Some (take (length s - length p) s) else None)"

text \<open>\<open>str::split\<close> by a nonempty string.\<close>

function split_str :: "'a list \<Rightarrow> 'a list \<Rightarrow> 'a list list" where
  "split_str p s =
     (case find_str p s of
        None \<Rightarrow> [s]
      | Some i \<Rightarrow> if p = [] then [s] else take i s # split_str p (drop (i + length p) s))"
  by pat_completeness auto
termination
proof (relation "measure (length \<circ> snd)")
  fix p s :: "'a list" and i
  assume "find_str p s = Some i" "p \<noteq> []"
  then have "0 < length p" "i + length p \<le> length s" by (auto dest: find_str_bound)
  then show "((p, drop (i + length p) s), (p, s)) \<in> measure (length \<circ> snd)"
    by (simp only: in_measure comp_apply snd_conv length_drop)
qed simp

declare split_str.simps [simp del]

end
