(* ===== verification/Extract.thy ===== *)
theory Extract
  imports Text_Codec "HOL-Library.List_Lexorder"
begin

text \<open>
  Bounded text extraction, \<open>detect/extract.rs\<close>. The \<open>zip\<close> and \<open>pdf_extract\<close> crates and
  \<open>str::to_lowercase\<close> are the fields of the record \<open>libs\<close>: an archive is what the reader
  of the crate hands out entry by entry. The extracted-text budget is the state that
  \<open>extract_zip\<close> and \<open>extract_by_extension\<close> pass along and return.
\<close>

section \<open>Data\<close>

datatype reason =
  UnsupportedFormat | BinaryContent | EncryptedContainer | NoTextLayer | CorruptContainer | TooLarge

fun reason_code :: "reason \<Rightarrow> ustring" where
  "reason_code UnsupportedFormat = lit ''unsupported-format''"
| "reason_code BinaryContent = lit ''binary-content''"
| "reason_code EncryptedContainer = lit ''encrypted-container''"
| "reason_code NoTextLayer = lit ''no-text-layer''"
| "reason_code CorruptContainer = lit ''corrupt-container''"
| "reason_code TooLarge = lit ''too-large''"

record extracted_text =
  ext_text :: ustring
  ext_format :: ustring

record zip_meta =
  zm_encrypted :: bool
  zm_name :: ustring
  zm_is_dir :: bool
  zm_size :: nat

text \<open>
  One entry of an archive: \<open>by_index_raw\<close>, whether \<open>by_index\<close> opens it, and the bytes
  that a read limited to \<open>n\<close> bytes yields (\<open>None\<close> when the read fails).
\<close>

record zip_item =
  zi_raw :: "zip_meta option"
  zi_opens :: bool
  zi_take :: "nat \<Rightarrow> bytes option"

datatype pdf_result = Pdf_Text ustring | Pdf_Error ustring | Pdf_Panic

record libs =
  zip_archive :: "bytes \<Rightarrow> zip_item list option"
  pdf_extract :: "bytes \<Rightarrow> pdf_result"
  str_to_lowercase :: "ustring \<Rightarrow> ustring"

definition MAX_BUFFER_BYTES :: nat where
  "MAX_BUFFER_BYTES = 100 * 1024 * 1024"

definition ZIP_MAX_DEPTH :: nat where
  "ZIP_MAX_DEPTH = 3"

definition ZIP_MEMBER_CAP_BYTES :: nat where
  "ZIP_MEMBER_CAP_BYTES = 20 * 1024 * 1024"

definition ZIP_TOTAL_TEXT_CAP :: nat where
  "ZIP_TOTAL_TEXT_CAP = 10 * 1024 * 1024"

section \<open>Helpers\<close>

definition is_text_extension :: "ustring \<Rightarrow> bool" where
  "is_text_extension ext \<longleftrightarrow> ext \<in> set (map lit
     [''txt'', ''md'', ''markdown'', ''csv'', ''tsv'', ''log'',
      ''js'', ''mjs'', ''cjs'', ''jsx'', ''ts'', ''tsx'', ''json'', ''xml'', ''html'',
      ''htm'', ''css'', ''py'', ''java'', ''c'', ''h'', ''cpp'', ''hpp'', ''cc'', ''cs'',
      ''go'', ''rs'', ''rb'', ''php'', ''pl'', ''sh'', ''bash'', ''ps1'', ''psm1'',
      ''bat'', ''cmd'', ''sql'', ''yaml'', ''yml'', ''ini'', ''cfg'', ''conf'',
      ''toml'', ''properties'', ''env''])"

text \<open>The part after the last dot of the last path component, unless that dot comes first.\<close>

definition extension_of :: "libs \<Rightarrow> ustring \<Rightarrow> ustring" where
  "extension_of l filename =
     (let base = rsplit_first (\<lambda>c. c = 47 \<or> c = 92) filename;
          ext = rsplit_first (\<lambda>c. c = 46) base
      in if 46 \<in> set base \<and> length ext + 1 < length base then str_to_lowercase l ext else [])"

definition ENTITIES :: "(ustring \<times> uchar) list" where
  "ENTITIES = [(lit ''&amp;'', 38), (lit ''&lt;'', 60), (lit ''&gt;'', 62), (lit ''&quot;'', 34),
     (lit ''&apos;'', 39)]"

lemma ENTITIES_nonempty: "(ent, ch) \<in> set ENTITIES \<Longrightarrow> ent \<noteq> []"
  by (auto simp: ENTITIES_def lit_def)

function decode_xml_entities :: "ustring \<Rightarrow> ustring" where
  "decode_xml_entities s =
     (let pre = takeWhile (\<lambda>c. c \<noteq> 38) s; rest = dropWhile (\<lambda>c. c \<noteq> 38) s
      in if rest = [] then pre
         else case find (\<lambda>(ent, _). starts_with rest ent) ENTITIES of
                Some (ent, ch) \<Rightarrow> pre @ [ch] @ decode_xml_entities (drop (length ent) rest)
              | None \<Rightarrow> pre @ [38] @ decode_xml_entities (drop 1 rest))"
  by pat_completeness auto
termination
proof (relation "measure length")
  fix s pre rest :: ustring and p ent ch
  assume "rest = dropWhile (\<lambda>c. c \<noteq> 38) s" "rest \<noteq> []"
    and "find (\<lambda>(ent, _). starts_with rest ent) ENTITIES = Some p" "(ent, ch) = p"
  then have "(ent, ch) \<in> set ENTITIES" and "0 < length rest" and "length rest \<le> length s"
    by (auto simp: find_Some_iff length_dropWhile_le) (metis nth_mem)
  then have "0 < length ent" using ENTITIES_nonempty by blast
  with \<open>0 < length rest\<close> \<open>length rest \<le> length s\<close> show "(drop (length ent) rest, s) \<in> measure length"
    by (simp only: in_measure length_drop)
next
  fix s pre rest :: ustring
  assume "rest = dropWhile (\<lambda>c. c \<noteq> 38) s" "rest \<noteq> []"
  then have "0 < length rest" and "length rest \<le> length s" by (auto simp: length_dropWhile_le)
  then show "(drop 1 rest, s) \<in> measure length" by (simp only: in_measure length_drop)
qed simp

declare decode_xml_entities.simps [simp del]

definition is_cfb :: "bytes \<Rightarrow> bool" where
  "is_cfb bs \<longleftrightarrow> take 4 bs = [0xd0, 0xcf, 0x11, 0xe0]"

fun utf16_pairs :: "bool \<Rightarrow> bytes \<Rightarrow> nat list" where
  "utf16_pairs big_endian (a # b # r) =
     (if big_endian then unat a * 256 + unat b else unat a + unat b * 256) # utf16_pairs big_endian r"
| "utf16_pairs big_endian _ = []"

definition decode_utf16 :: "bytes \<Rightarrow> bool \<Rightarrow> reason + ustring" where
  "decode_utf16 body big_endian =
     (if length body mod 2 \<noteq> 0 then Inl BinaryContent
      else Inr (from_utf16_lossy (utf16_pairs big_endian body)))"

definition decode_plain_text :: "bytes \<Rightarrow> reason + ustring" where
  "decode_plain_text bs =
     (if take 2 bs = [0xff, 0xfe] then decode_utf16 (drop 2 bs) False
      else if take 2 bs = [0xfe, 0xff] then decode_utf16 (drop 2 bs) True
      else if 0 \<in> set bs then Inl BinaryContent
      else let body = (case strip_prefix [0xef, 0xbb, 0xbf] bs of Some b \<Rightarrow> b | None \<Rightarrow> bs)
      in ok_or BinaryContent (from_utf8 body))"

section \<open>Zip entries\<close>

text \<open>An entry is its name and its data; \<open>None\<close> when it exceeded the cap.\<close>

type_synonym zip_entry = "ustring \<times> bytes option"

fun read_entries_loop :: "(ustring \<Rightarrow> bool) \<Rightarrow> nat \<Rightarrow> zip_item list \<Rightarrow> reason + zip_entry list" where
  "read_entries_loop should_read cap [] = Inr []"
| "read_entries_loop should_read cap (item # items) =
     (case zi_raw item of
        None \<Rightarrow> Inl CorruptContainer
      | Some m \<Rightarrow>
          if zm_encrypted m then Inl EncryptedContainer
          else if \<not> (\<not> zm_is_dir m \<and> \<not> ends_with (zm_name m) [47] \<and> should_read (zm_name m))
          then read_entries_loop should_read cap items
          else if cap < zm_size m
          then andthen (read_entries_loop should_read cap items) (\<lambda>out. Inr ((zm_name m, None) # out))
          else if \<not> zi_opens item then Inl CorruptContainer
          else case zi_take item (cap + 1) of
                 None \<Rightarrow> Inl CorruptContainer
               | Some data \<Rightarrow>
                   andthen (read_entries_loop should_read cap items)
                     (\<lambda>out. Inr ((zm_name m, if cap < length data then None else Some data) # out)))"

definition read_zip_entries ::
  "libs \<Rightarrow> bytes \<Rightarrow> (ustring \<Rightarrow> bool) \<Rightarrow> nat \<Rightarrow> reason + zip_entry list" where
  "read_zip_entries l bs should_read cap =
     andthen (ok_or CorruptContainer (zip_archive l bs)) (read_entries_loop should_read cap)"

section \<open>OOXML scanning\<close>

text \<open>
  Where the content of a start tag begins, given the text after the tag name: at once, or
  after the attributes; \<open>None\<close> when the start tag never closes.
\<close>

definition content_after :: "ustring \<Rightarrow> ustring option" where
  "content_after rest =
     (if starts_with rest [62] then Some (drop 1 rest)
      else map_option (\<lambda>gt. drop (gt + 1) rest) (find_str [62] rest))"

lemma content_after_length: "content_after rest = Some c \<Longrightarrow> length c \<le> length rest"
  by (auto simp: content_after_def split: if_splits)

function xml_element_text :: "ustring \<Rightarrow> ustring \<Rightarrow> ustring list" where
  "xml_element_text tag xml =
     (case find_str (60 # tag) xml of
        None \<Rightarrow> []
      | Some found \<Rightarrow>
          let rest = drop (found + Suc (length tag)) xml
          in if starts_with rest [62] \<or> (rest \<noteq> [] \<and> is_whitespace (hd rest)) then
               (case content_after rest of
                  None \<Rightarrow> []
                | Some content \<Rightarrow>
                    (case find_str ([60, 47] @ tag @ [62]) content of
                       None \<Rightarrow> []
                     | Some e \<Rightarrow>
                         decode_xml_entities (take e content)
                           # xml_element_text tag (drop (e + length tag + 3) content)))
             else xml_element_text tag rest)"
  by pat_completeness auto
termination
proof (relation "measure (length \<circ> snd)")
  fix tag xml rest content :: ustring and found e
  assume 1: "find_str (60 # tag) xml = Some found" "rest = drop (found + Suc (length tag)) xml"
    and 2: "content_after rest = Some content"
  have "length rest < length xml" using find_str_bound [OF 1(1)] 1(2) by simp
  with content_after_length [OF 2]
  show "((tag, drop (e + length tag + 3) content), tag, xml) \<in> measure (length \<circ> snd)"
    by simp
next
  fix tag xml rest :: ustring and found
  assume 1: "find_str (60 # tag) xml = Some found" "rest = drop (found + Suc (length tag)) xml"
  show "((tag, rest), tag, xml) \<in> measure (length \<circ> snd)"
    using find_str_bound [OF 1(1)] 1(2) by simp
qed simp

declare xml_element_text.simps [simp del]

section \<open>Office formats\<close>

definition is_docx_part :: "ustring \<Rightarrow> bool" where
  "is_docx_part name \<longleftrightarrow>
     name = lit ''word/document.xml'' \<or>
     (case strip_prefix (lit ''word/'') name of
        None \<Rightarrow> False
      | Some rest \<Rightarrow>
          (case Option.bind
                  (case strip_prefix (lit ''header'') rest of
                     Some r \<Rightarrow> Some r | None \<Rightarrow> strip_prefix (lit ''footer'') rest)
                  (strip_suffix (lit ''.xml'')) of
             None \<Rightarrow> False
           | Some digits \<Rightarrow> list_all is_ascii_digit digits))"

definition parts_insert :: "ustring \<Rightarrow> bytes \<Rightarrow> (ustring \<times> bytes) list \<Rightarrow> (ustring \<times> bytes) list" where
  "parts_insert k v m = (k, v) # filter (\<lambda>kv. fst kv \<noteq> k) m"

definition docx_parts :: "zip_entry list \<Rightarrow> (ustring \<times> bytes) list" where
  "docx_parts entries =
     fold (\<lambda>(name, data) m. case data of None \<Rightarrow> m | Some d \<Rightarrow> parts_insert name d m) entries []"

definition docx_paragraphs :: "bytes \<Rightarrow> ustring list" where
  "docx_paragraphs data =
     filter (\<lambda>runs. runs \<noteq> [])
       (map (\<lambda>chunk. concat (xml_element_text (lit ''w:t'') chunk))
         (split_str (lit ''</w:p>'') (from_utf8_lossy data)))"

definition extract_docx :: "libs \<Rightarrow> bytes \<Rightarrow> reason + ustring" where
  "extract_docx l bs =
     andthen (read_zip_entries l bs is_docx_part ZIP_MEMBER_CAP_BYTES) (\<lambda>entries.
       let by_name = docx_parts entries
       in case map_of by_name (lit ''word/document.xml'') of
            None \<Rightarrow> Inl CorruptContainer
          | Some document \<Rightarrow>
              Inr (join [10] (docx_paragraphs document
                @ concat (map (\<lambda>n. docx_paragraphs (the (map_of by_name n)))
                    (filter (\<lambda>n. n \<noteq> lit ''word/document.xml'') (sort (map fst by_name)))))))"

definition is_xlsx_part :: "ustring \<Rightarrow> bool" where
  "is_xlsx_part name \<longleftrightarrow>
     name = lit ''xl/sharedStrings.xml'' \<or>
     (case Option.bind (strip_prefix (lit ''xl/worksheets/sheet'') name) (strip_suffix (lit ''.xml'')) of
        None \<Rightarrow> False
      | Some mid \<Rightarrow> 47 \<notin> set mid)"

text \<open>The inline strings of a sheet, block by block.\<close>

function inline_strings :: "ustring \<Rightarrow> ustring list" where
  "inline_strings xml =
     (case find_str (lit ''<is>'') xml of
        None \<Rightarrow> []
      | Some found \<Rightarrow>
          let from_start = drop found xml
          in case find_str (lit ''</is>'') from_start of
               None \<Rightarrow> []
             | Some e \<Rightarrow>
                 xml_element_text (lit ''t'') (take (e + 5) from_start) @ inline_strings (drop (e + 5) from_start))"
  by pat_completeness auto
termination
proof (relation "measure length")
  fix xml from_start :: ustring and found e
  assume "find_str (lit ''<is>'') xml = Some found" "from_start = drop found xml"
  then have "0 < length from_start" "length from_start \<le> length xml"
    using find_str_bound [of "lit ''<is>''" xml found] by (auto simp: lit_def)
  then show "(drop (e + 5) from_start, xml) \<in> measure length"
    by (simp only: in_measure length_drop)
qed simp

declare inline_strings.simps [simp del]

definition xlsx_strings :: "ustring \<times> bytes \<Rightarrow> ustring list" where
  "xlsx_strings entry =
     (if fst entry = lit ''xl/sharedStrings.xml''
      then xml_element_text (lit ''t'') (from_utf8_lossy (snd entry))
      else inline_strings (from_utf8_lossy (snd entry)))"

definition extract_xlsx :: "libs \<Rightarrow> bytes \<Rightarrow> reason + ustring" where
  "extract_xlsx l bs =
     andthen (read_zip_entries l bs is_xlsx_part ZIP_MEMBER_CAP_BYTES) (\<lambda>entries.
       let usable = List.map_filter (\<lambda>(name, data). map_option (Pair name) data) entries
       in if usable = [] then Inl CorruptContainer
          else Inr (join [10] (concat (map xlsx_strings usable))))"

definition pptx_slide_number :: "ustring \<Rightarrow> nat option" where
  "pptx_slide_number name =
     (case Option.bind (strip_prefix (lit ''ppt/slides/slide'') name) (strip_suffix (lit ''.xml'')) of
        None \<Rightarrow> None
      | Some digits \<Rightarrow>
          if digits = [] \<or> \<not> list_all is_ascii_digit digits then None
          else if digits_value digits < 2 ^ 64 then Some (digits_value digits) else None)"

definition extract_pptx :: "libs \<Rightarrow> bytes \<Rightarrow> reason + ustring" where
  "extract_pptx l bs =
     andthen (read_zip_entries l bs (\<lambda>n. pptx_slide_number n \<noteq> None) ZIP_MEMBER_CAP_BYTES) (\<lambda>entries.
       let usable = List.map_filter (\<lambda>(name, data). case (pptx_slide_number name, data) of
                      (Some n, Some d) \<Rightarrow> Some (n, d) | _ \<Rightarrow> None) entries
       in if usable = [] then Inl CorruptContainer
          else Inr (join [10] (map (\<lambda>(_, d). join [10] (xml_element_text (lit ''a:t'') (from_utf8_lossy d)))
                 (sort_key fst usable))))"

definition extract_pdf :: "libs \<Rightarrow> bytes \<Rightarrow> reason + ustring" where
  "extract_pdf l bs =
     (case pdf_extract l bs of
        Pdf_Panic \<Rightarrow> Inl CorruptContainer
      | Pdf_Error err \<Rightarrow>
          let msg = str_to_lowercase l err
          in if str_contains msg (lit ''decrypt'') \<or> str_contains msg (lit ''password'')
                \<or> str_contains msg (lit ''encrypt'')
             then Inl EncryptedContainer else Inl CorruptContainer
      | Pdf_Text text \<Rightarrow> if trim text = [] then Inl NoTextLayer else Inr text)"

section \<open>Zip recursion and dispatch\<close>

text \<open>The first \<open>max_chars\<close> characters, with the count; the byte length decides first.\<close>

definition clip_chars :: "ustring \<Rightarrow> nat \<Rightarrow> ustring \<times> nat" where
  "clip_chars text max_chars =
     (if str_len text \<le> max_chars then (text, length text)
      else (take max_chars text, min max_chars (length text)))"

text \<open>
  The three functions call each other as in the source; the budget is the number of
  characters still allowed. The second result is the budget afterwards.
\<close>

definition ext_zip :: ustring where
  "ext_zip = lit ''zip''"

function (sequential)
  extract_zip :: "libs \<Rightarrow> bytes \<Rightarrow> nat \<Rightarrow> nat \<Rightarrow> (reason + ustring) \<times> nat"
  and zip_loop :: "libs \<Rightarrow> zip_entry list \<Rightarrow> nat \<Rightarrow> ustring list \<Rightarrow> nat \<Rightarrow> (reason + ustring) \<times> nat"
  and extract_by_extension :: "libs \<Rightarrow> bytes \<Rightarrow> ustring \<Rightarrow> nat \<Rightarrow> nat \<Rightarrow> (reason + ustring) \<times> nat" where
  "extract_zip l bs depth budget =
     (case read_zip_entries l bs (\<lambda>_. True) ZIP_MEMBER_CAP_BYTES of
        Inl e \<Rightarrow> (Inl e, budget)
      | Inr entries \<Rightarrow> zip_loop l entries depth [] budget)"
| "zip_loop l [] depth pieces budget = (Inr (join [10] pieces), budget)"
| "zip_loop l ((name, None) # entries) depth pieces budget = zip_loop l entries depth pieces budget"
| "zip_loop l ((name, Some data) # entries) depth pieces budget =
     (if budget = 0 then (Inr (join [10] pieces), budget)
      else let ext = extension_of l name
      in if ext = ext_zip \<and> ZIP_MAX_DEPTH \<le> depth then zip_loop l entries depth pieces budget
         else let next_depth = depth + (if ext = ext_zip then 1 else 0)
         in case extract_by_extension l data ext next_depth budget of
              (Inr text, budget') \<Rightarrow>
                if text = [] then zip_loop l entries depth pieces budget'
                else let (clipped, used) = clip_chars text budget'
                in zip_loop l entries depth (pieces @ [clipped]) (budget' - used)
            | (Inl err, budget') \<Rightarrow>
                if err = EncryptedContainer then (Inl err, budget')
                else zip_loop l entries depth pieces budget')"
| "extract_by_extension l bs ext depth budget =
     (if is_text_extension ext then (decode_plain_text bs, budget)
      else if ext = lit ''docx'' \<or> ext = lit ''xlsx'' \<or> ext = lit ''pptx'' then
        (if is_cfb bs then Inl EncryptedContainer
         else if ext = lit ''docx'' then extract_docx l bs
         else if ext = lit ''xlsx'' then extract_xlsx l bs
         else extract_pptx l bs, budget)
      else if ext = lit ''pdf'' then (extract_pdf l bs, budget)
      else if ext = ext_zip then extract_zip l bs depth budget
      else (Inl UnsupportedFormat, budget))"
  by pat_completeness auto
termination
  by (relation "inv_image (less_than <*lex*> less_than)
        (case_sum (\<lambda>(l, bs, d, b). (3 * (Suc ZIP_MAX_DEPTH - d) + 2, 0))
          (case_sum (\<lambda>(l, es, d, p, b). (3 * (Suc ZIP_MAX_DEPTH - d) + 1, length es))
            (\<lambda>(l, bs, e, d, b). (if e = ext_zip then 3 * (Suc ZIP_MAX_DEPTH - d) + 3 else 0, 0))))")
    (auto split: if_splits)

declare extract_by_extension.simps [simp del]
declare extract_zip.simps [simp del]

definition extract_text :: "libs \<Rightarrow> bytes \<Rightarrow> ustring \<Rightarrow> reason + extracted_text" where
  "extract_text l bs filename =
     (if MAX_BUFFER_BYTES < length bs then Inl TooLarge
      else let ext = extension_of l filename
      in andthen (fst (extract_by_extension l bs ext 1 ZIP_TOTAL_TEXT_CAP)) (\<lambda>text.
           Inr \<lparr>ext_text = text, ext_format = (if is_text_extension ext then lit ''text'' else ext)\<rparr>))"

section \<open>Budget\<close>

lemma clip_chars_bound: "length (fst (clip_chars s n)) = snd (clip_chars s n) \<and> snd (clip_chars s n) \<le> n"
proof -
  have "length s \<le> str_len s"
  proof (induction s)
    case (Cons c s)
    have "0 < length (utf8_char c)" by simp
    with Cons show ?case unfolding str_len_def utf8_def
      by (simp only: list.map concat.simps length_append list.size)
  qed simp
  then show ?thesis by (auto simp: clip_chars_def)
qed

text \<open>
  What the budget buys: the returned text is made of pieces whose characters are paid for
  by the budget, on top of the pieces it started with.
\<close>

definition paid :: "ustring list \<Rightarrow> nat \<Rightarrow> (reason + ustring) \<times> nat \<Rightarrow> bool" where
  "paid pieces budget r \<longleftrightarrow> snd r \<le> budget \<and>
     (\<forall>text. fst r = Inr text \<longrightarrow> (\<exists>more. text = join [10] (pieces @ more)
        \<and> sum_list (map length more) + snd r \<le> budget))"

lemma paid_step:
  assumes "paid (pieces @ [p]) (b - n) r" and "length p = n" and "n \<le> b" and "b \<le> budget"
  shows "paid pieces budget r"
  unfolding paid_def
proof (intro conjI allI impI)
  show "snd r \<le> budget" using assms unfolding paid_def by linarith
  fix s assume "fst r = Inr s"
  then obtain more where "s = join [10] ((pieces @ [p]) @ more)"
    and "sum_list (map length more) + snd r \<le> b - n"
    using assms(1) unfolding paid_def by blast
  then have "s = join [10] (pieces @ (p # more)) \<and> sum_list (map length (p # more)) + snd r \<le> budget"
    using assms(2-4) by simp
  then show "\<exists>more. s = join [10] (pieces @ more) \<and> sum_list (map length more) + snd r \<le> budget"
    by blast
qed

lemma paid_refusal: "b \<le> budget \<Longrightarrow> paid pieces budget (Inl e, b)"
  by (simp add: paid_def)

lemma paid_weaken: "paid pieces b r \<Longrightarrow> b \<le> budget \<Longrightarrow> paid pieces budget r"
  unfolding paid_def by (meson le_trans)

lemma extraction_paid:
  "paid [] budget (extract_zip l bs depth budget)"
  "paid pieces budget (zip_loop l entries depth pieces budget)"
  "snd (extract_by_extension l bs ext depth budget) \<le> budget"
proof (induction l bs depth budget and l entries depth pieces budget and l bs ext depth budget
    rule: extract_zip_zip_loop_extract_by_extension.induct)
  case (1 l bs depth budget)
  then show ?case by (auto simp: extract_zip.simps paid_def split: sum.splits)
next
  case (2 l depth pieces budget)
  then show ?case by (auto simp: paid_def intro: exI [of _ "[]"])
next
  case (3 l name entries depth pieces budget)
  then show ?case by simp
next
  case (4 l name data entries depth pieces budget)
  let ?e = "extension_of l name"
  show ?case
  proof (cases "budget = 0 \<or> (?e = ext_zip \<and> ZIP_MAX_DEPTH \<le> depth)")
    case True
    then show ?thesis
    proof (cases "budget = 0")
      case False
      with True "4.IH"(1) [OF False refl] show ?thesis by simp
    qed (auto simp: paid_def intro: exI [of _ "[]"])
  next
    case False
    define nd where "nd = depth + (if ?e = ext_zip then 1 else 0)"
    obtain res b where r: "extract_by_extension l data ?e nd budget = (res, b)" by fastforce
    have b: "b \<le> budget"
      using "4.IH"(2) [of ?e nd] False r by (auto simp: nd_def)
    show ?thesis
    proof (cases res)
      case (Inl err)
      have "paid pieces b (zip_loop l entries depth pieces b)" if "err \<noteq> EncryptedContainer"
        using "4.IH"(3) [of ?e nd res b err] False r Inl that by (simp add: nd_def)
      with False r Inl b show ?thesis
        by (auto simp: Let_def paid_refusal simp flip: nd_def intro: paid_weaken)
    next
      case (Inr str)
      obtain p n where pn: "clip_chars str b = (p, n)" by fastforce
      then have n: "length p = n" "n \<le> b" using clip_chars_bound [of str b] by simp_all
      show ?thesis
      proof (cases "str = []")
        case True
        then have "paid pieces b (zip_loop l entries depth pieces b)"
          using "4.IH"(4) [of ?e nd res b str] False r Inr by (simp add: nd_def)
        with False r Inr b True show ?thesis
          by (auto simp: Let_def simp flip: nd_def intro: paid_weaken)
      next
        case str: False
        then have "paid (pieces @ [p]) (b - n) (zip_loop l entries depth (pieces @ [p]) (b - n))"
          using "4.IH"(5) [of ?e nd res b str "(p, n)" p n] False r Inr pn by (simp add: nd_def)
        from paid_step [OF this n b] False r Inr str pn show ?thesis
          by (auto simp: Let_def simp flip: nd_def)
      qed
    qed
  qed
next
  case (5 l bs ext depth budget)
  then show ?case by (auto simp: extract_by_extension.simps paid_def)
qed

section \<open>Encrypted containers\<close>

lemma read_entries_loop_encrypted:
  assumes "item \<in> set items" and "zi_raw item = Some m" and "zm_encrypted m"
  shows "\<exists>e \<in> {EncryptedContainer, CorruptContainer}. read_entries_loop should_read cap items = Inl e"
  using assms(1)
proof (induction items)
  case (Cons i items)
  show ?case
  proof (cases "i = item")
    case True
    with assms show ?thesis by simp
  next
    case False
    with Cons obtain e where "e \<in> {EncryptedContainer, CorruptContainer}"
      and "read_entries_loop should_read cap items = Inl e" by auto
    then show ?thesis by (cases "zi_raw i") (auto split: option.splits)
  qed
qed simp

lemma container_refused:
  assumes "\<And>should_read cap. \<exists>e \<in> {EncryptedContainer, CorruptContainer}. read_zip_entries l bs should_read cap = Inl e"
    and "ext \<in> lit ` {''zip'', ''docx'', ''xlsx'', ''pptx''}"
  shows "\<exists>e \<in> {EncryptedContainer, CorruptContainer}. fst (extract_by_extension l bs ext depth budget) = Inl e"
proof -
  have nt: "\<not> is_text_extension ext" using assms(2) by (auto simp: is_text_extension_def lit_def)
  obtain e where "e \<in> {EncryptedContainer, CorruptContainer}" "extract_docx l bs = Inl e"
    using assms(1) [of is_docx_part ZIP_MEMBER_CAP_BYTES] by (auto simp: extract_docx_def)
  moreover obtain e where "e \<in> {EncryptedContainer, CorruptContainer}" "extract_xlsx l bs = Inl e"
    using assms(1) [of is_xlsx_part ZIP_MEMBER_CAP_BYTES] by (auto simp: extract_xlsx_def)
  moreover obtain e where "e \<in> {EncryptedContainer, CorruptContainer}" "extract_pptx l bs = Inl e"
    using assms(1) [of "\<lambda>n. pptx_slide_number n \<noteq> None" ZIP_MEMBER_CAP_BYTES] by (auto simp: extract_pptx_def)
  moreover obtain e where "e \<in> {EncryptedContainer, CorruptContainer}" "fst (extract_zip l bs depth budget) = Inl e"
    using assms(1) [of "\<lambda>_. True" ZIP_MEMBER_CAP_BYTES] by (auto simp: extract_zip.simps)
  ultimately show ?thesis
    using assms(2) nt by (auto simp: extract_by_extension.simps ext_zip_def lit_def)
qed

section \<open>Markup round trip\<close>

text \<open>The escaping of an XML writer, and a run of text inside its element.\<close>

definition xml_escape_char :: "uchar \<Rightarrow> ustring" where
  "xml_escape_char c = (case find (\<lambda>(_, ch). ch = c) ENTITIES of Some (ent, _) \<Rightarrow> ent | None \<Rightarrow> [c])"

definition xml_escape :: "ustring \<Rightarrow> ustring" where
  "xml_escape s = concat (map xml_escape_char s)"

definition xml_run :: "ustring \<Rightarrow> ustring \<Rightarrow> ustring" where
  "xml_run tag s = [60] @ tag @ [62] @ xml_escape s @ [60, 47] @ tag @ [62]"

lemma decode_entity:
  "(ent, ch) \<in> set ENTITIES \<Longrightarrow> decode_xml_entities (ent @ r) = ch # decode_xml_entities r"
  by (subst decode_xml_entities.simps)
    (auto simp: ENTITIES_def lit_def starts_with_def)

lemma decode_plain_char: "c \<noteq> 38 \<Longrightarrow> decode_xml_entities (c # r) = c # decode_xml_entities r"
  by (subst (1 2) decode_xml_entities.simps) (auto simp: Let_def split: option.splits)

lemma decode_escape_char: "decode_xml_entities (xml_escape_char c @ r) = c # decode_xml_entities r"
proof (cases "find (\<lambda>(_, ch). ch = c) ENTITIES")
  case None
  then have "c \<noteq> 38" by (auto simp: ENTITIES_def)
  with None show ?thesis by (simp add: xml_escape_char_def decode_plain_char)
next
  case (Some p)
  then obtain ent where "p = (ent, c)" "(ent, c) \<in> set ENTITIES"
    by (auto simp: find_Some_iff) (metis nth_mem)
  with Some show ?thesis by (simp add: xml_escape_char_def decode_entity)
qed

lemma decode_xml_escape: "decode_xml_entities (xml_escape s) = s"
proof (induction s)
  case Nil
  show ?case by (simp add: xml_escape_def decode_xml_entities.simps [of "[]"])
next
  case (Cons c s)
  then show ?case by (simp add: xml_escape_def decode_escape_char)
qed

lemma xml_escape_no_lt: "60 \<notin> set (xml_escape s)"
proof -
  have "60 \<notin> set (xml_escape_char c)" for c
    by (auto simp: xml_escape_char_def ENTITIES_def lit_def)
  then show ?thesis by (auto simp: xml_escape_def)
qed

lemma find_str_here: "p \<noteq> [] \<Longrightarrow> find_str p (p @ r) = Some 0"
  by (cases p) (simp_all add: starts_with_def)

lemma find_str_skip: "c \<notin> set pre \<Longrightarrow> find_str (c # p) (pre @ c # p @ r) = Some (length pre)"
  by (induction pre) (auto simp: starts_with_def)

lemma xml_element_text_run:
  "xml_element_text tag (xml_run tag s @ r) = s # xml_element_text tag r"
proof -
  let ?close = "[60, 47] @ tag @ [62]"
  have f: "find_str (60 # tag) (xml_run tag s @ r) = Some 0"
    using find_str_here [of "60 # tag"] by (simp add: xml_run_def)
  have d: "drop (0 + Suc (length tag)) (xml_run tag s @ r) = 62 # xml_escape s @ ?close @ r"
    by (simp add: xml_run_def)
  have c: "content_after (62 # xml_escape s @ ?close @ r) = Some (xml_escape s @ ?close @ r)"
    by (simp add: content_after_def starts_with_def)
  have e: "find_str ?close (xml_escape s @ ?close @ r) = Some (length (xml_escape s))"
    using find_str_skip [OF xml_escape_no_lt [of s], of "47 # tag @ [62]" r] by simp
  have t: "drop (length (xml_escape s) + length tag + 3) (xml_escape s @ ?close @ r) = r"
    by (simp add: numeral_3_eq_3)
  have g: "starts_with (62 # xml_escape s @ ?close @ r) [62]" by (simp add: starts_with_def)
  have tk: "take (length (xml_escape s)) (xml_escape s @ ?close @ r) = xml_escape s" by simp
  show ?thesis
    by (subst xml_element_text.simps)
      (simp only: f d c e t g tk option.case Let_def simp_thms if_True decode_xml_escape)
qed

lemma xml_element_text_runs:
  "xml_element_text tag (concat (map (xml_run tag) ts)) = ts"
proof (induction ts)
  case Nil
  show ?case by (simp add: xml_element_text.simps [of tag "[]"])
qed (simp add: xml_element_text_run)

section \<open>Plain text round trip\<close>

lemma utf8_char_bytes:
  assumes "is_scalar c" and "c \<noteq> 0" and "b \<in> set (utf8_char c)"
  shows "\<exists>k. 0 < k \<and> k < 248 \<and> b = of_nat k"
proof -
  have m: "0 < 128 + k mod 64 \<and> 128 + k mod 64 < 248" for k :: nat by (simp add: less_imp_le trans_less_add2)
  consider "c < 128" | "128 \<le> c" "c < 2048" | "2048 \<le> c" "c < 65536" | "65536 \<le> c" "c \<le> 1114111"
    using assms(1) by (force simp: is_scalar_def)
  then show ?thesis
  proof cases
    case 1
    with assms(2,3) show ?thesis by (auto simp: utf8_char_def)
  next
    case 2
    then have "0 < 192 + c div 64 \<and> 192 + c div 64 < 248" by linarith
    moreover from 2 assms(3) have "b = of_nat (192 + c div 64) \<or> b = of_nat (128 + c mod 64)"
      by (simp add: utf8_char_def del: of_nat_add)
    ultimately show ?thesis using m by blast
  next
    case 3
    then have "0 < 224 + c div 4096 \<and> 224 + c div 4096 < 248" by linarith
    moreover from 3 assms(3) have
      "b = of_nat (224 + c div 4096) \<or> b = of_nat (128 + c div 64 mod 64) \<or> b = of_nat (128 + c mod 64)"
      by (simp add: utf8_char_def del: of_nat_add)
    ultimately show ?thesis using m by blast
  next
    case 4
    then have "0 < 240 + c div 262144 \<and> 240 + c div 262144 < 248" by linarith
    moreover from 4 assms(3) have "b = of_nat (240 + c div 262144) \<or> b = of_nat (128 + c div 4096 mod 64)
        \<or> b = of_nat (128 + c div 64 mod 64) \<or> b = of_nat (128 + c mod 64)"
      by (simp add: utf8_char_def del: of_nat_add)
    ultimately show ?thesis using m by blast
  qed
qed

lemma utf8_bytes:
  assumes "list_all is_scalar s" and "0 \<notin> set s" and "b \<in> set (utf8 s)"
  shows "b \<noteq> 0 \<and> b \<noteq> 0xff \<and> b \<noteq> 0xfe"
proof -
  obtain c where "c \<in> set s" "b \<in> set (utf8_char c)" using assms(3) by (auto simp: utf8_def)
  with assms(1,2) obtain k where k: "0 < k" "k < 248" "b = of_nat k"
    using utf8_char_bytes [of c b] by (auto simp: list_all_iff)
  then have "unat b = k" by (simp add: unat_u8)
  with k show ?thesis by auto
qed

lemma bom_prefix:
  assumes "list_all is_scalar s" and "utf8 s = [0xef, 0xbb, 0xbf] @ r"
  shows "\<exists>t. s = 65279 # t"
proof -
  have "utf8_decode (map unat (utf8 s)) = Some 65279 # utf8_decode (map unat r)"
    unfolding assms(2) by (simp add: utf8_next_def utf8_tail_def is_cont_def)
  then show ?thesis using utf8_decode_utf8 [OF assms(1)] by auto
qed

lemma decode_plain_text_utf8:
  assumes "list_all is_scalar s" and "0 \<notin> set s" and "\<nexists>t. s = 65279 # t"
  shows "decode_plain_text (utf8 s) = Inr s"
    and "decode_plain_text ([0xef, 0xbb, 0xbf] @ utf8 s) = Inr s"
proof -
  have b: "b \<in> set (utf8 s) \<Longrightarrow> b \<noteq> 0 \<and> b \<noteq> 0xff \<and> b \<noteq> 0xfe" for b
    using utf8_bytes [OF assms(1,2)] by blast
  have "take 2 (utf8 s) \<noteq> [x, y]" if "x \<in> {0xff, 0xfe}" for x y
    using b [of x] that in_set_takeD [of x 2 "utf8 s"] by auto
  then have t: "take 2 (utf8 s) \<noteq> [0xff, 0xfe]" "take 2 (utf8 s) \<noteq> [0xfe, 0xff]" by blast+
  have z: "0 \<notin> set (utf8 s)" using b by blast
  have "strip_prefix [0xef, 0xbb, 0xbf] (utf8 s) = None"
    using bom_prefix [OF assms(1)] assms(3) by (auto simp: strip_prefix_def starts_with_iff)
  with t z show "decode_plain_text (utf8 s) = Inr s"
    by (simp add: decode_plain_text_def from_utf8_utf8 [OF assms(1)])
  show "decode_plain_text ([0xef, 0xbb, 0xbf] @ utf8 s) = Inr s"
    using z by (simp add: decode_plain_text_def strip_prefix_def starts_with_def from_utf8_utf8 [OF assms(1)])
qed

definition utf16_bytes :: "bool \<Rightarrow> ustring \<Rightarrow> bytes" where
  "utf16_bytes big_endian s =
     concat (map (\<lambda>u. if big_endian then to_be 2 u else to_le 2 u) (concat (map utf16_units s)))"

lemma utf16_pairs_bytes:
  assumes "list_all (\<lambda>u. u < 65536) us"
  shows "utf16_pairs big_endian (concat (map (\<lambda>u. if big_endian then to_be 2 u else to_le 2 u) us)) = us
    \<and> length (concat (map (\<lambda>u. if big_endian then to_be 2 u else to_le 2 u) us)) mod 2 = 0"
  using assms
proof (induction us)
  case (Cons u us)
  have u: "u div 256 mod 256 = u div 256" using Cons.prems by (simp add: less_mult_imp_div_less)
  have le: "to_le 2 u = [of_nat (u mod 256), of_nat (u div 256)]"
    and be: "to_be 2 u = [of_nat (u div 256), of_nat (u mod 256)]"
    by (simp_all add: to_be_def numeral_2_eq_2 u)
  have "u div 256 < 256" "u mod 256 < 256" using Cons.prems by auto
  with Cons le be show ?case by (auto simp: unat_u8)
qed simp

lemma utf16_units_range: "is_scalar c \<Longrightarrow> list_all (\<lambda>u. u < 65536) (utf16_units c)"
  by (auto simp: utf16_units_def is_scalar_def)

lemma decode_plain_text_utf16:
  assumes "list_all is_scalar s"
  shows "decode_plain_text ((if big_endian then [0xfe, 0xff] else [0xff, 0xfe]) @ utf16_bytes big_endian s) = Inr s"
proof -
  have "list_all (\<lambda>u. u < 65536) (concat (map utf16_units s))"
    using assms utf16_units_range by (auto simp: list_all_iff)
  from utf16_pairs_bytes [OF this, of big_endian]
  have "decode_utf16 (utf16_bytes big_endian s) big_endian = Inr s"
    by (simp add: decode_utf16_def utf16_bytes_def from_utf16_lossy_utf16 [OF assms])
  then show ?thesis by (cases big_endian) (simp_all add: decode_plain_text_def)
qed

section \<open>An example archive\<close>

definition example_item :: "ustring \<Rightarrow> bytes \<Rightarrow> zip_item" where
  "example_item name data = \<lparr>zi_raw = Some \<lparr>zm_encrypted = False, zm_name = name, zm_is_dir = False,
     zm_size = length data\<rparr>, zi_opens = True, zi_take = (\<lambda>n. Some (take n data))\<rparr>"

text \<open>Archive 1 holds archive 2, which holds a text member; archive 3 has an encrypted entry.\<close>

definition example_libs :: libs where
  "example_libs = \<lparr>zip_archive = (\<lambda>bs.
       if bs = [1] then Some [example_item (lit ''a.zip'') [2]]
       else if bs = [2] then Some [example_item (lit ''a.txt'') (utf8 (lit ''abcdef''))]
       else if bs = [3] then Some [example_item (lit ''a.txt'') (utf8 (lit ''x'')),
         (example_item (lit ''b'') [])\<lparr>zi_raw := Some \<lparr>zm_encrypted = True, zm_name = lit ''b'',
            zm_is_dir = False, zm_size = 0\<rparr>\<rparr>]
       else None),
     pdf_extract = (\<lambda>_. Pdf_Panic), str_to_lowercase = map ascii_lower\<rparr>"

section \<open>Properties\<close>


text \<open>
  Encryption anywhere in a container refuses it. If one entry of the archive has its
  encryption bit set, whether or not that entry would be read, then a file with a zip or
  OOXML extension is never turned into text: the outcome is a refusal, for its size, as
  encrypted or as corrupt.
\<close>

theorem encrypted_entry_refused:
  assumes "zip_archive l bs = Some items" and "item \<in> set items"
    and "zi_raw item = Some m" and "zm_encrypted m"
    and "extension_of l filename \<in> lit ` {''zip'', ''docx'', ''xlsx'', ''pptx''}"
  shows "\<exists>e \<in> {TooLarge, EncryptedContainer, CorruptContainer}. extract_text l bs filename = Inl e"
proof -
  have "\<exists>e \<in> {EncryptedContainer, CorruptContainer}. read_zip_entries l bs should_read cap = Inl e"
    for should_read cap
    using read_entries_loop_encrypted [OF assms(2-4)] by (simp add: read_zip_entries_def assms(1))
  from container_refused [OF this assms(5), of 1 ZIP_TOTAL_TEXT_CAP] show ?thesis
    by (auto simp: extract_text_def Let_def)
qed

lemma encrypted_entry_refused_witness:
  "\<exists>e \<in> {TooLarge, EncryptedContainer, CorruptContainer}. extract_text example_libs [3] (lit ''x.zip'') = Inl e"
  by (rule encrypted_entry_refused [where items = "the (zip_archive example_libs [3])"
      and item = "the (zip_archive example_libs [3]) ! 1" and m = "the (zi_raw (the (zip_archive example_libs [3]) ! 1))"])
    (simp_all add: example_libs_def extension_of_def rsplit_first_def lit_def ascii_lower_def is_ascii_upper_def)

text \<open>
  What an OOXML writer writes is what the scanner reads: from a sequence of runs of
  text, each escaped and put into its element, the scanner returns exactly the texts, in
  order.
\<close>

theorem xml_runs_round_trip:
  "xml_element_text tag (concat (map (xml_run tag) ts)) = ts"
  by (rule xml_element_text_runs)

text \<open>
  Text in any of the supported encodings is decoded to itself: UTF-8 with or without a
  byte order mark (for text without NUL that does not itself start with U+FEFF), and UTF-16
  of either byte order after its mark, surrogate pairs included.
\<close>

theorem plain_text_round_trip:
  assumes "list_all is_scalar s"
  shows "(0 \<notin> set s \<and> (\<nexists>t. s = 65279 # t) \<longrightarrow>
      decode_plain_text (utf8 s) = Inr s \<and> decode_plain_text ([0xef, 0xbb, 0xbf] @ utf8 s) = Inr s)
    \<and> decode_plain_text ([0xff, 0xfe] @ utf16_bytes False s) = Inr s
    \<and> decode_plain_text ([0xfe, 0xff] @ utf16_bytes True s) = Inr s"
  using decode_plain_text_utf8 [OF assms] decode_plain_text_utf16 [OF assms, of False]
    decode_plain_text_utf16 [OF assms, of True] by simp

lemma plain_text_round_trip_witness:
  "decode_plain_text (utf8 [104, 233, 8364, 128512]) = Inr [104, 233, 8364, 128512]
    \<and> decode_plain_text ([0xff, 0xfe] @ utf16_bytes False [104, 233, 8364, 128512]) = Inr [104, 233, 8364, 128512]"
  using plain_text_round_trip [of "[104, 233, 8364, 128512]"] by (simp add: is_scalar_def)

text \<open>
  The characters of a nested archive are charged twice, once by the inner and once by the
  outer loop: within a budget of ten, a nested archive with six characters of text loses
  two of them, while the same member not nested is kept whole.
\<close>

lemma nested_zip_charged_twice:
  "extract_zip example_libs [1] 1 10 = (Inr (lit ''abcd''), 0)
   \<and> extract_zip example_libs [2] 1 10 = (Inr (lit ''abcdef''), 4)"
proof -
  have ext: "extension_of example_libs (lit ''a.zip'') = ext_zip"
    "extension_of example_libs (lit ''a.txt'') = lit ''txt''" by code_simp+
  have u: "utf8 (lit ''abcdef'') = [97, 98, 99, 100, 101, 102]" by code_simp
  have d: "decode_plain_text [97, 98, 99, 100, 101, 102] = Inr (lit ''abcdef'')"
    by (simp add: decode_plain_text_def strip_prefix_def starts_with_def from_utf8_def utf8_next_def lit_def)
  have t: "is_text_extension (lit ''txt'')" "\<not> is_text_extension ext_zip" "lit ''txt'' \<noteq> ext_zip"
    by (auto simp: is_text_extension_def lit_def ext_zip_def)
  have z: "ext_zip \<noteq> lit ''docx''" "ext_zip \<noteq> lit ''xlsx''" "ext_zip \<noteq> lit ''pptx''" "ext_zip \<noteq> lit ''pdf''"
    by (simp_all add: lit_def ext_zip_def)
  have a: "read_zip_entries example_libs [1] (\<lambda>_. True) ZIP_MEMBER_CAP_BYTES = Inr [(lit ''a.zip'', Some [2])]"
    "read_zip_entries example_libs [2] (\<lambda>_. True) ZIP_MEMBER_CAP_BYTES
      = Inr [(lit ''a.txt'', Some [97, 98, 99, 100, 101, 102])]"
    using u by (simp_all add: read_zip_entries_def example_libs_def example_item_def ends_with_def starts_with_def
      lit_def ZIP_MEMBER_CAP_BYTES_def)
  have c: "clip_chars (lit ''abcdef'') 10 = (lit ''abcdef'', 6)" "clip_chars (lit ''abcdef'') 4 = (lit ''abcd'', 4)"
    by (simp_all add: clip_chars_def str_len_def u) (simp_all add: lit_def)
  have inner: "extract_zip example_libs [2] d 10 = (Inr (lit ''abcdef''), 4)" for d
    by (simp add: extract_zip.simps a ext t Let_def extract_by_extension.simps d c)
  moreover have "extract_zip example_libs [1] 1 10 = (Inr (lit ''abcd''), 0)"
    by (simp add: extract_zip.simps [of _ "[1]"] a ext t z Let_def extract_by_extension.simps inner c
      ZIP_MAX_DEPTH_def)
  ultimately show ?thesis by blast
qed

end
