(* ===== verification/Verdict.thy ===== *)
theory Verdict
  imports Edm Extract
begin

text \<open>
  The verdict, \<open>detect/verdict.rs\<close>: extraction, one normalization, winnowing, the
  filter-gated lookup per document, the scores and the ordering of the matches, and the
  exact data matches beside them. The file is given by its bytes and its name.
\<close>

section \<open>Data\<close>

datatype extraction =
  Extraction_Ok ustring
| Extraction_Unreadable ustring

record idm_match =
  im_version_id :: ustring
  im_document_id :: ustring
  im_collection_id :: ustring
  im_title :: ustring
  im_containment :: f64
  im_coverage :: f64
  im_matched_count :: nat
  im_total_count :: nat
  im_matched_hashes :: "ustring list"

record verdict =
  vd_file_name :: ustring
  vd_file_sha256 :: ustring
  vd_extraction :: extraction
  vd_idm :: "idm_match list"
  vd_edm :: "edm_source_hit list"

section \<open>Operations\<close>

definition hex_nibble :: "nat \<Rightarrow> uchar" where
  "hex_nibble n = (if n < 10 then 48 + n else 87 + n)"

definition sha256_hex :: "(bytes \<Rightarrow> bytes) \<Rightarrow> bytes \<Rightarrow> ustring" where
  "sha256_hex sha256 bs =
     concat (map (\<lambda>b. [hex_nibble (unat b div 16), hex_nibble (unat b mod 16)]) (sha256 bs))"

text \<open>The documents that one scanned hash is confirmed for, each with the hash.\<close>

definition confirmed :: "index_bundle \<Rightarrow> i64 \<Rightarrow> (u32 \<times> i64) list option" where
  "confirmed b h =
     (case bundle_bloom_has b h of
        None \<Rightarrow> None
      | Some has \<Rightarrow>
          if \<not> has then Some [] else Some (map (\<lambda>e. (idm_doc_index e, h)) (lookup_idm b h)))"

definition per_doc :: "index_bundle \<Rightarrow> i64 list \<Rightarrow> (u32 \<times> i64 list) list option" where
  "per_doc b scanned =
     map_option (\<lambda>cs. fold (\<lambda>(k, v). bt_push k v) (concat cs) []) (try_map (confirmed b) scanned)"

definition match_of_doc :: "doc \<Rightarrow> i64 list \<Rightarrow> nat \<Rightarrow> idm_match" where
  "match_of_doc d matched scanned_len =
     \<lparr>im_version_id = doc_version_id d, im_document_id = doc_document_id d,
      im_collection_id = doc_collection_id d, im_title = doc_title d,
      im_containment = (if doc_fp_count d = 0 then f64_zero
        else f64_div (as_f64 (length matched)) (as_f64 (doc_fp_count d))),
      im_coverage = (if scanned_len = 0 then f64_zero
        else f64_div (as_f64 (length matched)) (as_f64 scanned_len)),
      im_matched_count = length matched, im_total_count = doc_fp_count d,
      im_matched_hashes = map (\<lambda>h. show_int (sint h)) matched\<rparr>"

definition idm_match_at :: "index_bundle \<Rightarrow> nat \<Rightarrow> u32 \<times> i64 list \<Rightarrow> idm_match option" where
  "idm_match_at b scanned_len dm =
     map_option (\<lambda>d. match_of_doc d (snd dm) scanned_len)
       (index (hdr_docs (bdl_header b)) (unat (fst dm)))"

text \<open>Strongest match first, then by title; values that do not compare count as equal.\<close>

definition match_le :: "idm_match \<Rightarrow> idm_match \<Rightarrow> bool" where
  "match_le a b =
     (let ge = f64_le (im_containment b) (im_containment a); le = f64_le (im_containment a) (im_containment b)
      in if ge = le then im_title a \<le> im_title b else ge)"

definition scanned_hashes :: "index_bundle \<Rightarrow> ustring list \<Rightarrow> i64 list option" where
  "scanned_hashes b ts =
     (case shingles_of ts (prm_k (hdr_params (bdl_header b))) of
        None \<Rightarrow> None
      | Some shingles \<Rightarrow>
          map_option (\<lambda>fps. dedup_seen {} (map fp_hash fps))
            (winnow (map fnv1a64 shingles) (prm_w (hdr_params (bdl_header b)))))"

definition match_text ::
  "unicode \<Rightarrow> (bytes \<Rightarrow> bytes) \<Rightarrow> index_bundle \<Rightarrow> ustring \<Rightarrow> (idm_match list \<times> edm_source_hit list) option" where
  "match_text u sha256 b s =
     (let ts = tokens (normalize u s) in
      case scanned_hashes b ts of
        None \<Rightarrow> None
      | Some scanned \<Rightarrow>
          (case Option.bind (per_doc b scanned) (try_map (idm_match_at b (length scanned))) of
             None \<Rightarrow> None
           | Some idm \<Rightarrow> map_option (Pair (sort_by match_le idm)) (match_edm u sha256 b ts)))"

definition verdict_bytes ::
  "unicode \<Rightarrow> libs \<Rightarrow> (bytes \<Rightarrow> bytes) \<Rightarrow> index_bundle \<Rightarrow> bytes \<Rightarrow> ustring \<Rightarrow> verdict option" where
  "verdict_bytes u l sha256 b content filename =
     (case extract_text l content filename of
        Inl reason \<Rightarrow>
          Some \<lparr>vd_file_name = filename, vd_file_sha256 = sha256_hex sha256 content,
                vd_extraction = Extraction_Unreadable (reason_code reason), vd_idm = [], vd_edm = []\<rparr>
      | Inr extracted \<Rightarrow>
          map_option (\<lambda>(idm, edm).
            \<lparr>vd_file_name = filename, vd_file_sha256 = sha256_hex sha256 content,
             vd_extraction = Extraction_Ok (ext_format extracted), vd_idm = idm, vd_edm = edm\<rparr>)
            (match_text u sha256 b (ext_text extracted)))"

definition verdict_text ::
  "unicode \<Rightarrow> (bytes \<Rightarrow> bytes) \<Rightarrow> index_bundle \<Rightarrow> ustring \<Rightarrow> verdict option" where
  "verdict_text u sha256 b s =
     map_option (\<lambda>(idm, edm).
       \<lparr>vd_file_name = [], vd_file_sha256 = sha256_hex sha256 (utf8 s),
        vd_extraction = Extraction_Ok (lit ''text''), vd_idm = idm, vd_edm = edm\<rparr>)
       (match_text u sha256 b s)"

text \<open>
  \<open>verdict\<close> reads the file first: \<open>None\<close> in \<open>contents\<close> is the read error. \<open>file_name\<close> is
  the last path component, or \<open>None\<close> for a path that has none.
\<close>

definition verdict_file ::
  "unicode \<Rightarrow> libs \<Rightarrow> (bytes \<Rightarrow> bytes) \<Rightarrow> index_bundle \<Rightarrow> bytes option \<Rightarrow> ustring option \<Rightarrow> ustring
   \<Rightarrow> (unit + verdict) option" where
  "verdict_file u l sha256 b contents file_name path =
     (case contents of
        None \<Rightarrow> Some (Inl ())
      | Some bs \<Rightarrow>
          map_option Inr (verdict_bytes u l sha256 b bs (case file_name of Some n \<Rightarrow> n | None \<Rightarrow> path)))"

section \<open>Confirmed hashes\<close>

text \<open>The hashes of a scan that are confirmed for document \<open>d\<close>.\<close>

definition doc_hashes :: "index_bundle \<Rightarrow> i64 list \<Rightarrow> u32 \<Rightarrow> i64 list" where
  "doc_hashes b scanned d =
     filter (\<lambda>h. bundle_bloom_has b h = Some True \<and> \<lparr>idm_hash = h, idm_doc_index = d\<rparr> \<in> set (bdl_idm b)) scanned"

lemma idm_distinct: "bundle_wf b \<Longrightarrow> distinct (bdl_idm b)"
  by (auto simp: bundle_wf_def idm_sorted_def strict_sorted_iff distinct_map)

lemma filter_distinct_single:
  "distinct xs \<Longrightarrow> filter ((=) x) xs = (if x \<in> set xs then [x] else [])"
  by (induction xs) (auto simp: filter_empty_conv)

lemma confirmed_total:
  assumes "bundle_wf b"
  shows "\<exists>cs. confirmed b h = Some cs"
  using bundle_bloom_has_total [OF assms, of h] by (auto simp: confirmed_def)

lemma confirmed_filter:
  assumes "bundle_wf b" and "confirmed b h = Some cs"
  shows "filter (\<lambda>c. fst c = d) cs =
    (if bundle_bloom_has b h = Some True \<and> \<lparr>idm_hash = h, idm_doc_index = d\<rparr> \<in> set (bdl_idm b) then [(d, h)] else [])"
proof -
  let ?e = "\<lparr>idm_hash = h, idm_doc_index = d\<rparr>"
  have "filter (\<lambda>e. idm_doc_index e = d) (lookup_idm b h) = filter ((=) ?e) (bdl_idm b)"
    unfolding idm.lookup_filter [OF assms(1)] filter_filter by (rule filter_cong) auto
  also have "\<dots> = (if ?e \<in> set (bdl_idm b) then [?e] else [])"
    using idm_distinct [OF assms(1)] by (rule filter_distinct_single)
  finally show ?thesis
    using assms(2) by (auto simp: confirmed_def filter_map comp_def split: option.splits if_splits)
qed

lemma confirmed_concat:
  assumes "bundle_wf b" and "try_map (confirmed b) scanned = Some css"
  shows "map snd (filter (\<lambda>c. fst c = d) (concat css)) = doc_hashes b scanned d"
  using assms(2)
proof (induction scanned arbitrary: css)
  case (Cons h scanned)
  then obtain cs css' where "confirmed b h = Some cs" "try_map (confirmed b) scanned = Some css'" "css = cs # css'"
    by (auto split: option.splits)
  with Cons.IH confirmed_filter [OF assms(1), of h cs d] show ?case
    by (simp add: doc_hashes_def)
qed (simp add: doc_hashes_def)

lemma per_doc_exact:
  assumes "bundle_wf b"
  shows "\<exists>pd. per_doc b scanned = Some pd \<and> distinct (map fst pd)
    \<and> (\<forall>d vs. (d, vs) \<in> set pd \<longleftrightarrow> vs \<noteq> [] \<and> vs = doc_hashes b scanned d)"
proof -
  obtain css where css: "try_map (confirmed b) scanned = Some css"
    using try_map_total [of scanned "confirmed b"] confirmed_total [OF assms] by blast
  have "(d, vs) \<in> set (fold (\<lambda>(k, v). bt_push k v) (concat css) []) \<longleftrightarrow> vs \<noteq> [] \<and> vs = doc_hashes b scanned d" for d vs
    using bt.buckets_pushes_iff [of d vs "concat css"] confirmed_concat [OF assms css, of d] by simp
  moreover have "distinct (map fst (fold (\<lambda>(k, v). bt_push k v) (concat css) []))"
    using bt.buckets_pushes_distinct [of "concat css"] by simp
  ultimately show ?thesis by (simp add: per_doc_def css)
qed

lemma doc_hashes_in_range:
  "bundle_wf b \<Longrightarrow> doc_hashes b scanned d \<noteq> [] \<Longrightarrow> unat d < length (hdr_docs (bdl_header b))"
  by (auto simp: doc_hashes_def filter_empty_conv bundle_wf_def)

text \<open>The matches a scan should report, as a multiset over the documents.\<close>

definition idm_spec :: "index_bundle \<Rightarrow> i64 list \<Rightarrow> idm_match multiset" where
  "idm_spec b scanned =
     image_mset (\<lambda>d. match_of_doc (hdr_docs (bdl_header b) ! unat d) (doc_hashes b scanned d) (length scanned))
       (mset_set {d. doc_hashes b scanned d \<noteq> []})"

lemma idm_matches_spec:
  assumes "bundle_wf b"
  shows "\<exists>idm. Option.bind (per_doc b scanned) (try_map (idm_match_at b (length scanned))) = Some idm
    \<and> mset idm = idm_spec b scanned"
proof -
  let ?f = "\<lambda>d. match_of_doc (hdr_docs (bdl_header b) ! unat d) (doc_hashes b scanned d) (length scanned)"
  obtain pd where pd: "per_doc b scanned = Some pd" "distinct (map fst pd)"
    "\<And>d vs. (d, vs) \<in> set pd \<longleftrightarrow> vs \<noteq> [] \<and> vs = doc_hashes b scanned d"
    using per_doc_exact [OF assms] by blast
  have at: "idm_match_at b (length scanned) p = Some (?f (fst p))" if "p \<in> set pd" for p
  proof (cases p)
    case (Pair d vs)
    with that pd(3) have "vs \<noteq> []" "vs = doc_hashes b scanned d" by blast+
    with doc_hashes_in_range [OF assms, of scanned d] Pair show ?thesis
      by (simp add: idm_match_at_def index_Some)
  qed
  have "try_map (idm_match_at b (length scanned)) pd = Some (map (\<lambda>p. ?f (fst p)) pd)"
    by (rule try_map_Some) (use at in simp)
  moreover have "fst ` set pd = {d. doc_hashes b scanned d \<noteq> []}"
    using pd(3) by force
  then have "mset (map fst pd) = mset_set {d. doc_hashes b scanned d \<noteq> []}"
    using pd(2) mset_set_set [of "map fst pd"] by simp
  then have "mset (map (\<lambda>p. ?f (fst p)) pd) = idm_spec b scanned"
    unfolding idm_spec_def by (metis (no_types, lifting) list.map_comp comp_apply mset_map map_eq_conv)
  ultimately show ?thesis using pd(1) by simp
qed

section \<open>Ordering of the matches\<close>

fun f64_val :: "f64 \<Rightarrow> rat" where
  "f64_val (Fin q) = q"
| "f64_val _ = 0"

definition match_rank :: "idm_match \<Rightarrow> idm_match \<Rightarrow> bool" where
  "match_rank a b \<longleftrightarrow> f64_val (im_containment b) < f64_val (im_containment a)
     \<or> f64_val (im_containment a) = f64_val (im_containment b) \<and> im_title a \<le> im_title b"

lemma match_of_doc_containment:
  "\<exists>q. im_containment (match_of_doc d matched n) = Fin q"
proof (cases "doc_fp_count d = 0")
  case False
  then have "im_containment (match_of_doc d matched n) = score (length matched) (doc_fp_count d)"
    by (simp add: match_of_doc_def score_def)
  with score_Fin [of "doc_fp_count d" "length matched"] False show ?thesis by auto
qed (simp add: match_of_doc_def)

lemma insort_by_cong:
  "(\<And>y. y \<in> set xs \<Longrightarrow> le x y = le' x y) \<Longrightarrow> insort_by le x xs = insort_by le' x xs"
  by (induction xs) auto

lemma sort_by_cong:
  "(\<And>x y. x \<in> set xs \<Longrightarrow> y \<in> set xs \<Longrightarrow> le x y = le' x y) \<Longrightarrow> sort_by le xs = sort_by le' xs"
proof (induction xs)
  case (Cons x xs)
  then have "sort_by le xs = sort_by le' xs" by simp
  moreover have "insort_by le x (sort_by le' xs) = insort_by le' x (sort_by le' xs)"
    by (rule insort_by_cong) (simp add: Cons.prems)
  ultimately show ?case by (simp add: sort_by_def)
qed (simp add: sort_by_def)

lemma matches_sorted:
  assumes "\<And>m. m \<in> set ms \<Longrightarrow> \<exists>q. im_containment m = Fin q"
  shows "sorted_wrt match_rank (sort_by match_le ms)"
proof -
  have "match_le a b = match_rank a b" if "a \<in> set ms" "b \<in> set ms" for a b
    using assms [OF that(1)] assms [OF that(2)] by (auto simp: match_le_def match_rank_def Let_def)
  then have "sort_by match_le ms = sort_by match_rank ms" by (rule sort_by_cong)
  moreover have "sorted_wrt match_rank (sort_by match_rank ms)"
    by (rule sorted_sort_by) (auto simp: match_rank_def)
  ultimately show ?thesis by simp
qed

lemma scanned_hashes_total:
  assumes "bundle_wf b"
  shows "\<exists>scanned. scanned_hashes b ts = Some scanned"
proof -
  have "1 \<le> prm_k (hdr_params (bdl_header b))" "1 \<le> prm_w (hdr_params (bdl_header b))"
    using assms by (auto simp: bundle_wf_def header_wf_def DEFAULT_K_def DEFAULT_W_def)
  then show ?thesis
    using shingles_of_Some [of "prm_k (hdr_params (bdl_header b))" ts] winnow_Some
    by (fastforce simp: scanned_hashes_def)
qed

lemma scanned_hashes_fingerprints:
  assumes "bundle_wf b" and "scanned_hashes b (tokens (normalize u s)) = Some scanned"
    and "fingerprint_text u s DEFAULT_K DEFAULT_W = Some f"
  shows "set scanned = to_hash_set (fingerprints f)" and "distinct scanned"
proof -
  have "hdr_params (bdl_header b) = \<lparr>prm_k = DEFAULT_K, prm_w = DEFAULT_W, prm_hash_bits = 64\<rparr>"
    using assms(1) by (simp add: bundle_wf_def header_wf_def)
  with assms(2) fingerprint_text_Some [OF assms(3)]
  have "scanned = dedup_seen {} (map fp_hash (fingerprints f))"
    by (auto simp: scanned_hashes_def split: option.splits)
  then show "set scanned = to_hash_set (fingerprints f)" and "distinct scanned"
    by (simp_all add: set_dedup_seen distinct_dedup_seen to_hash_set_def)
qed

lemma match_text_exact:
  assumes "bundle_wf b"
  shows "\<exists>scanned idm edm. scanned_hashes b (tokens (normalize u s)) = Some scanned
    \<and> match_text u sha256 b s = Some (idm, edm) \<and> mset idm = idm_spec b scanned
    \<and> sorted_wrt match_rank idm \<and> match_edm u sha256 b (tokens (normalize u s)) = Some edm"
proof -
  let ?ts = "tokens (normalize u s)"
  obtain scanned where sc: "scanned_hashes b ?ts = Some scanned" using scanned_hashes_total [OF assms] by blast
  obtain idm where idm: "Option.bind (per_doc b scanned) (try_map (idm_match_at b (length scanned))) = Some idm"
    and m: "mset idm = idm_spec b scanned" using idm_matches_spec [OF assms] by blast
  obtain edm where edm: "match_edm u sha256 b ?ts = Some edm" using match_edm_total [OF assms] by blast
  have "\<exists>q. im_containment x = Fin q" if "x \<in> set idm" for x
  proof -
    from that have "x \<in># idm_spec b scanned" by (simp add: set_mset_mset [symmetric] m del: set_mset_mset)
    then show ?thesis using match_of_doc_containment by (auto simp: idm_spec_def)
  qed
  then have "sorted_wrt match_rank (sort_by match_le idm)" by (rule matches_sorted)
  with sc idm m edm show ?thesis by (simp add: match_text_def Let_def mset_sort_by)
qed

section \<open>Properties\<close>

text \<open>
  C5. The verdict on any readable content, against any well-formed bundle, is produced
  without a panic and is exact: it lists one match per protected document that has a
  scanned hash confirmed for it, with the confirmed hashes counted and scored against the
  fingerprint count of that document and the size of the scan, strongest match first, ties
  by title; and beside them the exact data matches of the same token stream.
\<close>

theorem verdict_bytes_exact:
  assumes "bundle_wf b" and "extract_text l content filename = Inr e"
  shows "\<exists>v scanned. verdict_bytes u l sha256 b content filename = Some v
    \<and> scanned_hashes b (tokens (normalize u (ext_text e))) = Some scanned
    \<and> vd_extraction v = Extraction_Ok (ext_format e)
    \<and> mset (vd_idm v) = idm_spec b scanned \<and> sorted_wrt match_rank (vd_idm v)
    \<and> match_edm u sha256 b (tokens (normalize u (ext_text e))) = Some (vd_edm v)"
proof -
  obtain scanned idm edm where "scanned_hashes b (tokens (normalize u (ext_text e))) = Some scanned"
    "match_text u sha256 b (ext_text e) = Some (idm, edm)" "mset idm = idm_spec b scanned"
    "sorted_wrt match_rank idm" "match_edm u sha256 b (tokens (normalize u (ext_text e))) = Some edm"
    using match_text_exact [OF assms(1)] by blast
  then show ?thesis by (simp add: verdict_bytes_def assms(2))
qed

lemma verdict_bytes_exact_witness:
  "\<exists>v. verdict_bytes ascii_tables example_libs edm_example_sha256 example_bundle (utf8 (lit ''hi'')) (lit ''a.txt'') = Some v
    \<and> vd_extraction v = Extraction_Ok (lit ''text'')"
proof -
  have ext: "extension_of example_libs (lit ''a.txt'') = lit ''txt''" by code_simp
  have u: "utf8 (lit ''hi'') = [104, 105]" by code_simp
  have d: "decode_plain_text [104, 105] = Inr (lit ''hi'')"
    by (simp add: decode_plain_text_def strip_prefix_def starts_with_def from_utf8_def utf8_next_def lit_def)
  have t: "is_text_extension (lit ''txt'')" by (simp add: is_text_extension_def)
  have e: "extract_text example_libs (utf8 (lit ''hi'')) (lit ''a.txt'')
      = Inr \<lparr>ext_text = lit ''hi'', ext_format = lit ''text''\<rparr>"
    by (simp add: extract_text_def u MAX_BUFFER_BYTES_def Let_def ext extract_by_extension.simps t d)
  have "bundle_wf example_bundle" using load_wf [OF example_load] .
  from verdict_bytes_exact [OF this e, of ascii_tables edm_example_sha256] show ?thesis by auto
qed

text \<open>
  Unreadable content is a verdict and not an error: whatever the bundle, it is reported
  with the reason code, and with no match.
\<close>

theorem unreadable_is_a_verdict:
  assumes "extract_text l content filename = Inl reason"
  shows "\<exists>v. verdict_bytes u l sha256 b content filename = Some v
    \<and> vd_extraction v = Extraction_Unreadable (reason_code reason)
    \<and> vd_file_sha256 v = sha256_hex sha256 content \<and> vd_idm v = [] \<and> vd_edm v = []"
  by (simp add: verdict_bytes_def assms)

lemma unreadable_is_a_verdict_witness:
  "\<exists>v. verdict_bytes ascii_tables example_libs edm_example_sha256 example_bundle [1] (lit ''a.exe'') = Some v
    \<and> vd_extraction v = Extraction_Unreadable (lit ''unsupported-format'')"
proof -
  have "extension_of example_libs (lit ''a.exe'') = lit ''exe''" by code_simp
  then have "extract_text example_libs [1] (lit ''a.exe'') = Inl UnsupportedFormat"
    by (simp add: extract_text_def MAX_BUFFER_BYTES_def extract_by_extension.simps is_text_extension_def
      ext_zip_def lit_def)
  from unreadable_is_a_verdict [OF this] show ?thesis by fastforce
qed

end
