(* ===== verification/Keyring.thy ===== *)
theory Keyring
  imports Rust_Std
begin

text \<open>
  The agent's keyring, \<open>crypto/keyring.rs\<close>: the keys held, the ids destroyed for good, and
  the kid that new seals use; its operations, the step relation of a ring under them, and
  the loading of a development keyfile. The error type is that of \<open>crypto/envelope.rs\<close>.
\<close>

section \<open>Data\<close>

datatype envelope_error =
  Malformed string
| WrongKey
| Tampered
| UnknownKeyId ustring
| KeyDestroyed ustring
| HeaderTooLarge
| SealFailed

record kek =
  kek_id :: ustring
  kek_bytes :: bytes

record keyring =
  kr_keys :: "ustring \<rightharpoonup> kek"
  kr_destroyed :: "ustring set"
  kr_active_key_id :: ustring

text \<open>The message of a bad base64 key is kept as its parts, the key id and the decoder's text.\<close>

datatype keyring_error =
  KE_Io ustring
| KE_Parse ustring
| KE_Parse_Key ustring ustring
| KE_BadKeyLength ustring nat
| KE_MissingActive ustring

section \<open>Operations\<close>

definition keyring_new :: "ustring \<Rightarrow> keyring" where
  "keyring_new active_key_id =
     \<lparr>kr_keys = Map.empty, kr_destroyed = {}, kr_active_key_id = active_key_id\<rparr>"

definition keyring_insert :: "keyring \<Rightarrow> kek \<Rightarrow> keyring" where
  "keyring_insert ring kek =
     (if kek_id kek \<in> kr_destroyed ring then ring
      else ring\<lparr>kr_keys := (kr_keys ring)(kek_id kek \<mapsto> kek)\<rparr>)"

definition keyring_lookup :: "keyring \<Rightarrow> ustring \<Rightarrow> envelope_error + kek" where
  "keyring_lookup ring key_id =
     (if key_id \<in> kr_destroyed ring then Inl (KeyDestroyed key_id)
      else ok_or (UnknownKeyId key_id) (kr_keys ring key_id))"

definition keyring_active :: "keyring \<Rightarrow> envelope_error + kek" where
  "keyring_active ring = keyring_lookup ring (kr_active_key_id ring)"

definition keyring_set_active :: "keyring \<Rightarrow> ustring \<Rightarrow> (envelope_error + unit) \<times> keyring" where
  "keyring_set_active ring key_id =
     (case keyring_lookup ring key_id of
        Inl e \<Rightarrow> (Inl e, ring)
      | Inr _ \<Rightarrow> (Inr (), ring\<lparr>kr_active_key_id := key_id\<rparr>))"

definition keyring_destroy :: "keyring \<Rightarrow> ustring \<Rightarrow> bool \<times> keyring" where
  "keyring_destroy ring key_id =
     (kr_keys ring key_id \<noteq> None,
      ring\<lparr>kr_keys := (kr_keys ring)(key_id := None), kr_destroyed := insert key_id (kr_destroyed ring)\<rparr>)"

text \<open>
  The development keyfile: what the JSON parser makes of it, the keys in the order the
  hash map yields them. \<open>b64_decode\<close> gives its error text on the left.
\<close>

record dev_keyfile =
  kf_active_key_id :: ustring
  kf_keys :: "(ustring \<times> ustring) list"
  kf_destroyed :: "ustring list"

fun load_keys ::
  "(ustring \<Rightarrow> ustring + bytes) \<Rightarrow> (ustring \<times> ustring) list \<Rightarrow> keyring \<Rightarrow> keyring_error + keyring" where
  "load_keys b64_decode [] ring = Inr ring"
| "load_keys b64_decode ((kid, b64) # keys) ring =
     (case b64_decode b64 of
        Inl e \<Rightarrow> Inl (KE_Parse_Key kid e)
      | Inr raw \<Rightarrow>
          if length raw \<noteq> 32 then Inl (KE_BadKeyLength kid (length raw))
          else load_keys b64_decode keys (keyring_insert ring \<lparr>kek_id = kid, kek_bytes = raw\<rparr>))"

definition from_dev_json ::
  "(bytes \<Rightarrow> ustring + dev_keyfile) \<Rightarrow> (ustring \<Rightarrow> ustring + bytes) \<Rightarrow> bytes \<Rightarrow> keyring_error + keyring" where
  "from_dev_json parse b64_decode bs =
     (case parse bs of
        Inl e \<Rightarrow> Inl (KE_Parse e)
      | Inr kf \<Rightarrow>
          let ring = (keyring_new (kf_active_key_id kf))\<lparr>kr_destroyed := set (kf_destroyed kf)\<rparr>
          in andthen (load_keys b64_decode (kf_keys kf) ring) (\<lambda>ring.
               case keyring_lookup ring (kf_active_key_id kf) of
                 Inl _ \<Rightarrow> Inl (KE_MissingActive (kf_active_key_id kf))
               | Inr _ \<Rightarrow> Inr ring))"

definition load_dev_keyfile ::
  "(bytes \<Rightarrow> ustring + dev_keyfile) \<Rightarrow> (ustring \<Rightarrow> ustring + bytes) \<Rightarrow> ustring + bytes
   \<Rightarrow> keyring_error + keyring" where
  "load_dev_keyfile parse b64_decode contents =
     (case contents of Inl e \<Rightarrow> Inl (KE_Io e) | Inr bs \<Rightarrow> from_dev_json parse b64_decode bs)"

section \<open>Invariant\<close>

definition keyring_wf :: "keyring \<Rightarrow> bool" where
  "keyring_wf ring \<longleftrightarrow>
     (\<forall>kid k. kr_keys ring kid = Some k \<longrightarrow> kek_id k = kid \<and> length (kek_bytes k) = 32)
     \<and> dom (kr_keys ring) \<inter> kr_destroyed ring = {}"

lemma keyring_new_wf [simp]: "keyring_wf (keyring_new a)"
  by (simp add: keyring_wf_def keyring_new_def)

lemma keyring_insert_wf:
  "keyring_wf ring \<Longrightarrow> length (kek_bytes k) = 32 \<Longrightarrow> keyring_wf (keyring_insert ring k)"
  by (auto simp: keyring_wf_def keyring_insert_def split: if_splits)

lemma keyring_destroy_wf: "keyring_wf ring \<Longrightarrow> keyring_wf (snd (keyring_destroy ring kid))"
  by (auto simp: keyring_wf_def keyring_destroy_def split: if_splits)

lemma keyring_set_active_wf: "keyring_wf ring \<Longrightarrow> keyring_wf (snd (keyring_set_active ring kid))"
  by (auto simp: keyring_wf_def keyring_set_active_def split: sum.splits)

lemma keyring_lookup_Inr: "keyring_lookup ring kid = Inr k \<longleftrightarrow> kid \<notin> kr_destroyed ring \<and> kr_keys ring kid = Some k"
  by (auto simp: keyring_lookup_def ok_or_eq_Inr)

lemma load_keys_spec:
  assumes "load_keys dec keys ring = Inr ring'" and "keyring_wf ring"
  shows "keyring_wf ring' \<and> kr_destroyed ring' = kr_destroyed ring
    \<and> kr_active_key_id ring' = kr_active_key_id ring"
  using assms
proof (induction keys arbitrary: ring)
  case (Cons kv keys)
  obtain kid b64 where kv: "kv = (kid, b64)" by fastforce
  with Cons.prems(1) obtain raw where raw: "dec b64 = Inr raw" "length raw = 32"
    and l: "load_keys dec keys (keyring_insert ring \<lparr>kek_id = kid, kek_bytes = raw\<rparr>) = Inr ring'"
    by (auto split: sum.splits if_splits)
  have "kr_destroyed (keyring_insert ring k) = kr_destroyed ring"
    "kr_active_key_id (keyring_insert ring k) = kr_active_key_id ring" for k
    by (simp_all add: keyring_insert_def)
  with Cons.IH [OF l] keyring_insert_wf [OF Cons.prems(2)] raw show ?case by simp
qed simp

section \<open>Key stores\<close>

text \<open>
  The contract of a key store with terminal destruction, as the envelope code and the key
  synchronisation rely on it: what a lookup returns after each operation.
\<close>

locale key_store =
  fixes lookup :: "'s \<Rightarrow> ustring \<Rightarrow> envelope_error + kek"
    and insert_key :: "'s \<Rightarrow> kek \<Rightarrow> 's"
    and destroy_key :: "'s \<Rightarrow> ustring \<Rightarrow> 's"
    and activate :: "'s \<Rightarrow> ustring \<Rightarrow> 's"
  assumes lookup_destroy_same: "lookup (destroy_key s kid) kid = Inl (KeyDestroyed kid)"
    and lookup_destroy_other: "kid \<noteq> kid' \<Longrightarrow> lookup (destroy_key s kid) kid' = lookup s kid'"
    and lookup_insert: "lookup (insert_key s k) kid =
      (if kid = kek_id k \<and> lookup s kid \<noteq> Inl (KeyDestroyed kid) then Inr k else lookup s kid)"
    and lookup_activate: "lookup (activate s kid) kid' = lookup s kid'"
begin

definition shredded :: "'s \<Rightarrow> ustring \<Rightarrow> bool" where
  "shredded s kid \<longleftrightarrow> lookup s kid = Inl (KeyDestroyed kid)"

lemma shredded_destroy: "shredded s kid \<Longrightarrow> shredded (destroy_key s kid') kid"
  by (cases "kid = kid'") (simp_all add: shredded_def lookup_destroy_same lookup_destroy_other)

lemma shredded_insert: "shredded s kid \<Longrightarrow> shredded (insert_key s k) kid"
  by (simp add: shredded_def lookup_insert)

lemma shredded_activate: "shredded s kid \<Longrightarrow> shredded (activate s kid') kid"
  by (simp add: shredded_def lookup_activate)

lemmas shredded_steps = shredded_destroy shredded_insert shredded_activate

lemma insert_held: "\<not> shredded s (kek_id k) \<Longrightarrow> lookup (insert_key s k) (kek_id k) = Inr k"
  by (simp add: shredded_def lookup_insert)

end

interpretation ring: key_store keyring_lookup keyring_insert "\<lambda>r kid. snd (keyring_destroy r kid)"
  "\<lambda>r kid. snd (keyring_set_active r kid)"
  by unfold_locales
    (auto simp: keyring_lookup_def keyring_destroy_def keyring_insert_def keyring_set_active_def
      ok_or_def split: sum.splits option.splits)

section \<open>Histories\<close>

text \<open>What can happen to a ring: the three mutations, in any order.\<close>

inductive ring_step :: "keyring \<Rightarrow> keyring \<Rightarrow> bool" where
  insert: "length (kek_bytes k) = 32 \<Longrightarrow> ring_step r (keyring_insert r k)"
| destroy: "ring_step r (snd (keyring_destroy r kid))"
| set_active: "ring_step r (snd (keyring_set_active r kid))"

inductive_cases ring_stepE: "ring_step r r'"

lemma ring_step_shredded: "ring_step r r' \<Longrightarrow> ring.shredded r kid \<Longrightarrow> ring.shredded r' kid"
  by (auto elim!: ring_stepE intro: ring.shredded_steps)

lemma ring_steps_shredded:
  assumes "ring_step\<^sup>*\<^sup>* r r'" and "ring.shredded r kid"
  shows "ring.shredded r' kid"
  using assms by (induction rule: rtranclp_induct) (auto intro: ring_step_shredded)

lemma ring_steps_wf:
  assumes "ring_step\<^sup>*\<^sup>* r r'" and "keyring_wf r"
  shows "keyring_wf r'"
  using assms
proof (induction rule: rtranclp_induct)
  case (step r' r'')
  from step(2,3,4) show ?case
    by (auto elim!: ring_stepE intro: keyring_insert_wf keyring_destroy_wf keyring_set_active_wf)
qed

section \<open>Properties\<close>

text \<open>
  C8. Destruction is terminal. Once a key id has been destroyed, every later lookup of it
  reports that it was destroyed, whatever inserts, destroys and activations follow, and
  sealing with it as the active key is refused.
\<close>

theorem destroyed_key_stays_destroyed:
  assumes "ring_step\<^sup>*\<^sup>* (snd (keyring_destroy r kid)) r'"
  shows "keyring_lookup r' kid = Inl (KeyDestroyed kid)
    \<and> (kr_active_key_id r' = kid \<longrightarrow> keyring_active r' = Inl (KeyDestroyed kid))"
  using ring_steps_shredded [OF assms, of kid] ring.lookup_destroy_same [of r kid]
  by (simp add: ring.shredded_def keyring_active_def)

lemma destroyed_key_stays_destroyed_witness:
  "keyring_lookup (keyring_insert (snd (keyring_destroy (keyring_new [97]) [97]))
     \<lparr>kek_id = [97], kek_bytes = replicate 32 1\<rparr>) [97] = Inl (KeyDestroyed [97])"
proof -
  have "ring_step\<^sup>*\<^sup>* (snd (keyring_destroy (keyring_new [97]) [97]))
      (keyring_insert (snd (keyring_destroy (keyring_new [97]) [97])) \<lparr>kek_id = [97], kek_bytes = replicate 32 1\<rparr>)"
    by (intro r_into_rtranclp ring_step.insert) simp
  from destroyed_key_stays_destroyed [OF this] show ?thesis by blast
qed

text \<open>
  A ring that loads from a keyfile can seal: it satisfies the invariant, its active key
  is held, is not destroyed and has 32 bytes, and no id listed as destroyed resolves; and
  both properties, the invariant and the refusals, hold after any further history.
\<close>

theorem loaded_ring_usable:
  assumes "from_dev_json parse b64_decode bs = Inr r" and "parse bs = Inr kf"
  shows "(\<exists>k. keyring_active r = Inr k \<and> kek_id k = kf_active_key_id kf \<and> length (kek_bytes k) = 32)
    \<and> (\<forall>r'. ring_step\<^sup>*\<^sup>* r r' \<longrightarrow> keyring_wf r'
         \<and> (\<forall>kid \<in> set (kf_destroyed kf). keyring_lookup r' kid = Inl (KeyDestroyed kid)))"
proof -
  let ?r0 = "(keyring_new (kf_active_key_id kf))\<lparr>kr_destroyed := set (kf_destroyed kf)\<rparr>"
  have wf0: "keyring_wf ?r0" by (simp add: keyring_wf_def keyring_new_def)
  obtain k where l: "load_keys b64_decode (kf_keys kf) ?r0 = Inr r"
    and k: "keyring_lookup r (kf_active_key_id kf) = Inr k"
  proof -
    obtain r1 where r1: "load_keys b64_decode (kf_keys kf) ?r0 = Inr r1"
      and m: "(case keyring_lookup r1 (kf_active_key_id kf) of
        Inl _ \<Rightarrow> Inl (KE_MissingActive (kf_active_key_id kf)) | Inr _ \<Rightarrow> Inr r1) = Inr r"
      using assms by (auto simp: from_dev_json_def Let_def andthen_eq_Inr)
    then show thesis using that by (cases "keyring_lookup r1 (kf_active_key_id kf)") auto
  qed
  note spec = load_keys_spec [OF l wf0]
  have "kr_keys r (kf_active_key_id kf) = Some k" using k by (simp add: keyring_lookup_Inr)
  then have "\<exists>k. keyring_active r = Inr k \<and> kek_id k = kf_active_key_id kf \<and> length (kek_bytes k) = 32"
    using spec k by (auto simp: keyring_active_def keyring_wf_def keyring_new_def)
  moreover have "keyring_lookup r' kid = Inl (KeyDestroyed kid)"
    if "ring_step\<^sup>*\<^sup>* r r'" "kid \<in> set (kf_destroyed kf)" for r' kid
    using ring_steps_shredded [OF that(1), of kid] that(2) spec
    by (simp add: ring.shredded_def keyring_lookup_def)
  ultimately show ?thesis using spec ring_steps_wf by blast
qed

definition example_keyfile :: dev_keyfile where
  "example_keyfile = \<lparr>kf_active_key_id = lit ''k'', kf_keys = [(lit ''k'', lit ''a''), (lit ''old'', lit ''a'')],
     kf_destroyed = [lit ''old'']\<rparr>"

lemma loaded_ring_usable_witness:
  "\<exists>r k. from_dev_json (\<lambda>_. Inr example_keyfile) (\<lambda>_. Inr (replicate 32 7)) [] = Inr r
     \<and> keyring_active r = Inr k \<and> keyring_lookup r (lit ''old'') = Inl (KeyDestroyed (lit ''old''))"
proof -
  obtain r where r: "from_dev_json (\<lambda>_. Inr example_keyfile) (\<lambda>_. Inr (replicate 32 7)) [] = Inr r"
    by (simp add: from_dev_json_def example_keyfile_def Let_def keyring_lookup_def keyring_insert_def
      keyring_new_def lit_def)
  from loaded_ring_usable [OF this refl] r show ?thesis by (auto simp: example_keyfile_def)
qed

end
