(* ===== verification/Envelope.thy ===== *)
theory Envelope
  imports Keyring
begin

text \<open>
  The \<open>.dlpenc\<close> envelope, \<open>crypto/envelope.rs\<close>: parsing, sealing and opening. AES-256-GCM,
  base64, the JSON form of the header and SHA-256 are the record \<open>envelope_libs\<close>; the
  random source is a state with a \<open>fill\<close> function, drawn from in the order of the source.
\<close>

section \<open>Data\<close>

definition ENV_MAGIC :: bytes where
  "ENV_MAGIC = [0x44, 0x4c, 0x50, 0x45]"

definition VERSION :: u8 where
  "VERSION = 1"

definition NONCE_LEN :: nat where
  "NONCE_LEN = 12"

definition TAG_LEN :: nat where
  "TAG_LEN = 16"

definition WRAPPED_DEK_LEN :: nat where
  "WRAPPED_DEK_LEN = 32 + TAG_LEN"

definition PREFIX_LEN :: nat where
  "PREFIX_LEN = 7"

record envelope_header =
  eh_key_id :: ustring
  eh_wrapped_dek :: ustring
  eh_dek_nonce :: ustring
  eh_origin_agent :: ustring
  eh_created_unix :: u64
  eh_plaintext_sha256 :: ustring
  eh_orig_name :: ustring

text \<open>The cipher takes key, nonce, associated data and message, in this order.\<close>

record envelope_libs =
  gcm_encrypt :: "bytes \<Rightarrow> bytes \<Rightarrow> bytes \<Rightarrow> bytes \<Rightarrow> bytes option"
  gcm_decrypt :: "bytes \<Rightarrow> bytes \<Rightarrow> bytes \<Rightarrow> bytes \<Rightarrow> bytes option"
  b64_encode :: "bytes \<Rightarrow> ustring"
  b64_decode :: "ustring \<Rightarrow> bytes option"
  header_to_json :: "envelope_header \<Rightarrow> bytes option"
  header_from_json :: "bytes \<Rightarrow> envelope_header option"
  env_sha256 :: "bytes \<Rightarrow> bytes"

record parsed =
  ps_header :: envelope_header
  ps_aad :: bytes
  ps_nonce :: bytes
  ps_ciphertext_and_tag :: bytes

section \<open>Operations\<close>

definition hex_digit_char :: "nat \<Rightarrow> uchar" where
  "hex_digit_char n = (if n < 10 then 48 + n else 87 + n)"

definition hex :: "bytes \<Rightarrow> ustring" where
  "hex bs = concat (map (\<lambda>b. [hex_digit_char (unat b div 16), hex_digit_char (unat b mod 16)]) bs)"

text \<open>\<open>Aes256Gcm::new_from_slice\<close>: a key of another length is refused.\<close>

definition cipher_key :: "envelope_error \<Rightarrow> bytes \<Rightarrow> envelope_error + bytes" where
  "cipher_key e k = (if length k = 32 then Inr k else Inl e)"

definition parse :: "envelope_libs \<Rightarrow> bytes \<Rightarrow> envelope_error + parsed" where
  "parse l envelope =
     (if length envelope < PREFIX_LEN then Inl (Malformed ''truncated'')
      else if take 4 envelope \<noteq> ENV_MAGIC then Inl (Malformed ''magic'')
      else if envelope ! 4 \<noteq> VERSION then Inl (Malformed ''version'')
      else
        let header_len = le_nat [envelope ! 5, envelope ! 6];
            header_end = PREFIX_LEN + header_len
        in if length envelope < header_end then Inl (Malformed ''header-len-overflow'')
           else case header_from_json l (drop PREFIX_LEN (take header_end envelope)) of
                  None \<Rightarrow> Inl (Malformed ''header-json'')
                | Some header \<Rightarrow>
                    if length envelope < header_end + NONCE_LEN + TAG_LEN then Inl (Malformed ''truncated'')
                    else Inr \<lparr>ps_header = header, ps_aad = take header_end envelope,
                              ps_nonce = take NONCE_LEN (drop header_end envelope),
                              ps_ciphertext_and_tag = drop (header_end + NONCE_LEN) envelope\<rparr>)"

definition peek_header :: "envelope_libs \<Rightarrow> bytes \<Rightarrow> envelope_error + envelope_header" where
  "peek_header l envelope = andthen (parse l envelope) (\<lambda>p. Inr (ps_header p))"

definition envelope_open ::
  "envelope_libs \<Rightarrow> bytes \<Rightarrow> keyring \<Rightarrow> envelope_error + (envelope_header \<times> bytes)" where
  "envelope_open l envelope keyring =
     andthen (parse l envelope) (\<lambda>p.
     andthen (keyring_lookup keyring (eh_key_id (ps_header p))) (\<lambda>kek.
     andthen (ok_or (Malformed ''header-field'') (b64_decode l (eh_wrapped_dek (ps_header p)))) (\<lambda>wrapped_dek.
     andthen (ok_or (Malformed ''header-field'') (b64_decode l (eh_dek_nonce (ps_header p)))) (\<lambda>dek_nonce.
       if length wrapped_dek \<noteq> WRAPPED_DEK_LEN \<or> length dek_nonce \<noteq> NONCE_LEN
       then Inl (Malformed ''header-field'')
       else
         andthen (cipher_key WrongKey (kek_bytes kek)) (\<lambda>kek_cipher.
         andthen (ok_or WrongKey (gcm_decrypt l kek_cipher dek_nonce [] wrapped_dek)) (\<lambda>dek.
           if length dek \<noteq> 32 then Inl WrongKey
           else
             andthen (cipher_key WrongKey dek) (\<lambda>body_cipher.
             andthen (ok_or Tampered
                 (gcm_decrypt l body_cipher (ps_nonce p) (ps_aad p) (ps_ciphertext_and_tag p)))
               (\<lambda>plaintext. Inr (ps_header p, plaintext)))))))))"

text \<open>Sealing after the three draws; the header that it writes is a definition of its own.\<close>

definition seal_header ::
  "envelope_libs \<Rightarrow> bytes \<Rightarrow> bytes \<Rightarrow> bytes \<Rightarrow> ustring \<Rightarrow> kek \<Rightarrow> ustring \<Rightarrow> u64 \<Rightarrow> envelope_header" where
  "seal_header l wrapped_dek dek_nonce plaintext orig_name key agent_id now_unix =
     \<lparr>eh_key_id = kek_id key, eh_wrapped_dek = b64_encode l wrapped_dek,
      eh_dek_nonce = b64_encode l dek_nonce, eh_origin_agent = agent_id, eh_created_unix = now_unix,
      eh_plaintext_sha256 = hex (env_sha256 l plaintext), eh_orig_name = orig_name\<rparr>"

definition seal_drawn ::
  "envelope_libs \<Rightarrow> bytes \<Rightarrow> bytes \<Rightarrow> bytes \<Rightarrow> bytes \<Rightarrow> ustring \<Rightarrow> kek \<Rightarrow> ustring \<Rightarrow> u64
   \<Rightarrow> envelope_error + bytes" where
  "seal_drawn l dek dek_nonce body_nonce plaintext orig_name key agent_id now_unix =
     andthen (cipher_key SealFailed (kek_bytes key)) (\<lambda>kek_cipher.
     andthen (ok_or SealFailed (gcm_encrypt l kek_cipher dek_nonce [] dek)) (\<lambda>wrapped_dek.
     andthen (ok_or SealFailed
         (header_to_json l (seal_header l wrapped_dek dek_nonce plaintext orig_name key agent_id now_unix)))
       (\<lambda>header_bytes.
       if 2 ^ 16 \<le> length header_bytes then Inl HeaderTooLarge
       else
         let out = ENV_MAGIC @ [VERSION] @ to_le 2 (length header_bytes) @ header_bytes
         in andthen (cipher_key SealFailed dek) (\<lambda>body_cipher.
            andthen (ok_or SealFailed (gcm_encrypt l body_cipher body_nonce out plaintext))
              (\<lambda>ciphertext_and_tag. Inr (out @ body_nonce @ ciphertext_and_tag))))))"

definition seal_with_rng ::
  "envelope_libs \<Rightarrow> ('r \<Rightarrow> nat \<Rightarrow> bytes \<times> 'r) \<Rightarrow> 'r \<Rightarrow> bytes \<Rightarrow> ustring \<Rightarrow> kek \<Rightarrow> ustring \<Rightarrow> u64
   \<Rightarrow> (envelope_error + bytes) \<times> 'r" where
  "seal_with_rng l fill rng plaintext orig_name key agent_id now_unix =
     (let (dek, rng) = fill rng 32;
          (dek_nonce, rng) = fill rng NONCE_LEN;
          (body_nonce, rng) = fill rng NONCE_LEN
      in (seal_drawn l dek dek_nonce body_nonce plaintext orig_name key agent_id now_unix, rng))"

section \<open>What the libraries promise\<close>

text \<open>
  Decryption under the same key, nonce and associated data inverts encryption and the tag
  adds 16 bytes; base64 and the JSON form of a header decode to what was encoded; the random
  source fills the whole buffer.
\<close>

definition gcm_correct :: "envelope_libs \<Rightarrow> bool" where
  "gcm_correct l \<longleftrightarrow> (\<forall>k n a m c. length k = 32 \<and> length n = NONCE_LEN \<and> gcm_encrypt l k n a m = Some c
     \<longrightarrow> gcm_decrypt l k n a c = Some m \<and> length c = length m + TAG_LEN)"

definition b64_correct :: "envelope_libs \<Rightarrow> bool" where
  "b64_correct l \<longleftrightarrow> (\<forall>bs. b64_decode l (b64_encode l bs) = Some bs)"

definition json_correct :: "envelope_libs \<Rightarrow> bool" where
  "json_correct l \<longleftrightarrow> (\<forall>h bs. header_to_json l h = Some bs \<longrightarrow> header_from_json l bs = Some h)"

definition rng_fills :: "('r \<Rightarrow> nat \<Rightarrow> bytes \<times> 'r) \<Rightarrow> bool" where
  "rng_fills fill \<longleftrightarrow> (\<forall>r n. length (fst (fill r n)) = n)"

section \<open>Parsing\<close>

lemmas env_consts = PREFIX_LEN_def NONCE_LEN_def TAG_LEN_def WRAPPED_DEK_LEN_def

lemma parse_Inr:
  assumes "parse l envelope = Inr p"
  shows "envelope = ps_aad p @ ps_nonce p @ ps_ciphertext_and_tag p \<and> length (ps_nonce p) = NONCE_LEN
    \<and> TAG_LEN \<le> length (ps_ciphertext_and_tag p)
    \<and> (\<exists>header_bytes. ps_aad p = ENV_MAGIC @ [VERSION] @ to_le 2 (length header_bytes) @ header_bytes
         \<and> header_from_json l header_bytes = Some (ps_header p))"
proof -
  define hl where "hl = le_nat [envelope ! 5, envelope ! 6]"
  define hb where "hb = drop PREFIX_LEN (take (PREFIX_LEN + hl) envelope)"
  have len: "PREFIX_LEN \<le> length envelope" "PREFIX_LEN + hl + NONCE_LEN + TAG_LEN \<le> length envelope"
    and m: "take 4 envelope = ENV_MAGIC" and v: "envelope ! 4 = VERSION"
    and j: "header_from_json l hb = Some (ps_header p)"
    and p: "ps_aad p = take (PREFIX_LEN + hl) envelope"
      "ps_nonce p = take NONCE_LEN (drop (PREFIX_LEN + hl) envelope)"
      "ps_ciphertext_and_tag p = drop (PREFIX_LEN + hl + NONCE_LEN) envelope"
    using assms by (auto simp: parse_def Let_def hl_def hb_def split: if_splits option.splits)
  have whole: "envelope = ps_aad p @ ps_nonce p @ ps_ciphertext_and_tag p"
    unfolding p by (metis append_take_drop_id drop_drop add.commute)
  have lh: "length hb = hl" using len by (simp add: hb_def)
  have "take 7 envelope = ENV_MAGIC @ [VERSION] @ [envelope ! 5, envelope ! 6]"
  proof -
    have "7 \<le> length envelope" using len by (simp add: env_consts)
    then have "take 7 envelope = take 4 envelope @ [envelope ! 4, envelope ! 5, envelope ! 6]"
      by (simp add: take_Suc_conv_app_nth eval_nat_numeral)
    with m v show ?thesis by simp
  qed
  moreover have "[envelope ! 5, envelope ! 6] = to_le 2 (length hb)"
    unfolding lh hl_def using to_le_le_nat [of "[envelope ! 5, envelope ! 6]"] by (simp add: numeral_2_eq_2)
  ultimately have "take PREFIX_LEN envelope = ENV_MAGIC @ [VERSION] @ to_le 2 (length hb)"
    by (simp add: PREFIX_LEN_def)
  moreover have "ps_aad p = take PREFIX_LEN envelope @ hb"
    unfolding p hb_def using len by (metis append_take_drop_id le_add1 min.absorb1 take_take)
  ultimately have "ps_aad p = ENV_MAGIC @ [VERSION] @ to_le 2 (length hb) @ hb" by simp
  moreover have "length (ps_nonce p) = NONCE_LEN" "TAG_LEN \<le> length (ps_ciphertext_and_tag p)"
    unfolding p using len by simp_all
  ultimately show ?thesis using whole j by blast
qed

lemma parse_built:
  assumes "length hb < 2 ^ 16" and "header_from_json l hb = Some h"
    and "length n = NONCE_LEN" and "TAG_LEN \<le> length c"
  shows "parse l (ENV_MAGIC @ [VERSION] @ to_le 2 (length hb) @ hb @ n @ c) =
    Inr \<lparr>ps_header = h, ps_aad = ENV_MAGIC @ [VERSION] @ to_le 2 (length hb) @ hb, ps_nonce = n,
         ps_ciphertext_and_tag = c\<rparr>"
proof -
  have le: "le_nat (to_le 2 (length hb)) = length hb" using assms(1) by (simp add: le_nat_to_le)
  have "\<exists>x y. to_le 2 (length hb) = [x, y]" by (simp add: numeral_2_eq_2)
  then obtain x y where xy: "to_le 2 (length hb) = [x, y]" by blast
  define pre where "pre = ENV_MAGIC @ [VERSION] @ [x, y]"
  define env where "env = pre @ hb @ n @ c"
  have pre: "length pre = PREFIX_LEN" by (simp add: pre_def ENV_MAGIC_def env_consts)
  have hd: "take 4 env = ENV_MAGIC" "env ! 4 = VERSION" "env ! 5 = x" "env ! 6 = y"
    by (simp_all add: env_def pre_def ENV_MAGIC_def)
  have hl: "le_nat [env ! 5, env ! 6] = length hb" using le xy hd by simp
  have tk: "take (PREFIX_LEN + length hb) env = pre @ hb" "drop PREFIX_LEN (pre @ hb) = hb"
    "take NONCE_LEN (drop (PREFIX_LEN + length hb) env) = n" "drop (PREFIX_LEN + length hb + NONCE_LEN) env = c"
    using assms(3) by (simp_all add: env_def flip: pre)
  have len: "\<not> length env < PREFIX_LEN" "\<not> length env < PREFIX_LEN + length hb"
    "\<not> length env < PREFIX_LEN + length hb + NONCE_LEN + TAG_LEN"
    using assms(3,4) by (simp_all add: env_def flip: pre)
  have "parse l env = Inr \<lparr>ps_header = h, ps_aad = pre @ hb, ps_nonce = n, ps_ciphertext_and_tag = c\<rparr>"
    unfolding parse_def Let_def hl tk by (simp only: hd len assms(2) option.case if_False simp_thms)
  then show ?thesis by (simp add: env_def pre_def xy)
qed

section \<open>Sealing and opening\<close>

lemma seal_drawn_Inr:
  assumes "seal_drawn l dek dn bn plaintext name key agent now = Inr env"
  obtains wd hb c where "length (kek_bytes key) = 32" "gcm_encrypt l (kek_bytes key) dn [] dek = Some wd"
    "header_to_json l (seal_header l wd dn plaintext name key agent now) = Some hb"
    "length hb < 2 ^ 16" "length dek = 32"
    "gcm_encrypt l dek bn (ENV_MAGIC @ [VERSION] @ to_le 2 (length hb) @ hb) plaintext = Some c"
    "env = (ENV_MAGIC @ [VERSION] @ to_le 2 (length hb) @ hb) @ bn @ c"
  using assms
  by (auto simp: seal_drawn_def andthen_eq_Inr ok_or_eq_Inr cipher_key_def Let_def split: if_splits)

lemma open_sealed:
  assumes libs: "gcm_correct l" "b64_correct l" "json_correct l"
    and seal: "seal_drawn l dek dn bn plaintext name key agent now = Inr env"
    and lens: "length dn = NONCE_LEN" "length bn = NONCE_LEN"
    and key: "keyring_lookup ring (kek_id key) = Inr key"
  shows "\<exists>wd. envelope_open l env ring = Inr (seal_header l wd dn plaintext name key agent now, plaintext)"
proof -
  obtain wd hb c where s: "length (kek_bytes key) = 32" "gcm_encrypt l (kek_bytes key) dn [] dek = Some wd"
    "header_to_json l (seal_header l wd dn plaintext name key agent now) = Some hb"
    "length hb < 2 ^ 16" "length dek = 32"
    "gcm_encrypt l dek bn (ENV_MAGIC @ [VERSION] @ to_le 2 (length hb) @ hb) plaintext = Some c"
    "env = (ENV_MAGIC @ [VERSION] @ to_le 2 (length hb) @ hb) @ bn @ c"
    using seal by (rule seal_drawn_Inr)
  let ?h = "seal_header l wd dn plaintext name key agent now"
  let ?aad = "ENV_MAGIC @ [VERSION] @ to_le 2 (length hb) @ hb"
  have w: "gcm_decrypt l (kek_bytes key) dn [] wd = Some dek" "length wd = WRAPPED_DEK_LEN"
    using libs(1) [unfolded gcm_correct_def, rule_format, of "kek_bytes key" dn "[]" dek wd] s(1,2,5) lens(1)
    by (simp_all add: WRAPPED_DEK_LEN_def)
  have b: "gcm_decrypt l dek bn ?aad c = Some plaintext" "TAG_LEN \<le> length c"
    using libs(1) [unfolded gcm_correct_def, rule_format, of dek bn ?aad plaintext c] s(5,6) lens(2)
    by simp_all
  have "header_from_json l hb = Some ?h" using libs(3) s(3) by (simp add: json_correct_def)
  from parse_built [OF s(4) this lens(2) b(2)]
  have "parse l env = Inr \<lparr>ps_header = ?h, ps_aad = ?aad, ps_nonce = bn, ps_ciphertext_and_tag = c\<rparr>"
    using s(7) by simp
  then have "envelope_open l env ring = Inr (?h, plaintext)"
    using libs(2) key w b(1) s(1,5) lens
    by (simp add: envelope_open_def seal_header_def b64_correct_def cipher_key_def)
  then show ?thesis by blast
qed

lemma envelope_open_Inr:
  "envelope_open l envelope ring = Inr (h, plaintext) \<Longrightarrow>
     (\<exists>p kek wd dn dek. parse l envelope = Inr p \<and> h = ps_header p
        \<and> keyring_lookup ring (eh_key_id h) = Inr kek
        \<and> b64_decode l (eh_wrapped_dek h) = Some wd \<and> length wd = WRAPPED_DEK_LEN
        \<and> b64_decode l (eh_dek_nonce h) = Some dn \<and> length dn = NONCE_LEN
        \<and> length (kek_bytes kek) = 32 \<and> gcm_decrypt l (kek_bytes kek) dn [] wd = Some dek \<and> length dek = 32
        \<and> gcm_decrypt l dek (ps_nonce p) (ps_aad p) (ps_ciphertext_and_tag p) = Some plaintext)"
  by (auto simp: envelope_open_def andthen_eq_Inr ok_or_eq_Inr cipher_key_def split: if_splits)

section \<open>An example library\<close>

definition example_eh :: envelope_header where
  "example_eh = \<lparr>eh_key_id = [107], eh_wrapped_dek = replicate 48 0, eh_dek_nonce = replicate 12 0,
     eh_origin_agent = [], eh_created_unix = 0, eh_plaintext_sha256 = [], eh_orig_name = []\<rparr>"

definition example_env_libs :: envelope_libs where
  "example_env_libs =
     \<lparr>gcm_encrypt = (\<lambda>k n a m. Some (m @ replicate TAG_LEN 0)),
      gcm_decrypt = (\<lambda>k n a c. Some (take (length c - TAG_LEN) c)),
      b64_encode = map unat, b64_decode = (\<lambda>s. Some (map of_nat s)),
      header_to_json = (\<lambda>h. if h = example_eh then Some [123, 125] else None),
      header_from_json = (\<lambda>bs. if bs = [123, 125] then Some example_eh else None),
      env_sha256 = (\<lambda>_. [])\<rparr>"

definition example_fill :: "unit \<Rightarrow> nat \<Rightarrow> bytes \<times> unit" where
  "example_fill r n = (replicate n 0, ())"

definition example_key :: kek where
  "example_key = \<lparr>kek_id = [107], kek_bytes = replicate 32 5\<rparr>"

definition example_envelope :: bytes where
  "example_envelope = ENV_MAGIC @ [VERSION] @ [2, 0] @ [123, 125] @ replicate 12 0 @ [104, 105] @ replicate 16 0"

lemma example_env_libs_correct:
  "gcm_correct example_env_libs" "b64_correct example_env_libs" "json_correct example_env_libs"
  "rng_fills example_fill"
  by (auto simp: gcm_correct_def b64_correct_def json_correct_def rng_fills_def example_env_libs_def
    example_fill_def comp_def split: if_splits)

lemma to_le_2_2: "to_le 2 (Suc (Suc 0)) = [2, 0]"
  by code_simp

lemma example_seal:
  "seal_with_rng example_env_libs example_fill () [104, 105] [] example_key [] 0 = (Inr example_envelope, ())"
proof -
  have "seal_header example_env_libs (replicate 48 0) (replicate 12 0) [104, 105] [] example_key [] 0 = example_eh"
    by (simp add: seal_header_def example_env_libs_def example_key_def example_eh_def hex_def)
  moreover have "replicate 32 0 @ replicate TAG_LEN 0 = (replicate 48 0 :: bytes)"
    by (simp add: TAG_LEN_def flip: replicate_add)
  ultimately show ?thesis
    by (simp add: seal_with_rng_def example_fill_def seal_drawn_def cipher_key_def example_envelope_def
      NONCE_LEN_def Let_def) (simp add: example_env_libs_def example_key_def cipher_key_def TAG_LEN_def to_le_2_2)
qed

lemma sealed_opens:
  assumes "gcm_correct l" and "b64_correct l" and "json_correct l" and "rng_fills fill"
    and "seal_with_rng l fill rng plaintext orig_name key agent_id now_unix = (Inr env, rng')"
    and "keyring_lookup ring (kek_id key) = Inr key"
  shows "\<exists>h. envelope_open l env ring = Inr (h, plaintext) \<and> peek_header l env = Inr h
    \<and> eh_key_id h = kek_id key \<and> eh_origin_agent h = agent_id \<and> eh_created_unix h = now_unix
    \<and> eh_orig_name h = orig_name \<and> eh_plaintext_sha256 h = hex (env_sha256 l plaintext)"
proof -
  obtain dek r1 dn r2 bn where d: "fill rng 32 = (dek, r1)" "fill r1 NONCE_LEN = (dn, r2)" "fill r2 NONCE_LEN = (bn, rng')"
    and s: "seal_drawn l dek dn bn plaintext orig_name key agent_id now_unix = Inr env"
    using assms(5) by (auto simp: seal_with_rng_def Let_def split: prod.splits)
  have "length dn = NONCE_LEN" "length bn = NONCE_LEN"
    using assms(4) d(2,3) unfolding rng_fills_def by (metis fst_conv)+
  from open_sealed [OF assms(1-3) s this assms(6)] obtain wd where
    o: "envelope_open l env ring = Inr (seal_header l wd dn plaintext orig_name key agent_id now_unix, plaintext)"
    by blast
  moreover from o obtain p where "parse l env = Inr p"
    "ps_header p = seal_header l wd dn plaintext orig_name key agent_id now_unix"
    using envelope_open_Inr by metis
  ultimately show ?thesis by (simp add: peek_header_def seal_header_def)
qed

lemma shredded_open:
  assumes "peek_header l envelope = Inr h"
    and "ring_step\<^sup>*\<^sup>* (snd (keyring_destroy r (eh_key_id h))) r'"
  shows "envelope_open l envelope r' = Inl (KeyDestroyed (eh_key_id h))"
proof -
  have "ring.shredded r' (eh_key_id h)"
    by (rule ring_steps_shredded [OF assms(2)]) (simp add: ring.shredded_def ring.lookup_destroy_same)
  with assms(1) show ?thesis
    by (auto simp: peek_header_def envelope_open_def andthen_eq_Inr ring.shredded_def)
qed

section \<open>Properties\<close>

text \<open>
  C7. Sealing and opening are inverse. Whatever the random source draws, an envelope that
  sealing produced under a key is opened, by any ring that holds this key under its id, to
  exactly the plaintext and to the header that was sealed: key id, agent, time, name and
  plaintext digest.
\<close>

theorem seal_open_round_trip:
  assumes "gcm_correct l" and "b64_correct l" and "json_correct l" and "rng_fills fill"
    and "seal_with_rng l fill rng plaintext orig_name key agent_id now_unix = (Inr env, rng')"
    and "keyring_lookup ring (kek_id key) = Inr key"
  shows "\<exists>h. envelope_open l env ring = Inr (h, plaintext) \<and> peek_header l env = Inr h
    \<and> eh_key_id h = kek_id key \<and> eh_origin_agent h = agent_id \<and> eh_created_unix h = now_unix
    \<and> eh_orig_name h = orig_name \<and> eh_plaintext_sha256 h = hex (env_sha256 l plaintext)"
  by (rule sealed_opens [OF assms])

lemma seal_open_round_trip_witness:
  "\<exists>h. envelope_open example_env_libs example_envelope (keyring_insert (keyring_new [107]) example_key) = Inr (h, [104, 105])
    \<and> eh_key_id h = [107]"
proof -
  have "keyring_lookup (keyring_insert (keyring_new [107]) example_key) (kek_id example_key) = Inr example_key"
    by (rule ring.insert_held) (simp add: ring.shredded_def keyring_lookup_def keyring_new_def)
  from seal_open_round_trip [OF example_env_libs_correct example_seal this] show ?thesis
    by (auto simp: example_key_def)
qed



text \<open>
  Crypto-shredding reaches every envelope. Once the key of an envelope has been
  destroyed, opening it is refused with exactly that reason, whatever happens to the ring
  afterwards.
\<close>

theorem shredded_envelope_unopenable:
  assumes "peek_header l envelope = Inr h"
    and "ring_step\<^sup>*\<^sup>* (snd (keyring_destroy r (eh_key_id h))) r'"
  shows "envelope_open l envelope r' = Inl (KeyDestroyed (eh_key_id h))"
  by (rule shredded_open [OF assms])

lemma shredded_envelope_unopenable_witness:
  "envelope_open example_env_libs example_envelope
     (keyring_insert (snd (keyring_destroy (keyring_new [107]) [107])) example_key) = Inl (KeyDestroyed [107])"
proof -
  have h: "peek_header example_env_libs example_envelope = Inr example_eh"
    using parse_built [of "[123, 125]" example_env_libs example_eh "replicate 12 0" "[104, 105] @ replicate 16 0"]
    by (simp add: peek_header_def example_envelope_def example_env_libs_def NONCE_LEN_def TAG_LEN_def to_le_2_2)
  have "ring_step\<^sup>*\<^sup>* (snd (keyring_destroy (keyring_new [107]) (eh_key_id example_eh)))
      (keyring_insert (snd (keyring_destroy (keyring_new [107]) [107])) example_key)"
    by (simp add: example_eh_def) (intro r_into_rtranclp ring_step.insert, simp add: example_key_def)
  from shredded_envelope_unopenable [OF h this] show ?thesis by (simp add: example_eh_def)
qed

end
