(* ===== verification/First_Match.thy ===== *)
theory First_Match
  imports Prelude
begin

text \<open>
  The contract of an ordered rule list: the first rule that matches decides, and the
  default decides when none does. Both rule engines of the agent, the one for devices and
  the one for connections, are instances.
\<close>

locale first_match =
  fixes matches :: "'r \<Rightarrow> 'q \<Rightarrow> bool"
    and outcome :: "'r \<Rightarrow> 'a"
    and run :: "'r list \<Rightarrow> 'a \<Rightarrow> 'q \<Rightarrow> 'a"
  assumes run_Nil: "run [] d q = d"
    and run_Cons: "run (r # rs) d q = (if matches r q then outcome r else run rs d q)"
begin

lemma run_find: "run rs d q = (case find (\<lambda>r. matches r q) rs of Some r \<Rightarrow> outcome r | None \<Rightarrow> d)"
  by (induction rs) (simp_all add: run_Nil run_Cons)

lemma run_none: "\<forall>r \<in> set rs. \<not> matches r q \<Longrightarrow> run rs d q = d"
  by (induction rs) (simp_all add: run_Nil run_Cons)

lemma run_first:
  "\<forall>r \<in> set rs. \<not> matches r q \<Longrightarrow> matches r0 q \<Longrightarrow> run (rs @ r0 # rs') d q = outcome r0"
  by (induction rs) (simp_all add: run_Cons)

lemma run_append: "run (rs @ rs') d q = run rs (run rs' d q) q"
  by (induction rs) (simp_all add: run_Nil run_Cons)

text \<open>A rule that never matches may be dropped or added anywhere.\<close>

lemma run_dead: "\<forall>q. \<not> matches r q \<Longrightarrow> run (rs @ r # rs') d q = run (rs @ rs') d q"
  by (simp add: run_append run_Cons)

lemma run_cases: "run rs d q = d \<or> (\<exists>r \<in> set rs. matches r q \<and> run rs d q = outcome r)"
  by (induction rs) (auto simp: run_Nil run_Cons)

end

end
