(* ===== verification/Usb_Policy.thy ===== *)
theory Usb_Policy
  imports First_Match Text_Codec
begin

text \<open>
  USB device control: the identity parser of \<open>usb/device.rs\<close>, the decision engine of
  \<open>usb/policy.rs\<close> and the enforcement plans of \<open>usb/enforce.rs\<close>. Live execution of a plan
  is the argument \<open>execute_live\<close> of \<open>apply\<close>.
\<close>

section \<open>Device identity\<close>

record device_identity =
  dev_drive_letter :: ustring
  dev_vendor_id :: ustring
  dev_product_id :: ustring
  dev_serial :: ustring
  dev_product_name :: ustring
  dev_bus_type :: ustring
  dev_removable :: bool

definition BUS_TYPE_NAMES :: "(nat \<times> ustring) list" where
  "BUS_TYPE_NAMES = enumerate 0 (map lit
     [''unknown'', ''scsi'', ''atapi'', ''ata'', ''1394'', ''ssa'', ''fibre'', ''usb'', ''raid'', ''iscsi'',
      ''sas'', ''sata'', ''sd'', ''mmc'', ''virtual'', ''file-backed-virtual'', ''spaces'', ''nvme'', ''scm'',
      ''ufs''])"

text \<open>Lowercase hexadecimal, and \<open>{:02x}\<close>.\<close>

fun show_hex :: "nat \<Rightarrow> ustring" where
  "show_hex n =
     (let d = n mod 16; c = (if d < 10 then 48 + d else 87 + d)
      in if n < 16 then [c] else show_hex (n div 16) @ [c])"

declare show_hex.simps [simp del]

definition bus_type_name :: "nat \<Rightarrow> ustring" where
  "bus_type_name raw =
     (case find (\<lambda>(v, _). v = raw) BUS_TYPE_NAMES of
        Some (_, n) \<Rightarrow> n
      | None \<Rightarrow> lit ''bus-0x'' @ replicate (2 - length (show_hex raw)) 48 @ show_hex raw)"

definition bus_is_removable :: "ustring \<Rightarrow> bool" where
  "bus_is_removable bus_type \<longleftrightarrow> bus_type \<in> {lit ''usb'', lit ''sd'', lit ''mmc''}"

definition OFF_REMOVABLE_MEDIA :: nat where
  "OFF_REMOVABLE_MEDIA = 10"

definition OFF_VENDOR_ID :: nat where
  "OFF_VENDOR_ID = 12"

definition OFF_PRODUCT_ID :: nat where
  "OFF_PRODUCT_ID = 16"

definition OFF_SERIAL :: nat where
  "OFF_SERIAL = 24"

definition OFF_BUS_TYPE :: nat where
  "OFF_BUS_TYPE = 28"

definition DESCRIPTOR_MIN :: nat where
  "DESCRIPTOR_MIN = 32"


text \<open>\<open>None\<close> is an index out of range.\<close>

definition read_u32_le :: "bytes \<Rightarrow> nat \<Rightarrow> nat option" where
  "read_u32_le buf pos = map_option le_nat (try_map (index buf) [pos, pos + 1, pos + 2, pos + 3])"

definition read_c_string :: "bytes \<Rightarrow> nat \<Rightarrow> ustring" where
  "read_c_string buf offset =
     (if offset = 0 \<or> length buf \<le> offset then []
      else trim (from_utf8_lossy (takeWhile (\<lambda>b. b \<noteq> 0) (drop offset buf))))"

definition product_name_of :: "ustring \<Rightarrow> ustring \<Rightarrow> ustring" where
  "product_name_of vendor_id product_id =
     (if vendor_id \<noteq> [] \<and> product_id \<noteq> [] then vendor_id @ [space] @ product_id
      else if vendor_id = [] \<and> product_id \<noteq> [] then product_id
      else if vendor_id \<noteq> [] \<and> product_id = [] then vendor_id
      else [])"

definition parse_storage_descriptor :: "bytes \<Rightarrow> device_identity option" where
  "parse_storage_descriptor buf =
     (if length buf < DESCRIPTOR_MIN then
        Some \<lparr>dev_drive_letter = [], dev_vendor_id = [], dev_product_id = [], dev_serial = [],
              dev_product_name = [], dev_bus_type = lit ''unknown'', dev_removable = False\<rparr>
      else
        case (read_u32_le buf OFF_VENDOR_ID, read_u32_le buf OFF_PRODUCT_ID, read_u32_le buf OFF_SERIAL,
              read_u32_le buf OFF_BUS_TYPE, index buf OFF_REMOVABLE_MEDIA) of
          (Some v, Some p, Some s, Some bus_raw, Some flag) \<Rightarrow>
            let vendor_id = read_c_string buf v; product_id = read_c_string buf p;
                bus_type = bus_type_name bus_raw
            in Some \<lparr>dev_drive_letter = [], dev_vendor_id = vendor_id, dev_product_id = product_id,
                     dev_serial = read_c_string buf s, dev_product_name = product_name_of vendor_id product_id,
                     dev_bus_type = bus_type, dev_removable = bus_is_removable bus_type \<or> flag \<noteq> 0\<rparr>
        | _ \<Rightarrow> None)"

section \<open>Actions and rules\<close>

datatype action = AllowAudited | Encrypt | ReadOnly | Block

fun restrictiveness :: "action \<Rightarrow> u8" where
  "restrictiveness AllowAudited = 0"
| "restrictiveness Encrypt = 1"
| "restrictiveness ReadOnly = 2"
| "restrictiveness Block = 3"

definition max_restrictive :: "action \<Rightarrow> action \<Rightarrow> action" where
  "max_restrictive a b = (if restrictiveness b > restrictiveness a then b else a)"

text \<open>The actions are ordered by restrictiveness.\<close>

instantiation action :: linorder
begin

definition less_eq_action :: "action \<Rightarrow> action \<Rightarrow> bool" where
  "a \<le> b \<longleftrightarrow> restrictiveness a \<le> restrictiveness b"

definition less_action :: "action \<Rightarrow> action \<Rightarrow> bool" where
  "a < b \<longleftrightarrow> restrictiveness a < restrictiveness b"

instance
proof
  fix a b :: action
  show "a \<le> b \<Longrightarrow> b \<le> a \<Longrightarrow> a = b"
    by (cases a; cases b) (simp_all add: less_eq_action_def word_le_nat_alt)
qed (auto simp: less_eq_action_def less_action_def)

end

datatype rule_match =
  Serial ustring
| VidPid ustring ustring
| BusType ustring
| Any

fun rule_matches :: "rule_match \<Rightarrow> device_identity \<Rightarrow> bool" where
  "rule_matches (Serial s) dev \<longleftrightarrow> trim s \<noteq> [] \<and> eq_ignore_ascii_case (dev_serial dev) (trim s)"
| "rule_matches (VidPid vid pid) dev \<longleftrightarrow>
     eq_ignore_ascii_case (dev_vendor_id dev) (trim vid) \<and> eq_ignore_ascii_case (dev_product_id dev) (trim pid)"
| "rule_matches (BusType b) dev \<longleftrightarrow> eq_ignore_ascii_case (dev_bus_type dev) (trim b)"
| "rule_matches Any dev \<longleftrightarrow> True"

record device_rule =
  dr_match_on :: rule_match
  dr_action :: action
  dr_note :: "ustring option"

record usb_policy =
  up_default_action :: action
  up_rules :: "device_rule list"

definition usb_policy_default :: usb_policy where
  "usb_policy_default = \<lparr>up_default_action = ReadOnly, up_rules = []\<rparr>"

fun decide_rules :: "device_rule list \<Rightarrow> action \<times> device_rule option \<Rightarrow> device_identity \<Rightarrow> action \<times> device_rule option" where
  "decide_rules [] fallback dev = fallback"
| "decide_rules (rule # rules) fallback dev =
     (if rule_matches (dr_match_on rule) dev then (dr_action rule, Some rule)
      else decide_rules rules fallback dev)"

definition usb_decide :: "usb_policy \<Rightarrow> device_identity \<Rightarrow> action \<times> device_rule option" where
  "usb_decide policy dev = decide_rules (up_rules policy) (up_default_action policy, None) dev"

datatype device_class = MassStorage | Mtp | Tethering

definition classify :: "device_identity \<Rightarrow> device_class" where
  "classify dev =
     (if dev_bus_type dev \<in> {lit ''mtp'', lit ''ptp'', lit ''wpd''} then Mtp
      else if dev_bus_type dev \<in> {lit ''rndis'', lit ''ncm'', lit ''tethering''} then Tethering
      else MassStorage)"

definition decide_full :: "usb_policy \<Rightarrow> device_identity \<Rightarrow> action \<Rightarrow> action \<Rightarrow> action \<times> device_class" where
  "decide_full policy dev mtp_action tethering_action =
     (case classify dev of
        MassStorage \<Rightarrow> (fst (usb_decide policy dev), MassStorage)
      | Mtp \<Rightarrow> (mtp_action, Mtp)
      | Tethering \<Rightarrow> (tethering_action, Tethering))"

section \<open>Enforcement plans\<close>

definition WRITE_PROTECT_KEY :: ustring where
  "WRITE_PROTECT_KEY = join [92] (map lit
     [''HKLM'', ''SYSTEM'', ''CurrentControlSet'', ''Control'', ''StorageDevicePolicies''])"

definition WRITE_PROTECT_VALUE :: ustring where
  "WRITE_PROTECT_VALUE = lit ''WriteProtect''"

datatype planned_action =
  PA_NoChange
| SetWriteProtect ustring ustring u32
| ClearWriteProtect ustring ustring u32
| DismountVolume ustring
| SetWpdDeny bool bool
| ClearWpdDeny
| BlockTethering

datatype mode = DryRun | Live

datatype apply_outcome = AO_NoChange | Planned planned_action | Executed planned_action

fun plan :: "action \<Rightarrow> device_identity \<Rightarrow> planned_action" where
  "plan AllowAudited dev = PA_NoChange"
| "plan Encrypt dev = PA_NoChange"
| "plan ReadOnly dev = SetWriteProtect WRITE_PROTECT_KEY WRITE_PROTECT_VALUE 1"
| "plan Block dev = DismountVolume (dev_drive_letter dev)"

definition plan_revert_read_only :: planned_action where
  "plan_revert_read_only = ClearWriteProtect WRITE_PROTECT_KEY WRITE_PROTECT_VALUE 0"

fun plan_mtp :: "action \<Rightarrow> planned_action" where
  "plan_mtp AllowAudited = PA_NoChange"
| "plan_mtp Encrypt = SetWpdDeny False True"
| "plan_mtp ReadOnly = SetWpdDeny False True"
| "plan_mtp Block = SetWpdDeny True True"

definition plan_revert_mtp :: planned_action where
  "plan_revert_mtp = ClearWpdDeny"

fun plan_tethering :: "action \<Rightarrow> planned_action" where
  "plan_tethering Block = BlockTethering"
| "plan_tethering AllowAudited = PA_NoChange"
| "plan_tethering Encrypt = PA_NoChange"
| "plan_tethering ReadOnly = PA_NoChange"

text \<open>\<open>execute_live\<close> takes the system state and may fail with a message.\<close>

definition apply_plan ::
  "('s \<Rightarrow> planned_action \<Rightarrow> (ustring + unit) \<times> 's) \<Rightarrow> planned_action \<Rightarrow> mode \<Rightarrow> 's
   \<Rightarrow> (ustring + apply_outcome) \<times> 's" where
  "apply_plan execute_live p m s =
     (if p = PA_NoChange then (Inr AO_NoChange, s)
      else case m of
        DryRun \<Rightarrow> (Inr (Planned p), s)
      | Live \<Rightarrow>
          (case execute_live s p of
             (Inl e, s') \<Rightarrow> (Inl e, s')
           | (Inr _, s') \<Rightarrow> (Inr (Executed p), s')))"

section \<open>Rule lists\<close>

interpretation usb: first_match "\<lambda>r dev. rule_matches (dr_match_on r) dev" "\<lambda>r. (dr_action r, Some r)" decide_rules
  by unfold_locales simp_all

lemma max_restrictive_max: "max_restrictive a b = max a b"
  by (cases a; cases b) (simp_all add: max_restrictive_def max_def less_eq_action_def word_le_nat_alt)

lemma usb_decide_find:
  "usb_decide policy dev =
     (case find (\<lambda>r. rule_matches (dr_match_on r) dev) (up_rules policy) of
        Some r \<Rightarrow> (dr_action r, Some r) | None \<Rightarrow> (up_default_action policy, None))"
  by (simp add: usb_decide_def usb.run_find)

section \<open>Descriptor parsing\<close>

lemma read_u32_le_total: "pos + 3 < length buf \<Longrightarrow> \<exists>v. read_u32_le buf pos = Some v"
  by (simp add: read_u32_le_def index_def)

lemma parse_storage_descriptor_total [panic_free]: "\<exists>dev. parse_storage_descriptor buf = Some dev"
proof (cases "length buf < DESCRIPTOR_MIN")
  case False
  then have "31 < length buf" by (simp add: DESCRIPTOR_MIN_def)
  then obtain v p s b f where "read_u32_le buf OFF_VENDOR_ID = Some v" "read_u32_le buf OFF_PRODUCT_ID = Some p"
    "read_u32_le buf OFF_SERIAL = Some s" "read_u32_le buf OFF_BUS_TYPE = Some b" "index buf OFF_REMOVABLE_MEDIA = Some f"
    using read_u32_le_total [of OFF_VENDOR_ID buf] read_u32_le_total [of OFF_PRODUCT_ID buf]
      read_u32_le_total [of OFF_SERIAL buf] read_u32_le_total [of OFF_BUS_TYPE buf]
    by (auto simp: OFF_VENDOR_ID_def OFF_PRODUCT_ID_def OFF_SERIAL_def OFF_BUS_TYPE_def OFF_REMOVABLE_MEDIA_def index_def)
  with False show ?thesis by (simp add: parse_storage_descriptor_def Let_def)
qed (simp add: parse_storage_descriptor_def)

lemma parse_storage_descriptor_bus:
  assumes "parse_storage_descriptor buf = Some dev"
  shows "\<exists>raw. dev_bus_type dev = bus_type_name raw"
proof (cases "length buf < DESCRIPTOR_MIN")
  case True
  have "bus_type_name 0 = lit ''unknown''" by code_simp
  with True assms show ?thesis by (auto simp: parse_storage_descriptor_def intro!: exI [of _ 0])
next
  case False
  with assms show ?thesis
    by (auto simp: parse_storage_descriptor_def Let_def split: option.splits)
qed

text \<open>No bus type name is a hint for a portable device or a network adapter.\<close>

lemma bus_type_name_mass_storage:
  "bus_type_name raw \<notin> {lit ''mtp'', lit ''ptp'', lit ''wpd'', lit ''rndis'', lit ''ncm'', lit ''tethering''}"
proof (cases "find (\<lambda>(v, _). v = raw) BUS_TYPE_NAMES")
  case None
  then show ?thesis by (auto simp: bus_type_name_def lit_def)
next
  case (Some p)
  have "list_all (\<lambda>p. snd p \<notin> {lit ''mtp'', lit ''ptp'', lit ''wpd'', lit ''rndis'', lit ''ncm'', lit ''tethering''})
      BUS_TYPE_NAMES" by code_simp
  moreover from Some have "p \<in> set BUS_TYPE_NAMES" by (auto simp: find_Some_iff) (metis nth_mem)
  ultimately show ?thesis using Some by (cases p) (auto simp: bus_type_name_def list_all_iff)
qed

section \<open>Properties\<close>


text \<open>
  Any descriptor buffer is parsed, and removable storage is never missed: for every
  byte sequence the parser returns an identity without a panic, the identity is classified
  as mass storage and so is subject to the rules, and a full descriptor whose bus code is
  USB, SD or MMC is reported removable whatever its media flag says.
\<close>

theorem descriptor_always_classified:
  "\<exists>dev. parse_storage_descriptor buf = Some dev \<and> classify dev = MassStorage
     \<and> (DESCRIPTOR_MIN \<le> length buf \<and> read_u32_le buf OFF_BUS_TYPE \<in> {Some 7, Some 12, Some 13}
          \<longrightarrow> dev_removable dev)"
proof -
  obtain dev where dev: "parse_storage_descriptor buf = Some dev" using parse_storage_descriptor_total by blast
  then have "classify dev = MassStorage"
    using parse_storage_descriptor_bus bus_type_name_mass_storage by (fastforce simp: classify_def)
  moreover have "bus_is_removable (bus_type_name 7)" "bus_is_removable (bus_type_name 12)"
    "bus_is_removable (bus_type_name 13)" by code_simp+
  then have "dev_removable dev" if "DESCRIPTOR_MIN \<le> length buf" "read_u32_le buf OFF_BUS_TYPE \<in> {Some 7, Some 12, Some 13}"
    using that dev by (auto simp: parse_storage_descriptor_def Let_def split: option.splits)
  ultimately show ?thesis using dev by blast
qed

lemma descriptor_always_classified_witness:
  "\<exists>dev. parse_storage_descriptor (replicate 28 0 @ [7, 0, 0, 0]) = Some dev \<and> dev_removable dev"
proof -
  have "read_u32_le (replicate 28 0 @ [7, 0, 0, 0]) OFF_BUS_TYPE = Some 7" by code_simp
  moreover have "DESCRIPTOR_MIN \<le> length (replicate 28 0 @ [7, 0, 0, 0 :: u8])" by (simp add: DESCRIPTOR_MIN_def)
  ultimately show ?thesis using descriptor_always_classified [of "replicate 28 0 @ [7, 0, 0, 0]"] by auto
qed

text \<open>
  Plans are honest. In dry-run mode applying any plan leaves the system state as it is
  and never fails; live mode reports execution only when the operation succeeded; and on
  portable devices every action above plain auditing denies writes, while only blocking
  denies reads as well.
\<close>

theorem plans_are_honest:
  "snd (apply_plan execute_live p DryRun s) = s \<and> (\<exists>out. fst (apply_plan execute_live p DryRun s) = Inr out)
   \<and> (fst (apply_plan execute_live p Live s) = Inr (Executed p) \<longleftrightarrow>
        p \<noteq> PA_NoChange \<and> fst (execute_live s p) = Inr ())
   \<and> (a = AllowAudited \<and> plan_mtp a = PA_NoChange \<or> AllowAudited < a \<and> plan_mtp a = SetWpdDeny (a = Block) True)"
  by (cases a) (auto simp: apply_plan_def less_action_def word_less_nat_alt split: prod.splits sum.splits)

end
