(* ===== verification/Usb_Incident.thy ===== *)
theory Usb_Incident
  imports Usb_Policy Verdict
begin

text \<open>
  Incidents of the device channels, the data part of \<open>usb/audit.rs\<close>: what was done, why it
  is reported and the record that is queued for the server. A path is the list of its
  components, the root's first; \<open>file_name\<close> is the last one.
\<close>

type_synonym path = "ustring list"

definition file_name :: "path \<Rightarrow> ustring option" where
  "file_name p = (if p = [] then None else Some (last p))"

definition with_file_name :: "path \<Rightarrow> ustring \<Rightarrow> path" where
  "with_file_name p n = butlast p @ [n]"

text \<open>\<open>Path::display\<close>: the components joined by the separator.\<close>

definition display_path :: "path \<Rightarrow> ustring" where
  "display_path p = join [92] p"

datatype action_taken = AT_Audited | AT_ReadOnly | AT_Blocked | AT_Encrypted

fun action_taken_from :: "action \<Rightarrow> action_taken" where
  "action_taken_from AllowAudited = AT_Audited"
| "action_taken_from Encrypt = AT_Audited"
| "action_taken_from ReadOnly = AT_ReadOnly"
| "action_taken_from Block = AT_Blocked"

datatype incident_kind =
  IK_Match
| IK_UnreadableOnRemovable
| IK_SkippedTooLarge
| IK_EnforcementFailed
| IK_MtpDevicePresent
| IK_ClipboardImageUninspected
| IK_Sealed
| IK_DecryptDenied
| IK_Decrypted

record usb_incident =
  ui_kind :: incident_kind
  ui_channel :: ustring
  ui_file_name :: ustring
  ui_file_sha256 :: ustring
  ui_verdict :: "verdict option"
  ui_device :: device_identity
  ui_action_taken :: action_taken
  ui_note :: "ustring option"
  ui_key_id :: "ustring option"
  ui_sealed_sha256 :: "ustring option"

definition is_unreadable :: "verdict \<Rightarrow> bool" where
  "is_unreadable v = (case vd_extraction v of Extraction_Unreadable _ \<Rightarrow> True | Extraction_Ok _ \<Rightarrow> False)"

definition verdict_has_match :: "verdict \<Rightarrow> bool" where
  "verdict_has_match v \<longleftrightarrow> vd_idm v \<noteq> [] \<or> vd_edm v \<noteq> []"

end
