(* ===== verification/Decrypt.thy ===== *)
theory Decrypt
  imports Envelope Usb_Incident
begin

text \<open>
  The decrypt path, \<open>decrypt.rs\<close>: an envelope is opened with the cached keyring, the attempt is handed to
  the audit sink, and only then the plaintext is written. The sink and the writer are parameters that accept
  or refuse; the effects are the calls made to them, in order.
\<close>

definition CHANNEL :: ustring where
  "CHANNEL = lit ''decrypt''"

datatype decrypt_error = DE_Envelope envelope_error | DE_AuditFailed | DE_WriteFailed

record decrypt_summary =
  dsm_header :: envelope_header
  dsm_plaintext_len :: nat
  dsm_plaintext_sha256 :: ustring

datatype decrypt_effect = Audit usb_incident | Write_Plaintext envelope_header bytes

fun denial_label :: "envelope_error \<Rightarrow> ustring" where
  "denial_label (UnknownKeyId _) = lit ''unknown-key-id''"
| "denial_label (KeyDestroyed _) = lit ''key-destroyed''"
| "denial_label WrongKey = lit ''wrong-key''"
| "denial_label Tampered = lit ''tampered''"
| "denial_label (Malformed _) = lit ''malformed''"
| "denial_label HeaderTooLarge = lit ''internal''"
| "denial_label SealFailed = lit ''internal''"

definition no_device :: device_identity where
  "no_device =
     \<lparr>dev_drive_letter = [], dev_vendor_id = [], dev_product_id = [], dev_serial = [],
      dev_product_name = lit ''local-decrypt'', dev_bus_type = [], dev_removable = False\<rparr>"

definition wire_verdict :: "ustring \<Rightarrow> ustring \<Rightarrow> verdict" where
  "wire_verdict name sha =
     \<lparr>vd_file_name = name, vd_file_sha256 = sha, vd_extraction = Extraction_Ok (lit ''dlpenc''), vd_idm = [], vd_edm = []\<rparr>"

definition decrypted_incident :: "envelope_header \<Rightarrow> ustring \<Rightarrow> ustring \<Rightarrow> ustring \<Rightarrow> usb_incident" where
  "decrypted_incident header plaintext_sha256 envelope_sha256 agent_id =
     \<lparr>ui_kind = IK_Decrypted, ui_channel = CHANNEL, ui_file_name = eh_orig_name header, ui_file_sha256 = plaintext_sha256,
      ui_verdict = Some (wire_verdict (eh_orig_name header) plaintext_sha256), ui_device = no_device,
      ui_action_taken = AT_Audited,
      ui_note = Some (lit ''decrypted agent='' @ agent_id @ lit '' origin='' @ eh_origin_agent header
                      @ lit '' sealed-at='' @ show_nat (unat (eh_created_unix header))),
      ui_key_id = Some (eh_key_id header), ui_sealed_sha256 = Some envelope_sha256\<rparr>"

definition denied_incident :: "ustring \<Rightarrow> ustring option \<Rightarrow> ustring \<Rightarrow> ustring \<Rightarrow> envelope_error \<Rightarrow> usb_incident" where
  "denied_incident envelope_name claimed_key_id envelope_sha256 agent_id e =
     \<lparr>ui_kind = IK_DecryptDenied, ui_channel = CHANNEL, ui_file_name = envelope_name, ui_file_sha256 = [],
      ui_verdict = Some (wire_verdict envelope_name []), ui_device = no_device, ui_action_taken = AT_Blocked,
      ui_note = Some (lit ''decrypt-denied('' @ denial_label e @ lit '') agent='' @ agent_id),
      ui_key_id = claimed_key_id, ui_sealed_sha256 = Some envelope_sha256\<rparr>"

definition decrypt_envelope ::
  "envelope_libs \<Rightarrow> bytes \<Rightarrow> ustring \<Rightarrow> keyring \<Rightarrow> ustring \<Rightarrow> (usb_incident \<Rightarrow> bool) \<Rightarrow> (envelope_header \<Rightarrow> bytes \<Rightarrow> bool)
   \<Rightarrow> decrypt_effect list \<times> (decrypt_error + decrypt_summary)" where
  "decrypt_envelope l envelope_bytes envelope_name keyring agent_id audit write =
     (let envelope_sha256 = hex (env_sha256 l envelope_bytes);
          claimed_key_id = (case peek_header l envelope_bytes of Inr h \<Rightarrow> Some (eh_key_id h) | Inl _ \<Rightarrow> None)
      in case envelope_open l envelope_bytes keyring of
           Inl e \<Rightarrow> ([Audit (denied_incident envelope_name claimed_key_id envelope_sha256 agent_id e)], Inl (DE_Envelope e))
         | Inr (header, plaintext) \<Rightarrow>
             let plaintext_sha256 = hex (env_sha256 l plaintext);
                 inc = decrypted_incident header plaintext_sha256 envelope_sha256 agent_id
             in if \<not> audit inc then ([Audit inc], Inl DE_AuditFailed)
                else if \<not> write header plaintext then ([Audit inc, Write_Plaintext header plaintext], Inl DE_WriteFailed)
                else ([Audit inc, Write_Plaintext header plaintext],
                      Inr \<lparr>dsm_header = header, dsm_plaintext_len = length plaintext, dsm_plaintext_sha256 = plaintext_sha256\<rparr>))"

section \<open>Properties\<close>

lemma decrypt_opened:
  assumes "envelope_open l env ring = Inr (h, p)" and "audit (decrypted_incident h (hex (env_sha256 l p)) (hex (env_sha256 l env)) agent)"
  shows "fst (decrypt_envelope l env name ring agent audit write) =
    [Audit (decrypted_incident h (hex (env_sha256 l p)) (hex (env_sha256 l env)) agent), Write_Plaintext h p]"
  using assms by (simp add: decrypt_envelope_def Let_def)

text \<open>
  No plaintext without a record. Whatever the envelope, the ring, the sink and the writer do: if
  plaintext is handed to the writer, then the envelope opened to it under the ring, and the only thing done
  before was to hand the sink an incident, which it accepted, that names the key, the plaintext's hash and the
  envelope's hash. In every other case exactly one incident is handed over and nothing written.
\<close>

theorem plaintext_only_after_audit:
  "case decrypt_envelope l env name ring agent audit write of
     (es, r) \<Rightarrow>
       (\<exists>i. es = [Audit i] \<and> (\<exists>e. r = Inl e))
     \<or> (\<exists>i h p. es = [Audit i, Write_Plaintext h p] \<and> audit i \<and> envelope_open l env ring = Inr (h, p)
          \<and> ui_kind i = IK_Decrypted \<and> ui_key_id i = Some (eh_key_id h) \<and> ui_file_sha256 i = hex (env_sha256 l p)
          \<and> ui_sealed_sha256 i = Some (hex (env_sha256 l env))
          \<and> r = (if write h p then Inr \<lparr>dsm_header = h, dsm_plaintext_len = length p, dsm_plaintext_sha256 = hex (env_sha256 l p)\<rparr>
                 else Inl DE_WriteFailed))"
proof (cases "envelope_open l env ring")
  case (Inl e)
  then show ?thesis by (simp add: decrypt_envelope_def)
next
  case (Inr hp)
  obtain h p where hp: "hp = (h, p)" by fastforce
  let ?i = "decrypted_incident h (hex (env_sha256 l p)) (hex (env_sha256 l env)) agent"
  have i: "ui_kind ?i = IK_Decrypted" "ui_key_id ?i = Some (eh_key_id h)" "ui_file_sha256 ?i = hex (env_sha256 l p)"
    "ui_sealed_sha256 ?i = Some (hex (env_sha256 l env))"
    by (simp_all add: decrypted_incident_def)
  show ?thesis
  proof (cases "audit ?i")
    case True
    with i Inr hp show ?thesis
      by (simp add: decrypt_envelope_def Let_def)
  qed (simp add: decrypt_envelope_def Let_def Inr hp)
qed

text \<open>
  Decrypting undoes sealing until the key is destroyed. An envelope that was sealed is decrypted, by any
  agent whose ring holds the key and whose audit sink accepts records, to exactly the plaintext that was sealed, with
  the sealer's metadata in the record; and once the key has been destroyed, whatever is done to the ring
  afterwards, the same call denies with the destroyed-key error and writes nothing.
\<close>

theorem decrypt_undoes_seal:
  assumes "gcm_correct l" and "b64_correct l" and "json_correct l" and "rng_fills fill"
    and "seal_with_rng l fill rng plaintext orig_name key sealer now_unix = (Inr env, rng')"
    and "keyring_lookup ring (kek_id key) = Inr key"
    and "ring_step\<^sup>*\<^sup>* (snd (keyring_destroy ring (kek_id key))) ring'"
  shows "(\<exists>i h. fst (decrypt_envelope l env name ring agent (\<lambda>_. True) write) = [Audit i, Write_Plaintext h plaintext]
      \<and> ui_key_id i = Some (kek_id key) \<and> ui_file_name i = orig_name \<and> eh_origin_agent h = sealer)
    \<and> (\<exists>i. decrypt_envelope l env name ring' agent audit write = ([Audit i], Inl (DE_Envelope (KeyDestroyed (kek_id key))))
      \<and> ui_kind i = IK_DecryptDenied \<and> ui_key_id i = Some (kek_id key))"
proof (intro conjI)
  obtain h where h: "envelope_open l env ring = Inr (h, plaintext)" "peek_header l env = Inr h" "eh_key_id h = kek_id key"
    "eh_origin_agent h = sealer" "eh_orig_name h = orig_name"
    using sealed_opens [OF assms(1-6)] by blast
  show "\<exists>i h. fst (decrypt_envelope l env name ring agent (\<lambda>_. True) write) = [Audit i, Write_Plaintext h plaintext]
      \<and> ui_key_id i = Some (kek_id key) \<and> ui_file_name i = orig_name \<and> eh_origin_agent h = sealer"
    using decrypt_opened [OF h(1), of "\<lambda>_. True"] h(3-5) by (auto simp: decrypted_incident_def)
  have "envelope_open l env ring' = Inl (KeyDestroyed (kek_id key))"
    using shredded_open [OF h(2)] assms(7) h(3) by simp
  with h(2,3) show "\<exists>i. decrypt_envelope l env name ring' agent audit write = ([Audit i], Inl (DE_Envelope (KeyDestroyed (kek_id key))))
      \<and> ui_kind i = IK_DecryptDenied \<and> ui_key_id i = Some (kek_id key)"
    by (simp add: decrypt_envelope_def denied_incident_def)
qed

lemma decrypt_undoes_seal_witness:
  "\<exists>i h. fst (decrypt_envelope example_env_libs example_envelope (lit ''e'') (keyring_insert (keyring_new [107]) example_key)
     [] (\<lambda>_. True) (\<lambda>_ _. True)) = [Audit i, Write_Plaintext h [104, 105]]"
proof -
  have "keyring_lookup (keyring_insert (keyring_new [107]) example_key) (kek_id example_key) = Inr example_key"
    by (rule ring.insert_held) (simp add: ring.shredded_def keyring_lookup_def keyring_new_def)
  from decrypt_undoes_seal [OF example_env_libs_correct example_seal this rtranclp.rtrancl_refl, of "lit ''e''" "[]" "\<lambda>_ _. True"]
  show ?thesis by blast
qed

end
