(* ===== verification/Incident_Queue.thy ===== *)
theory Incident_Queue
  imports Rust_Std "HOL-Library.List_Lexorder"
begin

text \<open>
  The bounded on-disk incident queue, \<open>usb/queue.rs\<close>. The queue directory is an
  association list from file names to contents, with distinct names; the file system
  decides per call whether a read, removal, write or rename succeeds (record \<open>fs\<close>). The
  clock and the process id are arguments.
\<close>

section \<open>The directory\<close>

type_synonym dir = "(ustring \<times> ustring) list"

record fs =
  fs_create_dir :: bool
  fs_read :: "ustring \<Rightarrow> bool"
  fs_remove :: "ustring \<Rightarrow> bool"
  fs_write :: bool
  fs_partial :: "ustring option"
  fs_rename :: bool

definition dir_put :: "ustring \<Rightarrow> ustring \<Rightarrow> dir \<Rightarrow> dir" where
  "dir_put name content d = (name, content) # filter (\<lambda>f. fst f \<noteq> name) d"

definition dir_del :: "ustring \<Rightarrow> dir \<Rightarrow> dir" where
  "dir_del name d = filter (\<lambda>f. fst f \<noteq> name) d"

definition remove_file :: "fs \<Rightarrow> ustring \<Rightarrow> dir \<Rightarrow> dir" where
  "remove_file fs name d = (if fs_remove fs name then dir_del name d else d)"

definition QUEUE_DIR :: ustring where
  "QUEUE_DIR = lit ''usb-incident-queue''"

definition DEFAULT_CAP :: nat where
  "DEFAULT_CAP = 1000"

section \<open>Operations\<close>

text \<open>Files with the extension \<open>json\<close>: a name that is only the extension has none.\<close>

definition is_entry :: "ustring \<Rightarrow> bool" where
  "is_entry name \<longleftrightarrow> ends_with name (lit ''.json'') \<and> 5 < length name"

definition entries :: "dir \<Rightarrow> ustring list" where
  "entries d = sort (filter is_entry (map fst d))"

definition queue_len :: "dir \<Rightarrow> nat" where
  "queue_len d = length (entries d)"

definition queue_is_empty :: "dir \<Rightarrow> bool" where
  "queue_is_empty d \<longleftrightarrow> queue_len d = 0"

text \<open>The loop that enforces the bound; \<open>None\<close> is \<open>remove(0)\<close> on an empty list.\<close>

fun drop_oldest :: "fs \<Rightarrow> nat \<Rightarrow> ustring list \<Rightarrow> dir \<Rightarrow> dir option" where
  "drop_oldest fs cap existing d =
     (if cap \<le> length existing then
        (case existing of [] \<Rightarrow> None | oldest # rest \<Rightarrow> drop_oldest fs cap rest (remove_file fs oldest d))
      else Some d)"

declare drop_oldest.simps [simp del]

definition entry_stem :: "nat \<Rightarrow> nat \<Rightarrow> ustring" where
  "entry_stem now pid = show_padded 39 now @ lit ''-'' @ show_nat pid"

datatype enqueue_error = Create_Dir_Failed | Write_Failed | Rename_Failed

definition enqueue ::
  "fs \<Rightarrow> nat \<Rightarrow> nat \<Rightarrow> nat \<Rightarrow> ustring \<Rightarrow> dir \<Rightarrow> ((enqueue_error + unit) \<times> dir) option" where
  "enqueue fs cap now pid json_body d =
     (if \<not> fs_create_dir fs then Some (Inl Create_Dir_Failed, d)
      else case drop_oldest fs cap (entries d) d of
        None \<Rightarrow> None
      | Some d \<Rightarrow>
          let stem = entry_stem now pid; tmp = stem @ lit ''.tmp''; dest = stem @ lit ''.json''
          in if \<not> fs_write fs
             then Some (Inl Write_Failed, case fs_partial fs of None \<Rightarrow> d | Some c \<Rightarrow> dir_put tmp c d)
             else let d = dir_put tmp json_body d
             in if \<not> fs_rename fs then Some (Inl Rename_Failed, d)
                else Some (Inr (), dir_put dest json_body (dir_del tmp d)))"

text \<open>\<open>send\<close> carries its own state, as the closure of the source may.\<close>

fun flush_loop ::
  "fs \<Rightarrow> ('s \<Rightarrow> ustring \<Rightarrow> bool \<times> 's) \<Rightarrow> ustring list \<Rightarrow> 's \<Rightarrow> dir \<Rightarrow> nat \<Rightarrow> nat \<times> 's \<times> dir" where
  "flush_loop fs send [] s d flushed = (flushed, s, d)"
| "flush_loop fs send (path # paths) s d flushed =
     (case (if fs_read fs path then map_of d path else None) of
        None \<Rightarrow> flush_loop fs send paths s d flushed
      | Some body \<Rightarrow>
          let (ok, s') = send s body
          in if ok then flush_loop fs send paths s' (remove_file fs path d) (flushed + 1)
             else (flushed, s', d))"

definition flush ::
  "fs \<Rightarrow> ('s \<Rightarrow> ustring \<Rightarrow> bool \<times> 's) \<Rightarrow> 's \<Rightarrow> dir \<Rightarrow> nat \<times> 's \<times> dir" where
  "flush fs send s d = flush_loop fs send (entries d) s d 0"

section \<open>Names sort by time\<close>

lemma digits_value_Cons: "digits_value (c # s) = (c - 48) * 10 ^ length s + digits_value s"
proof -
  have "digits_value [c] = c - 48" using digits_value_snoc [of "[]" c] by simp
  then show ?thesis using digits_value_append [of "[c]" s] by simp
qed

lemma digits_less:
  "length s = length t \<Longrightarrow> list_all is_ascii_digit s \<Longrightarrow> list_all is_ascii_digit t
     \<Longrightarrow> digits_value s < digits_value t \<Longrightarrow> s < t"
proof (induction s arbitrary: t)
  case (Cons c s)
  then obtain d t' where t: "t = d # t'" by (cases t) auto
  have b: "digits_value s < 10 ^ length s" "digits_value t' < 10 ^ length s"
    using Cons.prems t digits_value_bound [of s] digits_value_bound [of t'] by auto
  have dig: "48 \<le> c" "48 \<le> d" using Cons.prems t by (auto simp: is_ascii_digit_def)
  have lt: "(c - 48) * 10 ^ length s + digits_value s < (d - 48) * 10 ^ length s + digits_value t'"
    using Cons.prems t by (simp add: digits_value_Cons)
  have "\<not> d < c"
  proof
    assume "d < c"
    then have "(d - 48) + 1 \<le> c - 48" using dig by simp
    then have "((d - 48) + 1) * 10 ^ length s \<le> (c - 48) * 10 ^ length s" by (rule mult_le_mono1)
    with lt b show False by (simp add: add_mult_distrib)
  qed
  show ?case
  proof (cases "c = d")
    case True
    with Cons t lt show ?thesis by simp
  next
    case False
    with \<open>\<not> d < c\<close> t show ?thesis by simp
  qed
qed simp

lemma less_append_prefix: "s < t \<Longrightarrow> length s = length t \<Longrightarrow> s @ x < t @ y" for s t :: "'a::linorder list"
proof (induction s arbitrary: t)
  case (Cons c s)
  then show ?case by (cases t) auto
qed simp

lemma length_show_nat: "n < 10 ^ Suc w \<Longrightarrow> length (show_nat n) \<le> Suc w"
proof (induction n arbitrary: w rule: show_nat.induct)
  case (1 n)
  show ?case
  proof (cases "n < 10")
    case True
    then show ?thesis by (subst show_nat.simps) simp
  next
    case False
    then obtain v where w: "w = Suc v" using "1.prems" by (cases w) auto
    then have "n div 10 < 10 ^ Suc v" using "1.prems" by (simp add: less_mult_imp_div_less)
    with 1(1) [OF False] w False show ?thesis by (subst show_nat.simps) simp
  qed
qed

lemma show_padded_facts:
  assumes "n < 10 ^ w" and "0 < w"
  shows "length (show_padded w n) = w" "list_all is_ascii_digit (show_padded w n)"
    "digits_value (show_padded w n) = n"
proof -
  obtain v where "w = Suc v" using assms(2) by (cases w) auto
  then have l: "length (show_nat n) \<le> w" using length_show_nat assms(1) by simp
  then show "length (show_padded w n) = w" by (simp add: show_padded_def)
  show "list_all is_ascii_digit (show_padded w n)"
    using show_nat_digits [of n] by (auto simp: show_padded_def list_all_iff is_ascii_digit_def)
  have "digits_value (replicate m 48 @ s) = digits_value s" for m s
    by (induction m) (simp_all add: digits_value_Cons)
  then show "digits_value (show_padded w n) = n" by (simp add: show_padded_def)
qed

lemma entry_stem_less:
  assumes "now < now'" and "now' < 10 ^ 39"
  shows "entry_stem now pid @ x < entry_stem now' pid' @ y"
proof -
  have "now < 10 ^ 39" using assms by simp
  note a = show_padded_facts [OF this] and b = show_padded_facts [OF assms(2)]
  have "show_padded 39 now < show_padded 39 now'"
    by (rule digits_less) (use a b assms(1) in simp_all)
  from less_append_prefix [OF this, of "lit ''-'' @ show_nat pid @ x" "lit ''-'' @ show_nat pid' @ y"] a b
  show ?thesis by (simp add: entry_stem_def)
qed

section \<open>Bounded queues\<close>

text \<open>
  The contract of a bounded queue that drops its oldest items: \<open>ready t s\<close> says that the
  time \<open>t\<close> is later than everything queued.
\<close>

locale bounded_fifo =
  fixes invar :: "'s \<Rightarrow> bool" and items :: "'s \<Rightarrow> 'a list" and ready :: "'t::linorder \<Rightarrow> 's \<Rightarrow> bool"
    and enq :: "'t \<Rightarrow> 'a \<Rightarrow> 's \<Rightarrow> 's" and cap :: nat
  assumes cap_pos: "0 < cap"
    and items_enq: "invar s \<Longrightarrow> ready t s \<Longrightarrow> items (enq t x s) = drop (Suc (length (items s)) - cap) (items s) @ [x]"
    and invar_enq: "invar s \<Longrightarrow> ready t s \<Longrightarrow> invar (enq t x s)"
    and ready_enq: "invar s \<Longrightarrow> ready t s \<Longrightarrow> ready t' s \<Longrightarrow> t < t' \<Longrightarrow> ready t' (enq t x s)"
begin

definition last_cap :: "'a list \<Rightarrow> 'a list" where
  "last_cap xs = drop (length xs - cap) xs"

lemma last_cap_snoc: "last_cap (last_cap xs @ [x]) = last_cap (xs @ [x])"
  using cap_pos by (cases "cap \<le> length xs") (auto simp: last_cap_def Suc_diff_le)

lemma items_enq_last: "invar s \<Longrightarrow> ready t s \<Longrightarrow> items (enq t x s) = last_cap (items s @ [x])"
  using cap_pos by (simp add: items_enq last_cap_def)

text \<open>A whole series of submissions at increasing times keeps exactly the newest ones.\<close>

lemma items_enqs:
  assumes "invar s" and "sorted_wrt (<) (map fst txs)" and "\<forall>t \<in> fst ` set txs. ready t s"
    and "items s = last_cap ys"
  shows "invar (fold (\<lambda>(t, x). enq t x) txs s)
    \<and> items (fold (\<lambda>(t, x). enq t x) txs s) = last_cap (ys @ map snd txs)"
  using assms
proof (induction txs arbitrary: s ys)
  case (Cons tx txs)
  obtain t x where tx: "tx = (t, x)" by fastforce
  have r: "ready t s" and lt: "\<forall>t' \<in> fst ` set txs. t < t'" using Cons.prems tx by auto
  have i: "items (enq t x s) = last_cap (ys @ [x])"
    using items_enq_last [OF Cons.prems(1) r] Cons.prems(4) by (simp add: last_cap_snoc)
  have "\<forall>t' \<in> fst ` set txs. ready t' (enq t x s)"
    using ready_enq [OF Cons.prems(1) r] lt Cons.prems(3) by auto
  with Cons.IH [of "enq t x s" "ys @ [x]"] Cons.prems(2) invar_enq [OF Cons.prems(1) r] i tx
  show ?case by simp
qed simp

lemma items_enq_bound: "invar s \<Longrightarrow> ready t s \<Longrightarrow> length (items (enq t x s)) \<le> cap"
  using cap_pos by (simp add: items_enq)

end

section \<open>The queue is a bounded queue\<close>

text \<open>A file system on which every call succeeds.\<close>

definition fs_ok :: fs where
  "fs_ok = \<lparr>fs_create_dir = True, fs_read = (\<lambda>_. True), fs_remove = (\<lambda>_. True), fs_write = True,
     fs_partial = None, fs_rename = True\<rparr>"

definition dir_wf :: "dir \<Rightarrow> bool" where
  "dir_wf d \<longleftrightarrow> distinct (map fst d)"

definition items :: "dir \<Rightarrow> ustring list" where
  "items d = map (\<lambda>n. the (map_of d n)) (entries d)"

definition before :: "nat \<Rightarrow> dir \<Rightarrow> bool" where
  "before now d \<longleftrightarrow> now < 10 ^ 39 \<and>
     (\<forall>name \<in> set (entries d). \<exists>now' pid'. now' < now \<and> name = entry_stem now' pid' @ lit ''.json'')"

definition enq :: "nat \<Rightarrow> nat \<Rightarrow> ustring \<Rightarrow> dir \<Rightarrow> dir" where
  "enq pid now body d = snd (the (enqueue fs_ok DEFAULT_CAP now pid body d))"

lemma set_entries: "set (entries d) = {n \<in> fst ` set d. is_entry n}"
  by (auto simp: entries_def)

lemma entries_wf: "dir_wf d \<Longrightarrow> sorted_wrt (<) (entries d)"
  by (simp add: dir_wf_def entries_def strict_sorted_iff)

lemma drop_oldest_ok:
  assumes "0 < cap"
  shows "drop_oldest fs_ok cap es d = Some (filter (\<lambda>f. fst f \<notin> set (take (Suc (length es) - cap) es)) d)"
proof (induction es arbitrary: d)
  case Nil
  with assms show ?case by (simp add: drop_oldest.simps)
next
  case (Cons e es)
  show ?case
  proof (cases "cap \<le> length (e # es)")
    case True
    then have "Suc (length (e # es)) - cap = Suc (Suc (length es) - cap)" by simp
    with True Cons [of "dir_del e d"] show ?thesis
      by (simp add: drop_oldest.simps [of _ _ "e # es"] remove_file_def fs_ok_def dir_del_def conj_commute)
  next
    case False
    then show ?thesis by (simp add: drop_oldest.simps)
  qed
qed

lemma entries_filter: "entries (filter (\<lambda>f. P (fst f)) d) = filter P (entries d)"
proof -
  have "map fst (filter (\<lambda>f. P (fst f)) d) = filter P (map fst d)" by (simp add: filter_map comp_def)
  then show ?thesis by (simp add: entries_def filter_sort conj_commute)
qed

lemma filter_not_take: "distinct es \<Longrightarrow> filter (\<lambda>x. x \<notin> set (take k es)) es = drop k es"
proof -
  assume d: "distinct es"
  have "filter (\<lambda>x. x \<notin> set (take k es)) (drop k es) = drop k es"
    using set_take_disj_set_drop_if_distinct [OF d, of k k] by (auto simp: filter_id_conv)
  moreover have "filter (\<lambda>x. x \<notin> set (take k es)) (take k es) = []" by (simp add: filter_empty_conv)
  ultimately have "filter (\<lambda>x. x \<notin> set (take k es)) (take k es @ drop k es) = drop k es"
    unfolding filter_append by simp
  then show ?thesis by (simp only: append_take_drop_id)
qed

lemma map_of_filter_name: "P n \<Longrightarrow> map_of (filter (\<lambda>f. P (fst f)) d) n = map_of d n"
  by (induction d) auto

lemma sort_greatest: "\<forall>y \<in> set ys. y < x \<Longrightarrow> sort (x # ys) = sort ys @ [x]" for x :: "'a::linorder"
proof -
  have "\<forall>y \<in> set zs. y < x \<Longrightarrow> insort x zs = zs @ [x]" for zs
    by (induction zs) auto
  then show "\<forall>y \<in> set ys. y < x \<Longrightarrow> sort (x # ys) = sort ys @ [x]" by simp
qed

lemma is_entry_names: "is_entry (entry_stem now pid @ lit ''.json'')" "\<not> is_entry (entry_stem now pid @ lit ''.tmp'')"
proof -
  have "length (entry_stem now pid) > 0" by (simp add: entry_stem_def)
  then show "is_entry (entry_stem now pid @ lit ''.json'')"
    unfolding is_entry_def ends_with_iff by (auto simp: lit_def)
  show "\<not> is_entry (entry_stem now pid @ lit ''.tmp'')"
    by (simp add: is_entry_def ends_with_def starts_with_def lit_def)
qed

lemma enqueue_ok:
  assumes "dir_wf d" and "before now d" and "0 < cap"
  shows "\<exists>d'. enqueue fs_ok cap now pid body d = Some (Inr (), d') \<and> dir_wf d'
    \<and> entries d' = drop (Suc (queue_len d) - cap) (entries d) @ [entry_stem now pid @ lit ''.json'']
    \<and> items d' = drop (Suc (queue_len d) - cap) (items d) @ [body]"
proof -
  let ?dest = "entry_stem now pid @ lit ''.json''" and ?tmp = "entry_stem now pid @ lit ''.tmp''"
  let ?k = "Suc (queue_len d) - cap"
  define d1 where "d1 = filter (\<lambda>f. fst f \<notin> set (take ?k (entries d))) d"
  define d' where "d' = dir_put ?dest body (dir_del ?tmp (dir_put ?tmp body d1))"
  have enq: "enqueue fs_ok cap now pid body d = Some (Inr (), d')"
    using drop_oldest_ok [OF assms(3), of "entries d" d]
    by (simp add: enqueue_def Let_def d'_def d1_def queue_len_def) (simp add: fs_ok_def)
  have e1: "entries d1 = drop ?k (entries d)"
    unfolding d1_def entries_filter [of "\<lambda>n. n \<notin> set (take ?k (entries d))"]
    using entries_wf [OF assms(1)] by (intro filter_not_take) (simp add: strict_sorted_iff)
  have lt: "n < ?dest" if "n \<in> set (entries d)" for n
    using assms(2) that entry_stem_less unfolding before_def by metis
  have ne: "n \<noteq> ?tmp \<and> n \<noteq> ?dest" if "n \<in> set (entries d)" for n
  proof -
    have "is_entry n" using that by (simp add: set_entries)
    with lt [OF that] is_entry_names(2) show ?thesis by blast
  qed
  have d'_eq: "d' = (?dest, body) # filter (\<lambda>f. fst f \<noteq> ?tmp \<and> fst f \<noteq> ?dest) d1"
    by (auto simp: d'_def dir_put_def dir_del_def lit_def conj_commute intro: filter_cong)
  have "entries (filter (\<lambda>f. fst f \<noteq> ?tmp \<and> fst f \<noteq> ?dest) d1) = entries d1"
  proof -
    have "n \<noteq> ?tmp \<and> n \<noteq> ?dest" if "n \<in> set (entries d1)" for n
    proof -
      have "n \<in> set (entries d)" using that unfolding e1 by (rule in_set_dropD)
      then show ?thesis by (rule ne)
    qed
    then show ?thesis unfolding entries_filter [of "\<lambda>n. n \<noteq> ?tmp \<and> n \<noteq> ?dest"] by (simp add: filter_id_conv)
  qed
  then have rest: "entries (filter (\<lambda>f. fst f \<noteq> ?tmp \<and> fst f \<noteq> ?dest) d1) = drop ?k (entries d)"
    using e1 by simp
  have e': "entries d' = drop ?k (entries d) @ [?dest]"
  proof -
    let ?ys = "filter is_entry (map fst (filter (\<lambda>f. fst f \<noteq> ?tmp \<and> fst f \<noteq> ?dest) d1))"
    have "\<forall>y \<in> set ?ys. y < ?dest" using lt by (auto simp: d1_def set_entries)
    moreover have "entries d' = sort (?dest # ?ys)" unfolding d'_eq using is_entry_names(1) by (simp add: entries_def)
    ultimately show ?thesis using sort_greatest [of ?ys ?dest] rest by (simp add: entries_def)
  qed
  have m: "map_of d' n = map_of d n" if "n \<in> set (drop ?k (entries d))" for n
  proof -
    have "n \<in> set (entries d)" "n \<notin> set (take ?k (entries d))"
      using that entries_wf [OF assms(1)] set_take_disj_set_drop_if_distinct [of "entries d" ?k ?k]
      by (auto simp: strict_sorted_iff dest: in_set_dropD)
    moreover from this ne have "n \<noteq> ?dest" "n \<noteq> ?tmp" by blast+
    ultimately show ?thesis
      unfolding d'_eq d1_def
      using map_of_filter_name [of "\<lambda>n. n \<notin> set (take ?k (entries d)) \<and> n \<noteq> ?tmp \<and> n \<noteq> ?dest" n d]
      by simp
  qed
  have "map_of d' ?dest = Some body" by (simp add: d'_eq)
  with m have "items d' = drop ?k (items d) @ [body]"
    by (simp add: items_def e' drop_map)
  moreover have "dir_wf d'"
    using assms(1) unfolding d'_eq d1_def dir_wf_def by (auto simp: distinct_map inj_on_def)
  ultimately show ?thesis using enq e' by blast
qed

interpretation iq: bounded_fifo dir_wf items before "enq pid" DEFAULT_CAP for pid
proof
  show "0 < DEFAULT_CAP" by (simp add: DEFAULT_CAP_def)
next
  fix d now body
  assume wf: "dir_wf d" "before now d"
  have "0 < DEFAULT_CAP" by (simp add: DEFAULT_CAP_def)
  from enqueue_ok [OF wf this, of pid body] show "items (enq pid now body d) = drop (Suc (length (items d)) - DEFAULT_CAP) (items d) @ [body]"
    and "dir_wf (enq pid now body d)"
    by (auto simp: enq_def items_def queue_len_def)
next
  fix d now body now'
  assume wf: "dir_wf d" "before now d" and b: "before now' d" and lt: "now < now'"
  have "0 < DEFAULT_CAP" by (simp add: DEFAULT_CAP_def)
  from enqueue_ok [OF wf this, of pid body]
  have e: "set (entries (enq pid now body d)) \<subseteq> insert (entry_stem now pid @ lit ''.json'') (set (entries d))"
    by (auto simp: enq_def dest: in_set_dropD)
  with b lt show "before now' (enq pid now body d)" unfolding before_def by blast
qed

section \<open>Flushing\<close>

text \<open>What flushing should do to the queued bodies.\<close>

fun flush_spec :: "('s \<Rightarrow> ustring \<Rightarrow> bool \<times> 's) \<Rightarrow> ustring list \<Rightarrow> 's \<Rightarrow> nat \<times> 's \<times> ustring list" where
  "flush_spec send [] s = (0, s, [])"
| "flush_spec send (b # bs) s =
     (let (ok, s') = send s b
      in if ok then let (n, s'', rest) = flush_spec send bs s' in (n + 1, s'', rest)
         else (0, s', b # bs))"

lemma map_of_entry: "n \<in> set (entries d) \<Longrightarrow> \<exists>b. map_of d n = Some b"
  by (auto simp: set_entries map_of_eq_None_iff simp flip: not_None_eq)

lemma flush_loop_spec:
  assumes "dir_wf d" and "entries d = paths"
  shows "\<exists>d'. flush_loop fs_ok send paths s d k =
      (k + fst (flush_spec send (items d) s), fst (snd (flush_spec send (items d) s)), d')
    \<and> dir_wf d' \<and> items d' = snd (snd (flush_spec send (items d) s))"
  using assms
proof (induction paths arbitrary: s d k)
  case Nil
  then show ?case by (simp add: items_def)
next
  case (Cons p ps)
  obtain body where b: "map_of d p = Some body" using map_of_entry [of p d] Cons.prems(2) by auto
  obtain ok s' where o: "send s body = (ok, s')" by fastforce
  define d1 where "d1 = filter (\<lambda>f. fst f \<noteq> p) d"
  have dist: "distinct (p # ps)" using entries_wf [OF Cons.prems(1)] Cons.prems(2) by (metis strict_sorted_iff)
  have e1: "entries d1 = ps"
    unfolding d1_def entries_filter [of "\<lambda>n. n \<noteq> p"] Cons.prems(2) using dist by (auto simp: filter_id_conv)
  have wf1: "dir_wf d1" using Cons.prems(1) by (simp add: d1_def dir_wf_def distinct_map inj_on_def)
  have i: "items d = body # items d1"
  proof -
    have "map_of d1 n = map_of d n" if "n \<in> set ps" for n
      using that dist map_of_filter_name [of "\<lambda>n. n \<noteq> p" n d] by (auto simp: d1_def)
    then show ?thesis by (simp add: items_def Cons.prems(2) e1 b)
  qed
  have fsr: "fs_read fs_ok p" "remove_file fs_ok p d = d1"
    by (simp_all add: fs_ok_def remove_file_def dir_del_def d1_def)
  show ?case
  proof (cases ok)
    case True
    obtain d' where "flush_loop fs_ok send ps s' d1 (k + 1) = (k + 1 + fst (flush_spec send (items d1) s'),
        fst (snd (flush_spec send (items d1) s')), d')" "dir_wf d'"
      "items d' = snd (snd (flush_spec send (items d1) s'))"
      using Cons.IH [OF wf1 e1, of s' "k + 1"] by blast
    with True b o fsr i show ?thesis by (simp add: split_def Let_def)
  next
    case False
    with b o fsr i Cons.prems(1) show ?thesis by simp
  qed
qed

lemma flush_ok_spec:
  assumes "dir_wf d" and "flush_spec send (items d) s = (n, s', rest)"
  shows "\<exists>d'. flush fs_ok send s d = (n, s', d') \<and> dir_wf d' \<and> items d' = rest"
  using flush_loop_spec [OF assms(1) refl, of send s 0] assms(2) by (simp add: flush_def)

section \<open>Properties\<close>

text \<open>
  C33. The incident queue keeps exactly the newest incidents. On a file system that does not
  fail, submitting any series of incidents at increasing clock readings to a queue leaves
  in it, oldest first, the last 1000 of all the incidents ever queued, and never more than
  the cap.
\<close>

theorem queue_keeps_newest:
  assumes "dir_wf d" and "length (items d) \<le> DEFAULT_CAP"
    and "sorted_wrt (<) (map fst txs)" and "\<forall>now \<in> fst ` set txs. before now d"
  shows "items (fold (\<lambda>(now, body). enq pid now body) txs d) =
      (let all = items d @ map snd txs in drop (length all - DEFAULT_CAP) all)
    \<and> queue_len (fold (\<lambda>(now, body). enq pid now body) txs d) \<le> DEFAULT_CAP"
proof -
  have "items d = iq.last_cap (items d)" using assms(2) by (simp add: iq.last_cap_def)
  from iq.items_enqs [OF assms(1,3,4) this, of pid]
  have i: "items (fold (\<lambda>(now, body). enq pid now body) txs d) = iq.last_cap (items d @ map snd txs)" by blast
  have "queue_len d' = length (items d')" for d' by (simp add: queue_len_def items_def)
  then show ?thesis by (simp add: i iq.last_cap_def Let_def)
qed

lemma queue_keeps_newest_witness:
  "items (enq 7 2 (lit ''b'') (enq 7 1 (lit ''a'') [])) = [lit ''a'', lit ''b'']"
  using queue_keeps_newest [of "[]" "[(1, lit ''a''), (2, lit ''b'')]" 7]
  by (simp add: dir_wf_def items_def entries_def before_def DEFAULT_CAP_def)

text \<open>
  Flushing delivers in order and loses nothing. The incidents are sent oldest first;
  those that were accepted before the first refusal are removed, the refused one and all
  later ones stay queued unchanged, and the count returned is the number accepted.
\<close>

theorem flush_delivers_in_order:
  assumes "dir_wf d" and "flush_spec send (items d) s = (n, s', rest)"
  shows "\<exists>d'. flush fs_ok send s d = (n, s', d') \<and> dir_wf d' \<and> items d' = rest
    \<and> n + length rest = length (items d) \<and> rest = drop n (items d)"
proof -
  have "fst (flush_spec send bs s) + length (snd (snd (flush_spec send bs s))) = length bs
      \<and> snd (snd (flush_spec send bs s)) = drop (fst (flush_spec send bs s)) bs" for bs s
  proof (induction bs arbitrary: s)
    case (Cons b bs)
    from Cons [of "snd (send s b)"] show ?case by (simp add: split_def Let_def)
  qed simp
  from this [of "items d" s] assms(2) flush_ok_spec [OF assms] show ?thesis by simp
qed

lemma flush_delivers_in_order_witness:
  "\<exists>d'. flush fs_ok (\<lambda>k b. (0 < k, k - 1)) (1 :: nat) (enq 7 2 (lit ''b'') (enq 7 1 (lit ''a'') [])) = (1, 0, d')
     \<and> items d' = [lit ''b'']"
proof -
  let ?d = "enq 7 2 (lit ''b'') (enq 7 1 (lit ''a'') [])"
  have "dir_wf ?d \<and> items ?d = [lit ''a'', lit ''b'']"
    using iq.items_enqs [of "[]" "[(1, lit ''a''), (2, lit ''b'')]" "[]" 7]
    by (simp add: dir_wf_def [of "[]"] items_def [of "[]"] entries_def before_def iq.last_cap_def)
      (simp add: DEFAULT_CAP_def)
  then show ?thesis
    using flush_delivers_in_order [of ?d "\<lambda>k b. (0 < k, k - 1)" "1 :: nat" 1 0 "[lit ''b'']"] by auto
qed

text \<open>
  A repeated clock reading in one process overwrites: the second incident takes the name of
  the first, so the names are not unique when the clock does not advance.
\<close>

lemma same_clock_overwrites:
  "items (enq pid now b (enq pid now a [])) = [b]"
proof -
  let ?dest = "entry_stem now pid @ lit ''.json''"
  have one: "enq pid now x [(?dest, y)] = [(?dest, x)]" "enq pid now x [] = [(?dest, x)]" for x y
    using is_entry_names(1) [of now pid]
    by (simp_all add: enq_def enqueue_def fs_ok_def entries_def drop_oldest.simps DEFAULT_CAP_def
      dir_put_def dir_del_def Let_def lit_def)
  show ?thesis unfolding one using is_entry_names(1) by (simp add: items_def entries_def)
qed

end
