(* ===== verification/Net_Rules.thy ===== *)
theory Net_Rules
  imports First_Match Rust_Std
begin

unbundle bit_operations_syntax

text \<open>
  The network rule engine: \<open>netfilter/remote_tools.rs\<close> (signatures, matchers, policy) and
  \<open>netfilter/rules.rs\<close> (CIDR parsing and membership, rules, the decision). The address
  parser is that of the standard library, \<open>IpAddr::from_str\<close>.
\<close>

section \<open>Addresses\<close>

datatype ip_addr = V4 u32 | V6 u128

text \<open>
  Readers take the input and return the value with the rest; a failed reader leaves the
  input where it was, which is \<open>None\<close> here.
\<close>

type_synonym 'a rd = "ustring \<Rightarrow> ('a \<times> ustring) option"

definition digit_of :: "nat \<Rightarrow> uchar \<Rightarrow> nat option" where
  "digit_of radix c =
     (let v = (if 48 \<le> c \<and> c \<le> 57 then c - 48 else if 97 \<le> c \<and> c \<le> 122 then c - 87
               else if 65 \<le> c \<and> c \<le> 90 then c - 55 else radix)
      in if v < radix then Some v else None)"

definition read_number :: "nat \<Rightarrow> nat \<Rightarrow> bool \<Rightarrow> nat \<Rightarrow> nat rd" where
  "read_number radix max_digits allow_zero_prefix bound s =
     (let ds = takeWhile (\<lambda>c. digit_of radix c \<noteq> None) s;
          v = foldl (\<lambda>acc c. radix * acc + the (digit_of radix c)) 0 ds
      in if ds = [] \<or> max_digits < length ds \<or> bound < v
            \<or> (\<not> allow_zero_prefix \<and> hd ds = 48 \<and> 1 < length ds)
         then None else Some (v, drop (length ds) s))"

definition read_sep :: "uchar \<Rightarrow> nat \<Rightarrow> 'a rd \<Rightarrow> 'a rd" where
  "read_sep sep i rd s =
     (if i = 0 then rd s
      else case s of c # r \<Rightarrow> if c = sep then rd r else None | [] \<Rightarrow> None)"

fun read_octets :: "nat \<Rightarrow> nat \<Rightarrow> nat \<Rightarrow> nat rd" where
  "read_octets 0 i acc s = Some (acc, s)"
| "read_octets (Suc n) i acc s =
     (case read_sep 46 i (read_number 10 3 False 255) s of
        None \<Rightarrow> None
      | Some (v, r) \<Rightarrow> read_octets n (Suc i) (acc * 256 + v) r)"

definition read_ipv4 :: "nat rd" where
  "read_ipv4 s = read_octets 4 0 0 s"

text \<open>
  Up to \<open>n\<close> groups, the first of them number \<open>i\<close>, of which two may be an embedded IPv4
  address; the flag tells that the groups ended with one.
\<close>

fun read_groups :: "nat \<Rightarrow> nat \<Rightarrow> ustring \<Rightarrow> nat list \<times> bool \<times> ustring" where
  "read_groups 0 i s = ([], False, s)"
| "read_groups (Suc n) i s =
     (case (if 0 < n then read_sep 58 i read_ipv4 s else None) of
        Some (v, r) \<Rightarrow> ([v div 65536, v mod 65536], True, r)
      | None \<Rightarrow>
          (case read_sep 58 i (read_number 16 4 True 65535) s of
             None \<Rightarrow> ([], False, s)
           | Some (g, r) \<Rightarrow> (let (gs, v4, r') = read_groups n (Suc i) r in (g # gs, v4, r'))))"

definition groups_value :: "nat list \<Rightarrow> nat" where
  "groups_value gs = foldl (\<lambda>acc g. acc * 65536 + g) 0 gs"

definition read_ipv6 :: "nat rd" where
  "read_ipv6 s =
     (let (hd_gs, v4, r) = read_groups 8 0 s
      in if length hd_gs = 8 then Some (groups_value hd_gs, r)
         else if v4 then None
         else case r of
           c1 # c2 # r2 \<Rightarrow>
             if c1 = 58 \<and> c2 = 58 then
               (let (tl_gs, _, r3) = read_groups (8 - (length hd_gs + 1)) 0 r2
                in Some (groups_value (hd_gs @ replicate (8 - length hd_gs - length tl_gs) 0 @ tl_gs), r3))
             else None
         | _ \<Rightarrow> None)"

definition parse_ip :: "ustring \<Rightarrow> ip_addr option" where
  "parse_ip s =
     (case (case read_ipv4 s of Some (v, r) \<Rightarrow> Some (V4 (of_nat v), r)
            | None \<Rightarrow> map_option (\<lambda>(v, r). (V6 (of_nat v), r)) (read_ipv6 s)) of
        Some (ip, r) \<Rightarrow> if r = [] then Some ip else None
      | None \<Rightarrow> None)"

text \<open>\<open>str::parse::<u8>\<close>: an optional plus sign, then decimal digits, at most 255.\<close>

definition parse_u8 :: "ustring \<Rightarrow> nat option" where
  "parse_u8 s =
     (let ds = (case s of c # r \<Rightarrow> if c = 43 then r else s | [] \<Rightarrow> [])
      in if ds = [] \<or> \<not> list_all is_ascii_digit ds \<or> 255 < digits_value ds then None
         else Some (digits_value ds))"

section \<open>Remote-access tools\<close>

datatype tool_action = Detect | BlockNetwork | Kill

record remote_tool =
  rt_id :: ustring
  rt_images :: "ustring list"
  rt_relay_domains :: "ustring list"
  rt_ports :: "nat list"

definition tool :: "string \<Rightarrow> string list \<Rightarrow> string list \<Rightarrow> nat list \<Rightarrow> remote_tool" where
  "tool i images domains ports =
     \<lparr>rt_id = lit i, rt_images = map lit images, rt_relay_domains = map lit domains, rt_ports = ports\<rparr>"

text \<open>The display name and the publishers of a signature are not used by any matcher.\<close>

definition REMOTE_TOOLS :: "remote_tool list" where
  "REMOTE_TOOLS =
     [tool ''anydesk'' [''anydesk.exe''] [''anydesk.com'', ''net.anydesk.com''] [7070],
      tool ''rustdesk'' [''rustdesk.exe''] [''rustdesk.com''] [21115, 21116, 21117, 21118, 21119],
      tool ''teamviewer'' [''teamviewer.exe'', ''teamviewer_service.exe'', ''tv_w32.exe'', ''tv_x64.exe'']
        [''teamviewer.com''] [5938],
      tool ''realvnc'' [''vncserver.exe'', ''vncviewer.exe'', ''winvnc4.exe''] [''realvnc.com''] [5900],
      tool ''tightvnc'' [''tvnserver.exe'', ''tvnviewer.exe''] [''tightvnc.com''] [5900],
      tool ''ultravnc'' [''winvnc.exe'', ''uvnc_service.exe'', ''vncviewer.exe''] [''uvnc.com''] [5900],
      tool ''chrome-remote-desktop'' [''remoting_host.exe'', ''remote_assistance_host.exe'']
        [''remotedesktop.google.com'', ''talkgadget.google.com''] [443],
      tool ''rdp-out'' [''mstsc.exe''] [] [3389],
      tool ''splashtop'' [''srservice.exe'', ''srserver.exe'', ''strwinclt.exe'', ''splashtop.exe'']
        [''splashtop.com''] [6783],
      tool ''logmein'' [''logmein.exe'', ''lmiguardiansvc.exe'', ''ramaint.exe'', ''logmeinsystray.exe'']
        [''logmein.com''] []]"

definition basename :: "ustring \<Rightarrow> ustring" where
  "basename path = rsplit_first (\<lambda>c. c = 92) (replace_char 47 92 (to_ascii_lowercase path))"

definition match_image :: "ustring \<Rightarrow> remote_tool option" where
  "match_image app_path =
     (let base = basename app_path
      in if base = [] then None
         else find (\<lambda>t. list_ex (\<lambda>img. eq_ignore_ascii_case img base) (rt_images t)) REMOTE_TOOLS)"

definition match_relay_domain :: "ustring \<Rightarrow> remote_tool option" where
  "match_relay_domain host =
     (let h = to_ascii_lowercase (trim_end_matches (\<lambda>c. c = 46) (trim host))
      in if h = [] then None
         else find (\<lambda>t. list_ex (\<lambda>d. h = d \<or> ends_with h ([46] @ d)) (rt_relay_domains t)) REMOTE_TOOLS)"

record tool_match =
  tm_tool_id :: ustring
  tm_action :: tool_action

record remote_tool_policy =
  rtp_default_action :: tool_action
  rtp_overrides :: "ustring \<rightharpoonup> tool_action"

definition remote_tool_policy_default :: remote_tool_policy where
  "remote_tool_policy_default = \<lparr>rtp_default_action = Detect, rtp_overrides = Map.empty\<rparr>"

definition match_app :: "remote_tool_policy \<Rightarrow> ustring \<Rightarrow> tool_match option" where
  "match_app policy app_path =
     map_option (\<lambda>t. \<lparr>tm_tool_id = rt_id t, tm_action =
         (case rtp_overrides policy (rt_id t) of Some a \<Rightarrow> a | None \<Rightarrow> rtp_default_action policy)\<rparr>)
       (match_image app_path)"

section \<open>Rules\<close>

datatype net_mode = Monitor | Allowlist | Blocklist

datatype direction = Outbound | Inbound

record connection =
  cn_app_path :: ustring
  cn_remote_ip :: ip_addr
  cn_remote_port :: u16
  cn_direction :: direction

datatype rule_action = RA_Permit | RA_Block

record cidr =
  cd_base :: ip_addr
  cd_prefix :: nat

definition cidr_parse :: "ustring \<Rightarrow> cidr option" where
  "cidr_parse s0 =
     (let s = trim s0;
          (addr_s, prefix_s) = (case split_once 47 s of Some (a, p) \<Rightarrow> (trim a, Some (trim p)) | None \<Rightarrow> (s, None))
      in case parse_ip addr_s of
           None \<Rightarrow> None
         | Some base \<Rightarrow>
             let mx = (case base of V4 _ \<Rightarrow> 32 | V6 _ \<Rightarrow> 128)
             in case (case prefix_s of Some p \<Rightarrow> parse_u8 p | None \<Rightarrow> Some mx) of
                  None \<Rightarrow> None
                | Some prefix \<Rightarrow> if mx < prefix then None else Some \<lparr>cd_base = base, cd_prefix = prefix\<rparr>)"

definition cidr_contains :: "cidr \<Rightarrow> ip_addr \<Rightarrow> bool" where
  "cidr_contains c ip =
     (case (cd_base c, ip) of
        (V4 b, V4 t) \<Rightarrow>
          let m = (if cd_prefix c = 0 then 0 else push_bit (32 - cd_prefix c) (- 1)) in b AND m = t AND m
      | (V6 b, V6 t) \<Rightarrow>
          let m = (if cd_prefix c = 0 then 0 else push_bit (128 - cd_prefix c) (- 1)) in b AND m = t AND m
      | _ \<Rightarrow> False)"

definition cidr_is_v4 :: "cidr \<Rightarrow> bool" where
  "cidr_is_v4 c = (case cd_base c of V4 _ \<Rightarrow> True | V6 _ \<Rightarrow> False)"

record net_rule =
  nr_match_app :: "ustring option"
  nr_match_cidr :: "cidr option"
  nr_match_port :: "u16 option"
  nr_action :: rule_action
  nr_note :: "ustring option"

definition app_matches :: "ustring \<Rightarrow> ustring \<Rightarrow> bool" where
  "app_matches app_path pat =
     (let a = replace_char 47 92 (to_ascii_lowercase app_path);
          p = replace_char 47 92 (to_ascii_lowercase pat)
      in if p = [] then False
         else if a = p then True
         else rsplit_first (\<lambda>c. c = 92) a = p \<or> ends_with a p)"

definition net_rule_matches :: "net_rule \<Rightarrow> connection \<Rightarrow> bool" where
  "net_rule_matches rule conn =
     ((case nr_match_app rule of None \<Rightarrow> True | Some app \<Rightarrow> app_matches (cn_app_path conn) app)
      \<and> (case nr_match_cidr rule of None \<Rightarrow> True | Some c \<Rightarrow> cidr_contains c (cn_remote_ip conn))
      \<and> (case nr_match_port rule of None \<Rightarrow> True | Some p \<Rightarrow> cn_remote_port conn = p)
      \<and> (nr_match_app rule \<noteq> None \<or> nr_match_cidr rule \<noteq> None \<or> nr_match_port rule \<noteq> None))"

definition rule_reason :: "net_rule \<Rightarrow> ustring" where
  "rule_reason rule =
     (case nr_note rule of
        Some n \<Rightarrow> n
      | None \<Rightarrow> lit ''matched '' @ (case nr_action rule of RA_Permit \<Rightarrow> lit ''Permit'' | RA_Block \<Rightarrow> lit ''Block'')
                @ lit '' rule'')"

datatype decision = Permit | Block_Conn ustring

fun is_block :: "decision \<Rightarrow> bool" where
  "is_block Permit = False"
| "is_block (Block_Conn _) = True"

fun decision_reason :: "decision \<Rightarrow> ustring" where
  "decision_reason Permit = lit ''permit''"
| "decision_reason (Block_Conn r) = r"

record net_policy =
  np_mode :: net_mode
  np_rules :: "net_rule list"
  np_remote_tools :: remote_tool_policy

definition net_policy_monitor :: net_policy where
  "net_policy_monitor = \<lparr>np_mode = Monitor, np_rules = [], np_remote_tools = remote_tool_policy_default\<rparr>"

definition rule_decision :: "net_rule \<Rightarrow> decision" where
  "rule_decision rule = (case nr_action rule of RA_Permit \<Rightarrow> Permit | RA_Block \<Rightarrow> Block_Conn (rule_reason rule))"

fun net_rules_decide :: "net_rule list \<Rightarrow> decision \<Rightarrow> connection \<Rightarrow> decision" where
  "net_rules_decide [] fallback conn = fallback"
| "net_rules_decide (rule # rules) fallback conn =
     (if net_rule_matches rule conn then rule_decision rule else net_rules_decide rules fallback conn)"

definition mode_default :: "net_mode \<Rightarrow> decision" where
  "mode_default m =
     (case m of Allowlist \<Rightarrow> Block_Conn (lit ''default-deny (allowlist mode)'') | _ \<Rightarrow> Permit)"

definition tool_decision :: "net_policy \<Rightarrow> connection \<Rightarrow> decision" where
  "tool_decision policy conn =
     (case match_app (np_remote_tools policy) (cn_app_path conn) of
        Some m \<Rightarrow>
          (case tm_action m of
             Detect \<Rightarrow> mode_default (np_mode policy)
           | _ \<Rightarrow> Block_Conn (lit ''remote-access tool: '' @ tm_tool_id m))
      | None \<Rightarrow> mode_default (np_mode policy))"

definition net_decide :: "net_policy \<Rightarrow> connection \<Rightarrow> decision" where
  "net_decide policy conn = net_rules_decide (np_rules policy) (tool_decision policy conn) conn"

definition fail_secure_egress :: "bool \<Rightarrow> bool \<Rightarrow> decision" where
  "fail_secure_egress file_unreadable dest_allowlisted =
     (if file_unreadable \<and> \<not> dest_allowlisted
      then Block_Conn (lit ''fail-secure: unreadable (encrypted) payload to non-allowlisted destination'')
      else Permit)"

section \<open>The rule list\<close>

interpretation net: first_match net_rule_matches rule_decision net_rules_decide
  by unfold_locales simp_all

lemma net_decide_find:
  "net_decide policy conn =
     (case find (\<lambda>r. net_rule_matches r conn) (np_rules policy) of
        Some r \<Rightarrow> rule_decision r | None \<Rightarrow> tool_decision policy conn)"
  by (simp add: net_decide_def net.run_find)

section \<open>CIDR membership\<close>

lemma unat_drop_bit: "unat (drop_bit k w) = unat w div 2 ^ k" for w :: "'a::len word"
proof -
  have "unat (drop_bit k w) = drop_bit k (unat w)"
    by (rule bit_eqI) (auto simp: bit_simps bit_unsigned_iff dest: bit_imp_le_length)
  then show ?thesis by (simp add: drop_bit_eq_div)
qed

lemma and_high_mask:
  fixes b t :: "'a::len word"
  assumes "p \<le> LENGTH('a)"
  shows "b AND push_bit (LENGTH('a) - p) (- 1) = t AND push_bit (LENGTH('a) - p) (- 1)
    \<longleftrightarrow> unat b div 2 ^ (LENGTH('a) - p) = unat t div 2 ^ (LENGTH('a) - p)"
proof -
  let ?k = "LENGTH('a) - p"
  have "b AND push_bit ?k (- 1) = t AND push_bit ?k (- 1) \<longleftrightarrow> drop_bit ?k b = drop_bit ?k t"
  proof
    assume "b AND push_bit ?k (- 1) = t AND push_bit ?k (- 1)"
    then have "drop_bit ?k (b AND push_bit ?k (- 1)) = drop_bit ?k (t AND push_bit ?k (- 1))" by simp
    then show "drop_bit ?k b = drop_bit ?k t"
      by (auto simp: bit_eq_iff bit_simps dest: bit_imp_le_length)
  next
    assume "drop_bit ?k b = drop_bit ?k t"
    then have "push_bit ?k (drop_bit ?k b) = push_bit ?k (drop_bit ?k t)" by simp
    then show "b AND push_bit ?k (- 1) = t AND push_bit ?k (- 1)"
      by (auto simp: bit_eq_iff bit_simps)
  qed
  also have "\<dots> \<longleftrightarrow> unat b div 2 ^ ?k = unat t div 2 ^ ?k"
    unfolding word_unat_eq_iff unat_drop_bit ..
  finally show ?thesis .
qed

lemma unat_div_full: "unat x div 2 ^ LENGTH('a) = 0" for x :: "'a::len word"
  by (rule div_less) (rule unsigned_less)

lemma masked_eq:
  fixes b t :: "'a::len word"
  assumes "p \<le> LENGTH('a)"
  shows "b AND (if p = 0 then 0 else push_bit (LENGTH('a) - p) (- 1)) = t AND (if p = 0 then 0 else push_bit (LENGTH('a) - p) (- 1))
    \<longleftrightarrow> unat b div 2 ^ (LENGTH('a) - p) = unat t div 2 ^ (LENGTH('a) - p)"
proof (cases "p = 0")
  case True
  then show ?thesis by (simp only: if_True diff_zero unat_div_full and_zero_eq simp_thms)
next
  case False
  with and_high_mask [OF assms, of b t] show ?thesis by (simp only: if_False)
qed

lemma len_32_128: "LENGTH(32) = 32" "LENGTH(128) = 128" by simp_all
lemma cidr_contains_range:
  assumes "cd_prefix c \<le> (case cd_base c of V4 _ \<Rightarrow> 32 | V6 _ \<Rightarrow> 128)"
  shows "cidr_contains c ip \<longleftrightarrow>
    (case (cd_base c, ip) of
       (V4 b, V4 t) \<Rightarrow> unat b div 2 ^ (32 - cd_prefix c) = unat t div 2 ^ (32 - cd_prefix c)
     | (V6 b, V6 t) \<Rightarrow> unat b div 2 ^ (128 - cd_prefix c) = unat t div 2 ^ (128 - cd_prefix c)
     | _ \<Rightarrow> False)"
proof -
  note v4 = masked_eq [where ?'a = 32, unfolded len_32_128] and v6 = masked_eq [where ?'a = 128, unfolded len_32_128]
  show ?thesis
    using assms v4 [of "cd_prefix c"] v6 [of "cd_prefix c"]
    unfolding cidr_contains_def Let_def by (cases "cd_base c"; cases ip) (simp_all only: prod.case ip_addr.case)
qed
lemma cidr_parse_range:
  assumes "cidr_parse s = Some c"
  shows "cd_prefix c \<le> (case cd_base c of V4 _ \<Rightarrow> 32 | V6 _ \<Rightarrow> 128)"
  using assms by (auto simp: cidr_parse_def Let_def split: option.splits if_splits prod.splits)

section \<open>Properties\<close>

text \<open>
  Default deny. In allowlist mode a connection is permitted exactly when the first rule
  that matches it is a permit rule; no remote-tool setting and no later rule can permit it,
  and a rule without a matcher matches nothing.
\<close>

theorem allowlist_default_deny:
  assumes "np_mode policy = Allowlist"
  shows "net_decide policy conn = Permit \<longleftrightarrow>
    (\<exists>pre r post. np_rules policy = pre @ r # post \<and> (\<forall>r' \<in> set pre. \<not> net_rule_matches r' conn)
       \<and> net_rule_matches r conn \<and> nr_action r = RA_Permit
       \<and> (nr_match_app r \<noteq> None \<or> nr_match_cidr r \<noteq> None \<or> nr_match_port r \<noteq> None))"
    (is "?l \<longleftrightarrow> ?r")
proof
  assume ?l
  show ?r
  proof (cases "find (\<lambda>r. net_rule_matches r conn) (np_rules policy)")
    case None
    with \<open>?l\<close> assms show ?thesis
      by (auto simp: net_decide_find tool_decision_def mode_default_def split: option.splits tool_action.splits)
  next
    case (Some r)
    then obtain i where i: "i < length (np_rules policy)" "np_rules policy ! i = r" "net_rule_matches r conn"
      "\<forall>j < i. \<not> net_rule_matches (np_rules policy ! j) conn" by (auto simp: find_Some_iff)
    have "np_rules policy = take i (np_rules policy) @ r # drop (Suc i) (np_rules policy)"
      using i id_take_nth_drop by blast
    moreover have "\<forall>r' \<in> set (take i (np_rules policy)). \<not> net_rule_matches r' conn"
      using i by (auto simp: in_set_conv_nth)
    moreover have "nr_action r = RA_Permit"
      using \<open>?l\<close> Some by (auto simp: net_decide_find rule_decision_def split: rule_action.splits)
    moreover have "nr_match_app r \<noteq> None \<or> nr_match_cidr r \<noteq> None \<or> nr_match_port r \<noteq> None"
      using i(3) unfolding net_rule_matches_def by blast
    ultimately show ?thesis using i(3) by metis
  qed
next
  assume ?r
  then obtain pre r post where "np_rules policy = pre @ r # post" "\<forall>r' \<in> set pre. \<not> net_rule_matches r' conn"
    "net_rule_matches r conn" "nr_action r = RA_Permit" by blast
  then show ?l by (simp add: net_decide_def net.run_first rule_decision_def)
qed

definition example_conn :: connection where
  "example_conn = \<lparr>cn_app_path = lit ''curl.exe'', cn_remote_ip = V4 0x0a010203, cn_remote_port = 443,
     cn_direction = Outbound\<rparr>"

lemma allowlist_default_deny_witness:
  "net_decide \<lparr>np_mode = Allowlist, np_rules = [], np_remote_tools = remote_tool_policy_default\<rparr> example_conn \<noteq> Permit"
  using allowlist_default_deny [of "\<lparr>np_mode = Allowlist, np_rules = [], np_remote_tools = remote_tool_policy_default\<rparr>" example_conn]
  by simp

text \<open>
  A parsed prefix means what it says: a rule text that parses has a prefix length
  within its address family, so no shift leaves the word, and an address is a member
  exactly when it is of the same family and agrees with the base in all leading bits, that
  is, lies in the block of addresses that the prefix names.
\<close>

theorem parsed_cidr_membership:
  assumes "cidr_parse s = Some c"
  shows "cd_prefix c \<le> (if cidr_is_v4 c then 32 else 128)
    \<and> (cidr_contains c ip \<longleftrightarrow>
        (case (cd_base c, ip) of
           (V4 b, V4 t) \<Rightarrow> unat b div 2 ^ (32 - cd_prefix c) = unat t div 2 ^ (32 - cd_prefix c)
         | (V6 b, V6 t) \<Rightarrow> unat b div 2 ^ (128 - cd_prefix c) = unat t div 2 ^ (128 - cd_prefix c)
         | _ \<Rightarrow> False))"
  using cidr_contains_range [OF cidr_parse_range [OF assms]] cidr_parse_range [OF assms]
  by (auto simp: cidr_is_v4_def split: ip_addr.splits)

lemma parsed_cidr_membership_witness:
  "\<exists>c. cidr_parse (lit ''0.0.0.0/8'') = Some c \<and> cidr_contains c (V4 0x00010203) \<and> \<not> cidr_contains c (V4 0x0b000001)"
proof -
  have ip: "parse_ip (lit ''0.0.0.0'') = Some (V4 0)" and n: "parse_u8 (lit ''8'') = Some 8" by code_simp+
  have sp: "split_once 47 (lit ''0.0.0.0/8'') = Some (lit ''0.0.0.0'', lit ''8'')" by code_simp
  have t: "trim (lit ''0.0.0.0/8'') = lit ''0.0.0.0/8''" "trim (lit ''0.0.0.0'') = lit ''0.0.0.0''" "trim (lit ''8'') = lit ''8''"
    by (simp_all add: trim_def trim_start_matches_def trim_end_matches_def is_whitespace_def lit_def)
  have c: "cidr_parse (lit ''0.0.0.0/8'') = Some \<lparr>cd_base = V4 0, cd_prefix = 8\<rparr>"
    by (simp add: cidr_parse_def t sp ip n Let_def)
  from parsed_cidr_membership [OF c, of "V4 0x00010203"] parsed_cidr_membership [OF c, of "V4 0x0b000001"] c
  show ?thesis by simp
qed

text \<open>Matching an application by suffix is not aligned to path components.\<close>

lemma app_suffix_not_component:
  "app_matches (lit ''anydesk.exe'') (lit ''desk.exe'')"
  by code_simp

end
