(* ===== verification/Wfp.thy ===== *)
theory Wfp
  imports Net_Rules
begin

unbundle bit_operations_syntax

text \<open>
  The translation of rules into filters of the Windows Filtering Platform, \<open>netfilter/wfp.rs\<close>:
  the filter specifications, the dry run, and the live installation as the sequence of calls it
  makes. The return code of each call is a parameter, a function of the calls made so far (the
  last one is the call that returns); so is the application id of a path.
\<close>

section \<open>Filter specifications\<close>

type_synonym guid = u128

definition DLP_PROVIDER_GUID :: guid where
  "DLP_PROVIDER_GUID = 0x7b2e6f109c3a4d21b8e45f1a2c3d4e5f"

definition DLP_SUBLAYER_GUID :: guid where
  "DLP_SUBLAYER_GUID = 0x7b2e6f119c3a4d21b8e45f1a2c3d4e60"

definition DEFAULT_WEIGHT :: u8 where
  "DEFAULT_WEIGHT = 10"

datatype wfp_layer = AleAuthConnectV4 | AleAuthConnectV6

datatype wfp_action = WA_Permit | WA_Block

datatype wfp_condition = AppId ustring | RemoteAddress cidr | RemotePort u16

record wfp_filter_spec =
  fs_name :: ustring
  fs_layer :: wfp_layer
  fs_action :: wfp_action
  fs_conditions :: "wfp_condition list"
  fs_weight :: u8
  fs_provider :: guid
  fs_sublayer :: guid

fun action_of :: "rule_action \<Rightarrow> wfp_action" where
  "action_of RA_Permit = WA_Permit"
| "action_of RA_Block = WA_Block"

definition conditions_of :: "net_rule \<Rightarrow> wfp_condition list" where
  "conditions_of rule =
     (case nr_match_app rule of Some app \<Rightarrow> [AppId app] | None \<Rightarrow> [])
     @ (case nr_match_cidr rule of Some c \<Rightarrow> [RemoteAddress c] | None \<Rightarrow> [])
     @ (case nr_match_port rule of Some p \<Rightarrow> [RemotePort p] | None \<Rightarrow> [])"

definition layers_for :: "net_rule \<Rightarrow> wfp_layer list" where
  "layers_for rule =
     (case nr_match_cidr rule of
        Some c \<Rightarrow> if cidr_is_v4 c then [AleAuthConnectV4] else [AleAuthConnectV6]
      | None \<Rightarrow> [AleAuthConnectV4, AleAuthConnectV6])"

definition plan_filter :: "net_rule \<Rightarrow> wfp_layer \<Rightarrow> u8 \<Rightarrow> wfp_filter_spec" where
  "plan_filter rule layer weight =
     \<lparr>fs_name = (case nr_note rule of Some n \<Rightarrow> n | None \<Rightarrow> lit ''dlp-net-rule''), fs_layer = layer,
      fs_action = action_of (nr_action rule), fs_conditions = conditions_of rule, fs_weight = weight,
      fs_provider = DLP_PROVIDER_GUID, fs_sublayer = DLP_SUBLAYER_GUID\<rparr>"

definition plan_filters :: "net_rule \<Rightarrow> wfp_filter_spec list" where
  "plan_filters rule = map (\<lambda>layer. plan_filter rule layer DEFAULT_WEIGHT) (layers_for rule)"

definition wfp_basename :: "ustring \<Rightarrow> ustring" where
  "wfp_basename path = rsplit_first (\<lambda>c. c = 92) (replace_char 47 92 path)"

definition plan_tool_block :: "ustring \<Rightarrow> u8 \<Rightarrow> wfp_filter_spec list" where
  "plan_tool_block app_path weight =
     map (\<lambda>layer.
        \<lparr>fs_name = lit ''dlp-block-tool:'' @ wfp_basename app_path, fs_layer = layer, fs_action = WA_Block,
         fs_conditions = [AppId app_path], fs_weight = weight,
         fs_provider = DLP_PROVIDER_GUID, fs_sublayer = DLP_SUBLAYER_GUID\<rparr>)
       [AleAuthConnectV4, AleAuthConnectV6]"

section \<open>The native filter\<close>

datatype 'blob native_condition =
  ALE_APP_ID 'blob
| V4_ADDR_MASK u32 u32
| V6_ADDR_MASK bytes nat
| REMOTE_PORT u16

record 'blob native_filter =
  nf_name :: ustring
  nf_layer_key :: guid
  nf_sublayer_key :: guid
  nf_provider_key :: guid
  nf_weight :: u8
  nf_conditions :: "'blob native_condition list"
  nf_action :: wfp_action

fun layer_guid :: "wfp_layer \<Rightarrow> guid" where
  "layer_guid AleAuthConnectV4 = 0xc38d57d105a74c33904f7fbceee60e82"
| "layer_guid AleAuthConnectV6 = 0x4a72393b319f44bc84c3ba54dcb3b6b4"

definition native_address :: "cidr \<Rightarrow> 'blob native_condition" where
  "native_address c =
     (case cd_base c of
        V4 v4 \<Rightarrow> V4_ADDR_MASK v4 (if cd_prefix c = 0 then 0 else push_bit (32 - cd_prefix c) (- 1))
      | V6 v6 \<Rightarrow> V6_ADDR_MASK (to_be 16 (unat v6)) (cd_prefix c))"

section \<open>Live installation\<close>

datatype 'blob wfp_call =
  EngineOpen
| ProviderAdd guid
| SubLayerAdd guid guid
| TransactionBegin
| GetAppIdFromFileName ustring
| FilterAdd "'blob native_filter"
| FreeMemory 'blob
| TransactionCommit
| TransactionAbort

datatype wfp_error =
  NotWindows
| EngineOpenFailed u32
| ProviderAddFailed u32
| SubLayerAddFailed u32
| TransactionBeginFailed u32
| GetAppIdFailed ustring u32
| FilterAddFailed ustring u32
| TransactionCommitFailed u32

definition ERROR_OK :: u32 where
  "ERROR_OK = 0"

definition FWP_E_ALREADY_EXISTS :: u32 where
  "FWP_E_ALREADY_EXISTS = 0x80320009"

fun native_conditions ::
  "('blob wfp_call list \<Rightarrow> u32) \<Rightarrow> (ustring \<Rightarrow> 'blob) \<Rightarrow> 'blob wfp_call list \<Rightarrow> wfp_condition list
   \<Rightarrow> 'blob wfp_call list \<times> (wfp_error + 'blob native_condition list)" where
  "native_conditions rc app_id h [] = (h, Inr [])"
| "native_conditions rc app_id h (AppId path # cs) =
     (let h1 = h @ [GetAppIdFromFileName path]
      in if rc h1 \<noteq> ERROR_OK then (h1, Inl (GetAppIdFailed path (rc h1)))
         else (case native_conditions rc app_id h1 cs of
                 (h2, Inl e) \<Rightarrow> (h2, Inl e)
               | (h2, Inr ns) \<Rightarrow> (h2, Inr (ALE_APP_ID (app_id path) # ns))))"
| "native_conditions rc app_id h (RemoteAddress c # cs) =
     (case native_conditions rc app_id h cs of
        (h2, Inl e) \<Rightarrow> (h2, Inl e)
      | (h2, Inr ns) \<Rightarrow> (h2, Inr (native_address c # ns)))"
| "native_conditions rc app_id h (RemotePort p # cs) =
     (case native_conditions rc app_id h cs of
        (h2, Inl e) \<Rightarrow> (h2, Inl e)
      | (h2, Inr ns) \<Rightarrow> (h2, Inr (REMOTE_PORT p # ns)))"

definition native_of :: "wfp_filter_spec \<Rightarrow> 'blob native_condition list \<Rightarrow> 'blob native_filter" where
  "native_of spec conds =
     \<lparr>nf_name = fs_name spec, nf_layer_key = layer_guid (fs_layer spec), nf_sublayer_key = fs_sublayer spec,
      nf_provider_key = fs_provider spec, nf_weight = fs_weight spec, nf_conditions = conds,
      nf_action = fs_action spec\<rparr>"

fun blobs_of :: "'blob native_condition list \<Rightarrow> 'blob list" where
  "blobs_of [] = []"
| "blobs_of (ALE_APP_ID b # cs) = b # blobs_of cs"
| "blobs_of (c # cs) = blobs_of cs"

definition add_one_filter ::
  "('blob wfp_call list \<Rightarrow> u32) \<Rightarrow> (ustring \<Rightarrow> 'blob) \<Rightarrow> 'blob wfp_call list \<Rightarrow> wfp_filter_spec
   \<Rightarrow> 'blob wfp_call list \<times> (wfp_error + unit)" where
  "add_one_filter rc app_id h spec =
     (case native_conditions rc app_id h (fs_conditions spec) of
        (h1, Inl e) \<Rightarrow> (h1, Inl e)
      | (h1, Inr conds) \<Rightarrow>
          let h2 = h1 @ [FilterAdd (native_of spec conds)];
              h3 = h2 @ map FreeMemory (blobs_of conds)
          in if rc h2 \<noteq> ERROR_OK then (h3, Inl (FilterAddFailed (fs_name spec) (rc h2))) else (h3, Inr ()))"

fun add_filters ::
  "('blob wfp_call list \<Rightarrow> u32) \<Rightarrow> (ustring \<Rightarrow> 'blob) \<Rightarrow> 'blob wfp_call list \<Rightarrow> nat \<Rightarrow> wfp_filter_spec list
   \<Rightarrow> 'blob wfp_call list \<times> (wfp_error + nat)" where
  "add_filters rc app_id h added [] = (h, Inr added)"
| "add_filters rc app_id h added (spec # specs) =
     (case add_one_filter rc app_id h spec of
        (h1, Inl e) \<Rightarrow> (h1 @ [TransactionAbort], Inl e)
      | (h1, Inr _) \<Rightarrow> add_filters rc app_id h1 (added + 1) specs)"

definition execute_live ::
  "('blob wfp_call list \<Rightarrow> u32) \<Rightarrow> (ustring \<Rightarrow> 'blob) \<Rightarrow> wfp_filter_spec list
   \<Rightarrow> 'blob wfp_call list \<times> (wfp_error + nat)" where
  "execute_live rc app_id specs =
     (let h1 = [EngineOpen]; h2 = h1 @ [ProviderAdd DLP_PROVIDER_GUID];
          h3 = h2 @ [SubLayerAdd DLP_SUBLAYER_GUID DLP_PROVIDER_GUID]; h4 = h3 @ [TransactionBegin]
      in if rc h1 \<noteq> ERROR_OK then (h1, Inl (EngineOpenFailed (rc h1)))
         else if rc h2 \<noteq> ERROR_OK \<and> rc h2 \<noteq> FWP_E_ALREADY_EXISTS then (h2, Inl (ProviderAddFailed (rc h2)))
         else if rc h3 \<noteq> ERROR_OK \<and> rc h3 \<noteq> FWP_E_ALREADY_EXISTS then (h3, Inl (SubLayerAddFailed (rc h3)))
         else if rc h4 \<noteq> ERROR_OK then (h4, Inl (TransactionBeginFailed (rc h4)))
         else (case add_filters rc app_id h4 0 specs of
                 (h5, Inl e) \<Rightarrow> (h5, Inl e)
               | (h5, Inr added) \<Rightarrow>
                   let h6 = h5 @ [TransactionCommit]
                   in if rc h6 \<noteq> ERROR_OK then (h6 @ [TransactionAbort], Inl (TransactionCommitFailed (rc h6)))
                      else (h6, Inr added)))"

datatype wfp_mode = WM_DryRun | WM_Live

datatype wfp_apply_outcome = WO_Planned "wfp_filter_spec list" | WO_Executed nat

text \<open>Elsewhere than on Windows the live installation fails without a call.\<close>

definition execute_live_stub :: "wfp_filter_spec list \<Rightarrow> 'blob wfp_call list \<times> (wfp_error + nat)" where
  "execute_live_stub specs = ([], Inl NotWindows)"

definition wfp_apply ::
  "(wfp_filter_spec list \<Rightarrow> 'blob wfp_call list \<times> (wfp_error + nat)) \<Rightarrow> wfp_filter_spec list \<Rightarrow> wfp_mode
   \<Rightarrow> 'blob wfp_call list \<times> (wfp_error + wfp_apply_outcome)" where
  "wfp_apply live specs mode =
     (case mode of
        WM_DryRun \<Rightarrow> ([], Inr (WO_Planned specs))
      | WM_Live \<Rightarrow> (case live specs of (h, Inl e) \<Rightarrow> (h, Inl e) | (h, Inr n) \<Rightarrow> (h, Inr (WO_Executed n))))"

section \<open>What one rule installs\<close>

fun to_native :: "(ustring \<Rightarrow> 'blob) \<Rightarrow> wfp_condition \<Rightarrow> 'blob native_condition" where
  "to_native app_id (AppId path) = ALE_APP_ID (app_id path)"
| "to_native app_id (RemoteAddress c) = native_address c"
| "to_native app_id (RemotePort p) = REMOTE_PORT p"

definition native :: "(ustring \<Rightarrow> 'blob) \<Rightarrow> wfp_filter_spec \<Rightarrow> 'blob native_filter" where
  "native app_id spec = native_of spec (map (to_native app_id) (fs_conditions spec))"

text \<open>
  The documented meaning of the conditions under \<open>FWP_MATCH_EQUAL\<close>, of which \<open>holds\<close> is the
  engine's evaluation: an address and mask agree with the remote address under the mask, an
  address and prefix length in the leading bits, a port is the remote port. All conditions of a
  filter must hold, at the layer of the connection's address family.
\<close>

definition wfp_documented :: "('blob native_condition \<Rightarrow> connection \<Rightarrow> bool) \<Rightarrow> bool" where
  "wfp_documented holds \<longleftrightarrow>
     (\<forall>a m conn ip. cn_remote_ip conn = V4 ip \<longrightarrow> (holds (V4_ADDR_MASK a m) conn \<longleftrightarrow> a AND m = ip AND m))
     \<and> (\<forall>a n conn ip. cn_remote_ip conn = V6 ip \<longrightarrow> length a = 16 \<longrightarrow> n \<le> 128 \<longrightarrow>
          (holds (V6_ADDR_MASK a n) conn \<longleftrightarrow> be_nat a div 2 ^ (128 - n) = unat ip div 2 ^ (128 - n)))
     \<and> (\<forall>p conn. holds (REMOTE_PORT p) conn \<longleftrightarrow> cn_remote_port conn = p)"

definition connect_layer :: "connection \<Rightarrow> wfp_layer" where
  "connect_layer conn = (case cn_remote_ip conn of V4 _ \<Rightarrow> AleAuthConnectV4 | V6 _ \<Rightarrow> AleAuthConnectV6)"

definition filter_selects :: "('blob native_condition \<Rightarrow> connection \<Rightarrow> bool) \<Rightarrow> 'blob native_filter \<Rightarrow> connection \<Rightarrow> bool" where
  "filter_selects holds f conn \<longleftrightarrow>
     nf_layer_key f = layer_guid (connect_layer conn) \<and> list_all (\<lambda>c. holds c conn) (nf_conditions f)"

definition cidr_wf :: "cidr \<Rightarrow> bool" where
  "cidr_wf c \<longleftrightarrow> cd_prefix c \<le> (case cd_base c of V4 _ \<Rightarrow> 32 | V6 _ \<Rightarrow> 128)"

lemma be_nat_to_be: "be_nat (to_be n x) = x mod 256 ^ n"
  by (simp add: be_nat_def to_be_def le_nat_to_le)

lemma layer_guid_inj [simp]: "layer_guid a = layer_guid b \<longleftrightarrow> a = b"
  by (cases a; cases b) simp_all

lemma native_address_exact:
  assumes "wfp_documented holds" and "cidr_wf c"
  shows "cidr_is_v4 c \<longleftrightarrow> connect_layer conn = AleAuthConnectV4 \<Longrightarrow>
      holds (native_address c) conn \<longleftrightarrow> cidr_contains c (cn_remote_ip conn)"
    and "(cidr_is_v4 c \<longleftrightarrow> connect_layer conn \<noteq> AleAuthConnectV4) \<Longrightarrow> \<not> cidr_contains c (cn_remote_ip conn)"
proof -
  have b: "unat v < 256 ^ 16" for v :: u128
    using unsigned_less [of v] by simp
  show "holds (native_address c) conn \<longleftrightarrow> cidr_contains c (cn_remote_ip conn)"
    if fam: "cidr_is_v4 c \<longleftrightarrow> connect_layer conn = AleAuthConnectV4"
  proof (cases "cn_remote_ip conn")
    case (V4 ip)
    with fam obtain v where v: "cd_base c = V4 v"
      by (auto simp: cidr_is_v4_def connect_layer_def split: ip_addr.splits)
    with V4 assms(1) show ?thesis
      by (simp add: wfp_documented_def native_address_def cidr_contains_def Let_def)
  next
    case (V6 ip)
    with fam obtain v where v: "cd_base c = V6 v"
      by (auto simp: cidr_is_v4_def connect_layer_def split: ip_addr.splits)
    have w: "cd_prefix c \<le> 128" using assms(2) v by (simp add: cidr_wf_def)
    have len: "length (to_be 16 (unat v)) = 16" by (simp add: to_be_def)
    have n: "native_address c = V6_ADDR_MASK (to_be 16 (unat v)) (cd_prefix c)"
      by (simp add: native_address_def v)
    have "holds (native_address c) conn \<longleftrightarrow>
        be_nat (to_be 16 (unat v)) div 2 ^ (128 - cd_prefix c) = unat ip div 2 ^ (128 - cd_prefix c)"
      unfolding n using assms(1) V6 len w unfolding wfp_documented_def by blast
    with cidr_contains_range [of c "V6 ip"] assms(2) v V6 b [of v] show ?thesis
      by (simp add: cidr_wf_def be_nat_to_be)
  qed
  show "\<not> cidr_contains c (cn_remote_ip conn)"
    if "cidr_is_v4 c \<longleftrightarrow> connect_layer conn \<noteq> AleAuthConnectV4"
    using that by (auto simp: cidr_contains_def cidr_is_v4_def connect_layer_def split: ip_addr.splits)
qed

lemma connect_layer_cases: "connect_layer conn = AleAuthConnectV4 \<or> connect_layer conn = AleAuthConnectV6"
  by (simp add: connect_layer_def split: ip_addr.split)

lemma native_simps [simp]:
  "nf_layer_key (native app_id s) = layer_guid (fs_layer s)"
  "nf_conditions (native app_id s) = map (to_native app_id) (fs_conditions s)"
  "nf_action (native app_id s) = fs_action s"
  by (simp_all add: native_def native_of_def)

lemma plan_filter_simps [simp]:
  "fs_layer (plan_filter r l w) = l" "fs_action (plan_filter r l w) = action_of (nr_action r)"
  "fs_conditions (plan_filter r l w) = conditions_of r" "fs_weight (plan_filter r l w) = w"
  by (simp_all add: plan_filter_def)

text \<open>The application condition of a rule agrees with the rule's own test on a connection.\<close>

definition app_agrees ::
  "('blob native_condition \<Rightarrow> connection \<Rightarrow> bool) \<Rightarrow> (ustring \<Rightarrow> 'blob) \<Rightarrow> net_rule \<Rightarrow> connection \<Rightarrow> bool" where
  "app_agrees holds app_id r conn \<longleftrightarrow>
     (case nr_match_app r of None \<Rightarrow> True
      | Some app \<Rightarrow> holds (ALE_APP_ID (app_id app)) conn \<longleftrightarrow> app_matches (cn_app_path conn) app)"

definition rule_wf :: "net_rule \<Rightarrow> bool" where
  "rule_wf r \<longleftrightarrow> (nr_match_app r \<noteq> None \<or> nr_match_cidr r \<noteq> None \<or> nr_match_port r \<noteq> None)
     \<and> (case nr_match_cidr r of None \<Rightarrow> True | Some c \<Rightarrow> cidr_wf c)"

lemma conditions_exact:
  assumes "wfp_documented holds" and "rule_wf r" and "app_agrees holds app_id r conn"
    and "connect_layer conn \<in> set (layers_for r)"
  shows "list_all (\<lambda>c. holds c conn) (map (to_native app_id) (conditions_of r)) \<longleftrightarrow> net_rule_matches r conn"
proof -
  have addr: "holds (native_address c) conn \<longleftrightarrow> cidr_contains c (cn_remote_ip conn)" if "nr_match_cidr r = Some c" for c
    using that assms native_address_exact(1) [OF assms(1), of c conn] connect_layer_cases [of conn]
    by (auto simp: rule_wf_def layers_for_def split: if_splits)
  have port: "holds (REMOTE_PORT p) conn \<longleftrightarrow> cn_remote_port conn = p" for p
    using assms(1) by (simp add: wfp_documented_def)
  show ?thesis
    using assms(2,3) addr
    by (auto simp: conditions_of_def net_rule_matches_def app_agrees_def rule_wf_def port split: option.splits)
qed

lemma rule_filters_count:
  assumes "wfp_documented holds" and "rule_wf r" and "app_agrees holds app_id r conn"
  shows "length (filter (\<lambda>s. filter_selects holds (native app_id s) conn) (plan_filters r))
    = (if net_rule_matches r conn then 1 else 0)"
proof (cases "connect_layer conn \<in> set (layers_for r)")
  case True
  from conditions_exact [OF assms True] True connect_layer_cases [of conn] show ?thesis
    by (auto simp: plan_filters_def filter_selects_def layers_for_def split: option.splits if_splits)
next
  case False
  with connect_layer_cases [of conn] obtain c where c: "nr_match_cidr r = Some c"
    "cidr_is_v4 c \<longleftrightarrow> connect_layer conn \<noteq> AleAuthConnectV4"
    by (auto simp: layers_for_def split: option.splits if_splits)
  then have "\<not> net_rule_matches r conn"
    using native_address_exact(2) [OF assms(1), of c conn] assms(2) by (simp add: net_rule_matches_def rule_wf_def)
  with False show ?thesis
    by (auto simp: plan_filters_def filter_selects_def filter_map comp_def filter_empty_conv)
qed

section \<open>The installation as a transaction\<close>

fun added_filters :: "'blob wfp_call list \<Rightarrow> 'blob native_filter list" where
  "added_filters [] = []"
| "added_filters (FilterAdd f # cs) = f # added_filters cs"
| "added_filters (c # cs) = added_filters cs"

text \<open>A commit was requested and returned success.\<close>

definition commit_accepted :: "('blob wfp_call list \<Rightarrow> u32) \<Rightarrow> 'blob wfp_call list \<Rightarrow> bool" where
  "commit_accepted rc h \<longleftrightarrow> (\<exists>p q. h = p @ TransactionCommit # q \<and> rc (p @ [TransactionCommit]) = ERROR_OK)"

lemma added_filters_append [simp]: "added_filters (xs @ ys) = added_filters xs @ added_filters ys"
  by (induction xs rule: added_filters.induct) simp_all

lemma added_filters_free [simp]: "added_filters (map FreeMemory bs) = []"
  by (induction bs) simp_all

text \<open>Calls made between the start and the end of the transaction.\<close>

definition inner_call :: "'blob wfp_call \<Rightarrow> bool" where
  "inner_call c = (case c of GetAppIdFromFileName _ \<Rightarrow> True | FilterAdd _ \<Rightarrow> True | FreeMemory _ \<Rightarrow> True | _ \<Rightarrow> False)"

lemma inner_call_simps [simp]:
  "inner_call (GetAppIdFromFileName p)" "inner_call (FilterAdd f)" "inner_call (FreeMemory b)"
  "\<not> inner_call TransactionCommit" "\<not> inner_call TransactionAbort" "\<not> inner_call TransactionBegin"
  by (simp_all add: inner_call_def)

lemma native_conditions_trace:
  "\<exists>mid. fst (native_conditions rc app_id h cs) = h @ mid \<and> list_all inner_call mid \<and> added_filters mid = []"
proof (induction rc app_id h cs rule: native_conditions.induct)
  case (2 rc app_id h path cs)
  show ?case
  proof (cases "rc (h @ [GetAppIdFromFileName path]) \<noteq> ERROR_OK")
    case True
    then show ?thesis by (auto simp: Let_def intro!: exI [of _ "[GetAppIdFromFileName path]"])
  next
    case False
    with 2 obtain mid where "fst (native_conditions rc app_id (h @ [GetAppIdFromFileName path]) cs)
        = (h @ [GetAppIdFromFileName path]) @ mid" "list_all inner_call mid" "added_filters mid = []" by auto
    with False show ?thesis
      by (auto simp: Let_def split: prod.splits sum.splits intro!: exI [of _ "GetAppIdFromFileName path # mid"])
  qed
qed (auto split: prod.splits sum.splits)

lemma native_conditions_result:
  "snd (native_conditions rc app_id h cs) = Inr ns \<Longrightarrow> ns = map (to_native app_id) cs"
  by (induction rc app_id h cs arbitrary: ns rule: native_conditions.induct)
    (auto simp: Let_def split: prod.splits sum.splits if_splits)

lemma add_one_filter_trace:
  assumes "add_one_filter rc app_id h spec = (h', r)"
  obtains mid where "h' = h @ mid" "list_all inner_call mid" "r = Inr () \<Longrightarrow> added_filters mid = [native app_id spec]"
proof -
  obtain mid where m: "fst (native_conditions rc app_id h (fs_conditions spec)) = h @ mid"
    "list_all inner_call mid" "added_filters mid = []"
    using native_conditions_trace by blast
  obtain h1 n where n: "native_conditions rc app_id h (fs_conditions spec) = (h1, n)" by fastforce
  show thesis
  proof (cases n)
    case (Inl e)
    with assms n m show thesis by (intro that [of mid]) (auto simp: add_one_filter_def)
  next
    case (Inr conds)
    with n have "conds = map (to_native app_id) (fs_conditions spec)"
      by (intro native_conditions_result [where rc = rc and h = h]) simp
    with Inr assms n m show thesis
      by (intro that [of "mid @ FilterAdd (native app_id spec) # map FreeMemory (blobs_of conds)"])
        (auto simp: add_one_filter_def Let_def native_def list_all_iff split: if_splits)
  qed
qed

lemma add_filters_trace:
  assumes "add_filters rc app_id h n specs = (h', r)"
  shows "case r of
      Inr m \<Rightarrow> m = n + length specs
        \<and> (\<exists>mid. h' = h @ mid \<and> list_all inner_call mid \<and> added_filters mid = map (native app_id) specs)
    | Inl _ \<Rightarrow> (\<exists>mid. h' = h @ mid @ [TransactionAbort] \<and> list_all inner_call mid)"
  using assms
proof (induction specs arbitrary: h n)
  case (Cons spec specs)
  obtain h1 r1 where a: "add_one_filter rc app_id h spec = (h1, r1)" by fastforce
  then obtain mid where m: "h1 = h @ mid" "list_all inner_call mid" "r1 = Inr () \<Longrightarrow> added_filters mid = [native app_id spec]"
    by (rule add_one_filter_trace) blast
  show ?case
  proof (cases r1)
    case (Inl e)
    with Cons.prems a m show ?thesis by auto
  next
    case (Inr u)
    with Cons.prems a have "add_filters rc app_id h1 (n + 1) specs = (h', r)" by simp
    from Cons.IH [OF this] m Inr show ?thesis
      by (cases r) (force simp: list_all_iff)+
  qed
qed auto

lemma inner_no_commit: "list_all inner_call mid \<Longrightarrow> TransactionCommit \<notin> set mid \<and> TransactionAbort \<notin> set mid"
  by (auto simp: list_all_iff)

lemma commit_accepted_absent: "TransactionCommit \<notin> set h \<Longrightarrow> \<not> commit_accepted rc h"
  by (auto simp: commit_accepted_def)

lemma commit_accepted_last:
  assumes "TransactionCommit \<notin> set h" and "rc (h @ [TransactionCommit]) \<noteq> ERROR_OK"
  shows "\<not> commit_accepted rc (h @ [TransactionCommit, TransactionAbort])"
proof
  assume "commit_accepted rc (h @ [TransactionCommit, TransactionAbort])"
  then obtain p q where e: "h @ TransactionCommit # [TransactionAbort] = p @ TransactionCommit # q"
    and ok: "rc (p @ [TransactionCommit]) = ERROR_OK" by (auto simp: commit_accepted_def)
  from e assms(1) have "p = h"
    by (auto simp: append_eq_append_conv2 append_eq_Cons_conv Cons_eq_append_conv)
  with ok assms(2) show False by simp
qed

abbreviation open_calls :: "'blob wfp_call list" where
  "open_calls \<equiv> [EngineOpen, ProviderAdd DLP_PROVIDER_GUID, SubLayerAdd DLP_SUBLAYER_GUID DLP_PROVIDER_GUID, TransactionBegin]"

text \<open>
  C26. The live installation is a transaction. It reports success only when the engine accepted the
  commit, and then the calls between the start and the commit add exactly the native form of
  each planned filter, in order, and the count is theirs. When it reports an error no commit has been
  accepted, and a transaction that was started is aborted by the last call.
\<close>

theorem execute_live_transactional:
  "case execute_live rc app_id specs of
     (h, Inr n) \<Rightarrow> n = length specs \<and> rc h = ERROR_OK
       \<and> (\<exists>mid. h = open_calls @ mid @ [TransactionCommit] \<and> added_filters mid = map (native app_id) specs
            \<and> TransactionCommit \<notin> set mid \<and> TransactionAbort \<notin> set mid)
   | (h, Inl e) \<Rightarrow> \<not> commit_accepted rc h
       \<and> (TransactionBegin \<notin> set (butlast h) \<and> added_filters h = [] \<or> last h = TransactionAbort)"
proof -
  obtain h5 r5 where a: "add_filters rc app_id open_calls 0 specs = (h5, r5)" by fastforce
  note t = add_filters_trace [OF a]
  show ?thesis
  proof (cases r5)
    case (Inl e)
    with t obtain mid where "h5 = open_calls @ mid @ [TransactionAbort]" "list_all inner_call mid" by auto
    with a Inl inner_no_commit [of mid] show ?thesis
      by (auto simp: execute_live_def Let_def intro!: commit_accepted_absent)
  next
    case (Inr n)
    with t obtain mid where m: "n = length specs" "h5 = open_calls @ mid" "list_all inner_call mid"
      "added_filters mid = map (native app_id) specs" by auto
    with a Inr inner_no_commit [of mid] commit_accepted_last [of h5 rc] show ?thesis
      by (auto simp: execute_live_def Let_def intro!: commit_accepted_absent)
  qed
qed

end
