(* ===== verification/Trust_Dest.thy ===== *)
theory Trust_Dest
  imports Verdict
begin

text \<open>
  Trusted destinations, \<open>trustdest.rs\<close>: whether one settled file passes in plaintext, is
  sealed or is blocked, from the encryption mode, the bands and the verdict. Scores and
  thresholds are floating-point values, so a comparison with NaN is false. And the health
  signal of the sealer, \<open>supervise.rs\<close>, that the guard consults before it lets a write
  through to be sealed.
\<close>

section \<open>Seal decisions\<close>

datatype encrypt_mode = EncryptSensitive | EncryptAll

record encrypt_bands =
  eb_encrypt_at :: f64
  eb_block_at :: f64
  eb_coverage_block_at :: f64

datatype block_band_policy = BB_Block | BB_Seal

datatype seal_decision = SD_Plain | SD_Seal | SD_Block

text \<open>The default bands: 0.05, 0.30 and 0.60 as the nearest doubles.\<close>

definition encrypt_bands_default :: encrypt_bands where
  "encrypt_bands_default =
     \<lparr>eb_encrypt_at = Fin (fl64 (5 / 100)), eb_block_at = Fin (fl64 (30 / 100)),
      eb_coverage_block_at = Fin (fl64 (60 / 100))\<rparr>"

definition in_block_band :: "encrypt_bands \<Rightarrow> idm_match \<Rightarrow> bool" where
  "in_block_band bands m \<longleftrightarrow>
     f64_ge (im_containment m) (eb_block_at bands) \<or> f64_ge (im_coverage m) (eb_coverage_block_at bands)"

definition decide_seal ::
  "encrypt_mode \<Rightarrow> encrypt_bands \<Rightarrow> block_band_policy \<Rightarrow> verdict option \<Rightarrow> seal_decision" where
  "decide_seal mode bands on_block_band vd =
     (case mode of
        EncryptAll \<Rightarrow> SD_Seal
      | EncryptSensitive \<Rightarrow>
          (case vd of
             None \<Rightarrow> SD_Seal
           | Some v \<Rightarrow>
               if (case vd_extraction v of Extraction_Unreadable _ \<Rightarrow> True | _ \<Rightarrow> False) then SD_Seal
               else if list_ex (in_block_band bands) (vd_idm v)
               then (case on_block_band of BB_Block \<Rightarrow> SD_Block | BB_Seal \<Rightarrow> SD_Seal)
               else if vd_edm v \<noteq> [] then SD_Seal
               else if list_ex (\<lambda>m. f64_ge (im_containment m) (eb_encrypt_at bands)) (vd_idm v) then SD_Seal
               else SD_Plain))"

section \<open>Sealer health\<close>

text \<open>Times are milliseconds since the signal was created; 0 in \<open>sh_last_ok_ms\<close> is never.\<close>

record sealer_health =
  sh_last_ok_ms :: u64
  sh_keyring_present :: bool

definition health_new :: "bool \<Rightarrow> sealer_health" where
  "health_new keyring_present = \<lparr>sh_last_ok_ms = 0, sh_keyring_present = keyring_present\<rparr>"

definition mark_alive :: "u64 \<Rightarrow> sealer_health \<Rightarrow> sealer_health" where
  "mark_alive now_ms h = h\<lparr>sh_last_ok_ms := max now_ms 1\<rparr>"

definition set_keyring_present :: "bool \<Rightarrow> sealer_health \<Rightarrow> sealer_health" where
  "set_keyring_present present h = h\<lparr>sh_keyring_present := present\<rparr>"

definition saturating_sub :: "u64 \<Rightarrow> u64 \<Rightarrow> u64" where
  "saturating_sub a b = (if b \<le> a then a - b else 0)"

definition is_healthy_at :: "sealer_health \<Rightarrow> u64 \<Rightarrow> u64 \<Rightarrow> bool" where
  "is_healthy_at h now_ms timeout_ms =
     (if \<not> sh_keyring_present h then False
      else let last = sh_last_ok_ms h
      in if last = 0 then False else saturating_sub now_ms last \<le> timeout_ms)"

section \<open>Order of decisions\<close>

instantiation seal_decision :: linorder
begin

fun seal_rank :: "seal_decision \<Rightarrow> nat" where
  "seal_rank SD_Plain = 0"
| "seal_rank SD_Seal = 1"
| "seal_rank SD_Block = 2"

definition less_eq_seal_decision :: "seal_decision \<Rightarrow> seal_decision \<Rightarrow> bool" where
  "a \<le> b \<longleftrightarrow> seal_rank a \<le> seal_rank b"

definition less_seal_decision :: "seal_decision \<Rightarrow> seal_decision \<Rightarrow> bool" where
  "a < b \<longleftrightarrow> seal_rank a < seal_rank b"

instance
proof
  fix a b :: seal_decision
  show "a \<le> b \<Longrightarrow> b \<le> a \<Longrightarrow> a = b"
    by (cases a; cases b) (simp_all add: less_eq_seal_decision_def)
qed (auto simp: less_eq_seal_decision_def less_seal_decision_def)

end

text \<open>One match is at least as strong as another when both of its scores are.\<close>

definition stronger :: "idm_match \<Rightarrow> idm_match \<Rightarrow> bool" where
  "stronger m m' \<longleftrightarrow> f64_le (im_containment m) (im_containment m') \<and> f64_le (im_coverage m) (im_coverage m')"

definition verdict_le :: "verdict \<Rightarrow> verdict \<Rightarrow> bool" where
  "verdict_le v v' \<longleftrightarrow> vd_extraction v = vd_extraction v'
     \<and> (\<forall>m \<in> set (vd_idm v). \<exists>m' \<in> set (vd_idm v'). stronger m m') \<and> (vd_edm v \<noteq> [] \<longrightarrow> vd_edm v' \<noteq> [])"

lemma in_block_band_mono: "stronger m m' \<Longrightarrow> in_block_band bands m \<Longrightarrow> in_block_band bands m'"
  unfolding stronger_def in_block_band_def f64_ge_def by (meson f64_le_trans)

lemma in_encrypt_band_mono:
  "stronger m m' \<Longrightarrow> f64_ge (im_containment m) t \<Longrightarrow> f64_ge (im_containment m') t"
  unfolding stronger_def f64_ge_def by (meson f64_le_trans)

section \<open>Properties\<close>


text \<open>
  More evidence never weakens the decision: when one verdict has every match of another
  at the same or a higher score, and exact data matches if the other has any, the decision
  on it is at least as strict, for every mode and choice of bands, under the default policy
  for the block band.
\<close>

theorem seal_decision_monotone:
  assumes "verdict_le v v'"
  shows "decide_seal mode bands BB_Block (Some v) \<le> decide_seal mode bands BB_Block (Some v')"
proof -
  have b: "list_ex (in_block_band bands) (vd_idm v) \<Longrightarrow> list_ex (in_block_band bands) (vd_idm v')"
    using assms in_block_band_mono unfolding verdict_le_def list_ex_iff by meson
  have e: "list_ex (\<lambda>m. f64_ge (im_containment m) (eb_encrypt_at bands)) (vd_idm v)
      \<Longrightarrow> list_ex (\<lambda>m. f64_ge (im_containment m) (eb_encrypt_at bands)) (vd_idm v')"
    using assms in_encrypt_band_mono unfolding verdict_le_def list_ex_iff by meson
  have "vd_extraction v = vd_extraction v'" "vd_edm v \<noteq> [] \<Longrightarrow> vd_edm v' \<noteq> []"
    using assms by (auto simp: verdict_le_def)
  with b e show ?thesis
    by (auto simp: decide_seal_def less_eq_seal_decision_def split: encrypt_mode.splits extraction.splits)
qed

definition example_verdict :: "idm_match list \<Rightarrow> verdict" where
  "example_verdict ms = \<lparr>vd_file_name = [], vd_file_sha256 = [], vd_extraction = Extraction_Ok (lit ''text''),
     vd_idm = ms, vd_edm = []\<rparr>"

definition example_match :: "rat \<Rightarrow> idm_match" where
  "example_match q = \<lparr>im_version_id = [], im_document_id = [], im_collection_id = [], im_title = [],
     im_containment = Fin q, im_coverage = Fin q, im_matched_count = 1, im_total_count = 1, im_matched_hashes = []\<rparr>"

lemma seal_decision_monotone_witness:
  "decide_seal EncryptSensitive encrypt_bands_default BB_Block (Some (example_verdict [example_match (1 / 10)]))
     \<le> decide_seal EncryptSensitive encrypt_bands_default BB_Block (Some (example_verdict [example_match (9 / 10)]))"
  by (rule seal_decision_monotone) (simp add: verdict_le_def example_verdict_def example_match_def stronger_def)

text \<open>
  The health signal fails secure. It is unhealthy from creation until the sealer has
  marked itself alive, whatever the clock and the time-out; it is unhealthy whenever no
  keyring is present; and once marked alive with a keyring it is healthy exactly while the
  clock has not run past the time-out since then.
\<close>

theorem health_fails_secure:
  "\<not> is_healthy_at (health_new k) now timeout
   \<and> \<not> is_healthy_at (set_keyring_present False h) now timeout
   \<and> (is_healthy_at (set_keyring_present True (mark_alive t h)) now timeout
        \<longleftrightarrow> unat now \<le> unat timeout + max (unat t) 1)"
proof -
  have s: "saturating_sub a b \<le> c \<longleftrightarrow> unat a \<le> unat c + unat b" for a b c :: u64
  proof (cases "b \<le> a")
    case True
    then have "unat (a - b) = unat a - unat b" by (simp add: unat_sub)
    with True show ?thesis by (auto simp: saturating_sub_def word_le_nat_alt)
  next
    case False
    then show ?thesis by (auto simp: saturating_sub_def word_le_nat_alt)
  qed
  have m: "unat (max t (1 :: u64)) = max (unat t) 1" "max t (1 :: u64) \<noteq> 0"
    by (auto simp: max_def word_le_nat_alt unat_eq_0)
  show ?thesis
    by (simp add: is_healthy_at_def health_new_def set_keyring_present_def mark_alive_def Let_def s m)
qed

end
