(* ===== verification/Config.thy ===== *)
theory Config
  imports Usb_Policy Net_Rules Trust_Dest
begin

text \<open>
  The agent's configuration, \<open>config.rs\<close>: the sections with their defaults, the
  translations of configured rules into evaluated ones, the lookup of the encryption
  parameters of a device, and loading with the environment overrides. The TOML parser is a
  parameter, as is the environment; a path is its text.
\<close>

section \<open>Notifications\<close>

datatype notify_mode = NM_Standard | NM_Minimal | NM_Covert

record notify_config =
  nc_enabled :: bool
  nc_mode :: notify_mode
  nc_org_name :: ustring
  nc_aumid :: ustring
  nc_dedup_secs :: u64
  nc_max_per_minute :: u32

definition notify_config_default :: notify_config where
  "notify_config_default =
     \<lparr>nc_enabled = True, nc_mode = NM_Standard, nc_org_name = lit ''Data Loss Prevention'',
      nc_aumid = lit ''Resec.DLP.Agent'', nc_dedup_secs = 5, nc_max_per_minute = 20\<rparr>"

section \<open>The USB section\<close>

record usb_rule =
  ur_match_serial :: "ustring option"
  ur_match_vid :: "ustring option"
  ur_match_pid :: "ustring option"
  ur_match_bus_type :: "ustring option"
  ur_match_any :: bool
  ur_action :: action
  ur_note :: "ustring option"
  ur_mode :: "encrypt_mode option"
  ur_key_id :: "ustring option"
  ur_on_block_band :: block_band_policy

record usb_config =
  uc_enabled :: bool
  uc_poll_interval_secs :: u64
  uc_settle_ms :: u64
  uc_settle_timeout_secs :: u64
  uc_max_file_bytes :: u64
  uc_default_action :: action
  uc_channel_label :: ustring
  uc_mtp_action :: action
  uc_tethering_action :: action
  uc_rules :: "usb_rule list"

definition usb_config_default :: usb_config where
  "usb_config_default =
     \<lparr>uc_enabled = False, uc_poll_interval_secs = 2, uc_settle_ms = 1500, uc_settle_timeout_secs = 30,
      uc_max_file_bytes = 104857600, uc_default_action = ReadOnly, uc_channel_label = lit ''usb'',
      uc_mtp_action = Block, uc_tethering_action = Block, uc_rules = []\<rparr>"

text \<open>The matcher is the first one present: serial, vendor with product, bus type, any.\<close>

definition to_device_rule :: "usb_rule \<Rightarrow> device_rule option" where
  "to_device_rule r =
     map_option (\<lambda>m. \<lparr>dr_match_on = m, dr_action = ur_action r, dr_note = ur_note r\<rparr>)
       (case ur_match_serial r of
          Some s \<Rightarrow> Some (Serial s)
        | None \<Rightarrow>
            (case (ur_match_vid r, ur_match_pid r) of
               (Some vid, Some pid) \<Rightarrow> Some (VidPid vid pid)
             | _ \<Rightarrow>
                 (case ur_match_bus_type r of
                    Some b \<Rightarrow> Some (BusType b)
                  | None \<Rightarrow> if ur_match_any r then Some Any else None)))"

definition to_policy :: "usb_config \<Rightarrow> usb_policy" where
  "to_policy c =
     \<lparr>up_default_action = uc_default_action c, up_rules = List.map_filter to_device_rule (uc_rules c)\<rparr>"

definition usb_rule_matches :: "usb_rule \<Rightarrow> device_identity \<Rightarrow> bool" where
  "usb_rule_matches r dev = (case to_device_rule r of None \<Rightarrow> False | Some dr \<Rightarrow> rule_matches (dr_match_on dr) dev)"

definition rule_params :: "usb_rule \<Rightarrow> encrypt_mode \<times> ustring option \<times> block_band_policy" where
  "rule_params r =
     ((case ur_mode r of Some m \<Rightarrow> m | None \<Rightarrow> EncryptSensitive), ur_key_id r, ur_on_block_band r)"

fun encrypt_params_loop ::
  "usb_rule list \<Rightarrow> encrypt_mode \<times> ustring option \<times> block_band_policy \<Rightarrow> device_identity
   \<Rightarrow> encrypt_mode \<times> ustring option \<times> block_band_policy" where
  "encrypt_params_loop [] d dev = d"
| "encrypt_params_loop (rule # rules) d dev =
     (if usb_rule_matches rule dev then rule_params rule else encrypt_params_loop rules d dev)"

definition encrypt_params :: "usb_config \<Rightarrow> device_identity \<Rightarrow> encrypt_mode \<times> ustring option \<times> block_band_policy" where
  "encrypt_params c dev = encrypt_params_loop (uc_rules c) (EncryptSensitive, None, BB_Block) dev"

section \<open>The guard, clipboard and cryptography sections\<close>

record kguard_config =
  kc_block_at :: f64
  kc_coverage_block_at :: f64
  kc_removable_write_block_at :: f64
  kc_sealer_health_timeout_secs :: u64
  kc_fail_block :: bool
  kc_channel_label :: ustring
  kc_scan_fixed :: bool
  kc_scan_network :: bool
  kc_watch_paths :: "ustring list"
  kc_exfil_read_block :: bool

definition kguard_config_default :: kguard_config where
  "kguard_config_default =
     \<lparr>kc_block_at = Fin (fl64 (30 / 100)), kc_coverage_block_at = Fin (fl64 (60 / 100)),
      kc_removable_write_block_at = Fin (fl64 (15 / 100)), kc_sealer_health_timeout_secs = 10,
      kc_fail_block = False, kc_channel_label = lit ''usb-kguard'', kc_scan_fixed = False,
      kc_scan_network = False, kc_watch_paths = [], kc_exfil_read_block = False\<rparr>"

datatype clipboard_action = CA_AllowAudited | CA_Block

record clipboard_config =
  cc_enabled :: bool
  cc_default_action :: clipboard_action
  cc_max_bytes :: u64
  cc_block_images :: bool
  cc_channel_label :: ustring
  cc_block_at :: f64
  cc_coverage_block_at :: f64
  cc_fail_block :: bool

definition clipboard_config_default :: clipboard_config where
  "clipboard_config_default =
     \<lparr>cc_enabled = False, cc_default_action = CA_AllowAudited, cc_max_bytes = 8388608, cc_block_images = False,
      cc_channel_label = lit ''clipboard'', cc_block_at = Fin (fl64 (30 / 100)),
      cc_coverage_block_at = Fin (fl64 (60 / 100)), cc_fail_block = False\<rparr>"

record crypto_config =
  cy_default_key_id :: ustring
  cy_encrypt_at :: f64
  cy_keyfile :: "ustring option"

definition crypto_config_default :: crypto_config where
  "crypto_config_default =
     \<lparr>cy_default_key_id = lit ''class-internal/v1'', cy_encrypt_at = Fin (fl64 (5 / 100)), cy_keyfile = None\<rparr>"

record trusted_origin =
  to_origin :: ustring
  to_mode :: encrypt_mode
  to_key_id :: "ustring option"

section \<open>The network section\<close>

record net_rule_config =
  nrc_app :: "ustring option"
  nrc_cidr :: "ustring option"
  nrc_port :: "u16 option"
  nrc_action :: rule_action
  nrc_note :: "ustring option"

text \<open>A rule whose prefix does not parse, or that has no matcher, is dropped.\<close>

definition to_net_rule :: "net_rule_config \<Rightarrow> net_rule option" where
  "to_net_rule c =
     (case (case nrc_cidr c of None \<Rightarrow> Some None | Some s \<Rightarrow> map_option Some (cidr_parse s)) of
        None \<Rightarrow> None
      | Some match_cidr \<Rightarrow>
          if nrc_app c = None \<and> match_cidr = None \<and> nrc_port c = None then None
          else Some \<lparr>nr_match_app = nrc_app c, nr_match_cidr = match_cidr, nr_match_port = nrc_port c,
                     nr_action = nrc_action c, nr_note = nrc_note c\<rparr>)"

record netfilter_config =
  nfc_mode :: net_mode
  nfc_channel_label :: ustring
  nfc_remote_tool_action :: tool_action
  nfc_remote_tool_overrides :: "ustring \<rightharpoonup> tool_action"
  nfc_persist :: bool
  nfc_rules :: "net_rule_config list"

definition netfilter_config_default :: netfilter_config where
  "netfilter_config_default =
     \<lparr>nfc_mode = Monitor, nfc_channel_label = lit ''network'', nfc_remote_tool_action = Detect,
      nfc_remote_tool_overrides = Map.empty, nfc_persist = False, nfc_rules = []\<rparr>"

section \<open>The configuration\<close>

record config =
  cfg_server_url :: ustring
  cfg_enrollment_token :: "ustring option"
  cfg_ca_cert_path :: ustring
  cfg_state_dir :: ustring
  cfg_checkin_interval_seconds :: u64
  cfg_usb :: usb_config
  cfg_kguard :: kguard_config
  cfg_clipboard :: clipboard_config
  cfg_netfilter :: netfilter_config
  cfg_notify :: notify_config
  cfg_crypto :: crypto_config
  cfg_trusted_origins :: "trusted_origin list"

definition default_checkin :: u64 where
  "default_checkin = 300"

datatype config_error = CE_ReadConfig | CE_ParseToml | CE_MissingEnv ustring

type_synonym environment = "ustring \<Rightarrow> ustring option"

definition env_required :: "environment \<Rightarrow> ustring \<Rightarrow> config_error + ustring" where
  "env_required env key = ok_or (CE_MissingEnv key) (env key)"

definition env_config :: "environment \<Rightarrow> config_error + config" where
  "env_config env =
     andthen (env_required env (lit ''DLP_AGENT_SERVER_URL'')) (\<lambda>server_url.
     andthen (env_required env (lit ''DLP_AGENT_CA_CERT'')) (\<lambda>ca_cert.
     andthen (env_required env (lit ''DLP_AGENT_STATE_DIR'')) (\<lambda>state_dir.
     Inr \<lparr>cfg_server_url = server_url, cfg_enrollment_token = env (lit ''DLP_AGENT_TOKEN''),
          cfg_ca_cert_path = ca_cert, cfg_state_dir = state_dir,
          cfg_checkin_interval_seconds = default_checkin, cfg_usb = usb_config_default,
          cfg_kguard = kguard_config_default, cfg_clipboard = clipboard_config_default,
          cfg_netfilter = netfilter_config_default, cfg_notify = notify_config_default,
          cfg_crypto = crypto_config_default, cfg_trusted_origins = []\<rparr>)))"

definition apply_env :: "environment \<Rightarrow> config \<Rightarrow> config" where
  "apply_env env c0 =
     (let c1 = (case env (lit ''DLP_AGENT_SERVER_URL'') of Some v \<Rightarrow> c0\<lparr>cfg_server_url := v\<rparr> | None \<Rightarrow> c0);
          c2 = (case env (lit ''DLP_AGENT_TOKEN'') of Some v \<Rightarrow> c1\<lparr>cfg_enrollment_token := Some v\<rparr> | None \<Rightarrow> c1);
          c3 = (case env (lit ''DLP_AGENT_CA_CERT'') of Some v \<Rightarrow> c2\<lparr>cfg_ca_cert_path := v\<rparr> | None \<Rightarrow> c2)
      in (case env (lit ''DLP_AGENT_STATE_DIR'') of Some v \<Rightarrow> c3\<lparr>cfg_state_dir := v\<rparr> | None \<Rightarrow> c3))"

text \<open>
  \<open>exists\<close> tells whether the file is there and \<open>text_of\<close> is what reading it gives; \<open>toml\<close>
  is the TOML deserializer.
\<close>

definition load_config ::
  "bool \<Rightarrow> ustring option \<Rightarrow> (ustring \<Rightarrow> config option) \<Rightarrow> environment \<Rightarrow> config_error + config" where
  "load_config exists text_of toml env =
     andthen (if exists then andthen (ok_or CE_ReadConfig text_of) (\<lambda>t. ok_or CE_ParseToml (toml t))
              else env_config env) (\<lambda>c. Inr (apply_env env c))"

definition server_endpoint :: "config \<Rightarrow> ustring \<Rightarrow> ustring" where
  "server_endpoint c path = trim_end_matches (\<lambda>ch. ch = 47) (cfg_server_url c) @ path"

definition enroll_url :: "config \<Rightarrow> ustring" where
  "enroll_url c = server_endpoint c (lit ''/agent/enroll'')"

definition checkin_url :: "config \<Rightarrow> ustring" where
  "checkin_url c = server_endpoint c (lit ''/agent/checkin'')"

definition index_url :: "config \<Rightarrow> ustring" where
  "index_url c = server_endpoint c (lit ''/agent/index'')"

definition incidents_url :: "config \<Rightarrow> ustring" where
  "incidents_url c = server_endpoint c (lit ''/agent/incidents'')"

definition trusted_config_url :: "config \<Rightarrow> ustring" where
  "trusted_config_url c = server_endpoint c (lit ''/agent/trusted-config'')"

definition encrypt_bands_of :: "config \<Rightarrow> encrypt_bands" where
  "encrypt_bands_of c =
     \<lparr>eb_encrypt_at = cy_encrypt_at (cfg_crypto c), eb_block_at = kc_block_at (cfg_kguard c),
      eb_coverage_block_at = kc_coverage_block_at (cfg_kguard c)\<rparr>"

section \<open>The configured rules as a rule list\<close>

text \<open>
  The walk over the configured rules is the same first-match engine as the policy's, with
  the encryption parameters as its outcome.
\<close>

interpretation enc: first_match usb_rule_matches rule_params encrypt_params_loop
  by unfold_locales simp_all

lemma to_device_rule_action: "to_device_rule r = Some dr \<Longrightarrow> dr_action dr = ur_action r"
  by (auto simp: to_device_rule_def)

lemma decide_rules_configured:
  "decide_rules (List.map_filter to_device_rule rules) d dev =
     (case find (\<lambda>r. usb_rule_matches r dev) rules of
        Some r \<Rightarrow> (ur_action r, to_device_rule r) | None \<Rightarrow> d)"
proof (induction rules)
  case (Cons r rules)
  then show ?case
    by (cases "to_device_rule r") (simp_all add: List.map_filter_simps usb_rule_matches_def to_device_rule_action)
qed (simp add: List.map_filter_simps)

lemma usb_decide_configured:
  "usb_decide (to_policy c) dev =
     (case find (\<lambda>r. usb_rule_matches r dev) (uc_rules c) of
        Some r \<Rightarrow> (ur_action r, to_device_rule r) | None \<Rightarrow> (uc_default_action c, None))"
  by (simp add: usb_decide_def to_policy_def decide_rules_configured)

lemma encrypt_params_configured:
  "encrypt_params c dev =
     (case find (\<lambda>r. usb_rule_matches r dev) (uc_rules c) of
        Some r \<Rightarrow> rule_params r | None \<Rightarrow> (EncryptSensitive, None, BB_Block))"
  by (simp add: encrypt_params_def enc.run_find)

text \<open>
  The policy and the encryption parameters come from one rule: the action decided for a
  device and the parameters used to seal on it are those of the same configured rule, the
  first one that has a matcher and matches; when none does, the device gets the configured
  default action and the strict parameters, which never seal in place of a block.
\<close>

lemma same_rule_decides_and_seals:
  "(fst (usb_decide (to_policy c) dev), encrypt_params c dev) =
     (case find (\<lambda>rule. usb_rule_matches rule dev) (uc_rules c) of
        Some rule \<Rightarrow> (ur_action rule, rule_params rule)
      | None \<Rightarrow> (uc_default_action c, (EncryptSensitive, None, BB_Block)))"
  by (simp add: usb_decide_configured encrypt_params_configured split: option.split)

text \<open>The environment wins over the file.\<close>

lemma apply_env_fields:
  "cfg_server_url (apply_env env c) =
     (case env (lit ''DLP_AGENT_SERVER_URL'') of Some v \<Rightarrow> v | None \<Rightarrow> cfg_server_url c)"
  "cfg_ca_cert_path (apply_env env c) =
     (case env (lit ''DLP_AGENT_CA_CERT'') of Some v \<Rightarrow> v | None \<Rightarrow> cfg_ca_cert_path c)"
  "cfg_state_dir (apply_env env c) =
     (case env (lit ''DLP_AGENT_STATE_DIR'') of Some v \<Rightarrow> v | None \<Rightarrow> cfg_state_dir c)"
  "cfg_usb (apply_env env c) = cfg_usb c" "cfg_kguard (apply_env env c) = cfg_kguard c"
  unfolding apply_env_def Let_def by (simp_all split: option.split)

lemma load_config_env:
  assumes "load_config exists text_of toml env = Inr c"
  shows "\<exists>c0. c = apply_env env c0 \<and> (exists \<longrightarrow> (\<exists>t. text_of = Some t \<and> toml t = Some c0))"
  using assms by (cases exists) (auto simp: load_config_def andthen_eq_Inr ok_or_eq_Inr)

end
