(* ===== verification/Net_Monitor.thy ===== *)
theory Net_Monitor
  imports Wfp Config Usb_Incident
begin

text \<open>
  The network monitor, \<open>netfilter/mod.rs\<close>: the policy built from the configuration, the
  incidents, the enumeration of remote-access tools and the loop of \<open>run_monitor\<close>. One pass of
  the loop is a function of the processes found; its effects are the incidents reported, the filter
  sets handed to \<open>wfp::apply\<close> in live mode and the processes terminated, in order. The results of
  the last two are only logged.
\<close>

section \<open>Policy and incidents\<close>

definition build_policy :: "netfilter_config \<Rightarrow> net_mode \<Rightarrow> net_policy" where
  "build_policy nf mode =
     \<lparr>np_mode = mode, np_rules = List.map_filter to_net_rule (nfc_rules nf),
      np_remote_tools = \<lparr>rtp_default_action = nfc_remote_tool_action nf, rtp_overrides = nfc_remote_tool_overrides nf\<rparr>\<rparr>"

definition network_device :: "ustring \<Rightarrow> device_identity" where
  "network_device app_path =
     \<lparr>dev_drive_letter = [], dev_vendor_id = [], dev_product_id = [], dev_serial = [],
      dev_product_name = app_path, dev_bus_type = lit ''network'', dev_removable = False\<rparr>"

definition network_incident :: "ustring \<Rightarrow> ustring \<Rightarrow> bool \<Rightarrow> ustring \<Rightarrow> usb_incident" where
  "network_incident app_path note blocked channel =
     \<lparr>ui_kind = IK_Match, ui_channel = channel, ui_file_name = [], ui_file_sha256 = [], ui_verdict = None,
      ui_device = network_device app_path, ui_action_taken = (if blocked then AT_Blocked else AT_Audited),
      ui_note = Some note, ui_key_id = None, ui_sealed_sha256 = None\<rparr>"

section \<open>Processes\<close>

text \<open>
  The system's answers: the process ids, when they could be listed, and the image path of a
  process, when it could be opened and queried.
\<close>

definition list_remote_tool_processes :: "u32 list option \<Rightarrow> (u32 \<Rightarrow> ustring option) \<Rightarrow> (u32 \<times> ustring) list" where
  "list_remote_tool_processes pids image_of =
     (case pids of
        None \<Rightarrow> []
      | Some ps \<Rightarrow>
          List.map_filter (\<lambda>pid.
             if pid = 0 then None
             else case image_of pid of
                    None \<Rightarrow> None
                  | Some img \<Rightarrow> if match_image img \<noteq> None then Some (pid, img) else None)
            (take 4096 ps))"

section \<open>The loop\<close>

record monitor_state =
  mon_seen_tools :: "ustring set"
  mon_blocked_paths :: "ustring set"

datatype net_effect =
  Report usb_incident
| Apply_Live "wfp_filter_spec list"
| Terminate u32

definition enforcing :: "net_mode \<Rightarrow> bool" where
  "enforcing mode \<longleftrightarrow> mode = Allowlist \<or> mode = Blocklist"

definition tool_connection :: "ustring \<Rightarrow> connection" where
  "tool_connection img =
     \<lparr>cn_app_path = img, cn_remote_ip = V4 0, cn_remote_port = 0, cn_direction = Outbound\<rparr>"

definition show_bool :: "bool \<Rightarrow> ustring" where
  "show_bool b = (if b then lit ''true'' else lit ''false'')"

definition tool_note :: "ustring \<Rightarrow> u32 \<Rightarrow> ustring \<Rightarrow> bool \<Rightarrow> ustring" where
  "tool_note tool_id pid verdict enforce =
     lit ''remote-tool='' @ tool_id @ lit '' pid='' @ show_nat (unat pid) @ lit '' verdict='' @ verdict
     @ lit '' enforce='' @ show_bool enforce"

definition report_step ::
  "net_policy \<Rightarrow> ustring \<Rightarrow> u32 \<Rightarrow> ustring \<Rightarrow> monitor_state \<Rightarrow> monitor_state \<times> net_effect list" where
  "report_step policy channel pid img st =
     (let decision = net_decide policy (tool_connection img); enforce = enforcing (np_mode policy)
      in if img \<in> mon_seen_tools st then (st, [])
         else (st\<lparr>mon_seen_tools := insert img (mon_seen_tools st)\<rparr>,
               [Report (network_incident img
                  (tool_note (case match_image img of Some t \<Rightarrow> rt_id t | None \<Rightarrow> lit ''unknown'') pid
                     (decision_reason decision) enforce)
                  (enforce \<and> is_block decision) channel)]))"

definition block_step ::
  "net_policy \<Rightarrow> u32 \<Rightarrow> ustring \<Rightarrow> monitor_state \<Rightarrow> monitor_state \<times> net_effect list" where
  "block_step policy pid img st =
     (if enforcing (np_mode policy) \<and> is_block (net_decide policy (tool_connection img))
         \<and> img \<notin> mon_blocked_paths st
      then (st\<lparr>mon_blocked_paths := insert img (mon_blocked_paths st)\<rparr>,
            Apply_Live (plan_tool_block img DEFAULT_WEIGHT)
            # (case match_app (np_remote_tools policy) img of
                 Some m \<Rightarrow> if tm_action m = Kill then [Terminate pid] else []
               | None \<Rightarrow> []))
      else (st, []))"

definition monitor_process ::
  "net_policy \<Rightarrow> ustring \<Rightarrow> u32 \<times> ustring \<Rightarrow> monitor_state \<Rightarrow> monitor_state \<times> net_effect list" where
  "monitor_process policy channel p st =
     (let (st1, e1) = report_step policy channel (fst p) (snd p) st;
          (st2, e2) = block_step policy (fst p) (snd p) st1
      in (st2, e1 @ e2))"

fun monitor_pass ::
  "net_policy \<Rightarrow> ustring \<Rightarrow> (u32 \<times> ustring) list \<Rightarrow> monitor_state \<Rightarrow> monitor_state \<times> net_effect list" where
  "monitor_pass policy channel [] st = (st, [])"
| "monitor_pass policy channel (p # ps) st =
     (let (st1, e1) = monitor_process policy channel p st;
          (st2, e2) = monitor_pass policy channel ps st1
      in (st2, e1 @ e2))"

fun monitor_passes ::
  "net_policy \<Rightarrow> ustring \<Rightarrow> (u32 \<times> ustring) list list \<Rightarrow> monitor_state \<Rightarrow> monitor_state \<times> net_effect list" where
  "monitor_passes policy channel [] st = (st, [])"
| "monitor_passes policy channel (ps # pss) st =
     (let (st1, e1) = monitor_pass policy channel ps st;
          (st2, e2) = monitor_passes policy channel pss st1
      in (st2, e1 @ e2))"

definition start_effects :: "net_policy \<Rightarrow> net_effect list" where
  "start_effects policy =
     (if enforcing (np_mode policy) then [Apply_Live (concat (map plan_filters (np_rules policy)))] else [])"

text \<open>The loop never ends; \<open>run_monitor\<close> gives its effects over the passes that were made.\<close>

definition run_monitor :: "netfilter_config \<Rightarrow> net_mode \<Rightarrow> (u32 \<times> ustring) list list \<Rightarrow> net_effect list" where
  "run_monitor nf mode passes =
     (let policy = build_policy nf mode
      in start_effects policy
         @ snd (monitor_passes policy (nfc_channel_label nf) passes \<lparr>mon_seen_tools = {}, mon_blocked_paths = {}\<rparr>))"

section \<open>Rules that reach the engine\<close>

lemma to_net_rule_wf: "to_net_rule c = Some r \<Longrightarrow> rule_wf r"
  by (auto simp: to_net_rule_def rule_wf_def cidr_wf_def dest: cidr_parse_range split: option.splits if_splits)

lemma build_policy_rules_wf: "r \<in> set (np_rules (build_policy nf mode)) \<Longrightarrow> rule_wf r"
  by (auto simp: build_policy_def List.map_filter_def dest: to_net_rule_wf)


definition example_net :: netfilter_config where
  "example_net = netfilter_config_default
     \<lparr>nfc_rules := [\<lparr>nrc_app = None, nrc_cidr = None, nrc_port = Some 443, nrc_action = RA_Block, nrc_note = None\<rparr>]\<rparr>"

definition example_rule :: net_rule where
  "example_rule = \<lparr>nr_match_app = None, nr_match_cidr = None, nr_match_port = Some 443, nr_action = RA_Block, nr_note = None\<rparr>"

fun example_holds :: "unit native_condition \<Rightarrow> connection \<Rightarrow> bool" where
  "example_holds (ALE_APP_ID b) conn = False"
| "example_holds (V4_ADDR_MASK a m) conn = (case cn_remote_ip conn of V4 ip \<Rightarrow> a AND m = ip AND m | _ \<Rightarrow> False)"
| "example_holds (V6_ADDR_MASK a n) conn =
     (case cn_remote_ip conn of V6 ip \<Rightarrow> be_nat a div 2 ^ (128 - n) = unat ip div 2 ^ (128 - n) | _ \<Rightarrow> False)"
| "example_holds (REMOTE_PORT p) conn = (cn_remote_port conn = p)"


section \<open>What the loop reports and blocks\<close>

fun reported :: "net_effect list \<Rightarrow> usb_incident list" where
  "reported [] = []"
| "reported (Report i # es) = i # reported es"
| "reported (_ # es) = reported es"

fun applied :: "net_effect list \<Rightarrow> wfp_filter_spec list list" where
  "applied [] = []"
| "applied (Apply_Live s # es) = s # applied es"
| "applied (_ # es) = applied es"

fun terminated :: "net_effect list \<Rightarrow> u32 list" where
  "terminated [] = []"
| "terminated (Terminate p # es) = p # terminated es"
| "terminated (_ # es) = terminated es"

lemma effects_append [simp]:
  "reported (xs @ ys) = reported xs @ reported ys"
  "applied (xs @ ys) = applied xs @ applied ys"
  "terminated (xs @ ys) = terminated xs @ terminated ys"
  by (induction xs rule: reported.induct; simp)+

definition tool_blocked :: "net_policy \<Rightarrow> ustring \<Rightarrow> bool" where
  "tool_blocked policy img \<longleftrightarrow> enforcing (np_mode policy) \<and> is_block (net_decide policy (tool_connection img))"

definition tool_killed :: "net_policy \<Rightarrow> ustring \<Rightarrow> bool" where
  "tool_killed policy img \<longleftrightarrow>
     (case match_app (np_remote_tools policy) img of Some m \<Rightarrow> tm_action m = Kill | None \<Rightarrow> False)"

lemma monitor_passes_concat: "monitor_passes policy ch pss st = monitor_pass policy ch (concat pss) st"
proof -
  have app: "monitor_pass policy ch (xs @ ys) st =
      (let (st1, e1) = monitor_pass policy ch xs st; (st2, e2) = monitor_pass policy ch ys st1 in (st2, e1 @ e2))" for xs ys st
    by (induction xs arbitrary: st) (simp_all split: prod.splits)
  show ?thesis by (induction pss arbitrary: st) (simp_all add: app)
qed

lemma monitor_process_effects:
  fixes st :: monitor_state
  assumes "monitor_process policy ch p st = (st', es)"
  defines "img \<equiv> snd p"
  shows "mon_seen_tools st' = insert img (mon_seen_tools st)"
    and "mon_blocked_paths st' = (if tool_blocked policy img then insert img (mon_blocked_paths st) else mon_blocked_paths st)"
    and "map (dev_product_name \<circ> ui_device) (reported es) = (if img \<in> mon_seen_tools st then [] else [img])"
    and "list_all (\<lambda>i. ui_verdict i = None \<and> ui_action_taken i = (if tool_blocked policy img then AT_Blocked else AT_Audited))
           (reported es)"
    and "applied es = (if tool_blocked policy img \<and> img \<notin> mon_blocked_paths st then [plan_tool_block img DEFAULT_WEIGHT] else [])"
    and "terminated es = (if tool_blocked policy img \<and> img \<notin> mon_blocked_paths st \<and> tool_killed policy img then [fst p] else [])"
  using assms(1)
  by (auto simp: img_def monitor_process_def report_step_def block_step_def tool_blocked_def tool_killed_def Let_def
      network_incident_def network_device_def split: if_splits prod.splits option.splits)

lemma monitor_pass_exact:
  "map (dev_product_name \<circ> ui_device) (reported (snd (monitor_pass policy ch ps st))) = dedup_seen (mon_seen_tools st) (map snd ps)"
  "applied (snd (monitor_pass policy ch ps st)) =
     map (\<lambda>img. plan_tool_block img DEFAULT_WEIGHT) (dedup_seen (mon_blocked_paths st) (filter (tool_blocked policy) (map snd ps)))"
proof (induction ps arbitrary: st)
  case (Cons p ps)
  obtain step where step: "\<And>s. monitor_process policy ch p s = (fst (step s), snd (step s))"
    by (rule that [of "monitor_process policy ch p"]) simp
  note e = monitor_process_effects [OF step]
  { case (1 st) show ?case using Cons(1) [of "fst (step st)"] e(1,3) [of st] by (simp add: step case_prod_unfold Let_def comp_def insert_absorb) }
  { case (2 st) show ?case using Cons(2) [of "fst (step st)"] e(2,5) [of st] by (simp add: step case_prod_unfold Let_def insert_absorb) }
qed simp_all

lemma monitor_pass_honest:
  "list_all (\<lambda>i. ui_verdict i = None \<and> ui_action_taken i =
       (if tool_blocked policy (dev_product_name (ui_device i)) then AT_Blocked else AT_Audited))
     (reported (snd (monitor_pass policy ch ps st)))"
  "set (terminated (snd (monitor_pass policy ch ps st)))
     \<subseteq> {pid. \<exists>img. (pid, img) \<in> set ps \<and> tool_blocked policy img \<and> tool_killed policy img}"
proof (induction ps arbitrary: st)
  case (Cons p ps)
  obtain step where step: "\<And>s. monitor_process policy ch p s = (fst (step s), snd (step s))"
    by (rule that [of "monitor_process policy ch p"]) simp
  note e = monitor_process_effects [OF step]
  have d: "dev_product_name (ui_device i) = snd p" if "i \<in> set (reported (snd (step st)))" for i st
    using that e(3) [of st] by (cases "snd p \<in> mon_seen_tools st") (auto simp: map_eq_Cons_conv)
  { case (1 st) show ?case using Cons(1) [of "fst (step st)"] e(4) [of st] d
      by (auto simp: step case_prod_unfold Let_def list_all_iff) }
  { case (2 st) show ?case using Cons(2) [of "fst (step st)"] e(6) [of st]
      by (fastforce simp: step case_prod_unfold Let_def eq_fst_iff split: if_splits) }
qed simp_all


section \<open>Limits of the enforcement\<close>

text \<open>
  In allowlist mode the decision denies by default, but no filter is installed for the default: with no
  rules configured every connection is denied by the decision and the engine is given nothing.
\<close>

lemma allowlist_default_not_installed:
  "is_block (net_decide (build_policy netfilter_config_default Allowlist) conn)
   \<and> run_monitor netfilter_config_default Allowlist [] = [Apply_Live []]"
  by (simp add: build_policy_def netfilter_config_default_def net_decide_def tool_decision_def mode_default_def
      run_monitor_def start_effects_def enforcing_def match_app_def split: option.split)

text \<open>All filters have one weight: the order of the rules, which decides first match, is not carried over.\<close>

lemma rule_order_not_installed: "s \<in> set (plan_filters r) \<Longrightarrow> fs_weight s = DEFAULT_WEIGHT"
  by (auto simp: plan_filters_def)

text \<open>
  A path is blocked, and its process killed, once: a tool that is started again under the same path is not
  terminated, and the installation is not tried again when it failed.
\<close>

lemma blocked_once:
  assumes "img \<in> mon_blocked_paths st" and "img \<in> mon_seen_tools st"
  shows "monitor_process policy ch (pid, img) st = (st, [])"
  using assms by (simp add: monitor_process_def report_step_def block_step_def)

end
