(* ===== verification/Exfil.thy ===== *)
theory Exfil
  imports Net_Monitor
begin

unbundle bit_operations_syntax

text \<open>
  The channels out of the machine: the reset of a process's live connections and the decision for
  a tainted process (\<open>netfilter/tcpreset.rs\<close>), and the set of processes that can move data away,
  pushed to the driver (\<open>exfil.rs\<close> and \<open>exfil_push_loop\<close> of \<open>kguard/mod.rs\<close>). The connection tables,
  the module lists and the results of the system's calls are parameters.
\<close>

section \<open>Resetting connections\<close>

datatype tcp_family = TCP_V4 | TCP_V6

record tcp_row =
  tr_owning_pid :: u32
  tr_state :: u32
  tr_family :: tcp_family

definition MIB_TCP_STATE_SYN_SENT :: u32 where
  "MIB_TCP_STATE_SYN_SENT = 3"

definition MIB_TCP_STATE_LAST_ACK :: u32 where
  "MIB_TCP_STATE_LAST_ACK = 10"

definition MIB_TCP_STATE_ESTAB :: u32 where
  "MIB_TCP_STATE_ESTAB = 5"

definition is_active_egress_state :: "u32 \<Rightarrow> bool" where
  "is_active_egress_state state \<longleftrightarrow> MIB_TCP_STATE_SYN_SENT \<le> state \<and> state \<le> MIB_TCP_STATE_LAST_ACK"

definition row_selected :: "tcp_row \<Rightarrow> u32 \<Rightarrow> bool" where
  "row_selected row pid \<longleftrightarrow> pid \<noteq> 0 \<and> tr_owning_pid row = pid \<and> is_active_egress_state (tr_state row)"

definition select_pid_rows :: "tcp_row list \<Rightarrow> u32 \<Rightarrow> tcp_row list" where
  "select_pid_rows rows pid = filter (\<lambda>r. row_selected r pid) rows"

datatype tep = BlockAll | BlockNonlocal

datatype egress_action = EA_Block | EA_Continue

definition tainted_egress_action :: "bool \<Rightarrow> bool \<Rightarrow> tep \<Rightarrow> egress_action" where
  "tainted_egress_action tainted remote_is_local policy =
     (if \<not> tainted then EA_Continue
      else case policy of
             BlockAll \<Rightarrow> EA_Block
           | BlockNonlocal \<Rightarrow> if remote_is_local then EA_Continue else EA_Block)"

text \<open>
  A row of the system's table: its owner, its state and the remote address; for IPv4 the address is a
  word in network byte order, for IPv6 the sixteen bytes.
\<close>

record v4_row =
  v4_state :: u32
  v4_local_addr :: u32
  v4_local_port :: u32
  v4_remote_addr :: u32
  v4_remote_port :: u32
  v4_owning_pid :: u32

record v6_row =
  v6_state :: u32
  v6_remote_addr :: bytes
  v6_owning_pid :: u32

datatype tcp_error = SizeProbeFailed u32 u32 | FetchFailed u32 u32

definition ERROR_INSUFFICIENT_BUFFER :: u32 where
  "ERROR_INSUFFICIENT_BUFFER = 122"

text \<open>The two calls of \<open>GetExtendedTcpTable\<close>: the probe with its size and the fetch with its rows.\<close>

record 'row table_query =
  tq_probe :: "u32 \<times> nat"
  tq_fetch :: "u32 \<times> 'row list"

definition query_tcp_table :: "u32 \<Rightarrow> 'row table_query \<Rightarrow> tcp_error + 'row list" where
  "query_tcp_table family q =
     (let (rc, sz) = tq_probe q
      in if rc \<noteq> ERROR_OK \<and> rc \<noteq> ERROR_INSUFFICIENT_BUFFER then Inl (SizeProbeFailed family rc)
         else if sz = 0 then Inr []
         else let (rc2, rows) = tq_fetch q
              in if rc2 \<noteq> ERROR_OK then Inl (FetchFailed family rc2) else Inr rows)"

definition AF_INET :: u32 where
  "AF_INET = 2"

definition AF_INET6 :: u32 where
  "AF_INET6 = 23"

definition v4_tcp_row :: "v4_row \<Rightarrow> tcp_row" where
  "v4_tcp_row r = \<lparr>tr_owning_pid = v4_owning_pid r, tr_state = v4_state r, tr_family = TCP_V4\<rparr>"

definition v6_tcp_row :: "v6_row \<Rightarrow> tcp_row" where
  "v6_tcp_row r = \<lparr>tr_owning_pid = v6_owning_pid r, tr_state = v6_state r, tr_family = TCP_V6\<rparr>"

text \<open>\<open>SetTcpEntry\<close> with the state that deletes the connection of the given local and remote ends.\<close>

record tcp_delete =
  td_local_addr :: u32
  td_local_port :: u32
  td_remote_addr :: u32
  td_remote_port :: u32

definition reset_v4_row :: "v4_row \<Rightarrow> tcp_delete" where
  "reset_v4_row raw =
     \<lparr>td_local_addr = v4_local_addr raw, td_local_port = v4_local_port raw,
      td_remote_addr = v4_remote_addr raw, td_remote_port = v4_remote_port raw\<rparr>"

text \<open>The calls made so far with the count of those that succeeded.\<close>

fun reset_rows :: "(tcp_delete \<Rightarrow> u32) \<Rightarrow> u32 \<Rightarrow> v4_row list \<Rightarrow> tcp_delete list \<Rightarrow> nat \<Rightarrow> tcp_delete list \<times> nat" where
  "reset_rows set_entry pid [] calls reset = (calls, reset)"
| "reset_rows set_entry pid (raw # rows) calls reset =
     (if row_selected (v4_tcp_row raw) pid
      then reset_rows set_entry pid rows (calls @ [reset_v4_row raw])
             (if set_entry (reset_v4_row raw) = 0 then reset + 1 else reset)
      else reset_rows set_entry pid rows calls reset)"

definition reset_pid_connections ::
  "(tcp_delete \<Rightarrow> u32) \<Rightarrow> v4_row table_query \<Rightarrow> v6_row table_query \<Rightarrow> u32 \<Rightarrow> tcp_delete list \<times> (tcp_error + nat)" where
  "reset_pid_connections set_entry q4 q6 pid =
     (case query_tcp_table AF_INET q4 of
        Inl e \<Rightarrow> ([], Inl e)
      | Inr rows4 \<Rightarrow>
          let (calls, reset) = reset_rows set_entry pid rows4 [] 0
          in case query_tcp_table AF_INET6 q6 of
               Inl e \<Rightarrow> (calls, Inl e)
             | Inr rows6 \<Rightarrow> (calls, Inr reset))"

section \<open>Exfiltration channels\<close>

definition DLP_EXFIL_VERSION :: u32 where
  "DLP_EXFIL_VERSION = 0x58706C44"

definition DLP_EXFIL_MSG_MAX :: nat where
  "DLP_EXFIL_MSG_MAX = 1024"

record dlp_exfil_update =
  xu_version :: u32
  xu_count :: u32
  xu_pids :: "u32 list"

definition dlp_exfil_update_new :: "u32 list \<Rightarrow> dlp_exfil_update" where
  "dlp_exfil_update_new pids =
     (let n = min (length pids) DLP_EXFIL_MSG_MAX
      in \<lparr>xu_version = DLP_EXFIL_VERSION, xu_count = of_nat n,
          xu_pids = take n pids @ drop n (replicate DLP_EXFIL_MSG_MAX 0)\<rparr>)"

definition is_public_v4 :: "u32 \<Rightarrow> bool" where
  "is_public_v4 addr =
     (let oct = to_le 4 (unat addr); a = oct ! 0; b = oct ! 1
      in if a = 0 \<or> a = 127 \<or> a = 10 then False
         else if a = 172 \<and> 16 \<le> b \<and> b \<le> 31 then False
         else if a = 192 \<and> b = 168 then False
         else if a = 169 \<and> b = 254 then False
         else if 224 \<le> a then False
         else True)"

definition is_public_v6 :: "bytes \<Rightarrow> bool" where
  "is_public_v6 a =
     (if list_all (\<lambda>b. b = 0) a then False
      else if list_all (\<lambda>b. b = 0) (take 15 a) \<and> a ! 15 = 1 then False
      else if a ! 0 = 0xfe \<and> a ! 1 AND 0xc0 = 0x80 then False
      else if a ! 0 AND 0xfe = 0xfc then False
      else if a ! 0 = 0xff then False
      else True)"

definition is_hypervisor_module :: "ustring \<Rightarrow> bool" where
  "is_hypervisor_module path =
     (let p = to_ascii_lowercase path; base = rsplit_first (\<lambda>c. c = 92 \<or> c = 47) p
      in if base \<in> {lit ''winhvplatform.dll'', lit ''vboxvmm.dll'', lit ''vmwarebase.dll''} then True
         else if base = lit ''vid.dll''
         then str_contains p ([92] @ lit ''system32'' @ [92]) \<or> str_contains p ([92] @ lit ''syswow64'' @ [92])
         else False)"

text \<open>
  The modules of a process, when it could be opened and walked: at most 1024 of them, a name that
  could not be read being empty.
\<close>

definition hypervisor_pids :: "u32 list option \<Rightarrow> (u32 \<Rightarrow> ustring list option) \<Rightarrow> u32 list" where
  "hypervisor_pids pids modules =
     (case pids of
        None \<Rightarrow> []
      | Some ps \<Rightarrow>
          filter (\<lambda>pid. pid \<noteq> 0 \<and>
              (case modules pid of None \<Rightarrow> False
               | Some ms \<Rightarrow> list_ex (\<lambda>m. m \<noteq> [] \<and> is_hypervisor_module m) (take 1024 ms)))
            (take 4096 ps))"

definition pids_with_public_connection :: "v4_row table_query \<Rightarrow> v6_row table_query \<Rightarrow> u32 list" where
  "pids_with_public_connection q4 q6 =
     (case query_tcp_table AF_INET q4 of
        Inl _ \<Rightarrow> []
      | Inr rows \<Rightarrow> map v4_owning_pid (filter (\<lambda>r. v4_state r = MIB_TCP_STATE_ESTAB \<and> is_public_v4 (v4_remote_addr r)) rows))
     @ (case query_tcp_table AF_INET6 q6 of
          Inl _ \<Rightarrow> []
        | Inr rows \<Rightarrow> map v6_owning_pid (filter (\<lambda>r. v6_state r = MIB_TCP_STATE_ESTAB \<and> is_public_v6 (v6_remote_addr r)) rows))"

text \<open>What the system answers when the set is computed.\<close>

record os_view =
  os_pids :: "u32 list option"
  os_image_of :: "u32 \<Rightarrow> ustring option"
  os_modules :: "u32 \<Rightarrow> ustring list option"
  os_tcp4 :: "v4_row table_query"
  os_tcp6 :: "v6_row table_query"

text \<open>The order in which a \<open>HashSet\<close> is iterated is a parameter.\<close>

definition compute_exfil_pids :: "(u32 list \<Rightarrow> u32 list) \<Rightarrow> os_view \<Rightarrow> u32 \<Rightarrow> u32 list" where
  "compute_exfil_pids hash_order os self_pid =
     (let skip = (\<lambda>pid. pid = 0 \<or> pid = 4 \<or> pid = self_pid);
          add = (\<lambda>pids s. foldl (\<lambda>s pid. if skip pid then s else List.insert pid s) s pids)
      in hash_order
           (add (hypervisor_pids (os_pids os) (os_modules os))
             (add (pids_with_public_connection (os_tcp4 os) (os_tcp6 os))
               (add (map fst (list_remote_tool_processes (os_pids os) (os_image_of os))) []))))"

text \<open>
  The push loop: each turn computes the set and sends it, until the loop is stopped or a send fails. The
  turns are given by what the system answers and whether the send succeeds.
\<close>

fun exfil_push_loop :: "(u32 list \<Rightarrow> u32 list) \<Rightarrow> u32 \<Rightarrow> (os_view \<times> bool) list \<Rightarrow> dlp_exfil_update list" where
  "exfil_push_loop hash_order self_pid [] = []"
| "exfil_push_loop hash_order self_pid ((os, sent) # turns) =
     dlp_exfil_update_new (compute_exfil_pids hash_order os self_pid)
     # (if sent then exfil_push_loop hash_order self_pid turns else [])"

section \<open>Public addresses\<close>

definition v4_block :: "u32 \<Rightarrow> nat \<Rightarrow> cidr" where
  "v4_block b p = \<lparr>cd_base = V4 b, cd_prefix = p\<rparr>"

definition v6_block :: "u128 \<Rightarrow> nat \<Rightarrow> cidr" where
  "v6_block b p = \<lparr>cd_base = V6 b, cd_prefix = p\<rparr>"

text \<open>
  The local blocks by their registered prefixes: unspecified, loopback, private, link-local, multicast and
  reserved for IPv4; unspecified, loopback, link-local, unique local and multicast for IPv6.
\<close>

definition local_blocks :: "cidr list" where
  "local_blocks =
     [v4_block 0 8, v4_block 0x7f000000 8, v4_block 0x0a000000 8, v4_block 0xac100000 12, v4_block 0xc0a80000 16,
      v4_block 0xa9fe0000 16, v4_block 0xe0000000 3,
      v6_block 0 128, v6_block 1 128, v6_block (0xfe8 * 2 ^ 116) 10, v6_block (0xfc * 2 ^ 120) 7, v6_block (0xff * 2 ^ 120) 8]"

definition is_local :: "ip_addr \<Rightarrow> bool" where
  "is_local ip \<longleftrightarrow> list_ex (\<lambda>c. cidr_contains c ip) local_blocks"

definition row_ip_v4 :: "u32 \<Rightarrow> ip_addr" where
  "row_ip_v4 addr = V4 (of_nat (be_nat (to_le 4 (unat addr))))"

definition row_ip_v6 :: "bytes \<Rightarrow> ip_addr" where
  "row_ip_v6 a = V6 (of_nat (be_nat a))"

lemma v4_block_contains:
  "p \<le> 32 \<Longrightarrow> cidr_contains (v4_block b p) (V4 t) \<longleftrightarrow> unat b div 2 ^ (32 - p) = unat t div 2 ^ (32 - p)"
  "\<not> cidr_contains (v4_block b p) (V6 t6)"
  using cidr_contains_range [of "v4_block b p" "V4 t"] by (simp_all add: v4_block_def cidr_contains_def)

lemma v6_block_contains:
  "p \<le> 128 \<Longrightarrow> cidr_contains (v6_block b p) (V6 t) \<longleftrightarrow> unat b div 2 ^ (128 - p) = unat t div 2 ^ (128 - p)"
  "\<not> cidr_contains (v6_block b p) (V4 t4)"
  using cidr_contains_range [of "v6_block b p" "V6 t"] by (simp_all add: v6_block_def cidr_contains_def)

lemma octets_value:
  fixes a b c d :: nat
  assumes "b < 256" "c < 256" "d < 256" "n = d + 256 * (c + 256 * (b + 256 * a))"
  shows "n div 16777216 = a" "n div 65536 = 256 * a + b" "n div 1048576 = 16 * a + b div 16" "n div 536870912 = a div 32"
proof -
  have n: "n = (d + 256 * c) + 65536 * (b + 256 * a)" using assms(4) by simp
  have "d + 256 * c < 65536" using assms by simp
  then show h: "n div 65536 = 256 * a + b" unfolding n by simp
  have "n div 16777216 = n div 65536 div 256" by (simp add: div_mult2_eq [symmetric])
  then show m: "n div 16777216 = a" using h assms(1) by simp
  have "n div 1048576 = n div 65536 div 16" by (simp add: div_mult2_eq [symmetric])
  then show "n div 1048576 = 16 * a + b div 16" using h by simp
  have "n div 536870912 = n div 16777216 div 32" by (simp add: div_mult2_eq [symmetric])
  then show "n div 536870912 = a div 32" using m by simp
qed

lemma mixed_radix_eq:
  fixes a c k q r :: nat
  assumes "q < k" and "r < k"
  shows "k * a + q = k * c + r \<longleftrightarrow> a = c \<and> q = r"
proof
  assume e: "k * a + q = k * c + r"
  have "a = (k * a + q) div k" "c = (k * c + r) div k" using assms by simp_all
  with e have "a = c" by simp
  with e show "a = c \<and> q = r" by simp
qed simp

lemma list_of_four: "length xs = 4 \<Longrightarrow> \<exists>a b c d. xs = [a, b, c, d]"
  by (auto simp: numeral_eq_Suc length_Suc_conv)

lemma is_public_v4_iff: "is_public_v4 addr \<longleftrightarrow> \<not> is_local (row_ip_v4 addr)"
proof -
  obtain a b c d where o4: "to_le 4 (unat addr) = [a, b, c, d]"
    using list_of_four [of "to_le 4 (unat addr)"] by auto
  let ?n = "be_nat [a, b, c, d]"
  have n: "?n = unat d + 256 * (unat c + 256 * (unat b + 256 * unat a))" by (simp add: be_nat_def)
  have w: "unat a < 256" "unat b < 256" "unat c < 256" "unat d < 256"
    using unsigned_less [of a] unsigned_less [of b] unsigned_less [of c] unsigned_less [of d] by simp_all
  have u: "unat (of_nat ?n :: u32) = ?n"
    using le_nat_bound [of "[d, c, b, a]"] by (intro unat_of_nat_in_range) (simp add: be_nat_def)
  note v = octets_value [OF w(2-4) n]
  have loc: "is_local (V4 (of_nat ?n)) \<longleftrightarrow> unat a = 0 \<or> unat a = 127 \<or> unat a = 10 \<or> 16 * unat a + unat b div 16 = 2753
      \<or> 256 * unat a + unat b = 49320 \<or> 256 * unat a + unat b = 43518 \<or> unat a div 32 = 7"
    by (auto simp: is_local_def local_blocks_def v4_block_contains v6_block_contains u v)
  have "256 * unat a + unat b = 49320 \<longleftrightarrow> unat a = 192 \<and> unat b = 168"
    "256 * unat a + unat b = 43518 \<longleftrightarrow> unat a = 169 \<and> unat b = 254"
    using w(2) mixed_radix_eq [of "unat b" 256 168 "unat a" 192] mixed_radix_eq [of "unat b" 256 254 "unat a" 169] by simp_all
  moreover have "16 * unat a + unat b div 16 = 2753 \<longleftrightarrow> unat a = 172 \<and> unat b div 16 = 1"
    using w(2) mixed_radix_eq [of "unat b div 16" 16 1 "unat a" 172] by simp
  moreover have "unat b div 16 = 1 \<longleftrightarrow> 16 \<le> unat b \<and> unat b \<le> 31" by arith
  moreover have "unat a div 32 = 7 \<longleftrightarrow> 224 \<le> unat a" using w(1) by arith
  ultimately show ?thesis using loc
    by (simp add: is_public_v4_def o4 row_ip_v4_def Let_def word_unat_eq_iff word_le_nat_alt)
qed

lemma be_nat_Cons: "be_nat (x # xs) = be_nat xs + 256 ^ length xs * unat x"
proof -
  have "le_nat (ys @ [x]) = le_nat ys + 256 ^ length ys * unat x" for ys
    by (induction ys) simp_all
  from this [of "rev xs"] show ?thesis by (simp add: be_nat_def)
qed

lemma be_nat_bound: "be_nat bs < 256 ^ length bs"
  using le_nat_bound [of "rev bs"] by (simp add: be_nat_def)

lemma be_nat_eq_0: "be_nat bs = 0 \<longleftrightarrow> list_all (\<lambda>b. b = 0) bs"
  by (induction bs) (auto simp: be_nat_Cons be_nat_def [of "[]"] unsigned_eq_0_iff)

lemma be_nat_eq_1: "be_nat (bs @ [b]) = 1 \<longleftrightarrow> list_all (\<lambda>b. b = 0) bs \<and> b = 1"
proof -
  have "be_nat (bs @ [b]) = unat b + 256 * be_nat bs" by (simp add: be_nat_def)
  moreover have "unat b < 256" using unsigned_less [of b] by simp
  ultimately have "be_nat (bs @ [b]) = 1 \<longleftrightarrow> be_nat bs = 0 \<and> unat b = 1" by presburger
  then show ?thesis by (simp add: be_nat_eq_0 word_unat_eq_iff)
qed

lemma be_nat_two_leading:
  fixes r :: bytes
  assumes "length r = 14"
  shows "be_nat (a # b # r) div 2 ^ 120 = unat a" "be_nat (a # b # r) div 2 ^ 118 = 4 * unat a + unat b div 64"
    "be_nat (a # b # r) div 2 ^ 121 = unat a div 2"
proof -
  have r: "be_nat r < 2 ^ 112" using be_nat_bound [of r] assms by simp
  have b: "unat b < 256" using unsigned_less [of b] by simp
  have n: "be_nat (a # b # r) = be_nat r + 2 ^ 112 * (256 * unat a + unat b)"
    using assms by (simp add: be_nat_Cons)
  then have h: "be_nat (a # b # r) div 2 ^ 112 = 256 * unat a + unat b"
    using r by (simp only: div_mult_self2) simp
  have s: "x div 2 ^ (112 + k) = x div 2 ^ 112 div 2 ^ k" for x k :: nat
    by (simp only: power_add div_mult2_eq)
  show "be_nat (a # b # r) div 2 ^ 120 = unat a" "be_nat (a # b # r) div 2 ^ 118 = 4 * unat a + unat b div 64"
    "be_nat (a # b # r) div 2 ^ 121 = unat a div 2"
    using s [of _ 8] s [of _ 6] s [of _ 9] h b by (simp_all add: div_mult2_eq)
qed

lemma byte_masks:
  fixes a b :: u8
  shows "b AND 0xc0 = 0x80 \<longleftrightarrow> unat b div 64 = 2" "a AND 0xfe = 0xfc \<longleftrightarrow> unat a div 2 = 126"
proof -
  have m: "(0xc0::u8) = push_bit (8 - 2) (- 1)" "(0xfe::u8) = push_bit (8 - 7) (- 1)"
    by (simp_all add: push_bit_eq_mult del: push_bit_minus_one)
  have "b AND 0xc0 = 0x80 \<longleftrightarrow> b AND 0xc0 = 0x80 AND 0xc0" by simp
  also have "\<dots> \<longleftrightarrow> unat b div 64 = 2"
    unfolding m(1) using and_high_mask [where ?'a = 8, of 2 b "0x80"] by simp
  finally show "b AND 0xc0 = 0x80 \<longleftrightarrow> unat b div 64 = 2" .
  have "a AND 0xfe = 0xfc \<longleftrightarrow> a AND 0xfe = 0xfc AND 0xfe" by simp
  also have "\<dots> \<longleftrightarrow> unat a div 2 = 126"
    unfolding m(2) using and_high_mask [where ?'a = 8, of 7 a "0xfc"] by simp
  finally show "a AND 0xfe = 0xfc \<longleftrightarrow> unat a div 2 = 126" .
qed

lemma is_public_v6_iff:
  assumes "length a = 16"
  shows "is_public_v6 a \<longleftrightarrow> \<not> is_local (row_ip_v6 a)"
proof -
  obtain x y r where a: "a = x # y # r" "length r = 14"
    using assms by (cases a; cases "tl a") auto
  have u: "unat (of_nat (be_nat a) :: u128) = be_nat a"
    using be_nat_bound [of a] assms by (intro unat_of_nat_in_range) simp
  note v = be_nat_two_leading [OF a(2), of x y, folded a(1), simplified]
  have one: "be_nat a = 1 \<longleftrightarrow> list_all (\<lambda>b. b = 0) (take 15 a) \<and> a ! 15 = 1"
    using be_nat_eq_1 [of "take 15 a" "a ! 15"] assms take_Suc_conv_app_nth [of 15 a] by simp
  have loc: "is_local (V6 (of_nat (be_nat a))) \<longleftrightarrow> be_nat a = 0 \<or> be_nat a = 1
      \<or> 4 * unat x + unat y div 64 = 1018 \<or> unat x div 2 = 126 \<or> unat x = 255"
    by (auto simp: is_local_def local_blocks_def v4_block_contains v6_block_contains u v)
  have "unat y < 256" using unsigned_less [of y] by simp
  then have "4 * unat x + unat y div 64 = 1018 \<longleftrightarrow> unat x = 254 \<and> unat y div 64 = 2"
    using mixed_radix_eq [of "unat y div 64" 4 2 "unat x" 254] by simp
  with loc one show ?thesis
    by (simp add: is_public_v6_def row_ip_v6_def a byte_masks be_nat_eq_0 word_unat_eq_iff [of x])
qed

section \<open>The reset touches only the tainted process\<close>

lemma reset_rows_eq:
  "reset_rows set_entry pid rows calls n =
     (calls @ map reset_v4_row (filter (\<lambda>r. row_selected (v4_tcp_row r) pid) rows),
      n + length (filter (\<lambda>d. set_entry d = 0) (map reset_v4_row (filter (\<lambda>r. row_selected (v4_tcp_row r) pid) rows))))"
  by (induction set_entry pid rows calls n rule: reset_rows.induct) simp_all

text \<open>
  The reset deletes exactly the selected connections: the calls made are, in table order, those for the
  IPv4 rows that the process owns in a state from \<open>SYN_SENT\<close> to \<open>LAST_ACK\<close>, which are the rows
  \<open>select_pid_rows\<close> selects; none for another process or for process 0. When both tables could be read the result is the number of
  calls that succeeded.
\<close>

theorem reset_exact:
  fixes pid :: u32
  assumes "query_tcp_table AF_INET q4 = Inr rows"
  defines "own \<equiv> filter (\<lambda>r. pid \<noteq> 0 \<and> v4_owning_pid r = pid \<and> 3 \<le> unat (v4_state r) \<and> unat (v4_state r) \<le> 10) rows"
  shows "fst (reset_pid_connections set_entry q4 q6 pid) = map reset_v4_row own
    \<and> map v4_tcp_row own = select_pid_rows (map v4_tcp_row rows) pid
    \<and> snd (reset_pid_connections set_entry q4 q6 pid) =
        (case query_tcp_table AF_INET6 q6 of Inl e \<Rightarrow> Inl e
         | Inr _ \<Rightarrow> Inr (length (filter (\<lambda>d. set_entry d = 0) (map reset_v4_row own))))"
proof -
  have sel: "row_selected (v4_tcp_row r) pid \<longleftrightarrow>
      pid \<noteq> 0 \<and> v4_owning_pid r = pid \<and> 3 \<le> unat (v4_state r) \<and> unat (v4_state r) \<le> 10" for r
    by (simp add: row_selected_def v4_tcp_row_def is_active_egress_state_def MIB_TCP_STATE_SYN_SENT_def
        MIB_TCP_STATE_LAST_ACK_def word_le_nat_alt)
  show ?thesis
    using assms(1) by (simp add: reset_pid_connections_def reset_rows_eq select_pid_rows_def filter_map comp_def own_def
        sel split: sum.split)
qed

section \<open>The pushed set\<close>

text \<open>The three signals, with public addresses given by the registered blocks.\<close>

definition exfil_channel :: "os_view \<Rightarrow> u32 \<Rightarrow> bool" where
  "exfil_channel os pid \<longleftrightarrow>
     (\<exists>ps. os_pids os = Some ps \<and> pid \<in> set (take 4096 ps) \<and> pid \<noteq> 0 \<and>
        ((\<exists>img. os_image_of os pid = Some img \<and> match_image img \<noteq> None)
         \<or> (\<exists>ms. os_modules os pid = Some ms \<and> (\<exists>m \<in> set (take 1024 ms). m \<noteq> [] \<and> is_hypervisor_module m))))
     \<or> (\<exists>rows. query_tcp_table AF_INET (os_tcp4 os) = Inr rows \<and>
          (\<exists>r \<in> set rows. v4_owning_pid r = pid \<and> v4_state r = MIB_TCP_STATE_ESTAB \<and> \<not> is_local (row_ip_v4 (v4_remote_addr r))))
     \<or> (\<exists>rows. query_tcp_table AF_INET6 (os_tcp6 os) = Inr rows \<and>
          (\<exists>r \<in> set rows. v6_owning_pid r = pid \<and> v6_state r = MIB_TCP_STATE_ESTAB \<and> \<not> is_local (row_ip_v6 (v6_remote_addr r))))"

text \<open>The rows of the IPv6 table carry sixteen address bytes.\<close>

definition v6_rows_wf :: "os_view \<Rightarrow> bool" where
  "v6_rows_wf os \<longleftrightarrow> list_all (\<lambda>r. length (v6_remote_addr r) = 16) (snd (tq_fetch (os_tcp6 os)))"

lemma query_rows: "query_tcp_table f q = Inr rows \<Longrightarrow> rows = [] \<or> rows = snd (tq_fetch q)"
  by (auto simp: query_tcp_table_def Let_def split: if_splits prod.splits)

lemma set_add_pids: "set (foldl (\<lambda>s pid. if skip pid then s else List.insert pid s) s pids) = set s \<union> {p \<in> set pids. \<not> skip p}"
  by (induction pids arbitrary: s) auto

lemma distinct_add_pids: "distinct s \<Longrightarrow> distinct (foldl (\<lambda>s pid. if skip pid then s else List.insert pid s) s pids)"
  by (induction pids arbitrary: s) simp_all

lemma public_pids_iff:
  assumes "v6_rows_wf os"
  shows "pid \<in> set (pids_with_public_connection (os_tcp4 os) (os_tcp6 os)) \<longleftrightarrow>
     (\<exists>rows. query_tcp_table AF_INET (os_tcp4 os) = Inr rows \<and>
        (\<exists>r \<in> set rows. v4_owning_pid r = pid \<and> v4_state r = MIB_TCP_STATE_ESTAB \<and> \<not> is_local (row_ip_v4 (v4_remote_addr r))))
     \<or> (\<exists>rows. query_tcp_table AF_INET6 (os_tcp6 os) = Inr rows \<and>
        (\<exists>r \<in> set rows. v6_owning_pid r = pid \<and> v6_state r = MIB_TCP_STATE_ESTAB \<and> \<not> is_local (row_ip_v6 (v6_remote_addr r))))"
proof -
  have "length (v6_remote_addr r) = 16" if "query_tcp_table AF_INET6 (os_tcp6 os) = Inr rows" "r \<in> set rows" for rows r
    using query_rows [OF that(1)] that(2) assms by (auto simp: v6_rows_wf_def list_all_iff)
  then show ?thesis
    by (cases "query_tcp_table AF_INET (os_tcp4 os)"; cases "query_tcp_table AF_INET6 (os_tcp6 os)")
      (auto simp: pids_with_public_connection_def is_public_v4_iff is_public_v6_iff)
qed

lemma in_map_filter: "y \<in> set (List.map_filter f xs) \<longleftrightarrow> (\<exists>x \<in> set xs. f x = Some y)"
  by (induction xs) (auto split: option.splits)

lemma remote_tool_pids_iff:
  "pid \<in> fst ` set (list_remote_tool_processes pids image_of) \<longleftrightarrow>
     (\<exists>ps. pids = Some ps \<and> pid \<in> set (take 4096 ps) \<and> pid \<noteq> 0 \<and> (\<exists>img. image_of pid = Some img \<and> match_image img \<noteq> None))"
proof (cases pids)
  case (Some ps)
  have "pid \<in> fst ` set (list_remote_tool_processes pids image_of) \<longleftrightarrow>
      (\<exists>img. (pid, img) \<in> set (list_remote_tool_processes pids image_of))" by force
  also have "\<dots> \<longleftrightarrow> (\<exists>img. \<exists>x \<in> set (take 4096 ps). x \<noteq> 0 \<and> x = pid \<and> image_of x = Some img \<and> match_image img \<noteq> None)"
    unfolding list_remote_tool_processes_def Some option.case in_map_filter
    by (intro ex_cong1 bex_cong) (auto split: option.splits if_splits)
  finally show ?thesis using Some by auto
qed (simp add: list_remote_tool_processes_def)

lemma hypervisor_pids_iff:
  "pid \<in> set (hypervisor_pids pids modules) \<longleftrightarrow>
     (\<exists>ps. pids = Some ps \<and> pid \<in> set (take 4096 ps) \<and> pid \<noteq> 0 \<and>
        (\<exists>ms. modules pid = Some ms \<and> (\<exists>m \<in> set (take 1024 ms). m \<noteq> [] \<and> is_hypervisor_module m)))"
  by (auto simp: hypervisor_pids_def list_ex_iff split: option.splits)

lemma exfil_pids_exact:
  assumes "\<And>xs. mset (hash_order xs) = mset xs" and "v6_rows_wf os"
  shows "distinct (compute_exfil_pids hash_order os self_pid)"
    and "set (compute_exfil_pids hash_order os self_pid) = {pid. pid \<notin> {0, 4, self_pid} \<and> exfil_channel os pid}"
proof -
  have h: "set (hash_order xs) = set xs" "distinct (hash_order xs) = distinct xs" for xs
    using assms(1) [of xs] by (metis set_mset_mset, metis mset_eq_imp_distinct_iff)
  show "distinct (compute_exfil_pids hash_order os self_pid)"
    by (simp add: compute_exfil_pids_def Let_def h distinct_add_pids)
  show "set (compute_exfil_pids hash_order os self_pid) = {pid. pid \<notin> {0, 4, self_pid} \<and> exfil_channel os pid}"
    by (simp only: set_eq_iff compute_exfil_pids_def Let_def h set_add_pids set_map Un_iff mem_Collect_eq
        public_pids_iff [OF assms(2)] remote_tool_pids_iff hypervisor_pids_iff exfil_channel_def) auto
qed

text \<open>The processes the driver holds after a message: the first \<open>count\<close> of the array.\<close>

definition driver_set :: "dlp_exfil_update \<Rightarrow> u32 set" where
  "driver_set m = set (take (unat (xu_count m)) (xu_pids m))"

lemma message_layout:
  "length (xu_pids (dlp_exfil_update_new pids)) = 1024"
  "unat (xu_count (dlp_exfil_update_new pids)) = min (length pids) 1024"
  "driver_set (dlp_exfil_update_new pids) = set (take 1024 pids)"
proof -
  have c: "unat (of_nat (min (length pids) 1024) :: u32) = min (length pids) 1024"
    by (intro unat_of_nat_in_range) simp
  then show "unat (xu_count (dlp_exfil_update_new pids)) = min (length pids) 1024"
    by (simp add: dlp_exfil_update_new_def Let_def DLP_EXFIL_MSG_MAX_def)
  show "length (xu_pids (dlp_exfil_update_new pids)) = 1024"
    by (simp add: dlp_exfil_update_new_def Let_def DLP_EXFIL_MSG_MAX_def)
  have "take (min (length pids) 1024) pids = take 1024 pids" by (simp add: min_def)
  with c show "driver_set (dlp_exfil_update_new pids) = set (take 1024 pids)"
    by (simp add: driver_set_def dlp_exfil_update_new_def Let_def DLP_EXFIL_MSG_MAX_def)
qed

lemma exfil_push_loop_append:
  "list_all snd earlier \<Longrightarrow> exfil_push_loop hash_order self_pid (earlier @ turns)
     = map (\<lambda>(os, _). dlp_exfil_update_new (compute_exfil_pids hash_order os self_pid)) earlier @ exfil_push_loop hash_order self_pid turns"
  by (induction earlier) auto

lemma message_exact:
  fixes self_pid :: u32
  assumes "\<And>xs. mset (hash_order xs) = mset xs" and "v6_rows_wf os"
  defines "m \<equiv> dlp_exfil_update_new (compute_exfil_pids hash_order os self_pid)"
    and "channels \<equiv> {pid. pid \<notin> {0, 4, self_pid} \<and> exfil_channel os pid}"
  shows "length (xu_pids m) = 1024 \<and> card (driver_set m) = min (card channels) 1024
    \<and> driver_set m \<subseteq> channels \<and> (driver_set m = channels \<longleftrightarrow> card channels \<le> 1024)"
proof -
  let ?pids = "compute_exfil_pids hash_order os self_pid"
  have set: "set ?pids = channels" and d: "distinct ?pids"
    using exfil_pids_exact [OF assms(1,2)] by (auto simp: channels_def)
  have ds: "driver_set m = set (take 1024 ?pids)" by (simp add: m_def message_layout)
  have card: "card channels = length ?pids" using set d distinct_card by fastforce
  have cd: "card (driver_set m) = min (card channels) 1024"
    unfolding ds using distinct_card [OF distinct_take [OF d, of 1024]] by (simp add: card)
  have sub: "driver_set m \<subseteq> channels" unfolding ds set [symmetric] by (rule set_take_subset)
  have "driver_set m = channels \<longleftrightarrow> card channels \<le> 1024"
  proof
    show "driver_set m = channels \<Longrightarrow> card channels \<le> 1024" using cd by simp
    show "driver_set m = channels" if "card channels \<le> 1024"
      using that ds card set by simp
  qed
  with cd sub show ?thesis by (simp add: m_def message_layout)
qed

text \<open>
  C29. What the driver denies reads to. As long as the earlier sends succeeded a turn of the loop pushes one
  message of the fixed size, and none follows a failed send. The set the message gives the driver is
  contained in the processes that have at that turn one of the three signals, a remote-access tool's image, an established
  connection to an address outside the local blocks, or a hypervisor module, without the agent, the system
  process and process 0; and it is exactly that set when there are at most 1024 of them.
\<close>

theorem exfil_set_pushed:
  fixes self_pid :: u32 and sent :: bool and later :: "(os_view \<times> bool) list"
  assumes "\<And>xs. mset (hash_order xs) = mset xs" and "v6_rows_wf os" and "list_all snd earlier"
  defines "pushes \<equiv> exfil_push_loop hash_order self_pid (earlier @ (os, sent) # later)"
    and "channels \<equiv> {pid. pid \<notin> {0, 4, self_pid} \<and> exfil_channel os pid}"
  shows "\<exists>m. pushes ! length earlier = m \<and> length earlier < length pushes
    \<and> (if sent then True else length pushes = Suc (length earlier))
    \<and> length (xu_pids m) = 1024 \<and> card (driver_set m) = min (card channels) 1024
    \<and> driver_set m \<subseteq> channels \<and> (driver_set m = channels \<longleftrightarrow> card channels \<le> 1024)"
  using message_exact [OF assms(1,2), of self_pid]
  unfolding channels_def
  by (simp add: pushes_def exfil_push_loop_append [OF assms(3)] nth_append)

definition example_os :: os_view where
  "example_os = \<lparr>os_pids = None, os_image_of = (\<lambda>_. None), os_modules = (\<lambda>_. None),
     os_tcp4 = \<lparr>tq_probe = (122, 28), tq_fetch = (0, [\<lparr>v4_state = 5, v4_local_addr = 0, v4_local_port = 0,
        v4_remote_addr = 0x08080808, v4_remote_port = 443, v4_owning_pid = 1000\<rparr>])\<rparr>,
     os_tcp6 = \<lparr>tq_probe = (0, 0), tq_fetch = (0, [])\<rparr>\<rparr>"

lemma example_os_rows:
  "query_tcp_table AF_INET (os_tcp4 example_os) = Inr [\<lparr>v4_state = 5, v4_local_addr = 0, v4_local_port = 0,
        v4_remote_addr = 0x08080808, v4_remote_port = 443, v4_owning_pid = 1000\<rparr>]"
  "query_tcp_table AF_INET6 (os_tcp6 example_os) = Inr []"
  by (simp_all add: query_tcp_table_def example_os_def ERROR_OK_def ERROR_INSUFFICIENT_BUFFER_def)

lemma four_Suc: "(4::nat) = Suc (Suc (Suc (Suc 0)))" by simp

lemma to_le_4:
  "to_le 4 x = [of_nat (x mod 256), of_nat (x div 256 mod 256), of_nat (x div 256 div 256 mod 256),
     of_nat (x div 256 div 256 div 256 mod 256)]"
  by (subst four_Suc) simp

lemma example_channels: "{pid. pid \<notin> {0, 4, 2000} \<and> exfil_channel example_os pid} = {1000}"
proof -
  have "is_public_v4 0x08080808"
    by (simp add: is_public_v4_def Let_def to_le_4)
  then have "\<not> is_local (row_ip_v4 0x08080808)" by (simp add: is_public_v4_iff)
  then show ?thesis
    by (auto simp: exfil_channel_def example_os_rows MIB_TCP_STATE_ESTAB_def) (simp_all add: example_os_def)
qed

lemma exfil_set_pushed_witness:
  "driver_set (exfil_push_loop (\<lambda>xs. xs) 2000 [(example_os, False), (example_os, True)] ! 0) = {1000}"
  using exfil_set_pushed [of "\<lambda>xs. xs" example_os "[]" 2000 False "[(example_os, True)]"] unfolding example_channels
  by (simp add: v6_rows_wf_def example_os_def)

lemma reset_exact_witness:
  "reset_pid_connections (\<lambda>_. 0) (os_tcp4 example_os) (os_tcp6 example_os) 1000
     = ([\<lparr>td_local_addr = 0, td_local_port = 0, td_remote_addr = 0x08080808, td_remote_port = 443\<rparr>], Inr 1)"
  using reset_exact [OF example_os_rows(1), where pid = 1000 and set_entry = "\<lambda>_. 0" and ?q6.0 = "os_tcp6 example_os"] example_os_rows(2)
  by (cases "reset_pid_connections (\<lambda>_. 0) (os_tcp4 example_os) (os_tcp6 example_os) 1000") (simp add: reset_v4_row_def)

end
