(* ===== verification/Trust_Sync.thy ===== *)
theory Trust_Sync
  imports Config Keyring "HOL-Library.AList"
begin

text \<open>
  Synchronization of trusted destinations and keys, \<open>trustsync.rs\<close>: the wire types, the
  merge of the synced destinations into the USB section, the keyring document handed to the
  sealed storage, and the persisted destinations file. JSON documents are values here; the
  text form is the codec of \<open>serde_json\<close>, a pair of functions.
\<close>

section \<open>JSON values\<close>

datatype json =
  JNull
| JBool bool
| JNumber ustring
| JString ustring
| JArray "json list"
| JObject "(ustring \<times> json) list"

fun json_get :: "json \<Rightarrow> string \<Rightarrow> json option" where
  "json_get (JObject kvs) k = map_of kvs (lit k)"
| "json_get _ k = None"

fun json_string :: "json option \<Rightarrow> ustring option" where
  "json_string (Some (JString s)) = Some s"
| "json_string _ = None"

section \<open>Wire types\<close>

datatype synced_matcher =
  SM_Serial ustring
| SM_VidPid ustring ustring

record synced_destination =
  sd_channel :: ustring
  sd_matcher :: synced_matcher
  sd_mode :: encrypt_mode
  sd_key_id :: ustring
  sd_on_block_band :: block_band_policy

record synced_key =
  sk_id :: ustring
  sk_key_b64 :: ustring

record trusted_config =
  tc_destinations :: "synced_destination list"
  tc_keys :: "synced_key list"

definition active_key_id :: "trusted_config \<Rightarrow> ustring option" where
  "active_key_id tc =
     (case find (\<lambda>k. list_ex (\<lambda>d. sd_key_id d = sk_id k) (tc_destinations tc)) (tc_keys tc) of
        Some k \<Rightarrow> Some (sk_id k)
      | None \<Rightarrow> (case tc_keys tc of [] \<Rightarrow> None | k # _ \<Rightarrow> Some (sk_id k)))"

text \<open>
  The keyring document: a later key of the same id replaces the earlier one, as inserting
  into a map does.
\<close>

definition keyring_document :: "trusted_config \<Rightarrow> dev_keyfile option" where
  "keyring_document tc =
     map_option (\<lambda>active.
       \<lparr>kf_active_key_id = active,
        kf_keys = fold (\<lambda>k. AList.update (sk_id k) (sk_key_b64 k)) (tc_keys tc) [],
        kf_destroyed = []\<rparr>) (active_key_id tc)"

definition to_keyring_json :: "(dev_keyfile \<Rightarrow> bytes option) \<Rightarrow> trusted_config \<Rightarrow> bytes option" where
  "to_keyring_json to_vec tc = Option.bind (keyring_document tc) to_vec"

section \<open>Merging into the USB section\<close>

fun same_device :: "synced_matcher \<Rightarrow> usb_rule \<Rightarrow> bool" where
  "same_device (SM_Serial serial) rule \<longleftrightarrow>
     (case ur_match_serial rule of Some s \<Rightarrow> eq_ignore_ascii_case (trim s) (trim serial) | None \<Rightarrow> False)"
| "same_device (SM_VidPid vid pid) rule \<longleftrightarrow>
     (case ur_match_vid rule of Some s \<Rightarrow> eq_ignore_ascii_case (trim s) (trim vid) | None \<Rightarrow> False)
     \<and> (case ur_match_pid rule of Some s \<Rightarrow> eq_ignore_ascii_case (trim s) (trim pid) | None \<Rightarrow> False)"

definition local_action_for :: "usb_config \<Rightarrow> synced_matcher \<Rightarrow> action option" where
  "local_action_for c m = map_option ur_action (find (same_device m) (uc_rules c))"

definition to_usb_rule :: "synced_destination \<Rightarrow> action \<Rightarrow> usb_rule" where
  "to_usb_rule d act =
     (let (serial, vid, pid) =
        (case sd_matcher d of SM_Serial s \<Rightarrow> (Some s, None, None) | SM_VidPid v p \<Rightarrow> (None, Some v, Some p))
      in \<lparr>ur_match_serial = serial, ur_match_vid = vid, ur_match_pid = pid, ur_match_bus_type = None,
          ur_match_any = False, ur_action = act, ur_note = Some (lit ''synced trusted destination''),
          ur_mode = Some (sd_mode d), ur_key_id = (if sd_key_id d = [] then None else Some (sd_key_id d)),
          ur_on_block_band = sd_on_block_band d\<rparr>)"

definition synced_action :: "usb_config \<Rightarrow> synced_destination \<Rightarrow> action" where
  "synced_action c d =
     (case local_action_for c (sd_matcher d) of
        Some l \<Rightarrow> max_restrictive Encrypt l | None \<Rightarrow> Encrypt)"

definition merge_into_usb :: "usb_config \<Rightarrow> synced_destination list \<Rightarrow> usb_config" where
  "merge_into_usb c dests =
     (let usb_dests = filter (\<lambda>d. sd_channel d = lit ''usb'') dests
      in if usb_dests = [] then c
         else c\<lparr>uc_rules := map (\<lambda>d. to_usb_rule d (synced_action c d)) usb_dests @ uc_rules c,
                uc_enabled := True\<rparr>)"

definition with_synced_destinations :: "config \<Rightarrow> synced_destination list \<Rightarrow> config" where
  "with_synced_destinations c dests = c\<lparr>cfg_usb := merge_into_usb (cfg_usb c) dests\<rparr>"

section \<open>The persisted destinations\<close>

fun mode_str :: "encrypt_mode \<Rightarrow> ustring" where
  "mode_str EncryptSensitive = lit ''encrypt_sensitive''"
| "mode_str EncryptAll = lit ''encrypt_all''"

fun band_str :: "block_band_policy \<Rightarrow> ustring" where
  "band_str BB_Block = lit ''block''"
| "band_str BB_Seal = lit ''seal''"

fun matcher_to_value :: "synced_matcher \<Rightarrow> json" where
  "matcher_to_value (SM_Serial s) = JObject [(lit ''serial'', JString s)]"
| "matcher_to_value (SM_VidPid v p) = JObject [(lit ''vid'', JString v), (lit ''pid'', JString p)]"

definition dest_to_value :: "synced_destination \<Rightarrow> json" where
  "dest_to_value d =
     JObject [(lit ''channel'', JString (sd_channel d)), (lit ''matcher'', matcher_to_value (sd_matcher d)),
              (lit ''mode'', JString (mode_str (sd_mode d))), (lit ''keyId'', JString (sd_key_id d)),
              (lit ''onBlockBand'', JString (band_str (sd_on_block_band d)))]"

text \<open>
  The derived deserializers: an untagged enumeration takes the first variant whose fields
  are there, a field with a default may be absent, any other must be present. A document
  that repeats a field of an object does not parse.
\<close>

definition mode_from_value :: "json option \<Rightarrow> encrypt_mode option" where
  "mode_from_value v =
     (case json_string v of
        None \<Rightarrow> None
      | Some s \<Rightarrow> if s = lit ''encrypt_sensitive'' then Some EncryptSensitive
                  else if s = lit ''encrypt_all'' then Some EncryptAll else None)"

definition band_from_value :: "json option \<Rightarrow> block_band_policy option" where
  "band_from_value v =
     (case v of
        None \<Rightarrow> Some BB_Block
      | Some _ \<Rightarrow>
          (case json_string v of
             None \<Rightarrow> None
           | Some s \<Rightarrow> if s = lit ''block'' then Some BB_Block else if s = lit ''seal'' then Some BB_Seal else None))"

definition matcher_from_value :: "json option \<Rightarrow> synced_matcher option" where
  "matcher_from_value v =
     (case v of
        None \<Rightarrow> None
      | Some obj \<Rightarrow>
          (case json_string (json_get obj ''serial'') of
             Some s \<Rightarrow> Some (SM_Serial s)
           | None \<Rightarrow>
               (case (json_string (json_get obj ''vid''), json_string (json_get obj ''pid'')) of
                  (Some vid, Some pid) \<Rightarrow> Some (SM_VidPid vid pid)
                | _ \<Rightarrow> None)))"

definition dest_from_value :: "json \<Rightarrow> synced_destination option" where
  "dest_from_value v =
     (case (json_string (json_get v ''channel''), matcher_from_value (json_get v ''matcher''),
            mode_from_value (json_get v ''mode''), json_string (json_get v ''keyId''),
            band_from_value (json_get v ''onBlockBand'')) of
        (Some channel, Some matcher, Some mode, Some key_id, Some band) \<Rightarrow>
          Some \<lparr>sd_channel = channel, sd_matcher = matcher, sd_mode = mode, sd_key_id = key_id,
                sd_on_block_band = band\<rparr>
      | _ \<Rightarrow> None)"

definition destinations_document :: "synced_destination list \<Rightarrow> json" where
  "destinations_document dests = JObject [(lit ''destinations'', JArray (map dest_to_value dests))]"

definition serialize_destinations :: "(json \<Rightarrow> bytes option) \<Rightarrow> synced_destination list \<Rightarrow> bytes" where
  "serialize_destinations to_vec dests =
     (case to_vec (destinations_document dests) of
        Some bs \<Rightarrow> bs
      | None \<Rightarrow> utf8 (lit ''{\"destinations\":[]}''))"

definition parse_destinations :: "(bytes \<Rightarrow> json option) \<Rightarrow> bytes \<Rightarrow> synced_destination list option" where
  "parse_destinations from_slice bs =
     (case from_slice bs of
        None \<Rightarrow> None
      | Some v \<Rightarrow>
          (case v of
             JObject _ \<Rightarrow>
               (case json_get v ''destinations'' of
                  None \<Rightarrow> Some []
                | Some (JArray ds) \<Rightarrow> try_map dest_from_value ds
                | Some _ \<Rightarrow> None)
           | _ \<Rightarrow> None))"

section \<open>What the merged rules decide\<close>

fun matcher_matches :: "synced_matcher \<Rightarrow> device_identity \<Rightarrow> bool" where
  "matcher_matches (SM_Serial s) dev \<longleftrightarrow> rule_matches (Serial s) dev"
| "matcher_matches (SM_VidPid v p) dev \<longleftrightarrow> rule_matches (VidPid v p) dev"

lemma to_usb_rule_matches: "usb_rule_matches (to_usb_rule d a) dev = matcher_matches (sd_matcher d) dev"
  by (cases "sd_matcher d") (simp_all add: usb_rule_matches_def to_device_rule_def to_usb_rule_def)

text \<open>The destination that decides for a device: the first of the USB channel that matches it.\<close>

definition deciding_dest :: "synced_destination list \<Rightarrow> device_identity \<Rightarrow> synced_destination option" where
  "deciding_dest dests dev = find (\<lambda>d. sd_channel d = lit ''usb'' \<and> matcher_matches (sd_matcher d) dev) dests"

lemma find_filter_map:
  "find P (map f (filter Q xs)) = map_option f (find (\<lambda>x. Q x \<and> P (f x)) xs)"
  by (induction xs) auto

lemma find_append: "find P (xs @ ys) = (case find P xs of Some x \<Rightarrow> Some x | None \<Rightarrow> find P ys)"
  by (induction xs) auto

lemma find_merged:
  "find (\<lambda>r. usb_rule_matches r dev) (uc_rules (merge_into_usb c dests)) =
     (case deciding_dest dests dev of
        Some d \<Rightarrow> Some (to_usb_rule d (synced_action c d))
      | None \<Rightarrow> find (\<lambda>r. usb_rule_matches r dev) (uc_rules c))"
proof (cases "filter (\<lambda>d. sd_channel d = lit ''usb'') dests = []")
  case True
  then have "deciding_dest dests dev = None"
    by (auto simp: deciding_dest_def find_None_iff filter_empty_conv)
  with True show ?thesis by (simp add: merge_into_usb_def)
next
  case False
  then show ?thesis
    by (simp add: merge_into_usb_def Let_def find_append find_filter_map to_usb_rule_matches deciding_dest_def
        split: option.split)
qed

lemma synced_action_at_least: "Encrypt \<le> synced_action c d"
  by (simp add: synced_action_def max_restrictive_max split: option.split)

lemma synced_action_local: "local_action_for c (sd_matcher d) = Some a \<Longrightarrow> a \<le> synced_action c d"
  by (simp add: synced_action_def max_restrictive_max)

lemma merge_params:
  "deciding_dest dests dev = Some d \<Longrightarrow>
     encrypt_params (merge_into_usb c dests) dev =
       (sd_mode d, if sd_key_id d = [] then None else Some (sd_key_id d), sd_on_block_band d)"
  by (simp add: encrypt_params_configured find_merged rule_params_def to_usb_rule_def Let_def
      split: synced_matcher.split)

text \<open>
  A local rule that names the device by the matcher of the destination is not weakened. A
  rule that names it in another way is: a device blocked by its bus type can be written to,
  sealed, once its serial number is synced.
\<close>

lemma bus_type_block_weakened:
  "\<exists>c dests dev. fst (usb_decide (to_policy c) dev) = Block
     \<and> fst (usb_decide (to_policy (merge_into_usb c dests)) dev) = Encrypt"
proof -
  let ?rule = "\<lparr>ur_match_serial = None, ur_match_vid = None, ur_match_pid = None,
    ur_match_bus_type = Some (lit ''usb''), ur_match_any = False, ur_action = Block, ur_note = None,
    ur_mode = None, ur_key_id = None, ur_on_block_band = BB_Block\<rparr>"
  let ?c = "usb_config_default\<lparr>uc_rules := [?rule]\<rparr>"
  let ?d = "\<lparr>sd_channel = lit ''usb'', sd_matcher = SM_Serial (lit ''S1''), sd_mode = EncryptSensitive,
    sd_key_id = [], sd_on_block_band = BB_Block\<rparr>"
  let ?dev = "\<lparr>dev_drive_letter = [], dev_vendor_id = [], dev_product_id = [], dev_serial = lit ''S1'',
    dev_product_name = [], dev_bus_type = lit ''usb'', dev_removable = True\<rparr>"
  have m: "rule_matches (Serial (lit ''S1'')) ?dev" "rule_matches (BusType (lit ''usb'')) ?dev"
    by (simp_all add: eq_ignore_ascii_case_def trim_def trim_end_matches_def trim_start_matches_def is_whitespace_def lit_def)
  have "fst (usb_decide (to_policy ?c) ?dev) = Block"
    using m(2) by (simp add: usb_decide_configured usb_rule_matches_def to_device_rule_def)
  moreover have "deciding_dest [?d] ?dev = Some ?d" using m(1) by (simp add: deciding_dest_def)
  then have "fst (usb_decide (to_policy (merge_into_usb ?c [?d])) ?dev) = Encrypt"
    by (simp add: usb_decide_configured find_merged to_usb_rule_def synced_action_def local_action_for_def)
  ultimately show ?thesis by blast
qed

section \<open>Round trips\<close>

lemma matcher_round_trip: "matcher_from_value (Some (matcher_to_value m)) = Some m"
  by (cases m) (simp_all add: matcher_from_value_def lit_def)

lemma mode_round_trip: "mode_from_value (Some (JString (mode_str m))) = Some m"
  by (cases m) (simp_all add: mode_from_value_def lit_def)

lemma band_round_trip: "band_from_value (Some (JString (band_str b))) = Some b"
  by (cases b) (simp_all add: band_from_value_def lit_def)

lemma dest_get:
  "json_get (dest_to_value d) ''channel'' = Some (JString (sd_channel d))"
  "json_get (dest_to_value d) ''matcher'' = Some (matcher_to_value (sd_matcher d))"
  "json_get (dest_to_value d) ''mode'' = Some (JString (mode_str (sd_mode d)))"
  "json_get (dest_to_value d) ''keyId'' = Some (JString (sd_key_id d))"
  "json_get (dest_to_value d) ''onBlockBand'' = Some (JString (band_str (sd_on_block_band d)))"
  by (simp_all add: dest_to_value_def lit_def)

lemma dest_round_trip: "dest_from_value (dest_to_value d) = Some d"
  by (simp add: dest_from_value_def dest_get matcher_round_trip mode_round_trip band_round_trip)

lemma try_map_round_trip: "(\<And>x. g (f x) = Some x) \<Longrightarrow> try_map g (map f xs) = Some xs"
  by (induction xs) simp_all

section \<open>The synced keyring\<close>

lemma active_key_delivered:
  assumes "active_key_id tc = Some kid"
  shows "kid \<in> sk_id ` set (tc_keys tc)"
proof -
  let ?P = "\<lambda>k. list_ex (\<lambda>d. sd_key_id d = sk_id k) (tc_destinations tc)"
  show ?thesis
  proof (cases "find ?P (tc_keys tc)")
    case None
    with assms show ?thesis by (cases "tc_keys tc") (simp_all add: active_key_id_def)
  next
    case (Some k)
    with assms have "kid = sk_id k" by (simp add: active_key_id_def)
    moreover have "k \<in> set (tc_keys tc)" using Some by (auto simp: find_Some_iff)
    ultimately show ?thesis by blast
  qed
qed

lemma document_keys:
  assumes "distinct (map sk_id ks)"
  shows "fold (\<lambda>k. AList.update (sk_id k) (sk_key_b64 k)) ks [] = map (\<lambda>k. (sk_id k, sk_key_b64 k)) ks"
proof -
  have "AList.update k v kvs = kvs @ [(k, v)]" if "k \<notin> fst ` set kvs" for k :: ustring and v :: ustring and kvs
    using that by (induction kvs) auto
  then have "fold (\<lambda>k. AList.update (sk_id k) (sk_key_b64 k)) ks kvs = kvs @ map (\<lambda>k. (sk_id k, sk_key_b64 k)) ks"
    if "distinct (map sk_id ks)" "sk_id ` set ks \<inter> fst ` set kvs = {}" for kvs
    using that by (induction ks arbitrary: kvs) (auto simp: Int_Un_distrib)
  with assms show ?thesis by simp
qed

lemma load_keys_total:
  assumes "\<forall>(kid, b) \<in> set kvs. \<exists>raw. dec b = Inr raw \<and> length raw = 32" and "distinct (map fst kvs)"
    and "kr_destroyed ring = {}"
  shows "\<exists>ring'. load_keys dec kvs ring = Inr ring'
    \<and> (\<forall>kid. kr_keys ring' kid = (case map_of kvs kid of
         Some b \<Rightarrow> Some \<lparr>kek_id = kid, kek_bytes = projr (dec b)\<rparr> | None \<Rightarrow> kr_keys ring kid))"
  using assms
proof (induction kvs arbitrary: ring)
  case (Cons kv kvs)
  obtain kid b raw where kv: "kv = (kid, b)" "dec b = Inr raw" "length raw = 32"
    using Cons.prems(1) by (cases kv) auto
  let ?ring = "keyring_insert ring \<lparr>kek_id = kid, kek_bytes = raw\<rparr>"
  have r: "kr_destroyed ?ring = {}" "kr_keys ?ring = (kr_keys ring)(kid \<mapsto> \<lparr>kek_id = kid, kek_bytes = raw\<rparr>)"
    using Cons.prems(3) by (simp_all add: keyring_insert_def)
  have "map_of kvs kid = None" using Cons.prems(2) kv(1) by (simp add: map_of_eq_None_iff)
  moreover obtain ring' where "load_keys dec kvs ?ring = Inr ring'"
    "\<forall>i. kr_keys ring' i = (case map_of kvs i of
         Some b \<Rightarrow> Some \<lparr>kek_id = i, kek_bytes = projr (dec b)\<rparr> | None \<Rightarrow> kr_keys ?ring i)"
    using Cons.IH [of ?ring] Cons.prems(1,2) r(1) by auto
  ultimately show ?case using kv r(2) by (auto split: option.split)
qed simp

definition example_dest :: synced_destination where
  "example_dest = \<lparr>sd_channel = lit ''usb'', sd_matcher = SM_Serial (lit ''S1''), sd_mode = EncryptSensitive,
     sd_key_id = lit ''k'', sd_on_block_band = BB_Block\<rparr>"

section \<open>Properties\<close>

lemma merged_decides:
  "case deciding_dest dests dev of
     None \<Rightarrow>
       fst (usb_decide (to_policy (merge_into_usb c dests)) dev) = fst (usb_decide (to_policy c) dev)
       \<and> encrypt_params (merge_into_usb c dests) dev = encrypt_params c dev
   | Some d \<Rightarrow>
       fst (usb_decide (to_policy (merge_into_usb c dests)) dev)
         = (case local_action_for c (sd_matcher d) of Some a \<Rightarrow> max Encrypt a | None \<Rightarrow> Encrypt)
       \<and> encrypt_params (merge_into_usb c dests) dev
         = (sd_mode d, if sd_key_id d = [] then None else Some (sd_key_id d), sd_on_block_band d)
       \<and> uc_enabled (merge_into_usb c dests)"
proof (cases "deciding_dest dests dev")
  case None
  have "uc_default_action (merge_into_usb c dests) = uc_default_action c"
    by (simp add: merge_into_usb_def Let_def)
  with None show ?thesis
    by (simp add: usb_decide_configured encrypt_params_configured find_merged split: option.split)
next
  case (Some d)
  then have "d \<in> set dests" "sd_channel d = lit ''usb''"
    by (auto simp: deciding_dest_def find_Some_iff)
  then have "uc_enabled (merge_into_usb c dests)"
    by (auto simp: merge_into_usb_def Let_def filter_empty_conv)
  with Some merge_params [OF Some, of c] show ?thesis
    by (simp add: usb_decide_configured find_merged to_usb_rule_def Let_def synced_action_def max_restrictive_max
        split: synced_matcher.split option.split)
qed

text \<open>
  C15. What synchronization decides. For a device that no synced USB destination matches the
  decision and the sealing parameters are the local ones. For a device that one matches, the
  first such destination decides: the action is at least to encrypt, never plain
  audit, and at least as strict as the local action of the rule that names the device by the
  same matcher; the mode, the key and the block band are those of that destination.
\<close>

theorem synced_destination_decides:
  "case deciding_dest dests dev of
     None \<Rightarrow>
       fst (usb_decide (to_policy (merge_into_usb c dests)) dev) = fst (usb_decide (to_policy c) dev)
       \<and> encrypt_params (merge_into_usb c dests) dev = encrypt_params c dev
   | Some d \<Rightarrow>
       fst (usb_decide (to_policy (merge_into_usb c dests)) dev)
         = (case local_action_for c (sd_matcher d) of Some a \<Rightarrow> max Encrypt a | None \<Rightarrow> Encrypt)
       \<and> encrypt_params (merge_into_usb c dests) dev
         = (sd_mode d, if sd_key_id d = [] then None else Some (sd_key_id d), sd_on_block_band d)
       \<and> uc_enabled (merge_into_usb c dests)"
  by (rule merged_decides)

text \<open>
  The persisted destinations survive a restart: when the codec decodes the document it
  encoded, parsing the serialized list gives the same list.
\<close>

theorem destinations_round_trip:
  assumes "to_vec (destinations_document dests) = Some bs" and "from_slice bs = Some (destinations_document dests)"
  shows "parse_destinations from_slice (serialize_destinations to_vec dests) = Some dests"
  using assms
  by (simp add: serialize_destinations_def parse_destinations_def destinations_document_def try_map_round_trip
      dest_round_trip)

lemma destinations_round_trip_witness:
  "parse_destinations (\<lambda>_. Some (destinations_document [example_dest])) (serialize_destinations (\<lambda>_. Some [1]) [example_dest])
     = Some [example_dest]"
  by (rule destinations_round_trip) simp_all

text \<open>
  A synced keyring is usable. When the delivered keys have distinct ids and each decodes
  to 32 bytes, storing and loading the keyring document gives a ring that satisfies the
  invariant and finds every delivered key under its id, with the delivered bytes; its
  active key is a delivered one, and one that a destination refers to if there is any.
\<close>

theorem synced_keyring_usable:
  assumes "keyring_document tc = Some kf" and "to_vec kf = Some bs" and "parse bs = Inr kf"
    and "distinct (map sk_id (tc_keys tc))"
    and "list_all (\<lambda>k. \<exists>raw. b64_decode (sk_key_b64 k) = Inr raw \<and> length raw = 32) (tc_keys tc)"
  shows "\<exists>ring. to_keyring_json to_vec tc = Some bs \<and> from_dev_json parse b64_decode bs = Inr ring
    \<and> keyring_wf ring \<and> active_key_id tc = Some (kr_active_key_id ring)
    \<and> (\<forall>k raw. k \<in> set (tc_keys tc) \<longrightarrow> b64_decode (sk_key_b64 k) = Inr raw \<longrightarrow>
         keyring_lookup ring (sk_id k) = Inr \<lparr>kek_id = sk_id k, kek_bytes = raw\<rparr>)"
proof -
  let ?kvs = "map (\<lambda>k. (sk_id k, sk_key_b64 k)) (tc_keys tc)"
  obtain active where act: "active_key_id tc = Some active"
    and kf: "kf = \<lparr>kf_active_key_id = active, kf_keys = ?kvs, kf_destroyed = []\<rparr>"
    using assms(1) document_keys [OF assms(4)] by (auto simp: keyring_document_def)
  have dist: "distinct (map fst ?kvs)" using assms(4) by (simp add: comp_def)
  have dec: "\<forall>(kid, b) \<in> set ?kvs. \<exists>raw. b64_decode b = Inr raw \<and> length raw = 32"
    using assms(5) by (auto simp: list_all_iff)
  have "kr_destroyed (keyring_new active) = {}" "kr_keys (keyring_new active) kid = None" for kid
    by (simp_all add: keyring_new_def)
  then obtain ring where ring: "load_keys b64_decode ?kvs (keyring_new active) = Inr ring"
    and keys: "\<And>kid. kr_keys ring kid =
      (case map_of ?kvs kid of Some b \<Rightarrow> Some \<lparr>kek_id = kid, kek_bytes = projr (b64_decode b)\<rparr> | None \<Rightarrow> None)"
    using load_keys_total [OF dec dist, of "keyring_new active"] by metis
  have spec: "keyring_wf ring" "kr_destroyed ring = {}" "kr_active_key_id ring = active"
    using load_keys_spec [OF ring keyring_new_wf] by (simp_all add: keyring_new_def)
  have look: "keyring_lookup ring (sk_id k) = Inr \<lparr>kek_id = sk_id k, kek_bytes = projr (b64_decode (sk_key_b64 k))\<rparr>"
    if "k \<in> set (tc_keys tc)" for k
  proof -
    have "map_of ?kvs (sk_id k) = Some (sk_key_b64 k)"
      using that dist by (intro map_of_is_SomeI) auto
    then show ?thesis by (simp add: keyring_lookup_Inr spec(2) keys)
  qed
  from active_key_delivered [OF act] look obtain kek where "keyring_lookup ring active = Inr kek" by force
  then have "from_dev_json parse b64_decode bs = Inr ring"
    using ring by (simp add: from_dev_json_def assms(3) kf Let_def keyring_new_def)
  moreover have "to_keyring_json to_vec tc = Some bs" by (simp add: to_keyring_json_def assms(1,2))
  ultimately show ?thesis using spec act look by fastforce
qed

definition example_synced :: trusted_config where
  "example_synced =
     \<lparr>tc_destinations = [example_dest],
      tc_keys = [\<lparr>sk_id = lit ''j'', sk_key_b64 = lit ''x''\<rparr>, \<lparr>sk_id = lit ''k'', sk_key_b64 = lit ''y''\<rparr>]\<rparr>"

lemma synced_keyring_usable_witness:
  "\<exists>ring. from_dev_json (\<lambda>_. Inr (the (keyring_document example_synced))) (\<lambda>_. Inr (replicate 32 7)) [1] = Inr ring
     \<and> kr_active_key_id ring = lit ''k''
     \<and> keyring_lookup ring (lit ''j'') = Inr \<lparr>kek_id = lit ''j'', kek_bytes = replicate 32 7\<rparr>"
proof -
  have act: "active_key_id example_synced = Some (lit ''k'')"
    by (simp add: active_key_id_def example_synced_def example_dest_def lit_def)
  then obtain kf where kf: "keyring_document example_synced = Some kf" by (simp add: keyring_document_def)
  have "\<exists>ring. to_keyring_json (\<lambda>_. Some [1]) example_synced = Some [1]
    \<and> from_dev_json (\<lambda>_. Inr kf) (\<lambda>_. Inr (replicate 32 7)) [1] = Inr ring
    \<and> keyring_wf ring \<and> active_key_id example_synced = Some (kr_active_key_id ring)
    \<and> (\<forall>k raw. k \<in> set (tc_keys example_synced) \<longrightarrow> (\<lambda>_. Inr (replicate 32 7) :: ustring + bytes) (sk_key_b64 k) = Inr raw \<longrightarrow>
         keyring_lookup ring (sk_id k) = Inr \<lparr>kek_id = sk_id k, kek_bytes = raw\<rparr>)"
    by (rule synced_keyring_usable [OF kf]) (simp_all add: example_synced_def lit_def)
  with kf act show ?thesis by (auto simp: example_synced_def)
qed

end
