(* ===== verification/Copy_Auditor.thy ===== *)
theory Copy_Auditor
  imports Usb_Incident Trust_Dest
begin

text \<open>
  The copy auditor of \<open>usb/audit.rs\<close>: the bounded set of files already scanned, the walk of
  a volume and the poll that finds the files that have settled. The clock is the argument
  \<open>now_ms\<close>, the volume a finite tree read at the time of the poll, and \<open>can_open\<close> tells
  which files open. The retry counter of a file is unbounded here.
\<close>

section \<open>The bounded set of seen files\<close>

type_synonym file_key = "path \<times> u64 \<times> u64"

record bounded_seen =
  bs_cap :: nat
  bs_order :: "file_key list"
  bs_set :: "file_key set"

definition seen_new :: "nat \<Rightarrow> bounded_seen" where
  "seen_new cap = \<lparr>bs_cap = cap, bs_order = [], bs_set = {}\<rparr>"

definition seen_contains :: "bounded_seen \<Rightarrow> file_key \<Rightarrow> bool" where
  "seen_contains s k \<longleftrightarrow> k \<in> bs_set s"

function seen_evict :: "bounded_seen \<Rightarrow> bounded_seen" where
  "seen_evict s =
     (if length (bs_order s) \<le> bs_cap s then s
      else case bs_order s of
        [] \<Rightarrow> s
      | old # rest \<Rightarrow> seen_evict (s\<lparr>bs_order := rest, bs_set := bs_set s - {old}\<rparr>))"
  by auto

termination
  by (relation "measure (\<lambda>s. length (bs_order s))") auto

declare seen_evict.simps [simp del]

definition seen_insert :: "file_key \<Rightarrow> bounded_seen \<Rightarrow> bounded_seen" where
  "seen_insert k s =
     (if k \<in> bs_set s then s
      else seen_evict (s\<lparr>bs_set := insert k (bs_set s), bs_order := bs_order s @ [k]\<rparr>))"

section \<open>Sealed envelopes\<close>

definition is_sealed_envelope_path :: "path \<Rightarrow> bool" where
  "is_sealed_envelope_path p =
     (case file_name p of
        None \<Rightarrow> False
      | Some name \<Rightarrow>
          let lower = to_ascii_lowercase name
          in ends_with lower (lit ''.dlpenc'') \<or> ends_with lower (lit ''.dlpenc.tmp''))"

definition MAX_LOCK_RETRIES :: nat where
  "MAX_LOCK_RETRIES = 5"

definition SEEN_CAP :: nat where
  "SEEN_CAP = 10000"

section \<open>Walking a volume\<close>

text \<open>
  A node is a directory, readable or not, a regular file with size and modification time,
  or something else, which includes an entry whose metadata cannot be read.
\<close>

datatype fs_node =
  FN_Dir "(ustring \<times> fs_node) list option"
| FN_File u64 u64
| FN_Other

text \<open>The entries of one directory: the files to report and the directories to visit.\<close>

fun scan_entries :: "path \<Rightarrow> (ustring \<times> fs_node) list \<Rightarrow> (path \<times> fs_node) list \<times> file_key list" where
  "scan_entries dir [] = ([], [])"
| "scan_entries dir ((name, node) # es) =
     (let (dirs, out) = scan_entries dir es; p = dir @ [name]
      in case node of
           FN_Dir _ \<Rightarrow> ((p, node) # dirs, out)
         | FN_File sz mt \<Rightarrow> (dirs, if is_sealed_envelope_path p then out else (p, sz, mt) # out)
         | FN_Other \<Rightarrow> (dirs, out))"

text \<open>The number of nodes of a tree bounds the walk.\<close>

fun node_count :: "fs_node \<Rightarrow> nat" where
  "node_count (FN_Dir (Some es)) = Suc (sum_list (map (\<lambda>(_, n). node_count n) es))"
| "node_count _ = 1"

lemma scan_entries_count:
  "sum_list (map (\<lambda>(_, n). node_count n) (fst (scan_entries dir es)))
     \<le> sum_list (map (\<lambda>(_, n). node_count n) es)"
  by (induction dir es rule: scan_entries.induct) (auto simp: Let_def split: prod.splits fs_node.splits)

text \<open>
  The loop pops a directory from the stack; its subdirectories are pushed in order, so the
  last one is visited next.
\<close>

function scan_loop :: "(path \<times> fs_node) list \<Rightarrow> file_key list \<Rightarrow> file_key list" where
  "scan_loop [] out = out"
| "scan_loop ((dir, FN_Dir (Some es)) # stack) out =
     (let (dirs, files) = scan_entries dir es in scan_loop (rev dirs @ stack) (out @ files))"
| "scan_loop ((dir, FN_Dir None) # stack) out = scan_loop stack out"
| "scan_loop ((dir, FN_File sz mt) # stack) out = scan_loop stack out"
| "scan_loop ((dir, FN_Other) # stack) out = scan_loop stack out"
  by pat_completeness auto

termination
proof (relation "measure (\<lambda>(stack, _). sum_list (map (\<lambda>(_, n). node_count n) stack))")
  fix dir es stack out x dirs files
  assume "x = scan_entries dir es" and "(dirs, files) = x"
  then have "sum_list (map (\<lambda>(_, n). node_count n) dirs) \<le> sum_list (map (\<lambda>(_, n). node_count n) es)"
    using scan_entries_count [of dir es] by (metis fst_conv)
  then show "((rev dirs @ stack, out @ files), ((dir, FN_Dir (Some es)) # stack, out))
      \<in> measure (\<lambda>(stack, _). sum_list (map (\<lambda>(_, n). node_count n) stack))"
    by (simp add: rev_map [symmetric])
qed auto

definition scan_tree :: "path \<Rightarrow> fs_node \<Rightarrow> file_key list" where
  "scan_tree base node = scan_loop [(base, node)] []"

section \<open>The auditor\<close>

record file_state =
  fst_size :: u64
  fst_mtime_ms :: u64
  fst_first_seen_ms :: u64
  fst_last_change_ms :: u64
  fst_lock_retries :: nat

record copy_auditor =
  ca_root :: path
  ca_settle_ms :: u64
  ca_settle_timeout_ms :: u64
  ca_tracked :: "path \<rightharpoonup> file_state"
  ca_seen :: bounded_seen

record settled =
  st_path :: path
  st_size :: u64
  st_by_timeout :: bool

definition auditor_new :: "path \<Rightarrow> u64 \<Rightarrow> u64 \<Rightarrow> copy_auditor" where
  "auditor_new base settle_ms settle_timeout_ms =
     \<lparr>ca_root = base, ca_settle_ms = settle_ms, ca_settle_timeout_ms = settle_timeout_ms,
      ca_tracked = Map.empty, ca_seen = seen_new SEEN_CAP\<rparr>"

definition baseline_existing :: "fs_node \<Rightarrow> copy_auditor \<Rightarrow> nat \<times> copy_auditor" where
  "baseline_existing vol a =
     (let current = scan_tree (ca_root a) vol
      in (length current, a\<lparr>ca_seen := fold seen_insert current (ca_seen a)\<rparr>))"

text \<open>The entry of a file after its size and time were compared, and whether it may settle now.\<close>

definition observe :: "copy_auditor \<Rightarrow> u64 \<Rightarrow> file_key \<Rightarrow> file_state \<times> bool" where
  "observe a now_ms k =
     (let (p, sz, mt) = k;
          entry = (case ca_tracked a p of
                     Some e \<Rightarrow> e
                   | None \<Rightarrow> \<lparr>fst_size = sz, fst_mtime_ms = mt, fst_first_seen_ms = now_ms,
                              fst_last_change_ms = now_ms, fst_lock_retries = 0\<rparr>)
      in if fst_size entry \<noteq> sz \<or> fst_mtime_ms entry \<noteq> mt
         then (entry\<lparr>fst_size := sz, fst_mtime_ms := mt, fst_last_change_ms := now_ms\<rparr>,
               \<not> saturating_sub now_ms (fst_first_seen_ms entry) < ca_settle_timeout_ms a)
         else (entry, True))"

definition by_timeout :: "copy_auditor \<Rightarrow> u64 \<Rightarrow> file_state \<Rightarrow> bool" where
  "by_timeout a now_ms entry \<longleftrightarrow>
     saturating_sub now_ms (fst_first_seen_ms entry) \<ge> ca_settle_timeout_ms a
     \<and> saturating_sub now_ms (fst_last_change_ms entry) < ca_settle_ms a"

definition is_settled :: "copy_auditor \<Rightarrow> u64 \<Rightarrow> file_state \<Rightarrow> bool" where
  "is_settled a now_ms entry \<longleftrightarrow>
     saturating_sub now_ms (fst_last_change_ms entry) \<ge> ca_settle_ms a \<or> by_timeout a now_ms entry"

definition poll_file ::
  "(path \<Rightarrow> bool) \<Rightarrow> u64 \<Rightarrow> file_key \<Rightarrow> copy_auditor \<Rightarrow> settled option \<times> copy_auditor" where
  "poll_file can_open now_ms k a =
     (let p = fst k; (entry, may_settle) = observe a now_ms k;
          a' = a\<lparr>ca_tracked := (ca_tracked a)(p \<mapsto> entry)\<rparr>
      in if \<not> may_settle \<or> \<not> is_settled a now_ms entry \<or> seen_contains (ca_seen a) k then (None, a')
         else
           let entry' = (if can_open p then entry else entry\<lparr>fst_lock_retries := Suc (fst_lock_retries entry)\<rparr>);
               a'' = a\<lparr>ca_tracked := (ca_tracked a)(p \<mapsto> entry')\<rparr>
           in if \<not> can_open p \<and> fst_lock_retries entry' < MAX_LOCK_RETRIES then (None, a'')
              else (Some \<lparr>st_path = p, st_size = fst (snd k), st_by_timeout = by_timeout a now_ms entry\<rparr>,
                    a''\<lparr>ca_seen := seen_insert k (ca_seen a)\<rparr>))"

fun poll_loop ::
  "(path \<Rightarrow> bool) \<Rightarrow> u64 \<Rightarrow> file_key list \<Rightarrow> copy_auditor \<Rightarrow> settled list \<times> copy_auditor" where
  "poll_loop can_open now_ms [] a = ([], a)"
| "poll_loop can_open now_ms (k # ks) a =
     (let (s, a1) = poll_file can_open now_ms k a; (ss, a2) = poll_loop can_open now_ms ks a1
      in (case s of Some x \<Rightarrow> x # ss | None \<Rightarrow> ss, a2))"

definition poll :: "fs_node \<Rightarrow> (path \<Rightarrow> bool) \<Rightarrow> u64 \<Rightarrow> copy_auditor \<Rightarrow> settled list \<times> copy_auditor" where
  "poll vol can_open now_ms a =
     (let current = scan_tree (ca_root a) vol; present = fst ` set current
      in poll_loop can_open now_ms current (a\<lparr>ca_tracked := ca_tracked a |` present\<rparr>))"

section \<open>The seen set\<close>

text \<open>The set holds what the queue holds, and never more than the bound.\<close>

definition seen_wf :: "bounded_seen \<Rightarrow> bool" where
  "seen_wf s \<longleftrightarrow> bs_set s = set (bs_order s) \<and> distinct (bs_order s) \<and> length (bs_order s) \<le> bs_cap s"

lemma seen_evict_drop:
  assumes "bs_set s = set (bs_order s)" and "distinct (bs_order s)"
  shows "seen_evict s = (let o' = drop (length (bs_order s) - bs_cap s) (bs_order s)
    in s\<lparr>bs_order := o', bs_set := set o'\<rparr>)"
  using assms
proof (induction s rule: seen_evict.induct)
  case (1 s)
  show ?case
  proof (cases "length (bs_order s) \<le> bs_cap s")
    case True
    with 1(2) show ?thesis by (simp add: seen_evict.simps [of s])
  next
    case False
    then obtain x xs where o: "bs_order s = x # xs" by (cases "bs_order s") auto
    have "bs_set s - {x} = set xs" using 1(2,3) o by auto
    with 1(1) [OF False o] 1(3) o False show ?thesis
      by (simp add: seen_evict.simps [of s] Let_def Suc_diff_le)
  qed
qed

lemma seen_insert_new:
  assumes "seen_wf s" and "k \<notin> bs_set s"
  shows "seen_insert k s =
    (let q = (if length (bs_order s) < bs_cap s then bs_order s @ [k] else drop 1 (bs_order s @ [k]))
     in s\<lparr>bs_order := q, bs_set := set q\<rparr>)"
proof -
  let ?s = "s\<lparr>bs_set := insert k (bs_set s), bs_order := bs_order s @ [k]\<rparr>"
  have "bs_set ?s = set (bs_order ?s)" "distinct (bs_order ?s)" using assms by (auto simp: seen_wf_def)
  moreover have "length (bs_order ?s) - bs_cap ?s = (if length (bs_order s) < bs_cap s then 0 else 1)"
    using assms(1) by (auto simp: seen_wf_def)
  ultimately show ?thesis using assms(2) seen_evict_drop [of ?s] by (simp add: seen_insert_def Let_def)
qed

lemma seen_insert_old: "k \<in> bs_set s \<Longrightarrow> seen_insert k s = s"
  by (simp add: seen_insert_def)

lemma seen_insert_subset:
  assumes "seen_wf s"
  shows "bs_set (seen_insert k s) \<subseteq> insert k (bs_set s)"
proof (cases "k \<in> bs_set s")
  case False
  have "set (drop 1 (bs_order s @ [k])) \<subseteq> insert k (bs_set s)"
    using set_drop_subset [of 1 "bs_order s @ [k]"] assms by (simp add: seen_wf_def)
  with False assms show ?thesis by (simp add: seen_insert_new Let_def) (simp add: seen_wf_def subset_insertI)
qed (simp add: seen_insert_old subset_insertI)

lemma seen_insert_wf:
  assumes "seen_wf s"
  shows "seen_wf (seen_insert k s) \<and> bs_cap (seen_insert k s) = bs_cap s"
proof (cases "k \<in> bs_set s")
  case False
  then have "distinct (bs_order s @ [k])" using assms by (simp add: seen_wf_def)
  then have "distinct (drop 1 (bs_order s @ [k]))" by (rule distinct_drop)
  with False assms \<open>distinct (bs_order s @ [k])\<close> show ?thesis
    by (simp add: seen_insert_new Let_def) (auto simp: seen_wf_def)
qed (simp add: seen_insert_old assms)

lemma seen_insert_contains: "seen_wf s \<Longrightarrow> 0 < bs_cap s \<Longrightarrow> k \<in> bs_set (seen_insert k s)"
  by (cases "k \<in> bs_set s"; cases "bs_order s") (auto simp: seen_insert_old seen_insert_new Let_def seen_wf_def)

lemma seen_new_wf [simp]: "seen_wf (seen_new cap)"
  by (simp add: seen_wf_def seen_new_def)

section \<open>What a walk finds\<close>

fun tree_files :: "path \<Rightarrow> fs_node \<Rightarrow> file_key list" where
  "tree_files p (FN_Dir (Some es)) = concat (map (\<lambda>(n, node). tree_files (p @ [n]) node) es)"
| "tree_files p (FN_Dir None) = []"
| "tree_files p (FN_File sz mt) = (if is_sealed_envelope_path p then [] else [(p, sz, mt)])"
| "tree_files p FN_Other = []"

text \<open>Names within a directory are distinct.\<close>

fun tree_wf :: "fs_node \<Rightarrow> bool" where
  "tree_wf (FN_Dir (Some es)) \<longleftrightarrow> distinct (map fst es) \<and> list_all (\<lambda>(_, n). tree_wf n) es"
| "tree_wf _ \<longleftrightarrow> True"

definition stack_files :: "(path \<times> fs_node) list \<Rightarrow> file_key multiset" where
  "stack_files stack = sum_list (map (\<lambda>(p, n). mset (tree_files p n)) stack)"

fun is_dir :: "fs_node \<Rightarrow> bool" where
  "is_dir (FN_Dir _) \<longleftrightarrow> True"
| "is_dir _ \<longleftrightarrow> False"

lemma scan_entries_files:
  "stack_files (fst (scan_entries dir es)) + mset (snd (scan_entries dir es))
     = sum_list (map (\<lambda>(n, node). mset (tree_files (dir @ [n]) node)) es)"
  by (induction dir es rule: scan_entries.induct)
    (auto simp: stack_files_def Let_def split: prod.splits fs_node.splits)

lemma scan_entries_dirs: "list_all (is_dir \<circ> snd) (fst (scan_entries dir es))"
  by (induction dir es rule: scan_entries.induct)
    (auto simp: Let_def split: prod.split fs_node.split)

lemma mset_concat_map: "mset (concat (map f xs)) = sum_list (map (\<lambda>x. mset (f x)) xs)"
  by (induction xs) simp_all

lemma stack_files_append [simp]: "stack_files (xs @ ys) = stack_files xs + stack_files ys"
  by (simp add: stack_files_def)

lemma stack_files_rev [simp]: "stack_files (rev xs) = stack_files xs"
  by (simp add: stack_files_def rev_map [symmetric] sum_list_rev)

lemma scan_loop_files:
  "list_all (is_dir \<circ> snd) stack \<Longrightarrow> mset (scan_loop stack out) = mset out + stack_files stack"
proof (induction stack out rule: scan_loop.induct)
  case (2 dir es stack out)
  obtain dirs files where e: "scan_entries dir es = (dirs, files)" by fastforce
  have "list_all (is_dir \<circ> snd) (rev dirs @ stack)"
    using scan_entries_dirs [of dir es] e 2(2) by (auto simp: list_all_iff)
  from 2(1) [OF e [symmetric] refl this]
  have "mset (scan_loop (rev dirs @ stack) (out @ files)) = mset out + (stack_files dirs + mset files) + stack_files stack"
    by (simp add: ac_simps)
  moreover have "stack_files dirs + mset files = mset (tree_files dir (FN_Dir (Some es)))"
    using scan_entries_files [of dir es] e by (simp add: mset_concat_map case_prod_unfold)
  moreover have "stack_files ((dir, FN_Dir (Some es)) # stack) = mset (tree_files dir (FN_Dir (Some es))) + stack_files stack"
    by (simp add: stack_files_def)
  ultimately show ?case using e by (simp add: ac_simps del: tree_files.simps)
qed (simp_all add: stack_files_def)

lemma scan_tree_files: "is_dir node \<Longrightarrow> mset (scan_tree p node) = mset (tree_files p node)"
  by (simp add: scan_tree_def scan_loop_files stack_files_def)

lemma tree_files_prefix: "k \<in> set (tree_files p node) \<Longrightarrow> \<exists>q. fst k = p @ q"
  by (induction p node rule: tree_files.induct) (fastforce split: if_splits)+

lemma tree_files_distinct: "tree_wf node \<Longrightarrow> distinct (map fst (tree_files p node))"
proof (induction p node rule: tree_files.induct)
  case (1 p es)
  have "distinct (map fst (concat (map (\<lambda>(n, node). tree_files (p @ [n]) node) es')))" if "set es' \<subseteq> set es" "distinct (map fst es')" for es'
    using that
  proof (induction es')
    case (Cons e es')
    obtain n node where e: "e = (n, node)" by fastforce
    have "tree_wf node" using 1(2) Cons.prems(1) e by (auto simp: list_all_iff)
    then have "distinct (map fst (tree_files (p @ [n]) node))" using 1(1) Cons.prems(1) e by force
    moreover have "fst ` set (tree_files (p @ [n]) node)
        \<inter> fst ` set (concat (map (\<lambda>(n, node). tree_files (p @ [n]) node) es')) = {}"
    proof -
      have "x \<noteq> y" if x: "x \<in> fst ` set (tree_files (p @ [n]) node)"
        and m: "(m, node') \<in> set es'" and y: "y \<in> fst ` set (tree_files (p @ [m]) node')" for x y m node'
      proof -
        have "n \<noteq> m" using Cons.prems(2) m e by force
        moreover obtain qx qy where "x = (p @ [n]) @ qx" "y = (p @ [m]) @ qy"
          using x y tree_files_prefix by blast
        ultimately show ?thesis by simp
      qed
      then show ?thesis by (fastforce simp: image_iff)
    qed
    ultimately show ?case using Cons.IH Cons.prems e by (simp add: image_image [symmetric])
  qed simp
  from this [of es] 1(2) show ?case by simp
qed auto

lemma scan_tree_distinct:
  assumes "is_dir node" and "tree_wf node"
  shows "distinct (map fst (scan_tree p node))"
proof -
  have "mset (map fst (scan_tree p node)) = mset (map fst (tree_files p node))"
    using scan_tree_files [OF assms(1), of p] by (simp only: mset_map)
  then show ?thesis using tree_files_distinct [OF assms(2)] mset_eq_imp_distinct_iff by blast
qed

section \<open>One poll\<close>

lemma poll_file_params:
  "snd (poll_file can_open now k a) = a\<lparr>ca_tracked := ca_tracked (snd (poll_file can_open now k a)),
     ca_seen := ca_seen (snd (poll_file can_open now k a))\<rparr>"
  by (simp add: poll_file_def Let_def split: prod.split)

lemma poll_file_tracked_other:
  "p \<noteq> fst k \<Longrightarrow> ca_tracked (snd (poll_file can_open now k a)) p = ca_tracked a p"
  by (auto simp: poll_file_def Let_def split: prod.split)

lemma poll_file_seen:
  "ca_seen (snd (poll_file can_open now k a)) = ca_seen a
   \<or> ca_seen (snd (poll_file can_open now k a)) = seen_insert k (ca_seen a)"
  by (auto simp: poll_file_def Let_def split: prod.split)

lemma poll_file_seen_wf:
  assumes "seen_wf (ca_seen a)"
  shows "seen_wf (ca_seen (snd (poll_file can_open now k a)))"
    and "k' \<noteq> k \<Longrightarrow> k' \<in> bs_set (ca_seen (snd (poll_file can_open now k a))) \<Longrightarrow> k' \<in> bs_set (ca_seen a)"
  using poll_file_seen [of can_open now k a] seen_insert_wf [OF assms, of k] seen_insert_subset [OF assms, of k] assms
  by auto

text \<open>What is waited for: the file is tracked, unchanged since \<open>t0\<close>, and not yet scanned.\<close>

definition waiting :: "copy_auditor \<Rightarrow> file_key \<Rightarrow> u64 \<Rightarrow> bool" where
  "waiting a k t0 \<longleftrightarrow> k \<notin> bs_set (ca_seen a)
     \<and> (\<exists>e. ca_tracked a (fst k) = Some e \<and> (fst_size e, fst_mtime_ms e) = snd k \<and> fst_last_change_ms e \<le> t0)"

text \<open>Before the first poll of a file: what is tracked of it is not from the future.\<close>

definition arriving :: "copy_auditor \<Rightarrow> file_key \<Rightarrow> u64 \<Rightarrow> bool" where
  "arriving a k t0 \<longleftrightarrow> k \<notin> bs_set (ca_seen a)
     \<and> (\<forall>e. ca_tracked a (fst k) = Some e \<longrightarrow> fst_last_change_ms e \<le> t0)"

definition reports :: "settled \<Rightarrow> file_key \<Rightarrow> bool" where
  "reports s k \<longleftrightarrow> st_path s = fst k \<and> st_size s = fst (snd k)"

lemma observe_arriving:
  assumes "arriving a k t0"
  shows "\<exists>e m. observe a t0 k = (e, m) \<and> (fst_size e, fst_mtime_ms e) = snd k \<and> fst_last_change_ms e \<le> t0"
  using assms by (cases k; cases "ca_tracked a (fst k)") (auto simp: observe_def arriving_def Let_def)

lemma poll_file_arriving:
  assumes "arriving a k t0" and "can_open (fst k)"
  shows "(\<exists>x. fst (poll_file can_open t0 k a) = Some x \<and> reports x k)
    \<or> fst (poll_file can_open t0 k a) = None \<and> waiting (snd (poll_file can_open t0 k a)) k t0"
proof -
  obtain e m where e: "observe a t0 k = (e, m)" "(fst_size e, fst_mtime_ms e) = snd k" "fst_last_change_ms e \<le> t0"
    using observe_arriving [OF assms(1)] by blast
  have "k \<notin> bs_set (ca_seen a)" using assms(1) by (simp add: arriving_def)
  with e assms(2) show ?thesis
    by (auto simp: poll_file_def Let_def waiting_def reports_def seen_contains_def)
qed

lemma saturating_sub_mono: "b' \<le> b \<Longrightarrow> saturating_sub a b \<le> saturating_sub a b'"
  by (auto simp: saturating_sub_def word_le_nat_alt unat_sub)

lemma observe_waiting:
  assumes "waiting a k t0"
  shows "observe a t k = (the (ca_tracked a (fst k)), True)"
  using assms by (cases k) (auto simp: observe_def waiting_def Let_def)

lemma poll_file_waiting:
  assumes "waiting a k t0" and "can_open (fst k)"
  shows "(\<exists>x. fst (poll_file can_open t k a) = Some x \<and> reports x k)
    \<or> fst (poll_file can_open t k a) = None \<and> waiting (snd (poll_file can_open t k a)) k t0
        \<and> \<not> ca_settle_ms a \<le> saturating_sub t t0"
proof -
  obtain e where e: "ca_tracked a (fst k) = Some e" "(fst_size e, fst_mtime_ms e) = snd k" "fst_last_change_ms e \<le> t0"
    and n: "k \<notin> bs_set (ca_seen a)" using assms(1) by (auto simp: waiting_def)
  have "ca_settle_ms a \<le> saturating_sub t (fst_last_change_ms e)" if "ca_settle_ms a \<le> saturating_sub t t0"
    using that saturating_sub_mono [OF e(3), of t] by (rule order_trans)
  then have "is_settled a t e" if "ca_settle_ms a \<le> saturating_sub t t0"
    using that by (simp add: is_settled_def)
  with e n assms(2) observe_waiting [OF assms(1), of t] show ?thesis
    by (auto simp: poll_file_def Let_def waiting_def reports_def seen_contains_def)
qed

lemma poll_loop_Cons:
  "fst (poll_loop f t (k # ks) a) = (case fst (poll_file f t k a) of Some x \<Rightarrow> [x] | None \<Rightarrow> [])
     @ fst (poll_loop f t ks (snd (poll_file f t k a)))"
  "snd (poll_loop f t (k # ks) a) = snd (poll_loop f t ks (snd (poll_file f t k a)))"
  by (simp_all add: Let_def split: prod.split option.split)

lemma poll_loop_keeps:
  assumes "seen_wf (ca_seen a)"
  shows "seen_wf (ca_seen (snd (poll_loop f t ks a)))"
    and "fst k \<notin> fst ` set ks \<Longrightarrow> ca_tracked (snd (poll_loop f t ks a)) (fst k) = ca_tracked a (fst k)"
    and "k \<notin> set ks \<Longrightarrow> k \<in> bs_set (ca_seen (snd (poll_loop f t ks a))) \<Longrightarrow> k \<in> bs_set (ca_seen a)"
    and "ca_settle_ms (snd (poll_loop f t ks a)) = ca_settle_ms a \<and> ca_root (snd (poll_loop f t ks a)) = ca_root a"
proof -
  have "seen_wf (ca_seen (snd (poll_loop f t ks a)))
    \<and> (fst k \<notin> fst ` set ks \<longrightarrow> ca_tracked (snd (poll_loop f t ks a)) (fst k) = ca_tracked a (fst k))
    \<and> (k \<notin> set ks \<longrightarrow> k \<in> bs_set (ca_seen (snd (poll_loop f t ks a))) \<longrightarrow> k \<in> bs_set (ca_seen a))
    \<and> ca_settle_ms (snd (poll_loop f t ks a)) = ca_settle_ms a \<and> ca_root (snd (poll_loop f t ks a)) = ca_root a"
    using assms
  proof (induction ks arbitrary: a)
    case (Cons k1 ks)
    have p: "ca_settle_ms (snd (poll_file f t k1 a)) = ca_settle_ms a" "ca_root (snd (poll_file f t k1 a)) = ca_root a"
      by (subst poll_file_params, simp)+
    from Cons.IH [OF poll_file_seen_wf(1) [OF Cons.prems, of f t k1]] poll_file_seen_wf(2) [OF Cons.prems, of k k1 f t]
      poll_file_tracked_other [of "fst k" k1 f t a] show ?case
      unfolding poll_loop_Cons p by auto
  qed simp
  then show "seen_wf (ca_seen (snd (poll_loop f t ks a)))"
    and "fst k \<notin> fst ` set ks \<Longrightarrow> ca_tracked (snd (poll_loop f t ks a)) (fst k) = ca_tracked a (fst k)"
    and "k \<notin> set ks \<Longrightarrow> k \<in> bs_set (ca_seen (snd (poll_loop f t ks a))) \<Longrightarrow> k \<in> bs_set (ca_seen a)"
    and "ca_settle_ms (snd (poll_loop f t ks a)) = ca_settle_ms a \<and> ca_root (snd (poll_loop f t ks a)) = ca_root a"
    by blast+
qed

lemma poll_loop_append:
  "fst (poll_loop f t (ks @ ks') a) = fst (poll_loop f t ks a) @ fst (poll_loop f t ks' (snd (poll_loop f t ks a)))"
  "snd (poll_loop f t (ks @ ks') a) = snd (poll_loop f t ks' (snd (poll_loop f t ks a)))"
  by (induction ks arbitrary: a) (simp_all add: poll_loop_Cons del: poll_loop.simps(2))

lemma poll_loop_split:
  assumes "distinct (map fst ks)" and "k \<in> set ks"
  obtains pre post where "ks = pre @ k # post" and "fst k \<notin> fst ` set pre" and "fst k \<notin> fst ` set post"
  using split_list [OF assms(2)] assms(1) by force

lemma keeps_arriving:
  assumes "seen_wf (ca_seen a)" and "fst k \<notin> fst ` set ks"
  shows "arriving a k t0 \<Longrightarrow> arriving (snd (poll_loop f t ks a)) k t0"
    and "waiting a k t0 \<Longrightarrow> waiting (snd (poll_loop f t ks a)) k t0"
proof -
  have "k \<notin> set ks" using assms(2) by blast
  with poll_loop_keeps(2,3) [OF assms(1), of k ks f t] assms(2)
  show "arriving a k t0 \<Longrightarrow> arriving (snd (poll_loop f t ks a)) k t0"
    and "waiting a k t0 \<Longrightarrow> waiting (snd (poll_loop f t ks a)) k t0"
    by (auto simp: arriving_def waiting_def)
qed

text \<open>A poll either reports the file, or leaves it waiting and the quiet time is not over.\<close>

lemma poll_loop_key:
  assumes "seen_wf (ca_seen a)" and "distinct (map fst ks)" and "k \<in> set ks" and "f (fst k)"
  shows "arriving a k t \<Longrightarrow>
      (\<exists>x \<in> set (fst (poll_loop f t ks a)). reports x k) \<or> waiting (snd (poll_loop f t ks a)) k t"
    and "waiting a k t0 \<Longrightarrow>
      (\<exists>x \<in> set (fst (poll_loop f t ks a)). reports x k)
      \<or> waiting (snd (poll_loop f t ks a)) k t0 \<and> \<not> ca_settle_ms a \<le> saturating_sub t t0"
proof -
  obtain pre post where ks: "ks = pre @ k # post" and n: "fst k \<notin> fst ` set pre" "fst k \<notin> fst ` set post"
    using poll_loop_split [OF assms(2,3)] .
  let ?a = "snd (poll_loop f t pre a)"
  let ?b = "snd (poll_file f t k ?a)"
  have wf: "seen_wf (ca_seen ?a)" "seen_wf (ca_seen ?b)"
    using poll_loop_keeps(1) [OF assms(1)] poll_file_seen_wf(1) by blast+
  have rep: "\<exists>x \<in> set (fst (poll_loop f t ks a)). reports x k" if "fst (poll_file f t k ?a) = Some x" "reports x k" for x
    using that by (simp add: ks poll_loop_append poll_loop_Cons del: poll_loop.simps(2))
  have fin: "snd (poll_loop f t ks a) = snd (poll_loop f t post ?b)"
    by (simp add: ks poll_loop_append poll_loop_Cons del: poll_loop.simps(2))
  show "(\<exists>x \<in> set (fst (poll_loop f t ks a)). reports x k) \<or> waiting (snd (poll_loop f t ks a)) k t" if "arriving a k t"
    using poll_file_arriving [where can_open = f, OF keeps_arriving(1) [OF assms(1) n(1) that, of f t] assms(4)] rep
      keeps_arriving(2) [OF wf(2) n(2)] unfolding fin by blast
  show "(\<exists>x \<in> set (fst (poll_loop f t ks a)). reports x k)
      \<or> waiting (snd (poll_loop f t ks a)) k t0 \<and> \<not> ca_settle_ms a \<le> saturating_sub t t0" if "waiting a k t0"
    using poll_file_waiting [where can_open = f and t = t, OF keeps_arriving(2) [OF assms(1) n(1) that, of f t] assms(4)] rep
      keeps_arriving(2) [OF wf(2) n(2)] poll_loop_keeps(4) [OF assms(1), of f t pre] unfolding fin by auto
qed

section \<open>Sequences of polls\<close>

record poll_input =
  pi_volume :: fs_node
  pi_can_open :: "path \<Rightarrow> bool"
  pi_now_ms :: u64

fun run_polls :: "poll_input list \<Rightarrow> copy_auditor \<Rightarrow> settled list" where
  "run_polls [] a = []"
| "run_polls (i # is) a =
     (let (ss, a') = poll (pi_volume i) (pi_can_open i) (pi_now_ms i) a in ss @ run_polls is a')"

lemma set_run_polls:
  "set (run_polls (i # is) a) = set (fst (poll (pi_volume i) (pi_can_open i) (pi_now_ms i) a))
     \<union> set (run_polls is (snd (poll (pi_volume i) (pi_can_open i) (pi_now_ms i) a)))"
  by (simp add: Let_def case_prod_beta)

declare run_polls.simps(2) [simp del]

text \<open>The file is on the volume, unchanged, and can be opened.\<close>

definition at_rest :: "path \<Rightarrow> file_key \<Rightarrow> poll_input \<Rightarrow> bool" where
  "at_rest base k i \<longleftrightarrow> is_dir (pi_volume i) \<and> tree_wf (pi_volume i)
     \<and> k \<in> set (tree_files base (pi_volume i)) \<and> pi_can_open i (fst k)"

lemma poll_key:
  assumes "seen_wf (ca_seen a)" and "at_rest (ca_root a) k i" and "pi_now_ms i = t"
  shows "arriving a k t \<Longrightarrow>
      (\<exists>x \<in> set (fst (poll (pi_volume i) (pi_can_open i) t a)). reports x k)
      \<or> waiting (snd (poll (pi_volume i) (pi_can_open i) t a)) k t"
    and "waiting a k t0 \<Longrightarrow>
      (\<exists>x \<in> set (fst (poll (pi_volume i) (pi_can_open i) t a)). reports x k)
      \<or> waiting (snd (poll (pi_volume i) (pi_can_open i) t a)) k t0 \<and> \<not> ca_settle_ms a \<le> saturating_sub t t0"
    and "seen_wf (ca_seen (snd (poll (pi_volume i) (pi_can_open i) t a)))"
    and "ca_settle_ms (snd (poll (pi_volume i) (pi_can_open i) t a)) = ca_settle_ms a"
    and "ca_root (snd (poll (pi_volume i) (pi_can_open i) t a)) = ca_root a"
proof -
  let ?ks = "scan_tree (ca_root a) (pi_volume i)"
  let ?a = "a\<lparr>ca_tracked := ca_tracked a |` (fst ` set ?ks)\<rparr>"
  have d: "distinct (map fst ?ks)" using assms(2) by (auto simp: at_rest_def scan_tree_distinct)
  have k: "k \<in> set ?ks" "pi_can_open i (fst k)"
    using assms(2) scan_tree_files [of "pi_volume i" "ca_root a"] by (auto simp: at_rest_def dest: mset_eq_setD)
  have wf: "seen_wf (ca_seen ?a)" using assms(1) by simp
  have "arriving ?a k t" if "arriving a k t" using that by (auto simp: arriving_def restrict_map_def split: if_splits)
  then show "arriving a k t \<Longrightarrow>
      (\<exists>x \<in> set (fst (poll (pi_volume i) (pi_can_open i) t a)). reports x k)
      \<or> waiting (snd (poll (pi_volume i) (pi_can_open i) t a)) k t"
    using poll_loop_key(1) [where f = "pi_can_open i", OF wf d k] by (simp add: poll_def Let_def)
  have "waiting ?a k t0" if "waiting a k t0" using that k(1) by (auto simp: waiting_def restrict_map_def)
  then show "waiting a k t0 \<Longrightarrow>
      (\<exists>x \<in> set (fst (poll (pi_volume i) (pi_can_open i) t a)). reports x k)
      \<or> waiting (snd (poll (pi_volume i) (pi_can_open i) t a)) k t0 \<and> \<not> ca_settle_ms a \<le> saturating_sub t t0"
    using poll_loop_key(2) [where f = "pi_can_open i", OF wf d k, of t0 t] by (simp add: poll_def Let_def)
  show "seen_wf (ca_seen (snd (poll (pi_volume i) (pi_can_open i) t a)))"
    and "ca_settle_ms (snd (poll (pi_volume i) (pi_can_open i) t a)) = ca_settle_ms a"
    and "ca_root (snd (poll (pi_volume i) (pi_can_open i) t a)) = ca_root a"
    using poll_loop_keeps(1,4) [OF wf, of "pi_can_open i" t ?ks] by (simp_all add: poll_def Let_def)
qed

lemma run_polls_waiting:
  assumes "seen_wf (ca_seen a)" and "waiting a k t0" and "list_all (at_rest (ca_root a) k) is" and "is \<noteq> []"
    and "ca_settle_ms a \<le> saturating_sub (pi_now_ms (last is)) t0"
  shows "\<exists>x \<in> set (run_polls is a). reports x k"
  using assms
proof (induction "is" arbitrary: a)
  case (Cons i "is")
  have r: "at_rest (ca_root a) k i" using Cons.prems(3) by simp
  note step = poll_key [OF Cons.prems(1) r refl]
  let ?a = "snd (poll (pi_volume i) (pi_can_open i) (pi_now_ms i) a)"
  consider "\<exists>x \<in> set (fst (poll (pi_volume i) (pi_can_open i) (pi_now_ms i) a)). reports x k"
    | "waiting ?a k t0" "\<not> ca_settle_ms a \<le> saturating_sub (pi_now_ms i) t0"
    using step(2) [OF Cons.prems(2)] by blast
  then show ?case
  proof cases
    case 2
    then have "is \<noteq> []" using Cons.prems(5) by auto
    then have "\<exists>x \<in> set (run_polls is ?a). reports x k"
      using Cons.prems(3,5) step(4,5) by (intro Cons.IH [OF step(3) 2(1)]) simp_all
    then show ?thesis by (auto simp: set_run_polls)
  qed (auto simp: set_run_polls)
qed simp

section \<open>The baseline\<close>

lemma fold_seen_insert:
  assumes "seen_wf s" and "length (bs_order s) + length ks \<le> bs_cap s"
  shows "bs_set (fold seen_insert ks s) = bs_set s \<union> set ks"
  using assms
proof (induction ks arbitrary: s)
  case (Cons k ks)
  have s: "bs_set (seen_insert k s) = insert k (bs_set s) \<and> length (bs_order (seen_insert k s)) \<le> Suc (length (bs_order s))"
  proof (cases "k \<in> bs_set s")
    case False
    then show ?thesis using Cons.prems by (simp add: seen_insert_new Let_def) (simp add: seen_wf_def)
  qed (simp add: seen_insert_old insert_absorb)
  with Cons.IH [of "seen_insert k s"] seen_insert_wf [OF Cons.prems(1), of k] Cons.prems(2) show ?case by auto
qed simp

lemma poll_loop_all_seen:
  assumes "set ks \<subseteq> bs_set (ca_seen a)"
  shows "fst (poll_loop f t ks a) = [] \<and> ca_seen (snd (poll_loop f t ks a)) = ca_seen a
    \<and> ca_root (snd (poll_loop f t ks a)) = ca_root a"
  using assms
proof (induction ks arbitrary: a)
  case (Cons k ks)
  have "fst (poll_file f t k a) = None" "ca_seen (snd (poll_file f t k a)) = ca_seen a"
    "ca_root (snd (poll_file f t k a)) = ca_root a"
    using Cons.prems by (simp_all add: poll_file_def Let_def seen_contains_def split: prod.split)
  with Cons.IH [of "snd (poll_file f t k a)"] Cons.prems show ?case by (simp add: poll_loop_Cons del: poll_loop.simps(2))
qed simp

lemma run_polls_all_seen:
  assumes "list_all (\<lambda>i. set (scan_tree (ca_root a) (pi_volume i)) \<subseteq> bs_set (ca_seen a)) is"
  shows "run_polls is a = []"
  using assms
proof (induction "is" arbitrary: a)
  case (Cons i "is")
  let ?ks = "scan_tree (ca_root a) (pi_volume i)"
  let ?a = "a\<lparr>ca_tracked := ca_tracked a |` (fst ` set ?ks)\<rparr>"
  let ?b = "snd (poll (pi_volume i) (pi_can_open i) (pi_now_ms i) a)"
  have "fst (poll (pi_volume i) (pi_can_open i) (pi_now_ms i) a) = []" "ca_seen ?b = ca_seen a" "ca_root ?b = ca_root a"
    using poll_loop_all_seen [of ?ks ?a "pi_can_open i" "pi_now_ms i"] Cons.prems by (simp_all add: poll_def Let_def)
  with Cons.IH [of ?b] Cons.prems set_run_polls [of i "is" a] show ?case by simp
qed simp

section \<open>Properties\<close>

text \<open>
  C12. A file copied to a watched volume is scanned. Take any sequence of polls over which a
  file, not scanned before, lies unchanged on the volume and can be opened. If the time from
  the first of the polls to the last is at least the settle time, one of them reports the
  file, whatever else happens on the volume.
\<close>

theorem settled_file_reported:
  assumes "seen_wf (ca_seen a)" and "arriving a k (pi_now_ms i)"
    and "list_all (at_rest (ca_root a) k) (i # is)"
    and "ca_settle_ms a \<le> saturating_sub (pi_now_ms (last (i # is))) (pi_now_ms i)"
    and "is \<noteq> []"
  shows "\<exists>x \<in> set (run_polls (i # is) a). st_path x = fst k \<and> st_size x = fst (snd k)"
proof -
  have "at_rest (ca_root a) k i" using assms(3) by simp
  note step = poll_key [OF assms(1) this refl]
  let ?a = "snd (poll (pi_volume i) (pi_can_open i) (pi_now_ms i) a)"
  consider "\<exists>x \<in> set (fst (poll (pi_volume i) (pi_can_open i) (pi_now_ms i) a)). reports x k"
    | "waiting ?a k (pi_now_ms i)"
    using step(1) [OF assms(2)] by blast
  then have "\<exists>x \<in> set (run_polls (i # is) a). reports x k"
  proof cases
    case 2
    then have "\<exists>x \<in> set (run_polls is ?a). reports x k"
      using assms(3-5) step(4,5) by (intro run_polls_waiting [OF step(3) 2]) simp_all
    then show ?thesis by (auto simp: set_run_polls)
  qed (auto simp: set_run_polls)
  then show ?thesis by (simp add: reports_def)
qed

definition example_volume :: fs_node where
  "example_volume = FN_Dir (Some [(lit ''a.txt'', FN_File 3 9)])"

lemma example_files: "tree_files [lit ''E:''] example_volume = [([lit ''E:'', lit ''a.txt''], 3, 9)]"
  by (simp add: example_volume_def is_sealed_envelope_path_def file_name_def) code_simp

lemma settled_file_reported_witness:
  "\<exists>x \<in> set (run_polls [\<lparr>pi_volume = example_volume, pi_can_open = \<lambda>_. True, pi_now_ms = 100\<rparr>,
       \<lparr>pi_volume = example_volume, pi_can_open = \<lambda>_. True, pi_now_ms = 1600\<rparr>] (auditor_new [lit ''E:''] 1500 30000)).
     st_path x = [lit ''E:'', lit ''a.txt''] \<and> st_size x = 3"
  using settled_file_reported [of "auditor_new [lit ''E:''] 1500 30000" "([lit ''E:'', lit ''a.txt''], 3, 9)"
      "\<lparr>pi_volume = example_volume, pi_can_open = \<lambda>_. True, pi_now_ms = 100\<rparr>"
      "[\<lparr>pi_volume = example_volume, pi_can_open = \<lambda>_. True, pi_now_ms = 1600\<rparr>]"]
  by (simp add: auditor_new_def arriving_def seen_new_def seen_wf_def at_rest_def example_files saturating_sub_def
      example_volume_def [THEN arg_cong [of _ _ is_dir]] example_volume_def [THEN arg_cong [of _ _ tree_wf]])

text \<open>
  What was there before is left alone. After the baseline of a volume with no more files
  than the bound, no later poll reports a file that was present then with the same size and
  time: a sequence of polls that sees only such files reports nothing.
\<close>

theorem baseline_not_reported:
  assumes "is_dir vol" and "length (tree_files base vol) \<le> SEEN_CAP"
    and "list_all (\<lambda>i. is_dir (pi_volume i) \<and> set (tree_files base (pi_volume i)) \<subseteq> set (tree_files base vol)) is"
  shows "run_polls is (snd (baseline_existing vol (auditor_new base settle_ms timeout_ms))) = []"
proof (rule run_polls_all_seen)
  let ?a = "snd (baseline_existing vol (auditor_new base settle_ms timeout_ms))"
  have len: "length (scan_tree base vol) \<le> SEEN_CAP"
    using assms(2) mset_eq_length [OF scan_tree_files [OF assms(1), of base]] by simp
  have "bs_set (ca_seen ?a) = set (scan_tree base vol)"
    using fold_seen_insert [of "seen_new SEEN_CAP" "scan_tree base vol"] len
    by (simp add: baseline_existing_def auditor_new_def Let_def) (simp add: seen_new_def)
  moreover have "ca_root ?a = base" by (simp add: baseline_existing_def auditor_new_def Let_def)
  moreover have "set (scan_tree base n) = set (tree_files base n)" if "is_dir n" for n
    using mset_eq_setD [OF scan_tree_files [OF that]] .
  ultimately show "list_all (\<lambda>i. set (scan_tree (ca_root ?a) (pi_volume i)) \<subseteq> bs_set (ca_seen ?a)) is"
    using assms(1,3) by (auto simp: list_all_iff)
qed

lemma baseline_not_reported_witness:
  "run_polls [\<lparr>pi_volume = example_volume, pi_can_open = \<lambda>_. True, pi_now_ms = 99999\<rparr>]
     (snd (baseline_existing example_volume (auditor_new [lit ''E:''] 1500 30000))) = []"
  by (rule baseline_not_reported)
    (simp_all add: example_files SEEN_CAP_def example_volume_def [THEN arg_cong [of _ _ is_dir]])

end
