(* ===== verification/Seal_Pipeline.thy ===== *)
theory Seal_Pipeline
  imports Copy_Auditor Envelope
begin

text \<open>
  From a settled file to its incident, the second half of \<open>usb/audit.rs\<close>: the scan of a
  file, the scan with the seal decision on an encrypting destination, and the production
  sealer, which replaces a file by its envelope on the volume. The verdict source and the
  sealer are arguments as in the code; the sealer has a state, the volume.
\<close>

section \<open>Scanning\<close>

definition base_name :: "settled \<Rightarrow> ustring" where
  "base_name s = (case file_name (st_path s) of Some n \<Rightarrow> n | None \<Rightarrow> display_path (st_path s))"

definition too_large_note :: "settled \<Rightarrow> u64 \<Rightarrow> ustring" where
  "too_large_note s mx = lit ''skipped-too-large:'' @ show_nat (unat (st_size s)) @ lit ''>'' @ show_nat (unat mx)"

definition scan_to_incident ::
  "settled \<Rightarrow> u64 \<Rightarrow> (path \<Rightarrow> ustring + verdict) \<Rightarrow> device_identity \<Rightarrow> action_taken \<Rightarrow> ustring \<Rightarrow> usb_incident option" where
  "scan_to_incident s max_file_bytes verdict_src device act channel =
     (if st_size s > max_file_bytes then
        Some \<lparr>ui_kind = IK_SkippedTooLarge, ui_channel = channel, ui_file_name = base_name s, ui_file_sha256 = [],
              ui_verdict = None, ui_device = device, ui_action_taken = act,
              ui_note = Some (too_large_note s max_file_bytes), ui_key_id = None, ui_sealed_sha256 = None\<rparr>
      else case verdict_src (st_path s) of
        Inl _ \<Rightarrow>
          Some \<lparr>ui_kind = IK_UnreadableOnRemovable, ui_channel = channel, ui_file_name = base_name s,
                ui_file_sha256 = [], ui_verdict = None, ui_device = device, ui_action_taken = act,
                ui_note = Some (lit ''verdict-error''), ui_key_id = None, ui_sealed_sha256 = None\<rparr>
      | Inr v \<Rightarrow>
          if verdict_has_match v then
            Some \<lparr>ui_kind = IK_Match, ui_channel = channel, ui_file_name = vd_file_name v,
                  ui_file_sha256 = vd_file_sha256 v, ui_verdict = Some v, ui_device = device, ui_action_taken = act,
                  ui_note = (if st_by_timeout s then Some (lit ''settled-by-timeout'') else None),
                  ui_key_id = None, ui_sealed_sha256 = None\<rparr>
          else if is_unreadable v then
            Some \<lparr>ui_kind = IK_UnreadableOnRemovable, ui_channel = channel, ui_file_name = vd_file_name v,
                  ui_file_sha256 = vd_file_sha256 v, ui_verdict = Some v, ui_device = device, ui_action_taken = act,
                  ui_note = Some (lit ''unreadable-on-removable''), ui_key_id = None, ui_sealed_sha256 = None\<rparr>
          else None)"

section \<open>Scanning with the seal decision\<close>

record seal_outcome =
  so_key_id :: ustring
  so_plaintext_sha256 :: ustring
  so_sealed_sha256 :: ustring

definition sealed_kind :: "verdict option \<Rightarrow> incident_kind" where
  "sealed_kind vd =
     (case vd of
        None \<Rightarrow> IK_Sealed
      | Some v \<Rightarrow> if verdict_has_match v then IK_Match
                  else if is_unreadable v then IK_UnreadableOnRemovable else IK_Sealed)"

definition scan_and_seal_to_incident ::
  "settled \<Rightarrow> u64 \<Rightarrow> (path \<Rightarrow> ustring + verdict) \<Rightarrow> device_identity \<Rightarrow> ustring \<Rightarrow> encrypt_mode \<Rightarrow> encrypt_bands
   \<Rightarrow> block_band_policy \<Rightarrow> ustring \<Rightarrow> (path \<Rightarrow> ustring \<Rightarrow> 's \<Rightarrow> (ustring + seal_outcome) \<times> 's) \<Rightarrow> 's
   \<Rightarrow> usb_incident option \<times> 's" where
  "scan_and_seal_to_incident s max_file_bytes verdict_src device channel mode bands on_block_band key_id sealer st =
     (if st_size s > max_file_bytes then
        (Some \<lparr>ui_kind = IK_SkippedTooLarge, ui_channel = channel, ui_file_name = base_name s, ui_file_sha256 = [],
               ui_verdict = None, ui_device = device, ui_action_taken = AT_Audited,
               ui_note = Some (too_large_note s max_file_bytes @ lit '';not-sealed''),
               ui_key_id = None, ui_sealed_sha256 = None\<rparr>, st)
      else
        let vd = (case verdict_src (st_path s) of Inl _ \<Rightarrow> None | Inr v \<Rightarrow> Some v);
            name = (case vd of Some v \<Rightarrow> vd_file_name v | None \<Rightarrow> base_name s);
            sha = (case vd of Some v \<Rightarrow> vd_file_sha256 v | None \<Rightarrow> []);
            incident = \<lparr>ui_kind = IK_Match, ui_channel = channel, ui_file_name = name, ui_file_sha256 = sha,
              ui_verdict = vd, ui_device = device, ui_action_taken = AT_Audited, ui_note = None,
              ui_key_id = None, ui_sealed_sha256 = None\<rparr>
        in case decide_seal mode bands on_block_band vd of
             SD_Plain \<Rightarrow>
               (if (case vd of Some v \<Rightarrow> verdict_has_match v | None \<Rightarrow> False)
                then Some (incident\<lparr>ui_note := (if st_by_timeout s then Some (lit ''settled-by-timeout'') else None)\<rparr>)
                else None, st)
           | SD_Block \<Rightarrow> (Some (incident\<lparr>ui_note := Some (lit ''block-band-on-encrypt-destination'')\<rparr>), st)
           | SD_Seal \<Rightarrow>
               (case sealer (st_path s) key_id st of
                  (Inr out, st') \<Rightarrow>
                    (Some (incident\<lparr>ui_kind := sealed_kind vd,
                       ui_file_sha256 := (if sha = [] then so_plaintext_sha256 out else sha),
                       ui_action_taken := AT_Encrypted, ui_note := Some (lit ''sealed-post-write''),
                       ui_key_id := Some (so_key_id out), ui_sealed_sha256 := Some (so_sealed_sha256 out)\<rparr>), st')
                | (Inl e, st') \<Rightarrow>
                    (Some (incident\<lparr>ui_kind := IK_EnforcementFailed,
                       ui_note := Some (lit ''seal-failed(plaintext-kept): '' @ e)\<rparr>), st')))"

section \<open>The production sealer\<close>

type_synonym volume = "path \<rightharpoonup> bytes"

text \<open>
  Which of the file operations succeed: a failed write leaves a part of the bytes behind, and
  the removal of the temporary file after a failure may fail too.
\<close>

record io_results =
  io_read :: bool
  io_create :: bool
  io_write :: "bytes option"
  io_sync :: bool
  io_rename :: bool
  io_cleanup :: bool
  io_delete :: bool

datatype seal_error =
  SE_NoFileName
| SE_Read
| SE_Seal envelope_error
| SE_Write
| SE_Rename
| SE_Delete

definition tmp_path :: "path \<Rightarrow> path" where
  "tmp_path p = with_file_name p (last p @ lit ''.dlpenc.tmp'')"

definition final_path :: "path \<Rightarrow> path" where
  "final_path p = with_file_name p (last p @ lit ''.dlpenc'')"

definition cleanup :: "io_results \<Rightarrow> path \<Rightarrow> volume \<Rightarrow> volume" where
  "cleanup io p vol = (if io_cleanup io then vol(tmp_path p := None) else vol)"

text \<open>
  Writing the temporary file: the states the volume goes through, and whether it succeeded.
  The last state before the result is the one the failure is cleaned up in.
\<close>

definition write_tmp :: "io_results \<Rightarrow> path \<Rightarrow> bytes \<Rightarrow> volume \<Rightarrow> volume list \<times> bool" where
  "write_tmp io p env vol =
     (if \<not> io_create io then ([vol], False)
      else
        let v1 = vol(tmp_path p \<mapsto> [])
        in case io_write io of
             Some part \<Rightarrow> ([v1, v1(tmp_path p \<mapsto> part)], False)
           | None \<Rightarrow> ([v1, v1(tmp_path p \<mapsto> env)], io_sync io))"

text \<open>The states of the volume, oldest first, and the result.\<close>

definition seal_file_in_place ::
  "envelope_libs \<Rightarrow> (bytes \<times> bytes \<times> bytes) \<Rightarrow> io_results \<Rightarrow> path \<Rightarrow> kek \<Rightarrow> ustring \<Rightarrow> u64 \<Rightarrow> volume
   \<Rightarrow> volume list \<times> (seal_error + seal_outcome)" where
  "seal_file_in_place l drawn io p key agent_id now_unix vol =
     (case file_name p of
        None \<Rightarrow> ([vol], Inl SE_NoFileName)
      | Some name \<Rightarrow>
          (case (if io_read io then vol p else None) of
             None \<Rightarrow> ([vol], Inl SE_Read)
           | Some plaintext \<Rightarrow>
               (case drawn of (dek, dek_nonce, body_nonce) \<Rightarrow>
                 (case seal_drawn l dek dek_nonce body_nonce plaintext name key agent_id now_unix of
                    Inl e \<Rightarrow> ([vol], Inl (SE_Seal e))
                  | Inr env \<Rightarrow>
                      (case write_tmp io p env vol of (ws, ok) \<Rightarrow>
                         if \<not> ok then (vol # ws @ [cleanup io p (last ws)], Inl SE_Write)
                         else if \<not> io_rename io then (vol # ws @ [cleanup io p (last ws)], Inl SE_Rename)
                         else
                           let v3 = (last ws)(tmp_path p := None, final_path p \<mapsto> env)
                           in if \<not> io_delete io then (vol # ws @ [v3], Inl SE_Delete)
                              else (vol # ws @ [v3, v3(p := None)],
                                    Inr \<lparr>so_key_id = kek_id key,
                                         so_plaintext_sha256 = hex (env_sha256 l plaintext),
                                         so_sealed_sha256 = hex (env_sha256 l env)\<rparr>))))))"

section \<open>The states of the volume\<close>

lemma paths_distinct:
  assumes "p \<noteq> []"
  shows "tmp_path p \<noteq> p" and "final_path p \<noteq> p" and "tmp_path p \<noteq> final_path p"
proof -
  have "butlast p @ [n] = p \<longleftrightarrow> n = last p" for n
    using assms by (metis append_butlast_last_id last_snoc)
  then show "tmp_path p \<noteq> p" and "final_path p \<noteq> p" and "tmp_path p \<noteq> final_path p"
    by (simp_all add: tmp_path_def final_path_def with_file_name_def lit_def)
qed

text \<open>A state is safe when the plaintext is in place or the sealed file opens to it.\<close>

definition recoverable :: "envelope_libs \<Rightarrow> keyring \<Rightarrow> path \<Rightarrow> bytes \<Rightarrow> volume \<Rightarrow> bool" where
  "recoverable l ring p plaintext vol \<longleftrightarrow> vol p = Some plaintext
     \<or> (\<exists>env h. vol (final_path p) = Some env \<and> envelope_open l env ring = Inr (h, plaintext))"

text \<open>A state differs from the first one at most in the file, its envelope and the temporary file.\<close>

definition only_touches :: "path \<Rightarrow> volume \<Rightarrow> volume \<Rightarrow> bool" where
  "only_touches p vol vol' \<longleftrightarrow> (\<forall>q. q \<noteq> p \<and> q \<noteq> tmp_path p \<and> q \<noteq> final_path p \<longrightarrow> vol' q = vol q)"

lemma write_tmp_states:
  assumes "write_tmp io p env vol = (ws, ok)" and "p \<noteq> []"
  shows "ws \<noteq> []" and "list_all (\<lambda>v. v p = vol p \<and> only_touches p vol v) ws"
  using assms paths_distinct [OF assms(2)]
  by (auto simp: write_tmp_def only_touches_def Let_def split: if_splits option.splits)

text \<open>
  The states of a run that got as far as an envelope: first those in which the plaintext is
  untouched, then, once the envelope has its final name, the last one or two.
\<close>

lemma seal_states:
  assumes "p \<noteq> []" and "vol p = Some plaintext" and "io_read io"
    and "seal_drawn l dek dn bn plaintext (last p) key agent_id now_unix = Inr env"
    and "seal_file_in_place l (dek, dn, bn) io p key agent_id now_unix vol = (vs, r)"
  shows "list_all (\<lambda>v. only_touches p vol v \<and> (v p = Some plaintext \<or> v (final_path p) = Some env)) vs"
    and "vs \<noteq> []" and "\<exists>e. r = Inl e \<Longrightarrow> last vs p = Some plaintext"
    and "r = Inr out \<Longrightarrow> last vs p = None \<and> last vs (final_path p) = Some env
      \<and> out = \<lparr>so_key_id = kek_id key, so_plaintext_sha256 = hex (env_sha256 l plaintext),
               so_sealed_sha256 = hex (env_sha256 l env)\<rparr>"
proof -
  obtain ws ok where w: "write_tmp io p env vol = (ws, ok)" by fastforce
  note ws = write_tmp_states [OF w assms(1)]
  have lastw: "last ws p = Some plaintext" "only_touches p vol (last ws)"
    using ws assms(2) by (auto simp: list_all_iff)
  have clean: "cleanup io p v p = v p" "only_touches p vol v \<Longrightarrow> only_touches p vol (cleanup io p v)" for v
    using paths_distinct [OF assms(1)] by (auto simp: cleanup_def only_touches_def)
  let ?v3 = "(last ws)(tmp_path p := None, final_path p \<mapsto> env)"
  have v3: "?v3 p = Some plaintext" "?v3 (final_path p) = Some env" "only_touches p vol ?v3"
    "(?v3(p := None)) (final_path p) = Some env" "only_touches p vol (?v3(p := None))"
    using lastw paths_distinct [OF assms(1)] by (auto simp: only_touches_def)
  have ws': "list_all (\<lambda>v. only_touches p vol v \<and> (v p = Some plaintext \<or> v (final_path p) = Some env)) (vol # ws)"
    using ws(2) assms(2) by (auto simp: list_all_iff only_touches_def)
  have run: "(vs, r) =
      (if \<not> ok then (vol # ws @ [cleanup io p (last ws)], Inl SE_Write)
       else if \<not> io_rename io then (vol # ws @ [cleanup io p (last ws)], Inl SE_Rename)
       else if \<not> io_delete io then (vol # ws @ [?v3], Inl SE_Delete)
       else (vol # ws @ [?v3, ?v3(p := None)],
             Inr \<lparr>so_key_id = kek_id key, so_plaintext_sha256 = hex (env_sha256 l plaintext),
                  so_sealed_sha256 = hex (env_sha256 l env)\<rparr>))"
    using assms by (auto simp: seal_file_in_place_def file_name_def w Let_def split: if_splits)
  show "list_all (\<lambda>v. only_touches p vol v \<and> (v p = Some plaintext \<or> v (final_path p) = Some env)) vs"
    using run ws' lastw clean v3 by (auto split: if_splits)
  show "vs \<noteq> []" using run by (auto split: if_splits)
  show "\<exists>e. r = Inl e \<Longrightarrow> last vs p = Some plaintext"
    using run lastw(1) clean(1) v3(1) by (auto split: if_splits)
  show "r = Inr out \<Longrightarrow> last vs p = None \<and> last vs (final_path p) = Some env
      \<and> out = \<lparr>so_key_id = kek_id key, so_plaintext_sha256 = hex (env_sha256 l plaintext),
               so_sealed_sha256 = hex (env_sha256 l env)\<rparr>"
    using run v3(4) by (auto split: if_splits)
qed

lemma seal_not_started:
  assumes "p \<noteq> []" and "vol p = Some plaintext"
    and "\<not> io_read io \<or> (\<exists>e. seal_drawn l dek dn bn plaintext (last p) key agent_id now_unix = Inl e)"
  shows "\<exists>err. seal_file_in_place l (dek, dn, bn) io p key agent_id now_unix vol = ([vol], Inl err)"
  using assms by (auto simp: seal_file_in_place_def file_name_def)

section \<open>Properties\<close>

text \<open>
  C10. Sealing in place never loses a file. Whatever file operation fails, and wherever a
  crash stops the run, the volume holds the plaintext under its name or an envelope beside
  it that opens to the plaintext; no other file is touched. When the run fails the plaintext
  is in place; when it succeeds the plaintext is gone, the envelope opens to it, and the
  outcome has the key id and both digests.
\<close>

theorem seal_in_place_crash_safe:
  assumes "gcm_correct l" and "b64_correct l" and "json_correct l"
    and "length dn = NONCE_LEN" and "length bn = NONCE_LEN"
    and "keyring_lookup ring (kek_id key) = Inr key"
    and "p \<noteq> []" and "vol p = Some plaintext"
    and "seal_file_in_place l (dek, dn, bn) io p key agent_id now_unix vol = (vs, r)"
  shows "list_all (\<lambda>v. recoverable l ring p plaintext v \<and> only_touches p vol v) vs
    \<and> (case r of
         Inl _ \<Rightarrow> last vs p = Some plaintext
       | Inr out \<Rightarrow> last vs p = None
           \<and> (\<exists>env h. last vs (final_path p) = Some env \<and> envelope_open l env ring = Inr (h, plaintext)
                \<and> out = \<lparr>so_key_id = kek_id key, so_plaintext_sha256 = hex (env_sha256 l plaintext),
                         so_sealed_sha256 = hex (env_sha256 l env)\<rparr>))"
proof (cases "io_read io \<and> (\<exists>env. seal_drawn l dek dn bn plaintext (last p) key agent_id now_unix = Inr env)")
  case True
  then obtain env where env: "seal_drawn l dek dn bn plaintext (last p) key agent_id now_unix = Inr env"
    and rd: "io_read io" by blast
  note st = seal_states [OF assms(7,8) rd env assms(9)]
  obtain h where "envelope_open l env ring = Inr (h, plaintext)"
    using open_sealed [OF assms(1-3) env assms(4-6)] by blast
  with st show ?thesis
    by (cases r) (auto simp: recoverable_def list_all_iff)
next
  case False
  then have "\<exists>err. seal_file_in_place l (dek, dn, bn) io p key agent_id now_unix vol = ([vol], Inl err)"
    by (intro seal_not_started [where vol = vol and p = p and plaintext = plaintext, OF assms(7,8)])
      (cases "seal_drawn l dek dn bn plaintext (last p) key agent_id now_unix", auto)
  with assms(8,9) show ?thesis by (auto simp: recoverable_def only_touches_def)
qed

text \<open>
  Incidents on an encrypting destination are honest. An incident claims that a file was
  encrypted exactly when the sealer was called and succeeded, and then carries the key id
  and the digest the sealer returned; the sealer is called exactly when the decision is to
  seal; a file without an incident was within the size limit, was read, has no match and
  was decided to pass; and a failed seal is reported as such.
\<close>

theorem seal_incidents_honest:
  fixes sealer :: "path \<Rightarrow> ustring \<Rightarrow> 's \<Rightarrow> (ustring + seal_outcome) \<times> 's"
  assumes "scan_and_seal_to_incident s mx src device channel mode bands band key_id sealer st = (inc, st')"
  defines "vd \<equiv> (case src (st_path s) of Inl _ \<Rightarrow> None | Inr v \<Rightarrow> Some v)"
  defines "sealing \<equiv> st_size s \<le> mx \<and> decide_seal mode bands band vd = SD_Seal"
  shows "(case inc of
       None \<Rightarrow> st_size s \<le> mx \<and> decide_seal mode bands band vd = SD_Plain
         \<and> (\<exists>v. vd = Some v \<and> \<not> verdict_has_match v) \<and> st' = st
     | Some i \<Rightarrow>
         (ui_action_taken i = AT_Encrypted \<longleftrightarrow> sealing \<and> (\<exists>out. fst (sealer (st_path s) key_id st) = Inr out))
         \<and> (ui_kind i = IK_EnforcementFailed \<longleftrightarrow> sealing \<and> (\<exists>e. fst (sealer (st_path s) key_id st) = Inl e))
         \<and> st' = (if sealing then snd (sealer (st_path s) key_id st) else st)
         \<and> (\<forall>out. sealing \<and> fst (sealer (st_path s) key_id st) = Inr out \<longrightarrow>
              ui_key_id i = Some (so_key_id out) \<and> ui_sealed_sha256 i = Some (so_sealed_sha256 out)))"
proof (cases "st_size s > mx")
  case True
  with assms(1) show ?thesis by (auto simp: scan_and_seal_to_incident_def sealing_def)
next
  case False
  have plain: "\<exists>v. vd = Some v" if "decide_seal mode bands band vd = SD_Plain"
    using that by (cases vd; cases mode) (simp_all add: decide_seal_def)
  have run: "(inc, st') = scan_and_seal_to_incident s mx src device channel mode bands band key_id sealer st"
    using assms(1) by simp
  show ?thesis
  proof (cases "decide_seal mode bands band vd")
    case SD_Plain
    with plain obtain v where v: "vd = Some v" by blast
    then show ?thesis using run False SD_Plain
      by (simp add: scan_and_seal_to_incident_def Let_def vd_def [symmetric] sealing_def split: if_splits)
  next
    case SD_Block
    then show ?thesis using run False
      by (simp add: scan_and_seal_to_incident_def Let_def vd_def [symmetric] sealing_def)
  next
    case SD_Seal
    obtain r t where r: "sealer (st_path s) key_id st = (r, t)" by fastforce
    then show ?thesis using run False SD_Seal
      by (cases r) (simp_all add: scan_and_seal_to_incident_def Let_def vd_def [symmetric] sealing_def sealed_kind_def
        not_less split: option.split if_splits)
  qed
qed

lemma seal_in_place_crash_safe_witness:
  "list_all (recoverable example_env_libs (keyring_insert (keyring_new [107]) example_key) [lit ''E:'', []] [104, 105])
     (fst (seal_file_in_place example_env_libs (replicate 32 0, replicate 12 0, replicate 12 0)
        \<lparr>io_read = True, io_create = True, io_write = None, io_sync = True, io_rename = True, io_cleanup = True,
         io_delete = False\<rparr> [lit ''E:'', []] example_key [] 0 [[lit ''E:'', []] \<mapsto> [104, 105]]))"
proof -
  let ?r = "seal_file_in_place example_env_libs (replicate 32 0, replicate 12 0, replicate 12 0)
        \<lparr>io_read = True, io_create = True, io_write = None, io_sync = True, io_rename = True, io_cleanup = True,
         io_delete = False\<rparr> [lit ''E:'', []] example_key [] 0 [[lit ''E:'', []] \<mapsto> [104, 105]]"
  have "keyring_lookup (keyring_insert (keyring_new [107]) example_key) (kek_id example_key) = Inr example_key"
    by (rule ring.insert_held) (simp add: ring.shredded_def keyring_lookup_def keyring_new_def)
  from seal_in_place_crash_safe [OF example_env_libs_correct(1-3) _ _ this, of "replicate 12 0" "replicate 12 0"
      "[lit ''E:'', []]" "[[lit ''E:'', []] \<mapsto> [104, 105]]" "[104, 105]" "replicate 32 0" _ "[]" 0 "fst ?r" "snd ?r"]
  show ?thesis by (auto simp: NONCE_LEN_def list_all_iff)
qed

definition example_settled :: settled where
  "example_settled = \<lparr>st_path = [lit ''E:'', lit ''a.txt''], st_size = 3, st_by_timeout = False\<rparr>"

definition example_device :: device_identity where
  "example_device = \<lparr>dev_drive_letter = lit ''E:'', dev_vendor_id = [], dev_product_id = [], dev_serial = [],
     dev_product_name = [], dev_bus_type = lit ''usb'', dev_removable = True\<rparr>"

lemma seal_incidents_honest_witness:
  "\<exists>i. fst (scan_and_seal_to_incident example_settled 100 (\<lambda>_. Inl []) example_device [] EncryptSensitive
       encrypt_bands_default BB_Block (lit ''k'') (\<lambda>_ _ (n :: nat). (Inl (lit ''full''), Suc n)) 0) = Some i
     \<and> ui_kind i = IK_EnforcementFailed \<and> ui_action_taken i \<noteq> AT_Encrypted"
proof -
  let ?r = "scan_and_seal_to_incident example_settled 100 (\<lambda>_. Inl []) example_device [] EncryptSensitive
       encrypt_bands_default BB_Block (lit ''k'') (\<lambda>_ _ (n :: nat). (Inl (lit ''full''), Suc n)) 0"
  have "?r = (fst ?r, snd ?r)" by simp
  from seal_incidents_honest [OF this] show ?thesis
    by (auto simp: decide_seal_def example_settled_def split: option.splits)
qed

end
