(* ===== verification/Scan_Pool.thy ===== *)
theory Scan_Pool
  imports Seal_Pipeline "HOL-Library.Multiset"
begin

text \<open>
  The worker pool of \<open>usb/audit.rs\<close>, \<open>scan_batch\<close>: one to four threads take settled files
  from a shared channel, scan them and send incidents back, while the calling thread feeds
  the channel and then collects. The threads are interleaved in any order: the model is a
  step relation, and the property holds of every schedule.
\<close>

section \<open>Definitions\<close>

text \<open>\<open>workers.clamp(1, 4)\<close>.\<close>

definition clamp_workers :: "nat \<Rightarrow> nat" where
  "clamp_workers n = min 4 (max 1 n)"

datatype worker = W_Idle | W_Busy settled | W_Done

text \<open>
  The files not yet sent, the job channel, the workers, and the incidents in the order of
  their sends. The channel is closed once everything has been sent.
\<close>

record pool =
  po_unsent :: "settled list"
  po_jobs :: "settled list"
  po_workers :: "worker list"
  po_out :: "usb_incident list"

definition pool_init :: "nat \<Rightarrow> settled list \<Rightarrow> pool" where
  "pool_init workers batch =
     \<lparr>po_unsent = batch, po_jobs = [], po_workers = replicate (clamp_workers workers) W_Idle, po_out = []\<rparr>"

inductive pool_step :: "(settled \<Rightarrow> usb_incident option) \<Rightarrow> pool \<Rightarrow> pool \<Rightarrow> bool" for scan where
  send: "po_unsent s = j # js \<Longrightarrow> pool_step scan s (s\<lparr>po_unsent := js, po_jobs := po_jobs s @ [j]\<rparr>)"
| take: "i < length (po_workers s) \<Longrightarrow> po_workers s ! i = W_Idle \<Longrightarrow> po_jobs s = j # js \<Longrightarrow>
    pool_step scan s (s\<lparr>po_jobs := js, po_workers := (po_workers s)[i := W_Busy j]\<rparr>)"
| finish: "i < length (po_workers s) \<Longrightarrow> po_workers s ! i = W_Busy j \<Longrightarrow>
    pool_step scan s (s\<lparr>po_workers := (po_workers s)[i := W_Idle],
      po_out := po_out s @ (case scan j of Some inc \<Rightarrow> [inc] | None \<Rightarrow> [])\<rparr>)"
| quit: "i < length (po_workers s) \<Longrightarrow> po_workers s ! i = W_Idle \<Longrightarrow> po_jobs s = [] \<Longrightarrow> po_unsent s = [] \<Longrightarrow>
    pool_step scan s (s\<lparr>po_workers := (po_workers s)[i := W_Done]\<rparr>)"

inductive_cases pool_stepE: "pool_step scan s s'"

text \<open>The calling thread has collected everything when every worker has ended.\<close>

definition pool_done :: "pool \<Rightarrow> bool" where
  "pool_done s \<longleftrightarrow> po_unsent s = [] \<and> list_all (\<lambda>w. w = W_Done) (po_workers s)"

section \<open>The invariant\<close>

fun job_of :: "worker \<Rightarrow> settled multiset" where
  "job_of (W_Busy j) = {#j#}"
| "job_of _ = {#}"

definition remaining :: "pool \<Rightarrow> settled multiset" where
  "remaining s = mset (po_unsent s) + mset (po_jobs s) + sum_list (map job_of (po_workers s))"

definition incidents_of :: "(settled \<Rightarrow> usb_incident option) \<Rightarrow> settled multiset \<Rightarrow> usb_incident multiset" where
  "incidents_of scan js = sum_mset (image_mset (\<lambda>j. case scan j of Some inc \<Rightarrow> {#inc#} | None \<Rightarrow> {#}) js)"

text \<open>
  What was sent and what remains add up to the batch, and no worker ends while there is
  work in the channel.
\<close>

definition pool_inv :: "(settled \<Rightarrow> usb_incident option) \<Rightarrow> settled list \<Rightarrow> pool \<Rightarrow> bool" where
  "pool_inv scan batch s \<longleftrightarrow>
     mset (po_out s) + incidents_of scan (remaining s) = incidents_of scan (mset batch)
     \<and> po_workers s \<noteq> [] \<and> (W_Done \<in> set (po_workers s) \<longrightarrow> po_unsent s = [] \<and> po_jobs s = [])"

lemma sum_list_map_update:
  fixes f :: "'a \<Rightarrow> 'b multiset"
  assumes "i < length xs"
  shows "sum_list (map f (xs[i := x])) + f (xs ! i) = sum_list (map f xs) + f x"
  using assms by (induction xs arbitrary: i) (auto simp: ac_simps split: nat.split)

lemma incidents_of_add: "incidents_of scan (a + b) = incidents_of scan a + incidents_of scan b"
  by (simp add: incidents_of_def)

lemma pool_init_inv: "pool_inv scan batch (pool_init n batch)"
proof -
  have "sum_list (map job_of (replicate m W_Idle)) = {#}" for m by (induction m) simp_all
  moreover have "clamp_workers n \<noteq> 0" by (simp add: clamp_workers_def)
  ultimately show ?thesis by (simp add: pool_inv_def pool_init_def remaining_def)
qed

lemma pool_step_inv:
  assumes "pool_step scan s s'" and "pool_inv scan batch s"
  shows "pool_inv scan batch s'"
  using assms(1)
proof cases
  case (send j js)
  then have "remaining s' = remaining s" by (simp add: remaining_def ac_simps)
  with send assms(2) show ?thesis by (simp add: pool_inv_def)
next
  case (take i j js)
  have "remaining s' = remaining s"
    using sum_list_map_update [OF take(2), of job_of "W_Busy j"] take by (simp add: remaining_def ac_simps)
  moreover have "W_Done \<notin> set (po_workers s')"
    using take assms(2) by (auto simp: pool_inv_def dest: set_update_subset_insert [THEN subsetD])
  ultimately show ?thesis using take assms(2) by (auto simp: pool_inv_def)
next
  case (finish i j)
  have "remaining s = add_mset j (remaining s')"
    using sum_list_map_update [OF finish(2), of job_of W_Idle] finish by (simp add: remaining_def ac_simps)
  then have "mset (po_out s') + incidents_of scan (remaining s') = mset (po_out s) + incidents_of scan (remaining s)"
    using finish(1) by (simp add: incidents_of_def split: option.split)
  with assms(2) have "mset (po_out s') + incidents_of scan (remaining s') = incidents_of scan (mset batch)"
    by (simp only: pool_inv_def)
  moreover have "W_Done \<in> set (po_workers s') \<Longrightarrow> W_Done \<in> set (po_workers s)"
    using finish(1) by (auto dest: set_update_subset_insert [THEN subsetD])
  then have "po_workers s' \<noteq> [] \<and> (W_Done \<in> set (po_workers s') \<longrightarrow> po_unsent s' = [] \<and> po_jobs s' = [])"
    using finish(1) assms(2) by (simp add: pool_inv_def)
  ultimately show ?thesis unfolding pool_inv_def by blast
next
  case (quit i)
  have "remaining s' = remaining s"
    using sum_list_map_update [OF quit(2), of job_of W_Done] quit by (simp add: remaining_def)
  with quit assms(2) show ?thesis by (auto simp: pool_inv_def)
qed

lemma pool_steps_inv:
  "(pool_step scan)\<^sup>*\<^sup>* (pool_init n batch) s \<Longrightarrow> pool_inv scan batch s"
  by (induction rule: rtranclp_induct) (auto intro: pool_init_inv pool_step_inv)

section \<open>Progress and termination\<close>

lemma pool_progress:
  assumes "pool_inv scan batch s" and "\<not> pool_done s"
  shows "\<exists>s'. pool_step scan s s'"
proof (cases "po_unsent s")
  case (Cons j js)
  then show ?thesis using pool_step.send by blast
next
  case Nil
  with assms(2) obtain i where i: "i < length (po_workers s)" "po_workers s ! i \<noteq> W_Done"
    by (auto simp: pool_done_def list_all_length)
  then show ?thesis using Nil
    by (cases "po_workers s ! i"; cases "po_jobs s") (blast intro: pool_step.intros)+
qed

fun worker_cost :: "worker \<Rightarrow> nat" where
  "worker_cost W_Done = 0"
| "worker_cost W_Idle = 1"
| "worker_cost (W_Busy _) = 3"

definition pool_cost :: "pool \<Rightarrow> nat" where
  "pool_cost s = 4 * length (po_unsent s) + 3 * length (po_jobs s) + sum_list (map worker_cost (po_workers s))"

lemma sum_list_cost_update:
  "i < length xs \<Longrightarrow> sum_list (map f (xs[i := x])) + f (xs ! i) = sum_list (map f xs) + (f x :: nat)"
  by (induction xs arbitrary: i) (auto split: nat.split)

lemma pool_step_cost: "pool_step scan s s' \<Longrightarrow> pool_cost s' < pool_cost s"
proof (induction rule: pool_step.induct)
  case (take i s j js)
  with sum_list_cost_update [OF take(1), of worker_cost "W_Busy j"] show ?case by (simp add: pool_cost_def)
next
  case (finish i s j)
  with sum_list_cost_update [OF finish(1), of worker_cost W_Idle] show ?case by (simp add: pool_cost_def)
next
  case (quit i s)
  with sum_list_cost_update [OF quit(1), of worker_cost W_Done] show ?case by (simp add: pool_cost_def)
qed (simp add: pool_cost_def)

lemma incidents_of_mset: "incidents_of scan (mset js) = mset (List.map_filter scan js)"
  by (induction js) (auto simp: incidents_of_def List.map_filter_simps split: option.split)

section \<open>Properties\<close>

text \<open>
  C11. The pool is exact under every schedule. Whatever the interleaving of the threads, no
  state it reaches is stuck before the end, every run ends, within a number of steps bounded
  by the size of the batch, and at the end the incidents collected are those of scanning the
  files one after the other, each once, in some order.
\<close>

theorem scan_pool_exact:
  assumes "(pool_step scan ^^ n) (pool_init workers batch) s"
  shows "n \<le> 4 * length batch + 4
    \<and> (if pool_done s then mset (po_out s) = mset (List.map_filter scan batch) else Ex (pool_step scan s))"
proof -
  have "(pool_step scan)\<^sup>*\<^sup>* (pool_init workers batch) s" using assms by (rule relpowp_imp_rtranclp)
  then have inv: "pool_inv scan batch s" by (rule pool_steps_inv)
  have "pool_cost s + n \<le> pool_cost (pool_init workers batch)"
    using assms
  proof (induction n arbitrary: s)
    case (Suc n)
    then obtain t where "(pool_step scan ^^ n) (pool_init workers batch) t" "pool_step scan t s" by auto
    with Suc.IH [of t] pool_step_cost [of scan t s] show ?case by simp
  qed simp
  moreover have "sum_list (map worker_cost (replicate m W_Idle)) = m" for m by (induction m) simp_all
  then have "pool_cost (pool_init workers batch) \<le> 4 * length batch + 4"
    by (simp add: pool_cost_def pool_init_def clamp_workers_def)
  moreover have "mset (po_out s) = mset (List.map_filter scan batch)" if "pool_done s"
  proof -
    from that inv have "po_jobs s = []" "po_unsent s = []"
      by (auto simp: pool_done_def pool_inv_def list_all_iff neq_Nil_conv)
    moreover have "map job_of (po_workers s) = map (\<lambda>_. {#}) (po_workers s)"
      using that by (auto simp: pool_done_def list_all_iff)
    then have "sum_list (map job_of (po_workers s)) = {#}" by (metis sum_list_0)
    ultimately have "remaining s = {#}" by (simp add: remaining_def)
    with inv show ?thesis by (simp add: pool_inv_def incidents_of_mset) (simp add: incidents_of_def)
  qed
  ultimately show ?thesis using pool_progress [OF inv] by auto
qed

lemma scan_pool_exact_witness:
  "(pool_step (\<lambda>_. None) ^^ 1) (pool_init 1 []) ((pool_init 1 [])\<lparr>po_workers := [W_Done]\<rparr>)
   \<and> mset (po_out ((pool_init 1 [])\<lparr>po_workers := [W_Done]\<rparr>)) = mset (List.map_filter (\<lambda>_. None) [])"
proof -
  have "pool_step (\<lambda>_. None) (pool_init 1 []) ((pool_init 1 [])\<lparr>po_workers := (po_workers (pool_init 1 []))[0 := W_Done]\<rparr>)"
    by (rule pool_step.quit) (simp_all add: pool_init_def clamp_workers_def)
  then have "(pool_step (\<lambda>_. None) ^^ 1) (pool_init 1 []) ((pool_init 1 [])\<lparr>po_workers := [W_Done]\<rparr>)"
    by (simp add: pool_init_def clamp_workers_def eq_OO)
  with scan_pool_exact [OF this] show ?thesis
    by (simp add: pool_done_def pool_init_def)
qed

end
