(* ===== verification/Kguard.thy ===== *)
theory Kguard
  imports Config Copy_Auditor Envelope
begin

text \<open>
  The guard, \<open>kguard/mod.rs\<close>: the user-mode side of the minifilter's port. The messages of
  the driver, the watch-set message sent to it, the decision on one scan request, and the
  loop that receives, decides, replies and reports. The port, the connection reset and the
  device query are Windows calls: what arrives is an event, what is done an effect in the
  order of the code, and the results of the queries are arguments. \<open>None\<close> is a panic of the
  detection code.
\<close>

section \<open>Messages\<close>

definition DLP_MSG_VERSION :: u32 where
  "DLP_MSG_VERSION = 2"

definition DLP_MAX_PATH_CHARS :: nat where
  "DLP_MAX_PATH_CHARS = 512"

definition DLP_MAX_CONTENT :: nat where
  "DLP_MAX_CONTENT = 4 * 1024 * 1024"

definition DLP_VERDICT_ALLOW :: u32 where
  "DLP_VERDICT_ALLOW = 0"

definition DLP_VERDICT_BLOCK :: u32 where
  "DLP_VERDICT_BLOCK = 1"

definition DLP_REASON_WRITE :: u32 where
  "DLP_REASON_WRITE = 0"

definition DLP_REASON_READ :: u32 where
  "DLP_REASON_READ = 1"

text \<open>The path is the array of its 512 code units.\<close>

record dlp_scan_request =
  rq_version :: u32
  rq_reason :: u32
  rq_file_id :: u64
  rq_process_id :: u32
  rq_path_length :: u16
  rq_path :: "u16 list"
  rq_content_length :: u32
  rq_truncated :: u32

record dlp_scan_reply =
  rp_file_id :: u64
  rp_verdict :: u32

section \<open>The watch set\<close>

definition DLP_CONFIG_VERSION :: u32 where
  "DLP_CONFIG_VERSION = 1"

definition DLP_MAX_WATCH :: nat where
  "DLP_MAX_WATCH = 16"

definition DLP_MAX_WATCH_CHARS :: nat where
  "DLP_MAX_WATCH_CHARS = 260"

record dlp_config =
  dc_version :: u32
  dc_scan_fixed :: u32
  dc_scan_network :: u32
  dc_watch_count :: u32
  dc_watch_len :: "u16 list"
  dc_watch :: "u16 list list"

definition encode_utf16 :: "ustring \<Rightarrow> u16 list" where
  "encode_utf16 s = map of_nat (concat (map utf16_units s))"

text \<open>Copying a slice to the front of an array.\<close>

definition copy_front :: "'a list \<Rightarrow> 'a list \<Rightarrow> 'a list" where
  "copy_front arr xs = xs @ drop (length xs) arr"

definition add_watch :: "dlp_config \<Rightarrow> nat \<times> ustring \<Rightarrow> dlp_config" where
  "add_watch c ip =
     (let (i, prefix) = ip; units = take DLP_MAX_WATCH_CHARS (encode_utf16 prefix)
      in c\<lparr>dc_watch_len := (dc_watch_len c)[i := of_nat (length units)],
           dc_watch := (dc_watch c)[i := copy_front (dc_watch c ! i) units],
           dc_watch_count := dc_watch_count c + 1\<rparr>)"

definition from_kguard :: "kguard_config \<Rightarrow> dlp_config" where
  "from_kguard kg =
     foldl add_watch
       \<lparr>dc_version = DLP_CONFIG_VERSION, dc_scan_fixed = of_bool (kc_scan_fixed kg),
        dc_scan_network = of_bool (kc_scan_network kg), dc_watch_count = 0,
        dc_watch_len = replicate DLP_MAX_WATCH 0,
        dc_watch = replicate DLP_MAX_WATCH (replicate DLP_MAX_WATCH_CHARS 0)\<rparr>
       (enumerate 0 (take DLP_MAX_WATCH (kc_watch_paths kg)))"

section \<open>Thresholds and labels\<close>

definition should_block :: "verdict \<Rightarrow> kguard_config \<Rightarrow> bool" where
  "should_block v cfg \<longleftrightarrow> vd_edm v \<noteq> []
     \<or> list_ex (\<lambda>m. f64_ge (im_containment m) (kc_block_at cfg)
         \<or> f64_ge (im_coverage m) (kc_coverage_block_at cfg)) (vd_idm v)"

definition should_block_removable_write :: "verdict \<Rightarrow> kguard_config \<Rightarrow> bool" where
  "should_block_removable_write v cfg \<longleftrightarrow> vd_edm v \<noteq> []
     \<or> list_ex (\<lambda>m. f64_ge (im_containment m) (kc_removable_write_block_at cfg)
         \<or> f64_ge (im_coverage m) (kc_coverage_block_at cfg)) (vd_idm v)"

definition reason_label :: "u32 \<Rightarrow> ustring" where
  "reason_label r = (if r = DLP_REASON_WRITE then lit ''write''
     else if r = DLP_REASON_READ then lit ''read-taint'' else lit ''unknown'')"

definition block_note :: "u32 \<Rightarrow> ustring" where
  "block_note r = (if r = DLP_REASON_READ then lit ''read-taint'' else lit ''kernel-blocked'')"

definition should_reset_connections :: "u32 \<Rightarrow> bool \<Rightarrow> bool" where
  "should_reset_connections r blocked \<longleftrightarrow> r = DLP_REASON_READ \<and> blocked"

section \<open>The bundle of the guard\<close>

text \<open>
  \<open>identity\<close> is the result of loading the enrolled identity, when there is one, and
  \<open>ca_file\<close> the CA file of the installer.
\<close>

definition resolve_ca :: "bool \<Rightarrow> bytes option \<Rightarrow> bytes option \<Rightarrow> bytes option" where
  "resolve_ca has_identity identity_ca ca_file = (if has_identity then identity_ca else ca_file)"

definition load_verified_bundle ::
  "('cert, 'key, 'sig) signature_api \<Rightarrow> (bytes \<Rightarrow> header option) \<Rightarrow> bytes option \<Rightarrow> bytes option
   \<Rightarrow> index_bundle option" where
  "load_verified_bundle api parse_json ca stored =
     (case ca of
        None \<Rightarrow> None
      | Some ca_pem \<Rightarrow>
          (case stored of
             None \<Rightarrow> None
           | Some bs \<Rightarrow> (case load api parse_json bs ca_pem of Inl _ \<Rightarrow> None | Inr b \<Rightarrow> Some b)))"

section \<open>Incidents\<close>

definition ascii_upper :: "uchar \<Rightarrow> uchar" where
  "ascii_upper c = (if 97 \<le> c \<and> c \<le> 122 then c - 32 else c)"

definition to_ascii_uppercase :: "ustring \<Rightarrow> ustring" where
  "to_ascii_uppercase s = map ascii_upper s"

fun drive_letter_of :: "ustring \<Rightarrow> ustring" where
  "drive_letter_of (c1 # c2 # r) = (if c2 = 58 \<and> is_ascii_alphabetic c1 then [ascii_upper c1, 58] else [])"
| "drive_letter_of _ = []"

definition synthetic_device :: "ustring \<Rightarrow> device_identity" where
  "synthetic_device p =
     \<lparr>dev_drive_letter = drive_letter_of p, dev_vendor_id = [], dev_product_id = [], dev_serial = [],
      dev_product_name = [], dev_bus_type = lit ''usb'', dev_removable = True\<rparr>"

definition incident_for :: "ustring \<Rightarrow> verdict \<Rightarrow> bool \<Rightarrow> ustring \<Rightarrow> u32 \<Rightarrow> usb_incident option" where
  "incident_for disp v blocked channel reason =
     (let incident = \<lparr>ui_kind = IK_Match, ui_channel = channel, ui_file_name = vd_file_name v,
        ui_file_sha256 = vd_file_sha256 v, ui_verdict = Some v, ui_device = synthetic_device disp,
        ui_action_taken = (if blocked then AT_Blocked else AT_Audited), ui_note = Some (block_note reason),
        ui_key_id = None, ui_sealed_sha256 = None\<rparr>
      in if blocked then Some incident
         else if is_unreadable v then
           Some (incident\<lparr>ui_kind := IK_UnreadableOnRemovable, ui_note := Some (lit ''unreadable-on-removable'')\<rparr>)
         else None)"

definition envelope_passthrough :: "bytes \<Rightarrow> u32 \<Rightarrow> (bool \<times> usb_incident option) option" where
  "envelope_passthrough content reason = (if starts_with content ENV_MAGIC then Some (False, None) else None)"

definition basename_of :: "ustring \<Rightarrow> ustring" where
  "basename_of p =
     (let base = rsplit_first (\<lambda>c. c = 92 \<or> c = 47) p in if base = [] then p else base)"

definition seal_incident ::
  "verdict option \<Rightarrow> device_identity \<Rightarrow> ustring \<Rightarrow> ustring \<Rightarrow> action_taken \<Rightarrow> ustring \<Rightarrow> usb_incident" where
  "seal_incident vd device disp channel act note =
     (let (kind, name, sha) =
        (case vd of
           Some v \<Rightarrow> (if is_unreadable v then IK_UnreadableOnRemovable else IK_Match, vd_file_name v, vd_file_sha256 v)
         | None \<Rightarrow> (IK_Sealed, basename_of disp, []))
      in \<lparr>ui_kind = kind, ui_channel = channel, ui_file_name = name, ui_file_sha256 = sha, ui_verdict = vd,
          ui_device = device, ui_action_taken = act, ui_note = Some note, ui_key_id = None,
          ui_sealed_sha256 = None\<rparr>)"

section \<open>The decision\<close>

definition write_scan_override ::
  "u32 \<Rightarrow> usb_config \<Rightarrow> encrypt_bands \<Rightarrow> device_identity option \<Rightarrow> verdict option \<Rightarrow> ustring \<Rightarrow> ustring \<Rightarrow> bool
   \<Rightarrow> (bool \<times> usb_incident option) option" where
  "write_scan_override reason usb bands device vd disp channel sealer_healthy =
     (if reason = DLP_REASON_READ \<or> \<not> uc_enabled usb then None
      else case device of
        None \<Rightarrow> None
      | Some dev \<Rightarrow>
          if fst (usb_decide (to_policy usb) dev) \<noteq> Encrypt then None
          else case encrypt_params usb dev of (mode, _, on_block_band) \<Rightarrow>
            (case decide_seal mode bands on_block_band vd of
               SD_Block \<Rightarrow> None
             | SD_Plain \<Rightarrow> Some (False, None)
             | SD_Seal \<Rightarrow>
                 if sealer_healthy
                 then Some (False, Some (seal_incident vd dev disp channel AT_Audited (lit ''allowed-pending-seal'')))
                 else Some (True, Some (seal_incident vd dev disp channel AT_Blocked (lit ''seal-unavailable-blocked'')))))"

fun letter_for_nt_prefix :: "(ustring \<times> ustring) list \<Rightarrow> ustring \<Rightarrow> ustring option" where
  "letter_for_nt_prefix [] p = None"
| "letter_for_nt_prefix ((prefix, letter) # m) p =
     (case strip_prefix prefix (to_ascii_uppercase p) of
        Some rest \<Rightarrow> if rest = [] \<or> starts_with rest [92] then Some letter else letter_for_nt_prefix m p
      | None \<Rightarrow> letter_for_nt_prefix m p)"

text \<open>
  The cached map of volumes: \<open>build\<close> is the sweep over the letters now. A hit does not refresh
  the cache, a miss replaces it.
\<close>

type_synonym volume_map = "(ustring \<times> ustring) list"

definition drive_letter_for_nt_path ::
  "volume_map \<Rightarrow> ustring \<Rightarrow> volume_map option \<Rightarrow> ustring option \<times> volume_map option" where
  "drive_letter_for_nt_path build p cache =
     (case (case cache of Some m \<Rightarrow> letter_for_nt_prefix m p | None \<Rightarrow> None) of
        Some letter \<Rightarrow> (Some letter, cache)
      | None \<Rightarrow> (letter_for_nt_prefix build p, Some build))"

text \<open>What the system answers: the sweep of the letters and the identity behind a letter.\<close>

record guard_env =
  ge_volumes :: volume_map
  ge_query_device :: "ustring \<Rightarrow> device_identity option"

definition resolve_device_identity ::
  "guard_env \<Rightarrow> ustring \<Rightarrow> volume_map option \<Rightarrow> device_identity option \<times> volume_map option" where
  "resolve_device_identity env p cache =
     (let direct = drive_letter_of p
      in if direct \<noteq> [] then (ge_query_device env direct, cache)
         else case drive_letter_for_nt_path (ge_volumes env) p cache of
           (None, cache') \<Rightarrow> (None, cache')
         | (Some letter, cache') \<Rightarrow> (ge_query_device env letter, cache'))"

text \<open>The last part of the decision, when nothing overrides it.\<close>

definition decide_scored :: "kguard_config \<Rightarrow> verdict option \<Rightarrow> ustring \<Rightarrow> u32 \<Rightarrow> bool \<times> usb_incident option" where
  "decide_scored kg vd device_path reason =
     (case vd of
        None \<Rightarrow> (kc_fail_block kg, None)
      | Some v \<Rightarrow>
          let block = (if is_unreadable v then reason \<noteq> DLP_REASON_READ \<and> kc_fail_block kg
                       else if reason = DLP_REASON_READ then should_block v kg
                       else should_block_removable_write v kg)
          in (block, incident_for device_path v block (kc_channel_label kg) reason))"

type_synonym scorer = "bytes \<Rightarrow> ustring \<Rightarrow> verdict option"

definition guard_decide ::
  "config \<Rightarrow> scorer option \<Rightarrow> guard_env \<Rightarrow> ustring \<Rightarrow> bytes \<Rightarrow> u32 \<Rightarrow> bool \<Rightarrow> volume_map option
   \<Rightarrow> ((bool \<times> usb_incident option) \<times> volume_map option) option" where
  "guard_decide cfg scorer env device_path content reason sealer_healthy cache =
     (case envelope_passthrough content reason of
        Some pass \<Rightarrow> Some (pass, cache)
      | None \<Rightarrow>
          (case (case scorer of
                   None \<Rightarrow> Some None
                 | Some score_bytes \<Rightarrow> map_option Some (score_bytes content (basename_of device_path))) of
             None \<Rightarrow> None
           | Some vd \<Rightarrow>
               if reason \<noteq> DLP_REASON_READ \<and> uc_enabled (cfg_usb cfg) then
                 (case resolve_device_identity env device_path cache of (dev, cache') \<Rightarrow>
                    (case write_scan_override reason (cfg_usb cfg) (encrypt_bands_of cfg) dev vd device_path
                            (kc_channel_label (cfg_kguard cfg)) sealer_healthy of
                       Some r \<Rightarrow> Some (r, cache')
                     | None \<Rightarrow> Some (decide_scored (cfg_kguard cfg) vd device_path reason, cache')))
               else Some (decide_scored (cfg_kguard cfg) vd device_path reason, cache)))"

section \<open>The message loop\<close>

datatype guard_effect =
  GE_Reply dlp_scan_reply
| GE_ResetConnections u32
| GE_Report usb_incident

definition saturating_mul :: "u64 \<Rightarrow> u64 \<Rightarrow> u64" where
  "saturating_mul a b = (if unat a * unat b < 2 ^ 64 then a * b else - 1)"

text \<open>
  A received message: the request, the bytes of the buffer behind it, the configuration at
  the time, the health signal with the time, and the answers of the system.
\<close>

record guard_message =
  gm_request :: dlp_scan_request
  gm_content :: bytes
  gm_config :: config
  gm_health :: "(sealer_health \<times> u64) option"
  gm_env :: guard_env

definition message_healthy :: "guard_message \<Rightarrow> bool" where
  "message_healthy m =
     (case gm_health m of
        None \<Rightarrow> True
      | Some (h, now_ms) \<Rightarrow>
          is_healthy_at h now_ms (saturating_mul (kc_sealer_health_timeout_secs (cfg_kguard (gm_config m))) 1000))"

definition device_path_of :: "dlp_scan_request \<Rightarrow> ustring" where
  "device_path_of req =
     from_utf16_lossy (map unat (take (min (unat (rq_path_length req) div 2) DLP_MAX_PATH_CHARS) (rq_path req)))"

definition message_decision ::
  "scorer option \<Rightarrow> guard_message \<Rightarrow> volume_map option \<Rightarrow> ((bool \<times> usb_incident option) \<times> volume_map option) option" where
  "message_decision scorer m cache =
     (let req = gm_request m
      in if rq_version req \<noteq> DLP_MSG_VERSION then Some ((kc_fail_block (cfg_kguard (gm_config m)), None), cache)
         else guard_decide (gm_config m) scorer (gm_env m) (device_path_of req)
                (take (min (unat (rq_content_length req)) DLP_MAX_CONTENT) (gm_content m))
                (rq_reason req) (message_healthy m) cache)"

definition message_effects :: "dlp_scan_request \<Rightarrow> bool \<times> usb_incident option \<Rightarrow> guard_effect list" where
  "message_effects req d =
     (let (block, inc) = d
      in [GE_Reply \<lparr>rp_file_id = rq_file_id req,
                    rp_verdict = (if block then DLP_VERDICT_BLOCK else DLP_VERDICT_ALLOW)\<rparr>]
         @ (if should_reset_connections (rq_reason req) block then [GE_ResetConnections (rq_process_id req)] else [])
         @ (case inc of Some i \<Rightarrow> [GE_Report i] | None \<Rightarrow> []))"

datatype guard_event =
  EV_Stop
| EV_RecvError
| EV_Message guard_message

text \<open>The effects of each turn of the loop, which ends on a stop, a receive error or at the end of input.\<close>

fun message_loop :: "scorer option \<Rightarrow> volume_map option \<Rightarrow> guard_event list \<Rightarrow> guard_effect list list option" where
  "message_loop scorer cache [] = Some []"
| "message_loop scorer cache (EV_Stop # evs) = Some []"
| "message_loop scorer cache (EV_RecvError # evs) = Some []"
| "message_loop scorer cache (EV_Message m # evs) =
     (case message_decision scorer m cache of
        None \<Rightarrow> None
      | Some (d, cache') \<Rightarrow>
          map_option (\<lambda>turns. message_effects (gm_request m) d # turns) (message_loop scorer cache' evs))"

section \<open>What the guard decides\<close>

definition bundle_scorer :: "unicode \<Rightarrow> libs \<Rightarrow> (bytes \<Rightarrow> bytes) \<Rightarrow> index_bundle \<Rightarrow> scorer" where
  "bundle_scorer u l sha256 b content name = verdict_bytes u l sha256 b content name"

lemma verdict_bytes_total [panic_free]:
  "bundle_wf b \<Longrightarrow> \<exists>v. verdict_bytes u l sha256 b content name = Some v"
  using match_text_exact [of b u _ sha256]
  by (cases "extract_text l content name") (fastforce simp: verdict_bytes_def)+

lemma load_verified_bundle_wf: "load_verified_bundle api parse_json ca stored = Some b \<Longrightarrow> bundle_wf b"
  using load_wf by (fastforce simp: load_verified_bundle_def split: option.splits sum.splits)

lemma decide_seal_block_band:
  assumes "decide_seal mode bands bb (Some v) = SD_Block"
  shows "\<not> is_unreadable v" and "list_ex (in_block_band bands) (vd_idm v)"
  using assms
  by (auto simp: decide_seal_def is_unreadable_def split: encrypt_mode.splits extraction.splits if_splits block_band_policy.splits)

text \<open>With ordered thresholds the block band of the bands is inside that of the guard.\<close>

lemma block_band_blocks_write:
  assumes "f64_le (kc_removable_write_block_at (cfg_kguard cfg)) (kc_block_at (cfg_kguard cfg))"
    and "list_ex (in_block_band (encrypt_bands_of cfg)) (vd_idm v)"
  shows "should_block_removable_write v (cfg_kguard cfg)"
  using assms f64_le_trans
  by (fastforce simp: should_block_removable_write_def list_ex_iff in_block_band_def encrypt_bands_of_def f64_ge_def)

lemma guard_decide_scored:
  assumes "guard_decide cfg (Some sc) env p content reason healthy cache = Some (r, cache')"
    and "\<not> starts_with content ENV_MAGIC"
  shows "\<exists>v. sc content (basename_of p) = Some v \<and>
    r = (case (if reason \<noteq> DLP_REASON_READ \<and> uc_enabled (cfg_usb cfg)
               then write_scan_override reason (cfg_usb cfg) (encrypt_bands_of cfg) (fst (resolve_device_identity env p cache))
                 (Some v) p (kc_channel_label (cfg_kguard cfg)) healthy
               else None) of
           Some d \<Rightarrow> d | None \<Rightarrow> decide_scored (cfg_kguard cfg) (Some v) p reason)"
  using assms
  by (auto simp: guard_decide_def envelope_passthrough_def split: option.splits prod.splits if_splits)

text \<open>A destination that the guard leaves to the sealer.\<close>

definition sealing_dest :: "config \<Rightarrow> device_identity option \<Rightarrow> bool" where
  "sealing_dest cfg dev \<longleftrightarrow> uc_enabled (cfg_usb cfg)
     \<and> (\<exists>d. dev = Some d \<and> fst (usb_decide (to_policy (cfg_usb cfg)) d) = Encrypt)"

definition dest_decision :: "config \<Rightarrow> device_identity \<Rightarrow> verdict option \<Rightarrow> seal_decision" where
  "dest_decision cfg d vd =
     (case encrypt_params (cfg_usb cfg) d of (mode, _, bb) \<Rightarrow> decide_seal mode (encrypt_bands_of cfg) bb vd)"

lemma override_cases:
  assumes "reason \<noteq> DLP_REASON_READ"
  shows "write_scan_override reason (cfg_usb cfg) (encrypt_bands_of cfg) dev vd disp channel healthy =
    (if sealing_dest cfg dev then
       (case dest_decision cfg (the dev) vd of
          SD_Block \<Rightarrow> None
        | SD_Plain \<Rightarrow> Some (False, None)
        | SD_Seal \<Rightarrow>
            Some (\<not> healthy, Some (seal_incident vd (the dev) disp channel (if healthy then AT_Audited else AT_Blocked)
              (if healthy then lit ''allowed-pending-seal'' else lit ''seal-unavailable-blocked''))))
     else None)"
  using assms
  by (auto simp: write_scan_override_def sealing_dest_def dest_decision_def split: option.split prod.split seal_decision.split)

lemma seal_incident_action [simp]: "ui_action_taken (seal_incident vd d disp ch act note) = act"
  by (simp add: seal_incident_def Let_def split: prod.split)

section \<open>The watch set is laid out as the driver reads it\<close>

lemma copy_front_length [simp]: "length xs \<le> length arr \<Longrightarrow> length (copy_front arr xs) = length arr"
  by (simp add: copy_front_def)

definition watch_slot :: "u16 list \<Rightarrow> u16 list" where
  "watch_slot units = units @ replicate (DLP_MAX_WATCH_CHARS - length units) 0"

lemma foldl_add_watch:
  assumes "length ps \<le> n" and "length ls = k" and "length ws = k"
  shows "foldl add_watch
      \<lparr>dc_version = v, dc_scan_fixed = f, dc_scan_network = w, dc_watch_count = of_nat k,
       dc_watch_len = ls @ replicate n 0, dc_watch = ws @ replicate n (replicate DLP_MAX_WATCH_CHARS 0)\<rparr>
      (enumerate k ps) =
    \<lparr>dc_version = v, dc_scan_fixed = f, dc_scan_network = w, dc_watch_count = of_nat (k + length ps),
     dc_watch_len = ls @ map (\<lambda>p. of_nat (length (take DLP_MAX_WATCH_CHARS (encode_utf16 p)))) ps @ replicate (n - length ps) 0,
     dc_watch = ws @ map (\<lambda>p. watch_slot (take DLP_MAX_WATCH_CHARS (encode_utf16 p))) ps
       @ replicate (n - length ps) (replicate DLP_MAX_WATCH_CHARS 0)\<rparr>"
  using assms
proof (induction ps arbitrary: n ls ws k)
  case (Cons p ps)
  obtain m where n: "n = Suc m" using Cons.prems(1) by (cases n) auto
  let ?u = "take DLP_MAX_WATCH_CHARS (encode_utf16 p)"
  have slot: "copy_front (replicate DLP_MAX_WATCH_CHARS 0) ?u = watch_slot ?u"
    by (simp add: copy_front_def watch_slot_def)
  have "add_watch
      \<lparr>dc_version = v, dc_scan_fixed = f, dc_scan_network = w, dc_watch_count = of_nat k,
       dc_watch_len = ls @ replicate n 0, dc_watch = ws @ replicate n (replicate DLP_MAX_WATCH_CHARS 0)\<rparr> (k, p) =
      \<lparr>dc_version = v, dc_scan_fixed = f, dc_scan_network = w, dc_watch_count = of_nat (Suc k),
       dc_watch_len = (ls @ [of_nat (length ?u)]) @ replicate m 0,
       dc_watch = (ws @ [watch_slot ?u]) @ replicate m (replicate DLP_MAX_WATCH_CHARS 0)\<rparr>"
    using Cons.prems(2,3) slot by (simp add: add_watch_def Let_def n nth_append list_update_append)
  then show ?case
    using Cons.IH [of m "ls @ [of_nat (length ?u)]" "Suc k" "ws @ [watch_slot ?u]"] Cons.prems
    by (simp add: n)
qed simp

lemma from_kguard_eq:
  "from_kguard kg =
    (let ps = take DLP_MAX_WATCH (kc_watch_paths kg) in
     \<lparr>dc_version = DLP_CONFIG_VERSION, dc_scan_fixed = of_bool (kc_scan_fixed kg),
      dc_scan_network = of_bool (kc_scan_network kg), dc_watch_count = of_nat (length ps),
      dc_watch_len = map (\<lambda>p. of_nat (length (take DLP_MAX_WATCH_CHARS (encode_utf16 p)))) ps
        @ replicate (DLP_MAX_WATCH - length ps) 0,
      dc_watch = map (\<lambda>p. watch_slot (take DLP_MAX_WATCH_CHARS (encode_utf16 p))) ps
        @ replicate (DLP_MAX_WATCH - length ps) (replicate DLP_MAX_WATCH_CHARS 0)\<rparr>)"
  using foldl_add_watch [of "take DLP_MAX_WATCH (kc_watch_paths kg)" DLP_MAX_WATCH "[]" 0 "[]" DLP_CONFIG_VERSION
      "of_bool (kc_scan_fixed kg)" "of_bool (kc_scan_network kg)"]
  by (simp add: from_kguard_def Let_def)

section \<open>The effects of a turn\<close>

lemma incident_for_block: "incident_for p v True ch reason = Some i \<Longrightarrow> ui_action_taken i = AT_Blocked"
  by (auto simp: incident_for_def Let_def)

lemma guard_block_reported:
  assumes "guard_decide cfg (Some sc) env p content reason healthy cache = Some ((True, inc), cache')"
  shows "\<exists>i. inc = Some i \<and> ui_action_taken i = AT_Blocked"
proof -
  have env: "\<not> starts_with content ENV_MAGIC"
    using assms by (auto simp: guard_decide_def envelope_passthrough_def)
  let ?dev = "fst (resolve_device_identity env p cache)"
  obtain v where r: "(True, inc) = (case (if reason \<noteq> DLP_REASON_READ \<and> uc_enabled (cfg_usb cfg)
        then write_scan_override reason (cfg_usb cfg) (encrypt_bands_of cfg) ?dev (Some v) p
          (kc_channel_label (cfg_kguard cfg)) healthy else None) of
      Some d \<Rightarrow> d | None \<Rightarrow> decide_scored (cfg_kguard cfg) (Some v) p reason)"
    using guard_decide_scored [OF assms env] by blast
  have scored: "\<exists>i. inc = Some i \<and> ui_action_taken i = AT_Blocked"
    if "(True, inc) = decide_scored (cfg_kguard cfg) (Some v) p reason"
    using that by (auto simp: decide_scored_def Let_def incident_for_def)
  show ?thesis
  proof (cases "reason \<noteq> DLP_REASON_READ \<and> uc_enabled (cfg_usb cfg)")
    case True
    then show ?thesis
      using r scored override_cases [of reason cfg ?dev "Some v" p]
      by (auto split: if_splits seal_decision.splits)
  qed (use r scored in auto)
qed

lemma guard_decide_total:
  assumes "\<And>c n. \<exists>v. sc c n = Some v"
  shows "\<exists>r. guard_decide cfg (Some sc) env p content reason healthy cache = Some r"
proof -
  obtain v where "sc content (basename_of p) = Some v" using assms by blast
  then show ?thesis
    by (simp add: guard_decide_def split: option.split prod.split)
qed

lemma message_decision_total:
  "(\<And>c n. \<exists>v. sc c n = Some v) \<Longrightarrow> \<exists>d cache'. message_decision (Some sc) m cache = Some (d, cache')"
  using guard_decide_total [of sc] by (fastforce simp: message_decision_def Let_def)

fun messages :: "guard_event list \<Rightarrow> guard_message list" where
  "messages (EV_Message m # evs) = m # messages evs"
| "messages _ = []"

text \<open>
  A turn answers its request: one reply, first, for the file of the request; then a reset of
  the connections of the process when and only when a read was blocked; then the report of
  the incident, which is there whenever a request in the known version was blocked.
\<close>

definition turn_ok :: "guard_message \<Rightarrow> guard_effect list \<Rightarrow> bool" where
  "turn_ok m turn \<longleftrightarrow> (\<exists>block inc. turn =
       [GE_Reply \<lparr>rp_file_id = rq_file_id (gm_request m),
                  rp_verdict = (if block then DLP_VERDICT_BLOCK else DLP_VERDICT_ALLOW)\<rparr>]
       @ (if block \<and> rq_reason (gm_request m) = DLP_REASON_READ
          then [GE_ResetConnections (rq_process_id (gm_request m))] else [])
       @ (case inc of Some i \<Rightarrow> [GE_Report i] | None \<Rightarrow> [])
     \<and> (block \<and> rq_version (gm_request m) = DLP_MSG_VERSION \<longrightarrow>
          (\<exists>i. inc = Some i \<and> ui_action_taken i = AT_Blocked)))"

lemma message_effects_ok:
  assumes "message_decision (Some sc) m cache = Some (d, cache')"
  shows "turn_ok m (message_effects (gm_request m) d)"
proof -
  obtain block inc where d: "d = (block, inc)" by fastforce
  have "\<exists>i. inc = Some i \<and> ui_action_taken i = AT_Blocked"
    if "block" "rq_version (gm_request m) = DLP_MSG_VERSION"
    using assms that d guard_block_reported by (simp add: message_decision_def Let_def)
  then show ?thesis
    unfolding turn_ok_def
    by (intro exI [of _ block] exI [of _ inc]) (simp add: d message_effects_def should_reset_connections_def conj_commute)
qed

text \<open>
  Two gaps that the decision has: content that begins with the magic bytes passes without a
  scan whether it is an envelope or not, and when the threshold for removable writes is set
  above the general one, a write in the block band to an encrypting destination passes
  unsealed and unrecorded.
\<close>

lemma magic_prefix_not_scanned:
  "guard_decide cfg sc env p (ENV_MAGIC @ secret) reason healthy cache = Some ((False, None), cache)"
  by (simp add: guard_decide_def envelope_passthrough_def starts_with_def)

lemma misordered_thresholds_pass:
  assumes "dest_decision cfg d (Some v) = SD_Block" and "fst (usb_decide (to_policy (cfg_usb cfg)) d) = Encrypt"
    and "uc_enabled (cfg_usb cfg)" and "reason \<noteq> DLP_REASON_READ"
    and "\<not> should_block_removable_write v (cfg_kguard cfg)"
    and "\<not> starts_with content ENV_MAGIC" and "sc content (basename_of p) = Some v"
    and "resolve_device_identity env p cache = (Some d, cache')"
  shows "guard_decide cfg (Some sc) env p content reason healthy cache = Some ((False, None), cache')"
proof -
  have "\<not> is_unreadable v" using assms(1) decide_seal_block_band(1) by (auto simp: dest_decision_def split: prod.splits)
  moreover have "sealing_dest cfg (Some d)" using assms(2,3) by (simp add: sealing_dest_def)
  ultimately show ?thesis
    using assms override_cases [OF assms(4), of cfg "Some d" "Some v" p]
    by (simp add: guard_decide_def envelope_passthrough_def decide_scored_def incident_for_def Let_def)
qed

section \<open>An example\<close>

definition example_config :: config where
  "example_config =
     \<lparr>cfg_server_url = [], cfg_enrollment_token = None, cfg_ca_cert_path = [], cfg_state_dir = [],
      cfg_checkin_interval_seconds = default_checkin, cfg_usb = usb_config_default,
      cfg_kguard = kguard_config_default, cfg_clipboard = clipboard_config_default,
      cfg_netfilter = netfilter_config_default, cfg_notify = notify_config_default,
      cfg_crypto = crypto_config_default, cfg_trusted_origins = []\<rparr>"

definition example_message :: guard_message where
  "example_message =
     \<lparr>gm_request = \<lparr>rq_version = 2, rq_reason = 0, rq_file_id = 7, rq_process_id = 4, rq_path_length = 0,
        rq_path = replicate 512 0, rq_content_length = 2, rq_truncated = 0\<rparr>,
      gm_content = [104, 105], gm_config = example_config, gm_health = None,
      gm_env = \<lparr>ge_volumes = [], ge_query_device = \<lambda>_. None\<rparr>\<rparr>"

lemma example_thresholds:
  "f64_le (kc_removable_write_block_at (cfg_kguard example_config)) (kc_block_at (cfg_kguard example_config))"
  using fl64_mono_nonneg [of "3 / 20" "3 / 10"] by (simp add: example_config_def kguard_config_default_def)

section \<open>Properties\<close>



text \<open>
  C14. Every request is answered, in order. With a verified bundle the loop never panics on
  any sequence of messages; each message up to the first stop or receive error gets one turn,
  which replies first and exactly once, for its own file, resets connections exactly when a
  read was blocked, reports last, and reports every block of a request in the known version.
\<close>

theorem guard_answers_every_request:
  assumes "load_verified_bundle api parse_json ca stored = Some b"
  shows "\<exists>turns. message_loop (Some (bundle_scorer u l sha256 b)) cache evs = Some turns
    \<and> list_all2 turn_ok (messages evs) turns"
proof (induction evs arbitrary: cache rule: messages.induct)
  case (1 m evs)
  have "\<And>c n. \<exists>v. bundle_scorer u l sha256 b c n = Some v"
    using verdict_bytes_total [OF load_verified_bundle_wf [OF assms]] by (simp add: bundle_scorer_def)
  then obtain d cache' where d: "message_decision (Some (bundle_scorer u l sha256 b)) m cache = Some (d, cache')"
    using message_decision_total by blast
  from "1.IH" [of cache'] message_effects_ok [OF d] d show ?case by auto
qed simp_all

lemma guard_answers_every_request_witness:
  "\<exists>turn. message_loop (Some (bundle_scorer ascii_tables example_libs edm_example_sha256 example_bundle)) None
      [EV_Message example_message, EV_Stop, EV_Message example_message] = Some [turn]
    \<and> turn_ok example_message turn"
proof -
  have "load_verified_bundle example_api example_json (Some []) (Some example_file) = Some example_bundle"
    by (simp add: load_verified_bundle_def example_load)
  from guard_answers_every_request [OF this, of ascii_tables example_libs edm_example_sha256 None
      "[EV_Message example_message, EV_Stop, EV_Message example_message]"]
  show ?thesis by (auto simp: list_all2_Cons1)
qed

text \<open>
  The watch set that the driver receives is the configured one, up to the bounds of the
  message: the first 16 prefixes, each cut to 260 code units, with its length in front and
  zeros behind, in arrays of exactly the size the driver reads; no other slot is set.
\<close>

theorem watch_set_layout:
  defines "ps kg \<equiv> take DLP_MAX_WATCH (kc_watch_paths kg)"
  shows "dc_version (from_kguard kg) = DLP_CONFIG_VERSION
    \<and> unat (dc_watch_count (from_kguard kg)) = length (ps kg)
    \<and> length (dc_watch_len (from_kguard kg)) = DLP_MAX_WATCH \<and> length (dc_watch (from_kguard kg)) = DLP_MAX_WATCH
    \<and> list_all (\<lambda>w. length w = DLP_MAX_WATCH_CHARS) (dc_watch (from_kguard kg))
    \<and> map2 (\<lambda>n w. take (unat n) w) (dc_watch_len (from_kguard kg)) (dc_watch (from_kguard kg))
        = map (\<lambda>p. take DLP_MAX_WATCH_CHARS (encode_utf16 p)) (ps kg) @ replicate (DLP_MAX_WATCH - length (ps kg)) []"
proof -
  have slot: "take (unat (of_nat (length xs) :: u16)) (watch_slot xs) = xs" if "length xs \<le> 260" for xs
  proof -
    have "unat (of_nat (length xs) :: u16) = length xs" using that by (intro unat_of_nat_in_range) simp
    then show ?thesis by (simp add: watch_slot_def)
  qed
  have "length (take DLP_MAX_WATCH_CHARS (encode_utf16 p)) \<le> 260" for p by (simp add: DLP_MAX_WATCH_CHARS_def)
  note slot [OF this]
  then have "map2 (\<lambda>n w. take (unat n) w) (dc_watch_len (from_kguard kg)) (dc_watch (from_kguard kg))
        = map (\<lambda>p. take DLP_MAX_WATCH_CHARS (encode_utf16 p)) (ps kg) @ replicate (DLP_MAX_WATCH - length (ps kg)) []"
    by (simp only: from_kguard_eq Let_def ps_def [symmetric] dlp_config.select_convs) (simp add: zip_append zip_map_map zip_same_conv_map)
  moreover have "length (ps kg) \<le> 16" by (simp add: ps_def DLP_MAX_WATCH_def)
  then have "unat (of_nat (length (ps kg)) :: u32) = length (ps kg)"
    by (intro unat_of_nat_in_range) simp
  moreover have "length (watch_slot (take DLP_MAX_WATCH_CHARS (encode_utf16 p))) = DLP_MAX_WATCH_CHARS" for p
    by (simp add: watch_slot_def)
  ultimately show ?thesis
    by (simp add: from_kguard_eq Let_def ps_def [symmetric] list_all_iff)
      (auto simp: ps_def set_replicate_conv_if split: if_splits)
qed

end
