(* ===== verification/Usb_Enforce.thy ===== *)
theory Usb_Enforce
  imports Usb_Policy Text_Codec
begin

text \<open>
  Live device enforcement (\<open>usb/enforce.rs\<close>): the registry writes behind write protection, the
  portable-device policy and the tethering restriction, and the dismount of a volume. The plans and
  \<open>apply\<close> are in theory \<open>Usb_Policy\<close>. The system is a registry below \<open>HKLM\<close> and the set of dismounted
  volumes; every call may fail, as a parameter says. Shown: a plan that reports success is in force, at
  the place the plan names, a plan touches nothing else, and reverting restores.
\<close>

section \<open>The system\<close>

datatype reg_value = REG_DWORD u32 | REG_SZ bytes

record win_state =
  ws_registry :: "ustring \<times> ustring \<rightharpoonup> reg_value"
  ws_dismounted :: "ustring set"

text \<open>The answers of the calls, by their arguments, and the \<open>Debug\<close> form of a return code.\<close>

record win_calls =
  wc_create_key :: "ustring \<Rightarrow> u32"
  wc_set_value :: "ustring \<Rightarrow> ustring \<Rightarrow> u32"
  wc_open_volume :: "ustring \<Rightarrow> bool"
  wc_lock :: "ustring \<Rightarrow> bool"
  wc_dismount :: "ustring \<Rightarrow> bool"
  wc_show_rc :: "u32 \<Rightarrow> ustring"

section \<open>The registry locations\<close>

definition WPD_DENY_KEY :: ustring where
  "WPD_DENY_KEY = join [92] (map lit
     [''HKLM'', ''Software'', ''Policies'', ''Microsoft'', ''Windows'', ''RemovableStorageDevices'',
      ''{6AC27878-A6FA-4155-BA85-F98F491D4F33}''])"

definition WPD_DENY_READ_VALUE :: ustring where
  "WPD_DENY_READ_VALUE = lit ''Deny_Read''"

definition WPD_DENY_WRITE_VALUE :: ustring where
  "WPD_DENY_WRITE_VALUE = lit ''Deny_Write''"

definition TETHERING_DENY_KEY :: ustring where
  "TETHERING_DENY_KEY = join [92] (map lit
     [''HKLM'', ''Software'', ''Policies'', ''Microsoft'', ''Windows'', ''DeviceInstall'', ''Restrictions'',
      ''DenyDeviceClasses''])"

definition NET_CLASS_GUID :: ustring where
  "NET_CLASS_GUID = lit ''{4d36e972-e325-11ce-bfc1-08002be10318}''"

text \<open>\<open>str::trim_start_matches\<close> with a string pattern: the pattern is removed as often as it stands in front.\<close>

function trim_start_str :: "'a list \<Rightarrow> 'a list \<Rightarrow> 'a list" where
  "trim_start_str pre s = (if pre \<noteq> [] \<and> starts_with s pre then trim_start_str pre (drop (length pre) s) else s)"
  by pat_completeness auto
termination by (relation "measure (\<lambda>(pre, s). length s)") (auto simp: starts_with_iff)

declare trim_start_str.simps [simp del]

definition below_hklm :: "ustring \<Rightarrow> ustring" where
  "below_hklm k = trim_start_str (lit ''HKLM'' @ [92]) k"

section \<open>The calls\<close>

definition set_write_protect :: "win_calls \<Rightarrow> win_state \<Rightarrow> u32 \<Rightarrow> (ustring + unit) \<times> win_state" where
  "set_write_protect os st value =
     (let subkey = join [92] (map lit [''SYSTEM'', ''CurrentControlSet'', ''Control'', ''StorageDevicePolicies'']);
          name = lit ''WriteProtect''; rc = wc_create_key os subkey; rs = wc_set_value os subkey name
      in if rc \<noteq> 0 then
           (Inl (lit ''RegCreateKeyEx(StorageDevicePolicies) failed: '' @ wc_show_rc os rc @ lit '' (need admin/SYSTEM)''), st)
         else if rs \<noteq> 0 then
           (Inl (lit ''RegSetValueEx(WriteProtect='' @ show_nat (unat value) @ lit '') failed: '' @ wc_show_rc os rs), st)
         else (Inr (), st\<lparr>ws_registry := (ws_registry st)((subkey, name) \<mapsto> REG_DWORD value)\<rparr>))"

definition set_hklm_dword ::
  "win_calls \<Rightarrow> win_state \<Rightarrow> ustring \<Rightarrow> ustring \<Rightarrow> u32 \<Rightarrow> (ustring + unit) \<times> win_state" where
  "set_hklm_dword os st subkey value_name value =
     (let rc = wc_create_key os subkey; rs = wc_set_value os subkey value_name
      in if rc \<noteq> 0 then
           (Inl (lit ''RegCreateKeyEx('' @ subkey @ lit '') failed: '' @ wc_show_rc os rc @ lit '' (need admin/SYSTEM)''), st)
         else if rs \<noteq> 0 then
           (Inl (lit ''RegSetValueEx('' @ value_name @ lit ''='' @ show_nat (unat value) @ lit '') failed: '' @ wc_show_rc os rs), st)
         else (Inr (), st\<lparr>ws_registry := (ws_registry st)((subkey, value_name) \<mapsto> REG_DWORD value)\<rparr>))"

text \<open>The payload of a \<open>REG_SZ\<close> value: the UTF-16 units with the terminating NUL, little-endian.\<close>

definition reg_sz_bytes :: "ustring \<Rightarrow> bytes" where
  "reg_sz_bytes s = concat (map (to_le 2) (concat (map utf16_units s) @ [0]))"

definition set_hklm_string ::
  "win_calls \<Rightarrow> win_state \<Rightarrow> ustring \<Rightarrow> ustring \<Rightarrow> ustring \<Rightarrow> (ustring + unit) \<times> win_state" where
  "set_hklm_string os st subkey value_name value =
     (let rc = wc_create_key os subkey; rs = wc_set_value os subkey value_name
      in if rc \<noteq> 0 then
           (Inl (lit ''RegCreateKeyEx('' @ subkey @ lit '') failed: '' @ wc_show_rc os rc @ lit '' (need admin/SYSTEM)''), st)
         else if rs \<noteq> 0 then
           (Inl (lit ''RegSetValueEx('' @ value_name @ lit '') failed: '' @ wc_show_rc os rs), st)
         else (Inr (), st\<lparr>ws_registry := (ws_registry st)((subkey, value_name) \<mapsto> REG_SZ (reg_sz_bytes value))\<rparr>))"

definition dword_of :: "bool \<Rightarrow> u32" where
  "dword_of b = (if b then 1 else 0)"

definition set_wpd_deny :: "win_calls \<Rightarrow> win_state \<Rightarrow> bool \<Rightarrow> bool \<Rightarrow> (ustring + unit) \<times> win_state" where
  "set_wpd_deny os st rd wr =
     (let subkey = below_hklm WPD_DENY_KEY
      in case set_hklm_dword os st subkey WPD_DENY_READ_VALUE (dword_of rd) of
           (Inl e, st1) \<Rightarrow> (Inl e, st1)
         | (Inr _, st1) \<Rightarrow> set_hklm_dword os st1 subkey WPD_DENY_WRITE_VALUE (dword_of wr))"

definition RESTRICTIONS_KEY :: ustring where
  "RESTRICTIONS_KEY = join [92] (map lit
     [''Software'', ''Policies'', ''Microsoft'', ''Windows'', ''DeviceInstall'', ''Restrictions''])"

definition block_tethering :: "win_calls \<Rightarrow> win_state \<Rightarrow> (ustring + unit) \<times> win_state" where
  "block_tethering os st =
     (case set_hklm_dword os st RESTRICTIONS_KEY (lit ''DenyDeviceClasses'') 1 of
        (Inl e, st1) \<Rightarrow> (Inl e, st1)
      | (Inr _, st1) \<Rightarrow> set_hklm_string os st1 (below_hklm TETHERING_DENY_KEY) (lit ''1'') NET_CLASS_GUID)"

definition volume_device :: "ustring \<Rightarrow> ustring" where
  "volume_device drive_letter =
     [92, 92, 46, 92] @ trim_end_matches (\<lambda>c. c = 47) (trim_end_matches (\<lambda>c. c = 92) drive_letter)"

text \<open>Lock and dismount are both tried; the first of the two failures is reported.\<close>

definition dismount_volume :: "win_calls \<Rightarrow> win_state \<Rightarrow> ustring \<Rightarrow> (ustring + unit) \<times> win_state" where
  "dismount_volume os st drive_letter =
     (let device = volume_device drive_letter
      in if \<not> wc_open_volume os device then (Inl (lit ''opening '' @ device @ lit '' for dismount''), st)
         else
           let st' = (if wc_dismount os device then st\<lparr>ws_dismounted := insert device (ws_dismounted st)\<rparr> else st)
           in if \<not> wc_lock os device then (Inl (lit ''locking '' @ device), st')
              else if \<not> wc_dismount os device then (Inl (lit ''dismounting '' @ device), st')
              else (Inr (), st'))"

fun usb_execute_live :: "win_calls \<Rightarrow> win_state \<Rightarrow> planned_action \<Rightarrow> (ustring + unit) \<times> win_state" where
  "usb_execute_live os st PA_NoChange = (Inr (), st)"
| "usb_execute_live os st (SetWriteProtect _ _ value) = set_write_protect os st value"
| "usb_execute_live os st (ClearWriteProtect _ _ value) = set_write_protect os st value"
| "usb_execute_live os st (DismountVolume drive_letter) = dismount_volume os st drive_letter"
| "usb_execute_live os st (SetWpdDeny rd wr) = set_wpd_deny os st rd wr"
| "usb_execute_live os st ClearWpdDeny = set_wpd_deny os st False False"
| "usb_execute_live os st BlockTethering = block_tethering os st"

section \<open>What a plan promises\<close>

text \<open>
  The meaning of a plan, read off its own data: the registry values it sets and the volumes it
  dismounts.
\<close>

fun plan_values :: "planned_action \<Rightarrow> ((ustring \<times> ustring) \<times> reg_value) list" where
  "plan_values (SetWriteProtect k n v) = [((below_hklm k, n), REG_DWORD v)]"
| "plan_values (ClearWriteProtect k n v) = [((below_hklm k, n), REG_DWORD v)]"
| "plan_values (SetWpdDeny rd wr) =
     [((below_hklm WPD_DENY_KEY, WPD_DENY_READ_VALUE), REG_DWORD (dword_of rd)),
      ((below_hklm WPD_DENY_KEY, WPD_DENY_WRITE_VALUE), REG_DWORD (dword_of wr))]"
| "plan_values ClearWpdDeny =
     [((below_hklm WPD_DENY_KEY, WPD_DENY_READ_VALUE), REG_DWORD 0),
      ((below_hklm WPD_DENY_KEY, WPD_DENY_WRITE_VALUE), REG_DWORD 0)]"
| "plan_values BlockTethering =
     [((RESTRICTIONS_KEY, lit ''DenyDeviceClasses''), REG_DWORD 1),
      ((below_hklm TETHERING_DENY_KEY, lit ''1''), REG_SZ (reg_sz_bytes NET_CLASS_GUID))]"
| "plan_values _ = []"

fun plan_volumes :: "planned_action \<Rightarrow> ustring set" where
  "plan_volumes (DismountVolume d) = {volume_device d}"
| "plan_volumes _ = {}"

text \<open>The plans the agent makes: those of the planning functions and their reverts.\<close>

definition agent_plan :: "planned_action \<Rightarrow> bool" where
  "agent_plan p \<longleftrightarrow> (\<exists>a dev. p \<in> {plan a dev, plan_mtp a, plan_tethering a, plan_revert_read_only, plan_revert_mtp})"

lemma below_hklm_WRITE_PROTECT_KEY:
  "below_hklm WRITE_PROTECT_KEY = join [92] (map lit [''SYSTEM'', ''CurrentControlSet'', ''Control'', ''StorageDevicePolicies''])"
  by (simp add: below_hklm_def WRITE_PROTECT_KEY_def lit_def trim_start_str.simps starts_with_def)

lemma wpd_values_distinct: "WPD_DENY_READ_VALUE \<noteq> WPD_DENY_WRITE_VALUE"
  by (simp add: WPD_DENY_READ_VALUE_def WPD_DENY_WRITE_VALUE_def lit_def)

lemma tethering_keys_distinct: "(RESTRICTIONS_KEY, lit ''DenyDeviceClasses'') \<noteq> (k, lit ''1'')"
  by (simp add: lit_def)

definition reg_ok :: "win_calls \<Rightarrow> ustring \<times> ustring \<Rightarrow> bool" where
  "reg_ok os kn \<longleftrightarrow> wc_create_key os (fst kn) = 0 \<and> wc_set_value os (fst kn) (snd kn) = 0"

definition reg_put :: "ustring \<times> ustring \<Rightarrow> reg_value \<Rightarrow> win_state \<Rightarrow> win_state" where
  "reg_put kn v st = st\<lparr>ws_registry := (ws_registry st)(kn \<mapsto> v)\<rparr>"

lemma registry_writes:
  "\<exists>e. set_hklm_dword os st k n v = (if reg_ok os (k, n) then (Inr (), reg_put (k, n) (REG_DWORD v) st) else (Inl e, st))"
  "\<exists>e. set_hklm_string os st k n s = (if reg_ok os (k, n) then (Inr (), reg_put (k, n) (REG_SZ (reg_sz_bytes s)) st) else (Inl e, st))"
  "\<exists>e. set_write_protect os st v = (if reg_ok os (below_hklm WRITE_PROTECT_KEY, WRITE_PROTECT_VALUE)
      then (Inr (), reg_put (below_hklm WRITE_PROTECT_KEY, WRITE_PROTECT_VALUE) (REG_DWORD v) st) else (Inl e, st))"
  by (simp_all add: set_hklm_dword_def set_hklm_string_def set_write_protect_def below_hklm_WRITE_PROTECT_KEY
      WRITE_PROTECT_VALUE_def Let_def reg_ok_def reg_put_def)

lemma agent_plan_cases:
  assumes "agent_plan p"
  obtains "p = PA_NoChange" | l where "p = DismountVolume l"
  | v where "p \<in> {SetWriteProtect WRITE_PROTECT_KEY WRITE_PROTECT_VALUE v, ClearWriteProtect WRITE_PROTECT_KEY WRITE_PROTECT_VALUE v}"
  | rd wr where "p = SetWpdDeny rd wr" | "p = ClearWpdDeny" | "p = BlockTethering"
proof -
  from assms obtain a dev where "p \<in> {plan a dev, plan_mtp a, plan_tethering a, plan_revert_read_only, plan_revert_mtp}"
    by (auto simp: agent_plan_def)
  then show thesis using that by (cases a) (auto simp: plan_revert_read_only_def plan_revert_mtp_def)
qed

text \<open>A plan is carried out up to its first failing write.\<close>

fun write_all :: "win_calls \<Rightarrow> ((ustring \<times> ustring) \<times> reg_value) list \<Rightarrow> win_state \<Rightarrow> bool \<times> win_state" where
  "write_all os [] st = (True, st)"
| "write_all os ((kn, v) # vs) st = (if reg_ok os kn then write_all os vs (reg_put kn v st) else (False, st))"

lemma write_all_frame:
  "write_all os vs st = (ok, st') \<Longrightarrow> kn \<notin> fst ` set vs \<Longrightarrow>
     ws_registry st' kn = ws_registry st kn"
  "write_all os vs st = (ok, st') \<Longrightarrow> ws_dismounted st' = ws_dismounted st"
  by (induction os vs st rule: write_all.induct) (simp_all add: reg_put_def split: if_splits)

lemma write_all_ok: "fst (write_all os vs st) = list_all (\<lambda>(kn, v). reg_ok os kn) vs"
  by (induction os vs st rule: write_all.induct) auto

lemma write_all_done:
  "write_all os vs st = (True, st') \<Longrightarrow> distinct (map fst vs) \<Longrightarrow> (kn, v) \<in> set vs \<Longrightarrow> ws_registry st' kn = Some v"
proof (induction os vs st rule: write_all.induct)
  case (2 os kn' v' vs st)
  then show ?case using write_all_frame(1) [of os vs "reg_put kn' v' st" True st' kn']
    by (auto simp: reg_put_def split: if_splits)
qed simp

lemma wpd_writes:
  "\<exists>e. set_wpd_deny os st rd wr =
     (case write_all os (plan_values (SetWpdDeny rd wr)) st of (True, st') \<Rightarrow> (Inr (), st') | (False, st') \<Rightarrow> (Inl e, st'))"
  using registry_writes(1) [of os st "below_hklm WPD_DENY_KEY" WPD_DENY_READ_VALUE "dword_of rd"]
    registry_writes(1) [of os "reg_put (below_hklm WPD_DENY_KEY, WPD_DENY_READ_VALUE) (REG_DWORD (dword_of rd)) st"
      "below_hklm WPD_DENY_KEY" WPD_DENY_WRITE_VALUE "dword_of wr"]
  by (auto simp: set_wpd_deny_def Let_def)

lemma execute_live_writes:
  assumes "agent_plan p" and "plan_volumes p = {}"
  shows "\<exists>e. usb_execute_live os st p = (case write_all os (plan_values p) st of (True, st') \<Rightarrow> (Inr (), st') | (False, st') \<Rightarrow> (Inl e, st'))
    \<and> distinct (map fst (plan_values p))"
  using assms(1)
proof (cases rule: agent_plan_cases)
  case (3 v)
  then show ?thesis using registry_writes(3) [of os st v] by auto
next
  case (4 rd wr)
  then show ?thesis using wpd_writes [of os st rd wr] wpd_values_distinct by auto
next
  case 5
  then show ?thesis using wpd_writes [of os st False False] wpd_values_distinct by (auto simp: dword_of_def)
next
  case 6
  then show ?thesis
    using registry_writes(1) [of os st RESTRICTIONS_KEY "lit ''DenyDeviceClasses''" 1]
      registry_writes(2) [of os "reg_put (RESTRICTIONS_KEY, lit ''DenyDeviceClasses'') (REG_DWORD 1) st"
        "below_hklm TETHERING_DENY_KEY" "lit ''1''" NET_CLASS_GUID] tethering_keys_distinct
    by (auto simp: block_tethering_def)
qed (use assms(2) in auto)

text \<open>What applying a plan of registry values does.\<close>

lemma apply_values:
  assumes "agent_plan p" and "plan_volumes p = {}" and "apply_plan (usb_execute_live os) p Live st = (r, st')"
  obtains ok where "write_all os (plan_values p) st = (ok, st')" "(\<exists>out. r = Inr out) = ok" "distinct (map fst (plan_values p))"
proof -
  obtain ok st1 where w: "write_all os (plan_values p) st = (ok, st1)" by fastforce
  from execute_live_writes [OF assms(1,2), of os st] obtain e where
    x: "usb_execute_live os st p = (if ok then (Inr (), st1) else (Inl e, st1))" and d: "distinct (map fst (plan_values p))"
    using w by (cases ok) auto
  have "st' = st1" "(\<exists>out. r = Inr out) = ok"
    using assms(3) x w by (auto simp: apply_plan_def split: if_splits)
  with w d that show thesis by blast
qed

lemma executed_values:
  assumes "agent_plan p" and "plan_volumes p = {}" and "apply_plan (usb_execute_live os) p Live st = (Inr out, st')"
    and "(kn, v) \<in> set (plan_values p)"
  shows "ws_registry st' kn = Some v"
  using apply_values [OF assms(1,2,3)] write_all_done [OF _ _ assms(4)] by (metis (full_types))

text \<open>
  C24. Enforcement is what the plan says. For every plan the agent makes, and whatever the system refuses: if it
  is reported as executed, every registry value the plan names has the planned data, at the planned place, and the
  planned volume is dismounted; an error is reported only when some write, or opening, locking or dismounting the volume
  failed; and in no case is another registry value or another volume changed.
\<close>

theorem enforcement_matches_plan:
  assumes "agent_plan p" and "apply_plan (usb_execute_live os) p Live st = (r, st')"
  shows "(case r of
      Inr out \<Rightarrow> list_all (\<lambda>(kn, v). ws_registry st' kn = Some v) (plan_values p) \<and> plan_volumes p \<subseteq> ws_dismounted st'
    | Inl e \<Rightarrow> list_ex (\<lambda>(kn, v). \<not> reg_ok os kn) (plan_values p)
        \<or> (\<exists>d \<in> plan_volumes p. \<not> (wc_open_volume os d \<and> wc_lock os d \<and> wc_dismount os d)))
    \<and> (kn \<in> fst ` set (plan_values p) \<or> ws_registry st' kn = ws_registry st kn)
    \<and> ws_dismounted st \<subseteq> ws_dismounted st' \<and> ws_dismounted st' \<subseteq> plan_volumes p \<union> ws_dismounted st"
proof (cases "plan_volumes p = {}")
  case True
  from apply_values [OF assms(1) True assms(2)] obtain ok where
    w: "write_all os (plan_values p) st = (ok, st')" and ok: "(\<exists>out. r = Inr out) = ok" by blast
  have "list_all (\<lambda>(kn, v). ws_registry st' kn = Some v) (plan_values p)" if "r = Inr out" for out
    using executed_values [OF assms(1) True] assms(2) that by (auto simp: list_all_iff)
  moreover have "list_ex (\<lambda>(kn, v). \<not> reg_ok os kn) (plan_values p)" if "\<not> ok"
    using that write_all_ok [of os "plan_values p" st] w by (auto simp: list_all_iff list_ex_iff)
  ultimately show ?thesis
    using write_all_frame(1) [OF w, of kn] write_all_frame(2) [OF w] ok True by (cases r) auto
next
  case False
  then obtain l where "p = DismountVolume l" by (cases p) auto
  with assms(2) show ?thesis
    by (auto simp: apply_plan_def dismount_volume_def Let_def split: if_splits)
qed

definition willing_calls :: win_calls where
  "willing_calls = \<lparr>wc_create_key = (\<lambda>_. 0), wc_set_value = (\<lambda>_ _. 0), wc_open_volume = (\<lambda>_. True),
     wc_lock = (\<lambda>_. True), wc_dismount = (\<lambda>_. True), wc_show_rc = (\<lambda>_. [])\<rparr>"

definition stick :: device_identity where
  "stick = \<lparr>dev_drive_letter = lit ''E:'', dev_vendor_id = [], dev_product_id = [], dev_serial = lit ''S'',
     dev_product_name = [], dev_bus_type = lit ''usb'', dev_removable = True\<rparr>"

lemma enforcement_matches_plan_witness:
  "lit [CHR 0x5C, CHR 0x5C, CHR ''.'', CHR 0x5C, CHR ''E'', CHR '':'']
     \<in> ws_dismounted (snd (apply_plan (usb_execute_live willing_calls) (plan Block stick) Live \<lparr>ws_registry = Map.empty, ws_dismounted = {}\<rparr>))"
proof -
  let ?a = "apply_plan (usb_execute_live willing_calls) (plan Block stick) Live \<lparr>ws_registry = Map.empty, ws_dismounted = {}\<rparr>"
  have ok: "fst ?a = Inr (Executed (plan Block stick))"
    by (simp add: apply_plan_def dismount_volume_def willing_calls_def Let_def)
  have "agent_plan (plan Block stick)" unfolding agent_plan_def by blast
  from enforcement_matches_plan [OF this, of willing_calls _ "fst ?a" "snd ?a" "([], [])"] ok
  have "plan_volumes (plan Block stick) \<subseteq> ws_dismounted (snd ?a)" by simp
  then show ?thesis by (simp add: volume_device_def stick_def lit_def trim_end_matches_def)
qed

text \<open>Reverting lifts write protection and the portable-device policy again, whatever was set before.\<close>

lemma revert_lifts_enforcement:
  assumes "apply_plan (usb_execute_live os) plan_revert_read_only Live st = (Inr out, st')"
    and "apply_plan (usb_execute_live os) plan_revert_mtp Live st' = (Inr out', st'')"
  shows "ws_registry st' (below_hklm WRITE_PROTECT_KEY, WRITE_PROTECT_VALUE) = Some (REG_DWORD 0)"
    and "ws_registry st'' (below_hklm WPD_DENY_KEY, WPD_DENY_READ_VALUE) = Some (REG_DWORD 0)"
    and "ws_registry st'' (below_hklm WPD_DENY_KEY, WPD_DENY_WRITE_VALUE) = Some (REG_DWORD 0)"
proof -
  have p: "agent_plan plan_revert_read_only" "agent_plan plan_revert_mtp" unfolding agent_plan_def by blast+
  note v = executed_values [OF p(1) _ assms(1)] executed_values [OF p(2) _ assms(2)]
  show "ws_registry st' (below_hklm WRITE_PROTECT_KEY, WRITE_PROTECT_VALUE) = Some (REG_DWORD 0)"
    by (rule v(1)) (simp_all add: plan_revert_read_only_def)
  show "ws_registry st'' (below_hklm WPD_DENY_KEY, WPD_DENY_READ_VALUE) = Some (REG_DWORD 0)"
    by (rule v(2)) (simp_all add: plan_revert_mtp_def)
  show "ws_registry st'' (below_hklm WPD_DENY_KEY, WPD_DENY_WRITE_VALUE) = Some (REG_DWORD 0)"
    by (rule v(2)) (simp_all add: plan_revert_mtp_def)
qed

text \<open>
  The dismount is tried although the lock failed, and its success then goes unreported: the error says that
  enforcement failed while the volume is dismounted.
\<close>

lemma dismounted_but_reported_failed:
  "\<exists>e st'. dismount_volume (willing_calls\<lparr>wc_lock := \<lambda>_. False\<rparr>) \<lparr>ws_registry = Map.empty, ws_dismounted = {}\<rparr> l = (Inl e, st')
     \<and> volume_device l \<in> ws_dismounted st'"
  by (simp add: dismount_volume_def willing_calls_def Let_def)

end
