(* ===== verification/Usb_Monitor.thy ===== *)
theory Usb_Monitor
  imports Usb_Enforce Scan_Pool Kguard "HOL-Library.AList"
begin

text \<open>
  The USB monitor (\<open>usb/mod.rs\<close>, \<open>usb/watch.rs\<close>, the volume listing of \<open>usb/device.rs\<close>): the listing of
  removable volumes, the difference of two listings as events, and the poll loop that applies the policy
  to arrivals, audits or seals what is copied to the mounted volumes and marks itself alive. A turn
  of the loop takes what the system answers at that time. Shown: the table of volumes under audit, which the
  loop keeps by inserting and removing entries on events, is at every time the one determined by
  the listings alone, and the failure modes of a volume to be sealed.
\<close>

section \<open>Listing the volumes\<close>

datatype device_error = OpenFailed ustring | IoctlFailed ustring | ShortDescriptor nat ustring

text \<open>The answers of the device calls, by the name of the device: whether it opens, and the bytes of the descriptor returned.\<close>

record device_calls =
  dc_drives :: u32
  dc_drive_type :: "ustring \<Rightarrow> u32"
  dc_open :: "ustring \<Rightarrow> bool"
  dc_query :: "ustring \<Rightarrow> bytes option"

definition query_device_identity :: "device_calls \<Rightarrow> ustring \<Rightarrow> (device_error + device_identity) option" where
  "query_device_identity os drive_letter =
     (let device = volume_device drive_letter
      in if \<not> dc_open os device then Some (Inl (OpenFailed device))
         else case dc_query os device of
           None \<Rightarrow> Some (Inl (IoctlFailed device))
         | Some buf \<Rightarrow>
             if length buf < DESCRIPTOR_MIN then Some (Inl (ShortDescriptor (length buf) device))
             else map_option (\<lambda>d. Inr (d\<lparr>dev_drive_letter := drop 4 device\<rparr>)) (parse_storage_descriptor buf))"

definition DRIVE_REMOVABLE :: u32 where
  "DRIVE_REMOVABLE = 2"

definition DRIVE_FIXED :: u32 where
  "DRIVE_FIXED = 3"

definition drive_name :: "nat \<Rightarrow> ustring" where
  "drive_name i = [65 + i, 58]"

text \<open>What the turn of the listing for the letter with number \<open>i\<close> adds.\<close>

definition volume_at :: "device_calls \<Rightarrow> nat \<Rightarrow> device_identity list option" where
  "volume_at os i =
     (if dc_drives os AND push_bit i 1 = 0 then Some []
      else
        let dtype = dc_drive_type os (drive_name i @ [92])
        in if dtype \<noteq> DRIVE_REMOVABLE \<and> dtype \<noteq> DRIVE_FIXED then Some []
           else case query_device_identity os (drive_name i) of
             None \<Rightarrow> None
           | Some (Inl e) \<Rightarrow> Some []
           | Some (Inr d) \<Rightarrow> Some (if dev_removable d then [d\<lparr>dev_drive_letter := drive_name i\<rparr>] else []))"

definition list_removable_volumes :: "device_calls \<Rightarrow> device_identity list option" where
  "list_removable_volumes os = map_option concat (try_map (volume_at os) [0..<26])"

section \<open>Arrivals and removals\<close>

datatype volume_event = Arrived device_identity | Removed ustring

definition same_letter :: "device_identity \<Rightarrow> device_identity \<Rightarrow> bool" where
  "same_letter d c \<longleftrightarrow> dev_drive_letter c = dev_drive_letter d"

definition diff_volumes :: "device_identity list \<Rightarrow> device_identity list \<Rightarrow> volume_event list" where
  "diff_volumes prev cur =
     concat (map (\<lambda>p. case find (same_letter p) cur of
                        None \<Rightarrow> [Removed (dev_drive_letter p)]
                      | Some c \<Rightarrow> if c \<noteq> p then [Removed (dev_drive_letter p)] else []) prev)
     @ concat (map (\<lambda>c. case find (same_letter c) prev of
                          None \<Rightarrow> [Arrived c]
                        | Some p \<Rightarrow> if p \<noteq> c then [Arrived c] else []) cur)"

record volume_watcher =
  vw_last :: "device_identity list"

definition watcher_new :: volume_watcher where
  "watcher_new = \<lparr>vw_last = []\<rparr>"

definition watcher_poll :: "device_identity list \<Rightarrow> volume_watcher \<Rightarrow> volume_event list \<times> volume_watcher" where
  "watcher_poll cur w = (diff_volumes (vw_last w) cur, w\<lparr>vw_last := cur\<rparr>)"

definition current_letters :: "volume_watcher \<Rightarrow> ustring list" where
  "current_letters w = map dev_drive_letter (vw_last w)"

section \<open>The loop\<close>

record encrypt_volume =
  ev_mode :: encrypt_mode
  ev_key_id :: ustring
  ev_on_block_band :: block_band_policy

record volume_auditor =
  va_device :: device_identity
  va_action :: action
  va_auditor :: copy_auditor
  va_encrypt :: "encrypt_volume option"

record 's usb_monitor =
  um_watcher :: volume_watcher
  um_auditors :: "(ustring \<times> volume_auditor) list"
  um_system :: win_state
  um_sealer :: 's
  um_health :: "sealer_health option"

text \<open>
  What is fixed when the loop starts: whether it enforces, whether a verified bundle is cached, the sealer,
  the order in which a \<open>HashMap\<close> is iterated, and the worker pool.
\<close>

record 's monitor_env =
  me_enforce :: bool
  me_bundle :: bool
  me_sealer :: "path \<Rightarrow> ustring \<Rightarrow> 's \<Rightarrow> (ustring + seal_outcome) \<times> 's"
  me_hash_order :: "ustring list \<Rightarrow> ustring list"
  me_scan_batch :: "(settled \<Rightarrow> usb_incident option) \<Rightarrow> settled list \<Rightarrow> usb_incident list"

text \<open>
  What one turn sees: the stop flag, the configuration, the devices, the answers to enforcement, the
  times since the start and since the health signal was made, the trees of the volumes when a
  baseline is taken and when they are polled, which files open, and the verdict on a file.
\<close>

record poll_view =
  pv_stop :: bool
  pv_config :: config
  pv_devices :: device_calls
  pv_calls :: win_calls
  pv_now_ms :: u64
  pv_health_ms :: u64
  pv_tree_arrival :: "ustring \<Rightarrow> fs_node"
  pv_tree :: "ustring \<Rightarrow> fs_node"
  pv_can_open :: "path \<Rightarrow> bool"
  pv_verdict :: "path \<Rightarrow> ustring + verdict"

definition apply_enforcement ::
  "win_calls \<Rightarrow> action \<Rightarrow> device_identity \<Rightarrow> mode \<Rightarrow> win_state \<Rightarrow> usb_incident list \<times> win_state" where
  "apply_enforcement os act dev m sys =
     (case apply_plan (usb_execute_live os) (plan act dev) m sys of
        (Inr outcome, sys') \<Rightarrow> ([], sys')
      | (Inl e, sys') \<Rightarrow>
          ([\<lparr>ui_kind = IK_EnforcementFailed, ui_channel = lit ''usb'', ui_file_name = [], ui_file_sha256 = [],
             ui_verdict = None, ui_device = dev, ui_action_taken = action_taken_from act,
             ui_note = Some (lit ''enforcement-failed: '' @ e), ui_key_id = None, ui_sealed_sha256 = None\<rparr>], sys'))"

text \<open>Without a bundle the action is never below the default.\<close>

definition arrival_action :: "bool \<Rightarrow> usb_config \<Rightarrow> device_identity \<Rightarrow> action" where
  "arrival_action have_bundle usb dev =
     (let act = fst (usb_decide (to_policy usb) dev)
      in if have_bundle then act else max_restrictive act (up_default_action (to_policy usb)))"

definition encrypt_volume_for :: "config \<Rightarrow> device_identity \<Rightarrow> encrypt_volume" where
  "encrypt_volume_for cfg dev =
     (case encrypt_params (cfg_usb cfg) dev of (m, key_id, on_block_band) \<Rightarrow>
        \<lparr>ev_mode = m, ev_key_id = (case key_id of Some k \<Rightarrow> k | None \<Rightarrow> cy_default_key_id (cfg_crypto cfg)),
         ev_on_block_band = on_block_band\<rparr>)"

definition volume_auditor_for :: "poll_view \<Rightarrow> action \<Rightarrow> device_identity \<Rightarrow> volume_auditor" where
  "volume_auditor_for v act dev =
     (let usb = cfg_usb (pv_config v);
          enc = (if act = Encrypt then Some (encrypt_volume_for (pv_config v) dev) else None);
          auditor = auditor_new [dev_drive_letter dev] (uc_settle_ms usb) (saturating_mul (uc_settle_timeout_secs usb) 1000)
      in \<lparr>va_device = dev, va_action = act,
          va_auditor = (if enc = None then auditor else snd (baseline_existing (pv_tree_arrival v (dev_drive_letter dev)) auditor)),
          va_encrypt = enc\<rparr>)"

fun on_event ::
  "'s monitor_env \<Rightarrow> poll_view \<Rightarrow> volume_event \<Rightarrow> 's usb_monitor \<Rightarrow> usb_incident list \<times> 's usb_monitor" where
  "on_event env v (Arrived dev) st =
     (let usb = cfg_usb (pv_config v); act = arrival_action (me_bundle env) usb dev;
          (incs, sys) = (if me_enforce env \<and> uc_enabled usb
                         then apply_enforcement (pv_calls v) act dev (if me_enforce env then Live else DryRun) (um_system st)
                         else ([], um_system st));
          st1 = st\<lparr>um_system := sys\<rparr>
      in (incs,
          if act \<noteq> Block
          then st1\<lparr>um_auditors := AList.update (dev_drive_letter dev) (volume_auditor_for v act dev) (um_auditors st1)\<rparr>
          else st1))"
| "on_event env v (Removed letter) st = ([], st\<lparr>um_auditors := AList.delete letter (um_auditors st)\<rparr>)"

fun on_events ::
  "'s monitor_env \<Rightarrow> poll_view \<Rightarrow> volume_event list \<Rightarrow> 's usb_monitor \<Rightarrow> usb_incident list \<times> 's usb_monitor" where
  "on_events env v [] st = ([], st)"
| "on_events env v (e # es) st =
     (let (incs, st1) = on_event env v e st; (incs', st2) = on_events env v es st1 in (incs @ incs', st2))"

text \<open>The seal pipeline on the settled files of a volume, one after the other. Without a bundle there is no verdict.\<close>

fun seal_settled ::
  "'s monitor_env \<Rightarrow> poll_view \<Rightarrow> device_identity \<Rightarrow> encrypt_volume \<Rightarrow> settled list \<Rightarrow> 's \<Rightarrow> usb_incident list \<times> 's" where
  "seal_settled env v dev ev [] s = ([], s)"
| "seal_settled env v dev ev (f # fs) s =
     (let usb = cfg_usb (pv_config v);
          verdict_src = (if me_bundle env then pv_verdict v else (\<lambda>_. Inl (lit ''no verified bundle cached'')));
          (inc, s1) = scan_and_seal_to_incident f (uc_max_file_bytes usb) verdict_src dev (uc_channel_label usb)
                        (ev_mode ev) (encrypt_bands_of (pv_config v)) (ev_on_block_band ev) (ev_key_id ev) (me_sealer env) s;
          (incs, s2) = seal_settled env v dev ev fs s1
      in (case inc of Some i \<Rightarrow> i # incs | None \<Rightarrow> incs, s2))"

definition audit_volume ::
  "'s monitor_env \<Rightarrow> poll_view \<Rightarrow> ustring \<Rightarrow> 's usb_monitor \<Rightarrow> usb_incident list \<times> 's usb_monitor" where
  "audit_volume env v letter st =
     (case map_of (um_auditors st) letter of
        None \<Rightarrow> ([], st)
      | Some va \<Rightarrow>
          let usb = cfg_usb (pv_config v);
              (settled, a) = poll (pv_tree v letter) (pv_can_open v) (pv_now_ms v) (va_auditor va);
              st1 = st\<lparr>um_auditors := AList.update letter (va\<lparr>va_auditor := a\<rparr>) (um_auditors st)\<rparr>
          in if settled = [] then ([], st1)
             else case va_encrypt va of
               Some ev \<Rightarrow>
                 let (incs, s) = seal_settled env v (va_device va) ev settled (um_sealer st1) in (incs, st1\<lparr>um_sealer := s\<rparr>)
             | None \<Rightarrow>
                 if me_bundle env then
                   (me_scan_batch env
                      (\<lambda>f. scan_to_incident f (uc_max_file_bytes usb) (pv_verdict v) (va_device va)
                             (action_taken_from (va_action va)) (uc_channel_label usb)) settled, st1)
                 else ([], st1))"

fun audit_volumes ::
  "'s monitor_env \<Rightarrow> poll_view \<Rightarrow> ustring list \<Rightarrow> 's usb_monitor \<Rightarrow> usb_incident list \<times> 's usb_monitor" where
  "audit_volumes env v [] st = ([], st)"
| "audit_volumes env v (l # ls) st =
     (let (incs, st1) = audit_volume env v l st; (incs', st2) = audit_volumes env v ls st1 in (incs @ incs', st2))"

definition monitor_turn :: "'s monitor_env \<Rightarrow> poll_view \<Rightarrow> 's usb_monitor \<Rightarrow> (usb_incident list \<times> 's usb_monitor) option" where
  "monitor_turn env v st =
     (case list_removable_volumes (pv_devices v) of
        None \<Rightarrow> None
      | Some vols \<Rightarrow>
          let (events, w) = watcher_poll vols (um_watcher st);
              (incs, st1) = on_events env v events (st\<lparr>um_watcher := w\<rparr>);
              (incs', st2) = audit_volumes env v (me_hash_order env (map fst (um_auditors st1))) st1
          in Some (incs @ incs', st2\<lparr>um_health := map_option (mark_alive (pv_health_ms v)) (um_health st2)\<rparr>))"

fun usb_run_monitor :: "'s monitor_env \<Rightarrow> poll_view list \<Rightarrow> 's usb_monitor \<Rightarrow> (usb_incident list \<times> 's usb_monitor) option" where
  "usb_run_monitor env [] st = Some ([], st)"
| "usb_run_monitor env (v # vs) st =
     (if pv_stop v then Some ([], st)
      else case monitor_turn env v st of
        None \<Rightarrow> None
      | Some (incs, st1) \<Rightarrow> map_option (\<lambda>(incs', st2). (incs @ incs', st2)) (usb_run_monitor env vs st1))"

definition usb_monitor_init :: "win_state \<Rightarrow> 's \<Rightarrow> sealer_health option \<Rightarrow> 's usb_monitor" where
  "usb_monitor_init sys s h = \<lparr>um_watcher = watcher_new, um_auditors = [], um_system = sys, um_sealer = s, um_health = h\<rparr>"

section \<open>The listing\<close>

lemma query_device_identity_total: "\<exists>r. query_device_identity os l = Some r"
proof -
  obtain f where "\<And>buf. parse_storage_descriptor buf = Some (f buf)" using parse_storage_descriptor_total by metis
  then show ?thesis by (auto simp: query_device_identity_def Let_def split: option.split)
qed

lemma volume_at_total: "\<exists>ds. volume_at os i = Some ds \<and> length ds \<le> 1 \<and> list_all (\<lambda>d. dev_drive_letter d = drive_name i \<and> dev_removable d) ds"
  using query_device_identity_total [of os "drive_name i"]
  by (auto simp: volume_at_def Let_def split: sum.split)

lemma drive_names_distinct: "distinct (map drive_name ns) = distinct ns"
  by (simp add: distinct_map inj_on_def drive_name_def)

text \<open>The listing never fails and lists each letter at most once, only devices classified removable.\<close>

lemma list_removable_volumes_total:
  "\<exists>vols. list_removable_volumes os = Some vols \<and> distinct (map dev_drive_letter vols) \<and> list_all dev_removable vols"
proof -
  have "\<exists>dss. try_map (volume_at os) ns = Some dss \<and> distinct (map dev_drive_letter (concat dss))
      \<and> list_all dev_removable (concat dss) \<and> dev_drive_letter ` set (concat dss) \<subseteq> drive_name ` set ns" if "distinct ns" for ns
    using that
  proof (induction ns)
    case (Cons i js)
    then obtain dss where ih: "try_map (volume_at os) js = Some dss" "distinct (map dev_drive_letter (concat dss))"
      "list_all dev_removable (concat dss)" "dev_drive_letter ` set (concat dss) \<subseteq> drive_name ` set js" by auto
    from volume_at_total obtain ds where d: "volume_at os i = Some ds" "length ds \<le> 1"
      "list_all (\<lambda>d. dev_drive_letter d = drive_name i \<and> dev_removable d) ds" by blast
    have "drive_name i \<notin> drive_name ` set js" using Cons.prems by (auto simp: drive_name_def)
    with ih(4) have n: "drive_name i \<notin> dev_drive_letter ` set (concat dss)" by blast
    with ih d show ?case by (cases ds) auto
  qed simp
  from this [of "[0..<26]"] show ?thesis by (auto simp: list_removable_volumes_def)
qed

section \<open>The volumes under audit\<close>

text \<open>
  The table as the listings determine it: a volume that is listed unchanged keeps its entry, one that is new
  or has changed gets the entry of its arrival, and no other letter has one.
\<close>

type_synonym mounted = "ustring \<rightharpoonup> device_identity \<times> action \<times> encrypt_volume option"

definition arrival_entry :: "bool \<Rightarrow> config \<Rightarrow> device_identity \<Rightarrow> (device_identity \<times> action \<times> encrypt_volume option) option" where
  "arrival_entry have_bundle cfg dev =
     (let act = arrival_action have_bundle (cfg_usb cfg) dev
      in if act = Block then None else Some (dev, act, if act = Encrypt then Some (encrypt_volume_for cfg dev) else None))"

definition lookup_volume :: "device_identity list \<Rightarrow> ustring \<Rightarrow> device_identity option" where
  "lookup_volume vols l = find (\<lambda>d. dev_drive_letter d = l) vols"

definition remount :: "bool \<Rightarrow> config \<Rightarrow> device_identity list \<Rightarrow> device_identity list \<Rightarrow> mounted \<Rightarrow> mounted" where
  "remount have_bundle cfg prev cur m l =
     (case lookup_volume cur l of
        None \<Rightarrow> None
      | Some d \<Rightarrow> if lookup_volume prev l = Some d then m l else arrival_entry have_bundle cfg d)"

fun mounted_after :: "bool \<Rightarrow> device_identity list \<Rightarrow> mounted \<Rightarrow> (config \<times> device_identity list) list \<Rightarrow> mounted" where
  "mounted_after have_bundle prev m [] = m"
| "mounted_after have_bundle prev m ((cfg, cur) # turns) = mounted_after have_bundle cur (remount have_bundle cfg prev cur m) turns"

definition view_of :: "volume_auditor \<Rightarrow> device_identity \<times> action \<times> encrypt_volume option" where
  "view_of va = (va_device va, va_action va, va_encrypt va)"

definition mounted_of :: "'s usb_monitor \<Rightarrow> mounted" where
  "mounted_of st l = map_option view_of (map_of (um_auditors st) l)"

fun apply_event :: "bool \<Rightarrow> config \<Rightarrow> volume_event \<Rightarrow> mounted \<Rightarrow> mounted" where
  "apply_event have_bundle cfg (Arrived d) m =
     (case arrival_entry have_bundle cfg d of None \<Rightarrow> m | Some e \<Rightarrow> m(dev_drive_letter d \<mapsto> e))"
| "apply_event have_bundle cfg (Removed l) m = m(l := None)"

lemma on_event_mounted:
  assumes "on_event env v e st = (incs, st')"
  shows "mounted_of st' = apply_event (me_bundle env) (pv_config v) e (mounted_of st)"
    and "um_watcher st' = um_watcher st" and "um_health st' = um_health st"
proof -
  have "mounted_of st' = apply_event (me_bundle env) (pv_config v) e (mounted_of st)
      \<and> um_watcher st' = um_watcher st \<and> um_health st' = um_health st"
  proof (cases e)
    case (Arrived d)
    with assms show ?thesis
      by (auto simp: fun_eq_iff mounted_of_def arrival_entry_def volume_auditor_for_def view_of_def update_conv' Let_def
          split: prod.splits if_splits)
  next
    case (Removed l)
    with assms show ?thesis by (auto simp: fun_eq_iff mounted_of_def delete_conv')
  qed
  then show "mounted_of st' = apply_event (me_bundle env) (pv_config v) e (mounted_of st)"
    "um_watcher st' = um_watcher st" "um_health st' = um_health st" by auto
qed

lemma on_events_mounted:
  "on_events env v es st = (incs, st') \<Longrightarrow>
     mounted_of st' = fold (apply_event (me_bundle env) (pv_config v)) es (mounted_of st)
     \<and> um_watcher st' = um_watcher st \<and> um_health st' = um_health st"
proof (induction es arbitrary: st incs)
  case (Cons e es)
  obtain is1 st1 is2 st2 where 1: "on_event env v e st = (is1, st1)" and 2: "on_events env v es st1 = (is2, st2)" by fastforce
  from Cons.prems 1 2 have "st' = st2" by simp
  with Cons.IH [OF 2 [folded this]] on_event_mounted [OF 1] show ?case by simp
qed simp

lemma audit_volume_mounted:
  "audit_volume env v l st = (incs, st') \<Longrightarrow>
     mounted_of st' = mounted_of st \<and> um_watcher st' = um_watcher st \<and> um_health st' = um_health st"
  by (auto simp: audit_volume_def Let_def mounted_of_def fun_eq_iff update_conv' view_of_def
      split: option.splits prod.splits if_splits)

lemma audit_volumes_mounted:
  "audit_volumes env v ls st = (incs, st') \<Longrightarrow>
     mounted_of st' = mounted_of st \<and> um_watcher st' = um_watcher st \<and> um_health st' = um_health st"
proof (induction ls arbitrary: st incs)
  case (Cons l ls)
  obtain is1 st1 is2 st2 where 1: "audit_volume env v l st = (is1, st1)" and 2: "audit_volumes env v ls st1 = (is2, st2)" by fastforce
  from Cons.prems 1 2 have "st' = st2" by simp
  with Cons.IH [OF 2 [folded this]] audit_volume_mounted [OF 1] show ?case by simp
qed simp

text \<open>The events of a difference, carried out one by one, give the table of the new listing.\<close>

lemma lookup_volume_letter: "lookup_volume vols l = Some d \<Longrightarrow> d \<in> set vols \<and> dev_drive_letter d = l"
  by (auto simp: lookup_volume_def find_Some_iff)

lemma find_same_letter: "find (same_letter d) vols = lookup_volume vols (dev_drive_letter d)"
  unfolding lookup_volume_def by (rule arg_cong [of _ _ "\<lambda>q. find q vols"]) (simp add: fun_eq_iff same_letter_def)

lemma lookup_volume_in: "distinct (map dev_drive_letter vols) \<Longrightarrow> d \<in> set vols \<Longrightarrow> lookup_volume vols (dev_drive_letter d) = Some d"
  by (induction vols) (auto simp: lookup_volume_def)

lemma removals:
  assumes "\<And>p. p \<in> set ps \<Longrightarrow> f p \<in> {[], [Removed (dev_drive_letter p)]}"
  shows "fold (apply_event hb cfg) (concat (map f ps)) m l = (if \<exists>p \<in> set ps. f p \<noteq> [] \<and> dev_drive_letter p = l then None else m l)"
  using assms
proof (induction ps arbitrary: m)
  case (Cons p ps)
  have ih: "fold (apply_event hb cfg) (concat (map f ps)) m' l
      = (if \<exists>p \<in> set ps. f p \<noteq> [] \<and> dev_drive_letter p = l then None else m' l)" for m'
    by (rule Cons.IH, rule Cons.prems) simp
  from Cons.prems [of p] consider "f p = []" | "f p = [Removed (dev_drive_letter p)]" by auto
  then show ?case by cases (auto simp: ih)
qed simp

lemma arrivals:
  assumes "\<And>c. c \<in> set cs \<Longrightarrow> f c \<in> {[], [Arrived c]}" and "distinct (map dev_drive_letter cs)"
  shows "fold (apply_event hb cfg) (concat (map f cs)) m l =
    (case lookup_volume cs l of
       Some c \<Rightarrow> if f c = [] then m l else (case arrival_entry hb cfg c of None \<Rightarrow> m l | Some e \<Rightarrow> Some e)
     | None \<Rightarrow> m l)"
  using assms
proof (induction cs arbitrary: m)
  case (Cons c cs)
  have ih: "fold (apply_event hb cfg) (concat (map f cs)) m' l = (case lookup_volume cs l of
       Some c \<Rightarrow> if f c = [] then m' l else (case arrival_entry hb cfg c of None \<Rightarrow> m' l | Some e \<Rightarrow> Some e)
     | None \<Rightarrow> m' l)" for m'
    by (rule Cons.IH, rule Cons.prems(1), simp) (use Cons.prems(2) in simp)
  have n: "lookup_volume cs (dev_drive_letter c) = None"
    using Cons.prems(2) by (simp add: lookup_volume_def find_None_iff image_iff) metis
  have l: "lookup_volume (c # cs) l = (if dev_drive_letter c = l then Some c else lookup_volume cs l)"
    by (simp add: lookup_volume_def)
  from Cons.prems(1) [of c] consider "f c = []" | "f c = [Arrived c]" by auto
  then show ?case
  proof cases
    case 1
    with n show ?thesis by (cases "dev_drive_letter c = l") (simp_all add: ih l)
  next
    case 2
    with n show ?thesis
      by (cases "dev_drive_letter c = l"; cases "arrival_entry hb cfg c"; cases "lookup_volume cs l") (simp_all add: ih l split: option.split)
  qed
qed (simp add: lookup_volume_def)

lemma diff_volumes_remount:
  assumes "distinct (map dev_drive_letter prev)" and "distinct (map dev_drive_letter cur)"
    and "\<And>l. lookup_volume prev l = None \<Longrightarrow> m l = None"
  shows "fold (apply_event hb cfg) (diff_volumes prev cur) m = remount hb cfg prev cur m"
proof
  fix l
  define r where "r p = (case lookup_volume cur (dev_drive_letter p) of
      None \<Rightarrow> [Removed (dev_drive_letter p)] | Some c \<Rightarrow> if c \<noteq> p then [Removed (dev_drive_letter p)] else [])" for p
  define a where "a c = (case lookup_volume prev (dev_drive_letter c) of None \<Rightarrow> [Arrived c] | Some p \<Rightarrow> if p \<noteq> c then [Arrived c] else [])" for c
  define m1 where "m1 = fold (apply_event hb cfg) (concat (map r prev)) m"
  have diff: "diff_volumes prev cur = concat (map r prev) @ concat (map a cur)"
    by (simp add: diff_volumes_def find_same_letter r_def [abs_def] a_def [abs_def])
  have r: "r p = [] \<longleftrightarrow> lookup_volume cur (dev_drive_letter p) = Some p" "r p \<in> {[], [Removed (dev_drive_letter p)]}" for p
    by (simp_all add: r_def split: option.split)
  have a: "a c = [] \<longleftrightarrow> lookup_volume prev (dev_drive_letter c) = Some c" "a c \<in> {[], [Arrived c]}" for c
    by (simp_all add: a_def split: option.split)
  have m1: "m1 l = (if \<exists>p \<in> set prev. r p \<noteq> [] \<and> dev_drive_letter p = l then None else m l)"
    unfolding m1_def by (rule removals, rule r(2))
  have f: "fold (apply_event hb cfg) (diff_volumes prev cur) m l = (case lookup_volume cur l of
       Some c \<Rightarrow> if a c = [] then m1 l else (case arrival_entry hb cfg c of None \<Rightarrow> m1 l | Some e \<Rightarrow> Some e)
     | None \<Rightarrow> m1 l)"
    unfolding diff fold_append comp_apply m1_def by (rule arrivals [OF _ assms(2)], rule a(2))
  show "fold (apply_event hb cfg) (diff_volumes prev cur) m l = remount hb cfg prev cur m l"
  proof (cases "lookup_volume prev l")
    case None
    then have "m1 l = None" using assms(3) m1 by simp
    moreover have "a c \<noteq> []" if "lookup_volume cur l = Some c" for c
      using lookup_volume_letter [OF that] None a(1) [of c] by simp
    ultimately show ?thesis using None
      by (cases "lookup_volume cur l") (simp_all add: f remount_def split: option.split)
  next
    case (Some p)
    then have p: "p \<in> set prev" "dev_drive_letter p = l" using lookup_volume_letter by blast+
    have u: "q = p" if "q \<in> set prev" "dev_drive_letter q = l" for q
      using lookup_volume_in [OF assms(1) that(1)] that(2) Some by simp
    have "(\<exists>q \<in> set prev. r q \<noteq> [] \<and> dev_drive_letter q = l) \<longleftrightarrow> lookup_volume cur l \<noteq> Some p"
      using p u r(1) [of p] by blast
    then have m1': "m1 l = (if lookup_volume cur l = Some p then m l else None)" using m1 by simp
    show ?thesis
    proof (cases "lookup_volume cur l")
      case (Some c)
      have "a c = [] \<longleftrightarrow> c = p"
        using lookup_volume_letter [OF Some] \<open>lookup_volume prev l = Some p\<close> a(1) [of c] by auto
      with Some \<open>lookup_volume prev l = Some p\<close> m1' show ?thesis
        by (cases "c = p") (simp_all add: f remount_def split: option.split)
    qed (simp add: f m1' remount_def)
  qed
qed

lemma remount_listed: "lookup_volume cur l = None \<Longrightarrow> remount hb cfg prev cur m l = None"
  by (simp add: remount_def)

lemma monitor_turn_mounted:
  assumes "distinct (map dev_drive_letter (vw_last (um_watcher st)))"
    and "\<And>l. lookup_volume (vw_last (um_watcher st)) l = None \<Longrightarrow> mounted_of st l = None"
  obtains incs st' vols where "monitor_turn env v st = Some (incs, st')" "list_removable_volumes (pv_devices v) = Some vols"
    "distinct (map dev_drive_letter vols)" "vw_last (um_watcher st') = vols"
    "mounted_of st' = remount (me_bundle env) (pv_config v) (vw_last (um_watcher st)) vols (mounted_of st)"
    "um_health st' = map_option (mark_alive (pv_health_ms v)) (um_health st)"
proof -
  obtain vols where vols: "list_removable_volumes (pv_devices v) = Some vols" "distinct (map dev_drive_letter vols)"
    using list_removable_volumes_total by blast
  let ?st = "st\<lparr>um_watcher := (um_watcher st)\<lparr>vw_last := vols\<rparr>\<rparr>" and ?prev = "vw_last (um_watcher st)"
  obtain is1 st1 where 1: "on_events env v (diff_volumes ?prev vols) ?st = (is1, st1)" by fastforce
  obtain is2 st2 where 2: "audit_volumes env v (me_hash_order env (map fst (um_auditors st1))) st1 = (is2, st2)" by fastforce
  have same: "mounted_of ?st = mounted_of st" by (simp add: mounted_of_def fun_eq_iff)
  have "mounted_of st2 = remount (me_bundle env) (pv_config v) ?prev vols (mounted_of st)"
    using on_events_mounted [OF 1] audit_volumes_mounted [OF 2] diff_volumes_remount [OF assms(1) vols(2) assms(2)]
    by (simp add: same)
  moreover have "vw_last (um_watcher st2) = vols" "um_health st2 = um_health st"
    using on_events_mounted [OF 1] audit_volumes_mounted [OF 2] by simp_all
  moreover have "mounted_of (st2\<lparr>um_health := h\<rparr>) = mounted_of st2" for h by (simp add: mounted_of_def fun_eq_iff)
  ultimately show thesis using vols 1 2
    by (intro that [of "is1 @ is2" "st2\<lparr>um_health := map_option (mark_alive (pv_health_ms v)) (um_health st2)\<rparr>" vols])
      (simp_all add: monitor_turn_def watcher_poll_def)
qed

lemma usb_run_monitor_mounted:
  fixes vs
  defines "turns \<equiv> takeWhile (\<lambda>v. \<not> pv_stop v) vs"
  assumes "distinct (map dev_drive_letter (vw_last (um_watcher st)))"
    and "\<And>l. lookup_volume (vw_last (um_watcher st)) l = None \<Longrightarrow> mounted_of st l = None"
  shows "\<exists>incs st'. usb_run_monitor env vs st = Some (incs, st')
    \<and> mounted_of st' = mounted_after (me_bundle env) (vw_last (um_watcher st)) (mounted_of st)
        (map (\<lambda>v. (pv_config v, the (list_removable_volumes (pv_devices v)))) turns)
    \<and> um_health st' = fold (\<lambda>v. map_option (mark_alive (pv_health_ms v))) turns (um_health st)"
  unfolding turns_def using assms(2,3)
proof (induction vs arbitrary: st)
  case (Cons v vs)
  show ?case
  proof (cases "pv_stop v")
    case False
    from Cons.prems obtain incs st1 vols where t: "monitor_turn env v st = Some (incs, st1)"
      "list_removable_volumes (pv_devices v) = Some vols" "distinct (map dev_drive_letter vols)" "vw_last (um_watcher st1) = vols"
      "mounted_of st1 = remount (me_bundle env) (pv_config v) (vw_last (um_watcher st)) vols (mounted_of st)"
      "um_health st1 = map_option (mark_alive (pv_health_ms v)) (um_health st)"
      by (rule monitor_turn_mounted [of st env v])
    have "\<exists>incs st'. usb_run_monitor env vs st1 = Some (incs, st')
      \<and> mounted_of st' = mounted_after (me_bundle env) (vw_last (um_watcher st1)) (mounted_of st1)
        (map (\<lambda>v. (pv_config v, the (list_removable_volumes (pv_devices v)))) (takeWhile (\<lambda>v. \<not> pv_stop v) vs))
      \<and> um_health st' = fold (\<lambda>v. map_option (mark_alive (pv_health_ms v))) (takeWhile (\<lambda>v. \<not> pv_stop v) vs) (um_health st1)"
      by (rule Cons.IH) (simp_all add: t remount_listed)
    with False t show ?thesis by auto
  qed simp
qed simp

text \<open>
  C19. The volumes under audit are those mounted. Whatever the system answers, the loop does not panic, and after any
  number of turns the letters with an auditor, and for each the device, its action and its seal parameters, are
  those the listings and configurations determine: a device listed since some turn without change has what the
  policy decided at that turn, unless that was to block, and a letter that is not listed has none. Every
  turn marks the sealer alive.
\<close>

theorem monitored_volumes_exact:
  fixes vs
  defines "turns \<equiv> takeWhile (\<lambda>v. \<not> pv_stop v) vs"
  shows "\<exists>incs st. usb_run_monitor env vs (usb_monitor_init sys s h) = Some (incs, st)
    \<and> mounted_of st = mounted_after (me_bundle env) [] Map.empty (map (\<lambda>v. (pv_config v, the (list_removable_volumes (pv_devices v)))) turns)
    \<and> um_health st = fold (\<lambda>v. map_option (mark_alive (pv_health_ms v))) turns h"
proof -
  have "mounted_of (usb_monitor_init sys s h) = Map.empty" by (simp add: mounted_of_def usb_monitor_init_def fun_eq_iff)
  then show ?thesis
    using usb_run_monitor_mounted [of "usb_monitor_init sys s h" env vs]
    by (simp add: turns_def usb_monitor_init_def watcher_new_def)
qed

section \<open>Failure modes of a sealing volume\<close>

text \<open>What a settled file that was not too large becomes when no verdict could be had.\<close>

definition sealed_or_failed :: "usb_incident \<Rightarrow> bool" where
  "sealed_or_failed i \<longleftrightarrow> ui_action_taken i = AT_Encrypted \<or> ui_kind i = IK_EnforcementFailed"

lemma no_verdict_sealed:
  assumes "st_size f \<le> mx" and "verdict_src (st_path f) = Inl e"
  shows "\<exists>i s'. scan_and_seal_to_incident f mx verdict_src dev ch m bands obb key sealer s = (Some i, s') \<and> sealed_or_failed i"
proof -
  have "decide_seal m bands obb None = SD_Seal" by (cases m) (simp_all add: decide_seal_def)
  moreover obtain r s' where "sealer (st_path f) key s = (r, s')" by fastforce
  ultimately show ?thesis
    using assms(2) leD [OF assms(1)] by (cases r) (simp_all add: scan_and_seal_to_incident_def sealed_or_failed_def)
qed

lemma seal_settled_no_bundle:
  assumes "\<not> me_bundle env" and "list_all (\<lambda>f. st_size f \<le> uc_max_file_bytes (cfg_usb (pv_config v))) fs"
  shows "length (fst (seal_settled env v dev ev fs s)) = length fs \<and> list_all sealed_or_failed (fst (seal_settled env v dev ev fs s))"
  using assms(2)
proof (induction fs arbitrary: s)
  case (Cons f fs)
  let ?usb = "cfg_usb (pv_config v)"
  from Cons.prems obtain i s1 where 1: "scan_and_seal_to_incident f (uc_max_file_bytes ?usb) (\<lambda>_. Inl (lit ''no verified bundle cached'')) dev
      (uc_channel_label ?usb) (ev_mode ev) (encrypt_bands_of (pv_config v)) (ev_on_block_band ev) (ev_key_id ev) (me_sealer env) s = (Some i, s1)"
    and i: "sealed_or_failed i"
    using no_verdict_sealed [of f "uc_max_file_bytes ?usb" "\<lambda>_. Inl (lit ''no verified bundle cached'')"] by fastforce
  obtain js s2 where 2: "seal_settled env v dev ev fs s1 = (js, s2)" by fastforce
  with Cons.IH [of s1] Cons.prems have "length js = length fs" "list_all sealed_or_failed js" by simp_all
  with 1 2 i show ?case by (simp add: assms(1))
qed simp

text \<open>
  C20. A volume to be sealed fails secure. When no verified bundle is cached, or the verdicts are not to be had, every
  settled file on it that is within the size limit gives exactly one incident, and that says the
  file was encrypted or that enforcement failed; and what the auditor settles is what it would settle
  with a bundle.
\<close>

theorem no_bundle_still_seals:
  assumes "\<not> me_bundle env" and "map_of (um_auditors st) letter = Some va" and "va_encrypt va = Some ev"
    and "poll (pv_tree v letter) (pv_can_open v) (pv_now_ms v) (va_auditor va) = (settled, a)"
    and "list_all (\<lambda>f. st_size f \<le> uc_max_file_bytes (cfg_usb (pv_config v))) settled"
  shows "length (fst (audit_volume env v letter st)) = length settled
    \<and> list_all sealed_or_failed (fst (audit_volume env v letter st))
    \<and> map_option va_auditor (map_of (um_auditors (snd (audit_volume env v letter st))) letter) = Some a"
proof -
  let ?s = "seal_settled env v (va_device va) ev settled (um_sealer st)"
  have "fst (audit_volume env v letter st) = (if settled = [] then [] else fst ?s)"
    and "map_option va_auditor (map_of (um_auditors (snd (audit_volume env v letter st))) letter) = Some a"
    using assms(2-4) by (simp_all add: audit_volume_def update_conv' case_prod_unfold Let_def)
  with seal_settled_no_bundle [OF assms(1,5), of "va_device va" ev "um_sealer st"] show ?thesis by simp
qed

definition quick_auditor :: copy_auditor where
  "quick_auditor = auditor_new [lit ''E:''] 0 0"

definition sealing_volume :: volume_auditor where
  "sealing_volume = \<lparr>va_device = stick, va_action = Encrypt, va_auditor = quick_auditor,
     va_encrypt = Some \<lparr>ev_mode = EncryptSensitive, ev_key_id = lit ''k'', ev_on_block_band = BB_Block\<rparr>\<rparr>"

lemma quick_poll:
  "\<exists>a. poll example_volume (\<lambda>_. True) 0 quick_auditor
     = ([\<lparr>st_path = [lit ''E:'', lit ''a.txt''], st_size = 3, st_by_timeout = False\<rparr>], a)"
proof -
  have "mset (scan_tree [lit ''E:''] example_volume) = mset [([lit ''E:'', lit ''a.txt''], 3, 9)]"
    using scan_tree_files [of example_volume "[lit ''E:'']"] example_files by (simp add: example_volume_def)
  then have "scan_tree [lit ''E:''] example_volume = [([lit ''E:'', lit ''a.txt''], 3, 9)]" by simp
  then show ?thesis
    by (simp add: poll_def quick_auditor_def auditor_new_def poll_file_def observe_def is_settled_def by_timeout_def
        seen_contains_def seen_new_def saturating_sub_def Let_def)
qed

lemma no_bundle_still_seals_witness:
  "\<exists>(env :: unit monitor_env) v st i. fst (audit_volume env v (lit ''E:'') st) = [i] \<and> sealed_or_failed i"
proof -
  let ?st = "(usb_monitor_init \<lparr>ws_registry = Map.empty, ws_dismounted = {}\<rparr> () None)\<lparr>um_auditors := [(lit ''E:'', sealing_volume)]\<rparr>"
  let ?env = "\<lparr>me_enforce = True, me_bundle = False, me_sealer = (\<lambda>_ _ s. (Inl [], s)), me_hash_order = (\<lambda>xs. xs),
      me_scan_batch = List.map_filter\<rparr> :: unit monitor_env"
  let ?v = "\<lparr>pv_stop = False, pv_config = example_config,
      pv_devices = \<lparr>dc_drives = 0, dc_drive_type = (\<lambda>_. 0), dc_open = (\<lambda>_. False), dc_query = (\<lambda>_. None)\<rparr>, pv_calls = willing_calls,
      pv_now_ms = 0, pv_health_ms = 0, pv_tree_arrival = (\<lambda>_. example_volume), pv_tree = (\<lambda>_. example_volume),
      pv_can_open = (\<lambda>_. True), pv_verdict = (\<lambda>_. Inl [])\<rparr>"
  from quick_poll obtain a where p: "poll example_volume (\<lambda>_. True) 0 quick_auditor
     = ([\<lparr>st_path = [lit ''E:'', lit ''a.txt''], st_size = 3, st_by_timeout = False\<rparr>], a)" by blast
  have "length (fst (audit_volume ?env ?v (lit ''E:'') ?st)) = 1 \<and> list_all sealed_or_failed (fst (audit_volume ?env ?v (lit ''E:'') ?st))"
    using no_bundle_still_seals [of ?env ?st "lit ''E:''" sealing_volume _ ?v] p
    by (simp add: sealing_volume_def usb_config_default_def example_config_def)
  then show ?thesis by (intro exI [of _ ?env] exI [of _ ?v] exI [of _ ?st]) (auto simp: length_Suc_conv)
qed

section \<open>Where volumes are missed\<close>

text \<open>
  A device whose action is to block gets no auditor even when it stays mounted: in audit-only mode, where nothing is
  enforced, and when the dismount failed, which is reported as degrading to audit.
\<close>

lemma blocked_volume_not_audited:
  assumes "arrival_action (me_bundle env) (cfg_usb (pv_config v)) dev = Block" and "on_event env v (Arrived dev) st = (incs, st')"
  shows "um_auditors st' = um_auditors st"
    and "\<not> me_enforce env \<Longrightarrow> um_system st' = um_system st \<and> incs = []"
  using assms by (auto simp: Let_def split: prod.splits if_splits)

text \<open>
  A destination that starts to be trusted while its device is mounted: the guard, which reads the current
  configuration, lets a sensitive write through on the promise that it will be sealed, and the monitor, which decided at
  the arrival, keeps auditing the volume without sealing.
\<close>

lemma resync_promises_unkept_seal:
  assumes "lookup_volume prev l = Some dev" and "lookup_volume cur l = Some dev" and "m l = Some (dev, AllowAudited, None)"
    and "uc_enabled (cfg_usb cfg)" and "fst (usb_decide (to_policy (cfg_usb cfg)) dev) = Encrypt"
    and "encrypt_params (cfg_usb cfg) dev = (EncryptAll, key, obb)" and "reason \<noteq> DLP_REASON_READ"
  shows "remount hb cfg prev cur m l = Some (dev, AllowAudited, None)"
    and "\<exists>i. write_scan_override reason (cfg_usb cfg) bands (Some dev) vd disp ch True = Some (False, Some i)
      \<and> ui_note i = Some (lit ''allowed-pending-seal'')"
  using assms by (simp_all add: remount_def write_scan_override_def decide_seal_def seal_incident_def split: option.split)

end
