(* ===== verification/Notify.thy ===== *)
theory Notify
  imports Config Usb_Incident Extract
begin

text \<open>
  The notification of a blocked action, \<open>notify/mod.rs\<close>: whether a toast is shown, the storm control that
  throttles it, its text, its payload and where it is rendered. Instants are nanoseconds; the state of the
  throttle and the reference counter, static in the source, is passed. The sessions and the calls that show the toast
  are parameters or effects.
\<close>

section \<open>Storm control\<close>

record throttle =
  th_last_shown :: "(ustring \<times> nat) list"
  th_window_start :: nat
  th_count_in_window :: nat

definition as_secs :: "nat \<Rightarrow> nat" where
  "as_secs ns = ns div 1000000000"

definition throttle_init :: "nat \<Rightarrow> throttle" where
  "throttle_init now = \<lparr>th_last_shown = [], th_window_start = now, th_count_in_window = 0\<rparr>"

definition throttle_key :: "ustring \<Rightarrow> ustring \<Rightarrow> ustring" where
  "throttle_key channel name = channel @ 1 # name"

text \<open>The map of the last toasts is an association list without repeated keys.\<close>

definition map_insert :: "'k \<Rightarrow> 'v \<Rightarrow> ('k \<times> 'v) list \<Rightarrow> ('k \<times> 'v) list" where
  "map_insert k v m = (k, v) # filter (\<lambda>p. fst p \<noteq> k) m"

definition roll_window :: "nat \<Rightarrow> throttle \<Rightarrow> throttle" where
  "roll_window now t =
     (if 60 \<le> as_secs (now - th_window_start t) then t\<lparr>th_window_start := now, th_count_in_window := 0\<rparr> else t)"

definition throttle_allow :: "notify_config \<Rightarrow> ustring \<Rightarrow> ustring \<Rightarrow> nat \<Rightarrow> throttle \<Rightarrow> throttle \<times> bool" where
  "throttle_allow cfg channel name now t0 =
     (let t = roll_window now t0
      in if nc_max_per_minute cfg \<noteq> 0 \<and> unat (nc_max_per_minute cfg) \<le> th_count_in_window t then (t, False)
         else
           let key = throttle_key channel name
           in if (case map_of (th_last_shown t) key of
                    Some prev \<Rightarrow> as_secs (now - prev) < unat (nc_dedup_secs cfg) | None \<Rightarrow> False)
              then (t, False)
              else
                let m = (if 1024 < length (th_last_shown t) then [] else th_last_shown t)
                in (t\<lparr>th_last_shown := map_insert key now m, th_count_in_window := th_count_in_window t + 1\<rparr>, True))"

section \<open>The message\<close>

definition channel_label :: "ustring \<Rightarrow> ustring" where
  "channel_label channel =
     (if channel = lit ''usb'' \<or> channel = lit ''usb-kguard'' then lit ''USB / removable media''
      else if channel = lit ''clipboard'' then lit ''Clipboard''
      else if channel = lit ''web-upload'' then lit ''Web upload''
      else if channel = lit ''network'' then lit ''Network''
      else lit ''Data transfer'')"

definition is_control :: "uchar \<Rightarrow> bool" where
  "is_control c \<longleftrightarrow> c < 32 \<or> 127 \<le> c \<and> c \<le> 159"

definition sanitize_display :: "ustring \<Rightarrow> ustring" where
  "sanitize_display name =
     (let base = rsplit_first (\<lambda>c. c = 92 \<or> c = 47) name;
          cleaned = trim (filter (\<lambda>c. \<not> is_control c \<and> c \<noteq> 34) base)
      in if 96 < length cleaned then take 93 cleaned @ lit ''...'' else cleaned)"

definition upper_hex_digit :: "nat \<Rightarrow> uchar" where
  "upper_hex_digit n = (if n < 10 then 48 + n else 55 + n)"

text \<open>The counter wraps at 64 bits; the reference shows its low sixteen bits.\<close>

definition next_reference :: "u64 \<Rightarrow> u64 \<times> ustring" where
  "next_reference n =
     (let v = unat (n AND 0xFFFF)
      in (n + 1, lit ''L-'' @ [upper_hex_digit (v div 4096), upper_hex_digit (v div 256 mod 16),
                              upper_hex_digit (v div 16 mod 16), upper_hex_digit (v mod 16)]))"

definition build_message :: "notify_config \<Rightarrow> usb_incident \<Rightarrow> ustring \<Rightarrow> ustring \<times> ustring" where
  "build_message cfg inc reference =
     (case nc_mode cfg of
        NM_Minimal \<Rightarrow> (nc_org_name cfg, lit ''An action was blocked by security policy.'')
      | NM_Standard \<Rightarrow>
          let shown = sanitize_display (ui_file_name inc);
              ls = (if shown = [] then [] else [lit ''File: '' @ shown])
                   @ [lit ''Channel: '' @ channel_label (ui_channel inc)]
                   @ [lit ''Ref: '' @ reference @ lit '' '' @ [8212] @ lit '' contact security'']
          in (lit ''Blocked by '' @ nc_org_name cfg, join [10] ls)
      | NM_Covert \<Rightarrow> ([], []))"

section \<open>The payload and its place\<close>

definition toast_escape_char :: "uchar \<Rightarrow> ustring" where
  "toast_escape_char c =
     (if c = 38 then lit ''&amp;'' else if c = 60 then lit ''&lt;'' else if c = 62 then lit ''&gt;''
      else if c = 34 then lit ''&quot;'' else if c = 39 then lit ''&apos;'' else [c])"

definition toast_xml_escape :: "ustring \<Rightarrow> ustring" where
  "toast_xml_escape s = concat (map toast_escape_char s)"

definition toast_payload :: "ustring \<Rightarrow> ustring \<Rightarrow> ustring" where
  "toast_payload title body =
     lit ''<toast activationType='' @ [34] @ lit ''foreground'' @ [34] @ lit ''><visual><binding template='' @ [34]
     @ lit ''ToastGeneric'' @ [34] @ lit ''><text>'' @ toast_xml_escape title @ lit ''</text><text>'' @ toast_xml_escape body
     @ lit ''</text></binding></visual></toast>''"

definition quote_arg :: "ustring \<Rightarrow> ustring" where
  "quote_arg s = [34] @ replace_char 10 8232 (filter (\<lambda>c. c \<noteq> 34 \<and> c \<noteq> 13) s) @ [34]"

definition build_toast_cmdline :: "ustring \<Rightarrow> ustring \<Rightarrow> ustring \<Rightarrow> ustring \<Rightarrow> ustring" where
  "build_toast_cmdline exe aumid title body =
     quote_arg exe @ lit '' toast --aumid '' @ quote_arg aumid @ lit '' --title '' @ quote_arg title
     @ lit '' --body '' @ quote_arg body"

datatype toast_effect = Spawn_In_Session u32 ustring | Show_Here ustring ustring

definition INVALID_SESSION :: u32 where
  "INVALID_SESSION = 0xFFFFFFFF"

text \<open>The session of the process, when it can be queried, and the active console session.\<close>

definition dispatch :: "u32 option \<Rightarrow> u32 \<Rightarrow> ustring \<Rightarrow> ustring \<Rightarrow> ustring \<Rightarrow> ustring \<Rightarrow> toast_effect list" where
  "dispatch current_session console_session exe aumid title body =
     (case current_session of
        Some s \<Rightarrow>
          if s = 0
          then (if console_session = INVALID_SESSION then []
                else [Spawn_In_Session console_session (build_toast_cmdline exe aumid title body)])
          else [Show_Here aumid (toast_payload title body)]
      | None \<Rightarrow>
          if console_session = INVALID_SESSION then []
          else [Spawn_In_Session console_session (build_toast_cmdline exe aumid title body)])"

record notify_state =
  nst_throttle :: throttle
  nst_counter :: u64

definition on_block_for_incident ::
  "notify_config \<Rightarrow> usb_incident \<Rightarrow> nat \<Rightarrow> notify_state \<Rightarrow> notify_state \<times> (ustring \<times> ustring) option" where
  "on_block_for_incident cfg inc now st =
     (if ui_action_taken inc \<noteq> AT_Blocked then (st, None)
      else if \<not> nc_enabled cfg \<or> nc_mode cfg = NM_Covert then (st, None)
      else
        let (t, allowed) = throttle_allow cfg (ui_channel inc) (ui_file_name inc) now (nst_throttle st)
        in if \<not> allowed then (st\<lparr>nst_throttle := t\<rparr>, None)
           else let (n, reference) = next_reference (nst_counter st)
                in (\<lparr>nst_throttle = t, nst_counter = n\<rparr>, Some (build_message cfg inc reference)))"

text \<open>A run over incidents with the times at which they are handled; the toasts shown, with their times.\<close>

fun notify_run :: "notify_config \<Rightarrow> (usb_incident \<times> nat) list \<Rightarrow> notify_state \<Rightarrow> (nat \<times> usb_incident \<times> ustring \<times> ustring) list" where
  "notify_run cfg [] st = []"
| "notify_run cfg ((inc, now) # es) st =
     (case on_block_for_incident cfg inc now st of
        (st', None) \<Rightarrow> notify_run cfg es st'
      | (st', Some m) \<Rightarrow> (now, inc, m) # notify_run cfg es st')"

section \<open>The rate of toasts\<close>

abbreviation minute :: nat where
  "minute \<equiv> 60000000000"

lemma as_secs_minute: "60 \<le> as_secs d \<longleftrightarrow> minute \<le> d"
  by (simp add: as_secs_def le_div_geq less_eq_div_iff_mult_less_eq)

lemma as_secs_mono: "a \<le> b \<Longrightarrow> as_secs a \<le> as_secs b"
  by (simp add: as_secs_def div_le_mono)

text \<open>What a call does to the throttle, whether or not a toast is shown.\<close>

lemma on_block_cases:
  obtains (silent) "on_block_for_incident cfg inc now st = (st, None)"
  | (throttled) "on_block_for_incident cfg inc now st = (st\<lparr>nst_throttle := roll_window now (nst_throttle st)\<rparr>, None)"
  | (shown) m n where "on_block_for_incident cfg inc now st =
        (\<lparr>nst_throttle = (let t = roll_window now (nst_throttle st) in
            t\<lparr>th_last_shown := map_insert (throttle_key (ui_channel inc) (ui_file_name inc)) now
                (if 1024 < length (th_last_shown t) then [] else th_last_shown t),
              th_count_in_window := th_count_in_window t + 1\<rparr>), nst_counter = n\<rparr>, Some m)"
      "nc_max_per_minute cfg \<noteq> 0 \<Longrightarrow> th_count_in_window (roll_window now (nst_throttle st)) < unat (nc_max_per_minute cfg)"
      "\<And>prev. map_of (th_last_shown (nst_throttle st)) (throttle_key (ui_channel inc) (ui_file_name inc)) = Some prev
         \<Longrightarrow> unat (nc_dedup_secs cfg) \<le> as_secs (now - prev)"
      "ui_action_taken inc = AT_Blocked" "nc_enabled cfg" "nc_mode cfg \<noteq> NM_Covert"
proof -
  let ?k = "throttle_key (ui_channel inc) (ui_file_name inc)" and ?t = "roll_window now (nst_throttle st)"
  have ls: "th_last_shown ?t = th_last_shown (nst_throttle st)" by (simp add: roll_window_def)
  consider "ui_action_taken inc \<noteq> AT_Blocked \<or> \<not> nc_enabled cfg \<or> nc_mode cfg = NM_Covert"
    | "ui_action_taken inc = AT_Blocked" "nc_enabled cfg" "nc_mode cfg \<noteq> NM_Covert" "snd (throttle_allow cfg (ui_channel inc) (ui_file_name inc) now (nst_throttle st))"
    | "ui_action_taken inc = AT_Blocked" "nc_enabled cfg" "nc_mode cfg \<noteq> NM_Covert" "\<not> snd (throttle_allow cfg (ui_channel inc) (ui_file_name inc) now (nst_throttle st))"
    by blast
  then show thesis
  proof cases
    case 1
    then show thesis by (intro silent) (auto simp: on_block_for_incident_def)
  next
    case 2
    then show thesis
      by (intro shown) (auto simp: on_block_for_incident_def throttle_allow_def Let_def ls next_reference_def
          split: if_splits option.splits)
  next
    case 3
    then show thesis
      by (intro throttled) (auto simp: on_block_for_incident_def throttle_allow_def Let_def split: if_splits option.splits)
  qed
qed

definition toasts_in :: "nat \<Rightarrow> nat \<Rightarrow> (nat \<times> 'a) list \<Rightarrow> nat" where
  "toasts_in a b ts = length (filter (\<lambda>x. a \<le> fst x \<and> fst x < b) ts)"

lemma toasts_in_simps [simp]:
  "toasts_in a b [] = 0"
  "toasts_in a b ((t, x) # ts) = (if a \<le> t \<and> t < b then Suc (toasts_in a b ts) else toasts_in a b ts)"
  by (simp_all add: toasts_in_def)

lemma notify_run_step:
  "on_block_for_incident cfg inc now st = (st', None) \<Longrightarrow> notify_run cfg ((inc, now) # es) st = notify_run cfg es st'"
  "on_block_for_incident cfg inc now st = (st', Some m) \<Longrightarrow> notify_run cfg ((inc, now) # es) st = (now, inc, m) # notify_run cfg es st'"
  by simp_all

lemma notify_run_times: "x \<in> set (notify_run cfg es st) \<Longrightarrow> fst x \<in> snd ` set es"
proof (induction es arbitrary: st)
  case (Cons e es)
  obtain inc now st' r where "e = (inc, now)" "on_block_for_incident cfg inc now st = (st', r)" by (metis surj_pair)
  with Cons show ?case by (cases r) auto
qed simp

lemma toasts_in_late:
  assumes "\<And>x. x \<in> set es \<Longrightarrow> b \<le> snd x"
  shows "toasts_in a b (notify_run cfg es st) = 0"
  using notify_run_times [of _ cfg es st] assms
  by (auto simp: toasts_in_def filter_empty_conv not_less) fastforce

definition run_count :: "notify_state \<Rightarrow> nat" where
  "run_count st = th_count_in_window (nst_throttle st)"

definition run_start :: "notify_state \<Rightarrow> nat" where
  "run_start st = th_window_start (nst_throttle st)"

lemma roll_window_counts:
  "run_count (st\<lparr>nst_throttle := roll_window now (nst_throttle st)\<rparr>) = (if minute \<le> now - run_start st then 0 else run_count st)"
  "run_start (st\<lparr>nst_throttle := roll_window now (nst_throttle st)\<rparr>) = (if minute \<le> now - run_start st then now else run_start st)"
  "th_count_in_window (roll_window now (nst_throttle st)) = (if minute \<le> now - run_start st then 0 else run_count st)"
  "th_window_start (roll_window now (nst_throttle st)) = (if minute \<le> now - run_start st then now else run_start st)"
  by (simp_all add: run_count_def run_start_def roll_window_def as_secs_minute)

text \<open>One step as it matters for the rate: the window and the count, and whether a toast was shown.\<close>

lemma step_counts:
  assumes step: "on_block_for_incident cfg inc now st = (st', r)" and max: "nc_max_per_minute cfg \<noteq> 0"
  obtains (unchanged) "r = None" "st' = st"
  | (quiet) "r = None" "run_count st' = (if minute \<le> now - run_start st then 0 else run_count st)"
      "run_start st' = (if minute \<le> now - run_start st then now else run_start st)"
  | (toast) m where "r = Some m" "run_count st' = Suc (if minute \<le> now - run_start st then 0 else run_count st)"
      "(if minute \<le> now - run_start st then 0 else run_count st) < unat (nc_max_per_minute cfg)"
      "run_start st' = (if minute \<le> now - run_start st then now else run_start st)"
proof (cases cfg inc now st rule: on_block_cases)
  case silent
  with step show thesis by (intro unchanged) simp_all
next
  case throttled
  with step have "st' = st\<lparr>nst_throttle := roll_window now (nst_throttle st)\<rparr>" "r = None" by simp_all
  then show thesis by (intro quiet) (simp_all only: roll_window_counts)
next
  case (shown m n)
  have st': "nst_throttle st' = (let t = roll_window now (nst_throttle st) in
            t\<lparr>th_last_shown := map_insert (throttle_key (ui_channel inc) (ui_file_name inc)) now
                (if 1024 < length (th_last_shown t) then [] else th_last_shown t),
              th_count_in_window := th_count_in_window t + 1\<rparr>)" and r: "r = Some m"
    using step shown(1) by auto
  show thesis
  proof (rule toast [OF r])
    show "run_count st' = Suc (if minute \<le> now - run_start st then 0 else run_count st)"
      unfolding run_count_def [of st'] st' Let_def by (simp add: roll_window_counts)
    show "run_start st' = (if minute \<le> now - run_start st then now else run_start st)"
      unfolding run_start_def [of st'] st' Let_def by (simp add: roll_window_counts)
    show "(if minute \<le> now - run_start st then 0 else run_count st) < unat (nc_max_per_minute cfg)"
      using shown(2) [OF max] by (simp only: roll_window_counts)
  qed
qed

lemma toasts_one_window:
  assumes "nc_max_per_minute cfg \<noteq> 0" and "sorted (map snd es)" and "run_count st \<le> unat (nc_max_per_minute cfg)"
    and "b \<le> run_start st + minute"
  shows "toasts_in a b (notify_run cfg es st) + run_count st \<le> unat (nc_max_per_minute cfg)"
  using assms(2-4)
proof (induction es arbitrary: st)
  case (Cons e es)
  obtain inc now st' r where e: "e = (inc, now)" "on_block_for_incident cfg inc now st = (st', r)" by (metis surj_pair)
  have sorted: "sorted (map snd es)" "\<forall>x \<in> set es. now \<le> snd x" using Cons.prems(1) e(1) by auto
  show ?case
  proof (cases "minute \<le> now - run_start st")
    case True
    then have "b \<le> now" using Cons.prems(3) by simp
    with sorted(2) e(1) have "toasts_in a b (notify_run cfg (e # es) st) = 0" by (intro toasts_in_late) auto
    with Cons.prems(2) show ?thesis by simp
  next
    case False
    from e(2) assms(1) show ?thesis
      by (cases rule: step_counts; use False Cons.prems Cons.IH [OF sorted(1), of st'] e in force)
  qed
qed simp

lemma toasts_two_windows:
  assumes "nc_max_per_minute cfg \<noteq> 0" and "sorted (map snd es)" and "run_count st \<le> unat (nc_max_per_minute cfg)"
    and "\<forall>x \<in> set es. a \<le> snd x"
  shows "toasts_in a (a + minute) (notify_run cfg es st) + run_count st \<le> 2 * unat (nc_max_per_minute cfg)"
  using assms(2-4)
proof (induction es arbitrary: st)
  case (Cons e es)
  obtain inc now st' r where e: "e = (inc, now)" "on_block_for_incident cfg inc now st = (st', r)" by (metis surj_pair)
  have sorted: "sorted (map snd es)" "\<forall>x \<in> set es. a \<le> snd x" "a \<le> now" using Cons.prems(1,3) e(1) by auto
  from e(2) assms(1) show ?case
  proof (cases rule: step_counts)
    case unchanged
    with Cons.IH [OF sorted(1), of st] Cons.prems sorted e show ?thesis by simp
  next
    case quiet
    show ?thesis
    proof (cases "minute \<le> now - run_start st")
      case True
      with toasts_one_window [OF assms(1) sorted(1), of st' "a + minute" a] quiet sorted(3) Cons.prems(2) e
      show ?thesis by simp
    next
      case False
      with Cons.IH [OF sorted(1), of st'] quiet Cons.prems sorted e show ?thesis by simp
    qed
  next
    case (toast m)
    show ?thesis
    proof (cases "minute \<le> now - run_start st")
      case True
      with toasts_one_window [OF assms(1) sorted(1), of st' "a + minute" a] toast sorted(3) Cons.prems(2) e
      show ?thesis by auto
    next
      case False
      with Cons.IH [OF sorted(1), of st'] toast Cons.prems sorted e show ?thesis by auto
    qed
  qed
qed simp

lemma toasts_per_minute:
  assumes "nc_max_per_minute cfg \<noteq> 0" and "sorted (map snd es)" and "run_count st \<le> unat (nc_max_per_minute cfg)"
  shows "toasts_in a (a + minute) (notify_run cfg es st) \<le> 2 * unat (nc_max_per_minute cfg)"
  using assms(2,3)
proof (induction es arbitrary: st)
  case (Cons e es)
  obtain inc now st' r where e: "e = (inc, now)" "on_block_for_incident cfg inc now st = (st', r)" by (metis surj_pair)
  have sorted: "sorted (map snd es)" using Cons.prems(1) by simp
  show ?case
  proof (cases "a \<le> now")
    case True
    with Cons.prems e(1) have "\<forall>x \<in> set (e # es). a \<le> snd x" by fastforce
    with toasts_two_windows [OF assms(1) Cons.prems] show ?thesis by fastforce
  next
    case False
    from e(2) assms(1) show ?thesis
      by (cases rule: step_counts; use False Cons.prems Cons.IH [OF sorted, of st'] e in force)
  qed
qed simp

section \<open>Repeated toasts\<close>

definition toast_key :: "usb_incident \<Rightarrow> ustring" where
  "toast_key inc = throttle_key (ui_channel inc) (ui_file_name inc)"

abbreviation shown_map :: "notify_state \<Rightarrow> (ustring \<times> nat) list" where
  "shown_map st \<equiv> th_last_shown (nst_throttle st)"

lemma map_of_map_insert: "map_of (map_insert k v m) x = (if x = k then Some v else map_of m x)"
  by (induction m) (auto simp: map_insert_def)

lemma length_map_insert: "length (map_insert k v m) \<le> Suc (length m)"
  by (simp add: map_insert_def le_SucI)

lemma step_map:
  assumes step: "on_block_for_incident cfg inc now st = (st', r)"
  obtains (same) "r = None" "shown_map st' = shown_map st"
  | (shown) m where "r = Some m"
      "shown_map st' = map_insert (toast_key inc) now (if 1024 < length (shown_map st) then [] else shown_map st)"
      "\<And>prev. map_of (shown_map st) (toast_key inc) = Some prev \<Longrightarrow> unat (nc_dedup_secs cfg) \<le> as_secs (now - prev)"
proof (cases cfg inc now st rule: on_block_cases)
  case silent
  with step show thesis by (intro same) simp_all
next
  case throttled
  with step have "st' = st\<lparr>nst_throttle := roll_window now (nst_throttle st)\<rparr>" "r = None" by simp_all
  then show thesis by (intro same) (simp_all add: roll_window_def)
next
  case (shown m n)
  have ls: "th_last_shown (roll_window now (nst_throttle st)) = shown_map st" by (simp add: roll_window_def)
  from step shown(1) have "r = Some m"
    "shown_map st' = map_insert (toast_key inc) now (if 1024 < length (shown_map st) then [] else shown_map st)"
    by (auto simp: Let_def ls toast_key_def)
  from that(2) [OF this] shown(3) show thesis by (simp add: toast_key_def)
qed

text \<open>Two toasts for the same channel and file are the dedup window apart.\<close>

definition apart :: "notify_config \<Rightarrow> nat \<times> usb_incident \<times> 'a \<Rightarrow> nat \<times> usb_incident \<times> 'a \<Rightarrow> bool" where
  "apart cfg x y \<longleftrightarrow>
     (if toast_key (fst (snd x)) = toast_key (fst (snd y)) then unat (nc_dedup_secs cfg) \<le> as_secs (fst y - fst x) else True)"

lemma toasts_apart:
  assumes "sorted (map snd es)" and "length (notify_run cfg es st) + length (shown_map st) \<le> 1025"
    and "\<forall>k prev. map_of (shown_map st) k = Some prev \<longrightarrow> (\<forall>x \<in> set es. prev \<le> snd x)"
  shows "sorted_wrt (apart cfg) (notify_run cfg es st)
    \<and> (\<forall>x \<in> set (notify_run cfg es st). \<forall>prev. map_of (shown_map st) (toast_key (fst (snd x))) = Some prev
         \<longrightarrow> unat (nc_dedup_secs cfg) \<le> as_secs (fst x - prev))"
  using assms
proof (induction es arbitrary: st)
  case (Cons e es)
  obtain inc now st' r where e: "e = (inc, now)" "on_block_for_incident cfg inc now st = (st', r)" by (metis surj_pair)
  have sorted: "sorted (map snd es)" "\<forall>x \<in> set es. now \<le> snd x" using Cons.prems(1) e(1) by auto
  from e(2) show ?case
  proof (cases rule: step_map)
    case same
    with e Cons.prems Cons.IH [OF sorted(1), of st'] show ?thesis by simp
  next
    case (shown m)
    have run: "notify_run cfg (e # es) st = (now, inc, m) # notify_run cfg es st'" using e shown(1) by simp
    then have map: "shown_map st' = map_insert (toast_key inc) now (shown_map st)"
      using shown(2) Cons.prems(2) by simp
    have len: "length (notify_run cfg es st') + length (shown_map st') \<le> 1025"
      using Cons.prems(2) run length_map_insert [of "toast_key inc" now "shown_map st"] by (simp add: map)
    have bound: "\<forall>k prev. map_of (shown_map st') k = Some prev \<longrightarrow> (\<forall>x \<in> set es. prev \<le> snd x)"
      using Cons.prems(3) sorted(2) by (simp add: map map_of_map_insert)
    note ih = Cons.IH [OF sorted(1) len bound]
    have later: "unat (nc_dedup_secs cfg) \<le> as_secs (fst x - prev)"
      if "x \<in> set (notify_run cfg es st')" "map_of (shown_map st) (toast_key (fst (snd x))) = Some prev" for x prev
    proof (cases "toast_key (fst (snd x)) = toast_key inc")
      case True
      then have "unat (nc_dedup_secs cfg) \<le> as_secs (fst x - now)" using ih that(1) by (simp add: map map_of_map_insert)
      moreover have "prev \<le> now" using Cons.prems(3) that(2) e(1) by fastforce
      then have "as_secs (fst x - now) \<le> as_secs (fst x - prev)" by (intro as_secs_mono) simp
      ultimately show ?thesis by linarith
    next
      case False
      with ih that show ?thesis by (simp add: map map_of_map_insert)
    qed
    have "apart cfg (now, inc, m) x" if "x \<in> set (notify_run cfg es st')" for x
      using ih that by (auto simp: apart_def map map_of_map_insert)
    with ih later shown(3) show ?thesis by (auto simp: run)
  qed
qed simp

text \<open>
  C36. Storm control. However many blocked actions arrive, in any minute at most twice the configured number of
  toasts is shown; and as long as at most 1024 have been shown, two toasts for the same channel and file are at
  least the dedup time apart.
\<close>

theorem toast_storm_controlled:
  fixes t0 :: nat and n :: u64
  assumes "sorted (map snd es)" and "nc_max_per_minute cfg \<noteq> 0"
  defines "shown \<equiv> notify_run cfg es \<lparr>nst_throttle = throttle_init t0, nst_counter = n\<rparr>"
  shows "toasts_in a (a + minute) shown \<le> 2 * unat (nc_max_per_minute cfg)
    \<and> (if length shown \<le> 1024 then sorted_wrt (apart cfg) shown else True)"
  using toasts_per_minute [OF assms(2,1), of "\<lparr>nst_throttle = throttle_init t0, nst_counter = n\<rparr>" a]
    toasts_apart [OF assms(1), of cfg "\<lparr>nst_throttle = throttle_init t0, nst_counter = n\<rparr>"]
  by (simp add: shown_def run_count_def throttle_init_def)

definition blocked_incident :: usb_incident where
  "blocked_incident = \<lparr>ui_kind = IK_Match, ui_channel = lit ''usb'', ui_file_name = lit ''f'', ui_file_sha256 = [], ui_verdict = None,
     ui_device = \<lparr>dev_drive_letter = [], dev_vendor_id = [], dev_product_id = [], dev_serial = [], dev_product_name = [],
       dev_bus_type = [], dev_removable = False\<rparr>,
     ui_action_taken = AT_Blocked, ui_note = None, ui_key_id = None, ui_sealed_sha256 = None\<rparr>"

lemma toast_storm_controlled_witness:
  "toasts_in 0 minute (notify_run notify_config_default [(blocked_incident, 0), (blocked_incident, 7)]
     \<lparr>nst_throttle = throttle_init 0, nst_counter = 1\<rparr>) \<le> 40"
  using toast_storm_controlled [of "[(blocked_incident, 0), (blocked_incident, 7)]" notify_config_default 0 0 1]
  by (simp add: notify_config_default_def)

text \<open>
  The cap is per window and not rolling: with a cap of one, two toasts are shown two seconds apart when a window ends
  between them.
\<close>

lemma cap_not_rolling:
  "length (notify_run (notify_config_default\<lparr>nc_max_per_minute := 1, nc_dedup_secs := 0\<rparr>)
     [(blocked_incident, 59000000000), (blocked_incident, 61000000000)]
     \<lparr>nst_throttle = throttle_init 0, nst_counter = 1\<rparr>) = 2"
  by (simp add: on_block_for_incident_def throttle_allow_def roll_window_def throttle_init_def as_secs_def Let_def
      notify_config_default_def blocked_incident_def next_reference_def map_insert_def build_message_def)

section \<open>What a toast reveals\<close>

text \<open>What a toast may depend on: the action taken, the channel and the file name.\<close>

definition visible :: "usb_incident \<Rightarrow> action_taken \<times> ustring \<times> ustring" where
  "visible inc = (ui_action_taken inc, ui_channel inc, ui_file_name inc)"

lemma on_block_visible:
  "visible inc = visible inc' \<Longrightarrow> on_block_for_incident cfg inc now st = on_block_for_incident cfg inc' now st"
proof -
  assume v: "visible inc = visible inc'"
  then have "build_message cfg inc = build_message cfg inc'"
    by (simp add: visible_def build_message_def fun_eq_iff split: notify_mode.split)
  with v show ?thesis by (simp add: visible_def on_block_for_incident_def split: prod.split)
qed

lemma notify_run_visible:
  "map (\<lambda>(i, t). (visible i, t)) es = map (\<lambda>(i, t). (visible i, t)) es' \<Longrightarrow>
     map (\<lambda>(t, i, m). (t, m)) (notify_run cfg es st) = map (\<lambda>(t, i, m). (t, m)) (notify_run cfg es' st)"
proof (induction es arbitrary: es' st)
  case (Cons e es)
  then obtain e' es'' where es': "es' = e' # es''" by (cases es') auto
  obtain inc now where e: "e = (inc, now)" by fastforce
  obtain inc' where e': "e' = (inc', now)" "visible inc = visible inc'" using Cons.prems es' e by (cases e') auto
  obtain st' r where "on_block_for_incident cfg inc now st = (st', r)" by fastforce
  moreover from this have "on_block_for_incident cfg inc' now st = (st', r)" using on_block_visible [OF e'(2)] by simp
  ultimately show ?case using Cons es' e e'(1) by (cases r) simp_all
qed simp

lemma notify_run_blocked:
  "x \<in> set (notify_run cfg es st) \<Longrightarrow> ui_action_taken (fst (snd x)) = AT_Blocked \<and> nc_enabled cfg \<and> nc_mode cfg \<noteq> NM_Covert"
proof (induction es arbitrary: st)
  case (Cons e es)
  obtain inc now st' r where e: "e = (inc, now)" "on_block_for_incident cfg inc now st = (st', r)" by (metis surj_pair)
  show ?case
  proof (cases cfg inc now st rule: on_block_cases)
    case (shown m n)
    with e Cons show ?thesis by auto
  qed (use e Cons in auto)
qed simp

lemma trim_subset: "set (trim s) \<subseteq> set s"
  by (auto simp: trim_def trim_end_matches_def trim_start_matches_def dest!: set_dropWhileD)

lemma sanitize_display_safe:
  "length (sanitize_display name) \<le> 96"
  "{34, 47, 92} \<inter> set (sanitize_display name) = {}" "list_all (\<lambda>c. \<not> is_control c) (sanitize_display name)"
proof -
  let ?b = "rsplit_first (\<lambda>c. c = 92 \<or> c = 47) name"
  let ?c = "trim (filter (\<lambda>c. \<not> is_control c \<and> c \<noteq> 34) ?b)"
  have "c \<noteq> 92 \<and> c \<noteq> 47" if "c \<in> set ?b" for c
    using that by (auto simp: rsplit_first_def dest: set_takeWhileD)
  note b = this
  have c: "c \<notin> {34, 47, 92} \<and> \<not> is_control c" if "c \<in> set ?c" for c
  proof -
    from that have "c \<in> set (filter (\<lambda>c. \<not> is_control c \<and> c \<noteq> 34) ?b)" using trim_subset by blast
    with b [of c] show ?thesis by simp
  qed
  have d: "set (lit ''...'') = {46}" by (simp add: lit_def)
  have set: "set (sanitize_display name) \<subseteq> set ?c \<union> {46}"
  proof (cases "96 < length ?c")
    case True
    then have "sanitize_display name = take 93 ?c @ lit ''...''" by (simp add: sanitize_display_def Let_def)
    then show ?thesis using d set_take_subset [of 93 ?c] by (simp only: set_append) blast
  qed (simp add: sanitize_display_def Let_def subset_insertI2)
  show "length (sanitize_display name) \<le> 96" by (simp add: sanitize_display_def Let_def lit_def)
  have ok: "x \<notin> {34, 47, 92} \<and> \<not> is_control x" if "x \<in> set (sanitize_display name)" for x
    using subsetD [OF set that] c [of x] by (cases "x = 46") (simp_all add: is_control_def)
  show "{34, 47, 92} \<inter> set (sanitize_display name) = {}" using ok by blast
  show "list_all (\<lambda>c. \<not> is_control c) (sanitize_display name)" using ok by (simp only: list_all_iff) blast
qed

text \<open>The payload is the escaping that the agent's own XML reader undoes.\<close>

lemma toast_xml_escape_reads_back: "decode_xml_entities (toast_xml_escape s) = s"
proof -
  have "toast_escape_char c = xml_escape_char c" for c
    by (simp add: toast_escape_char_def xml_escape_char_def ENTITIES_def lit_def)
  then have "toast_escape_char = xml_escape_char" ..
  then show ?thesis using decode_xml_escape [of s] by (simp add: toast_xml_escape_def xml_escape_def)
qed



end
