(* ===== verification/Toast_Child.thy ===== *)
theory Toast_Child
  imports Notify
begin

text \<open>
  How a toast of the service reaches the desktop: \<open>notify/mod.rs\<close> starts the agent again in the user's
  session with the message on the command line, and the \<open>toast\<close> command of \<open>main.rs\<close> reads it back. The arguments
  are split as the standard library does on Windows. The calls that start the process succeed or fail. Shown: the
  child renders the message it was started for, whatever the name of the file, and no call leaks the user's token.
\<close>

section \<open>Arguments of a process\<close>

text \<open>\<open>std::env::args\<close> on Windows: the program's name has no escapes, a backslash counts only before a quote.\<close>

definition is_blank :: "uchar \<Rightarrow> bool" where
  "is_blank c \<longleftrightarrow> c = 32 \<or> c = 9"

fun exe_arg :: "bool \<Rightarrow> ustring \<Rightarrow> ustring \<times> ustring" where
  "exe_arg in_quotes [] = ([], [])"
| "exe_arg in_quotes (c # cs) =
     (if c = 34 then exe_arg (\<not> in_quotes) cs
      else if is_blank c \<and> \<not> in_quotes then ([], cs)
      else let (a, rest) = exe_arg in_quotes cs in (c # a, rest))"

lemma dropWhile_shorter: "length (dropWhile P cs) < Suc (length cs)" "length (dropWhile P cs) - k < Suc (length cs)"
  using length_dropWhile_le [of P cs] by simp_all

function rest_args :: "bool \<Rightarrow> ustring \<Rightarrow> ustring \<Rightarrow> ustring list" where
  "rest_args in_quotes cur [] = (if cur \<noteq> [] \<or> in_quotes then [cur] else [])"
| "rest_args in_quotes cur (c # cs) =
     (if is_blank c \<and> \<not> in_quotes then cur # rest_args False [] (dropWhile is_blank cs)
      else if c = 92 then
        let n = Suc (length (takeWhile ((=) 92) cs)); r = dropWhile ((=) 92) cs
        in if r \<noteq> [] \<and> hd r = 34 then
             (if odd n then rest_args in_quotes (cur @ replicate (n div 2) 92 @ [34]) (tl r)
              else rest_args in_quotes (cur @ replicate (n div 2) 92) r)
           else rest_args in_quotes (cur @ replicate n 92) r
      else if c = 34 then
        (if in_quotes then
           (case cs of
              [] \<Rightarrow> [cur]
            | d # ds \<Rightarrow> if d = 34 then rest_args True (cur @ [34]) ds else rest_args False cur (d # ds))
         else rest_args True cur cs)
      else rest_args in_quotes (cur @ [c]) cs)"
  by pat_completeness auto

termination
  by (relation "measure (\<lambda>(_, _, cs). length cs)") (auto simp: dropWhile_shorter)

definition env_args :: "ustring \<Rightarrow> ustring list" where
  "env_args command_line =
     (case exe_arg False (takeWhile (\<lambda>c. c \<noteq> 0) command_line) of
        (exe, rest) \<Rightarrow> exe # rest_args False [] (dropWhile is_blank rest))"

section \<open>The command in the session\<close>

fun toast_args :: "ustring list \<Rightarrow> ustring \<times> ustring \<times> ustring \<Rightarrow> ustring \<times> ustring \<times> ustring" where
  "toast_args [] st = st"
| "toast_args (a # rest) (aumid, title, body) =
     (if a = lit ''--aumid'' then
        (case rest of [] \<Rightarrow> ([], title, body) | v # vs \<Rightarrow> toast_args vs (v, title, body))
      else if a = lit ''--title'' then
        (case rest of [] \<Rightarrow> (aumid, [], body) | v # vs \<Rightarrow> toast_args vs (aumid, v, body))
      else if a = lit ''--body'' then
        (case rest of [] \<Rightarrow> (aumid, title, []) | v # vs \<Rightarrow> toast_args vs (aumid, title, v))
      else toast_args rest (aumid, title, body))"

definition cmd_toast :: "ustring list \<Rightarrow> toast_effect" where
  "cmd_toast args =
     (case toast_args args ([], [], []) of (aumid, title, body) \<Rightarrow>
        Show_Here (if aumid = [] then lit ''Resec.DLP.Agent'' else aumid) (toast_payload title (replace_char 8232 10 body)))"

section \<open>Starting it\<close>

text \<open>What the calls answer: the user's token, the environment block, the path of the program, the new process.\<close>

record spawn_calls =
  sw_token :: bool
  sw_env :: bool
  sw_exe :: "ustring option"
  sw_create :: bool

datatype spawn_call =
  Query_Token u32 | Create_Env | Create_Process ustring bool | Destroy_Env | Close_Process | Close_Token

definition spawn_toast_in_session :: "spawn_calls \<Rightarrow> u32 \<Rightarrow> ustring \<Rightarrow> ustring \<Rightarrow> ustring \<Rightarrow> spawn_call list \<times> bool" where
  "spawn_toast_in_session os session aumid title body =
     (if \<not> sw_token os then ([Query_Token session], False)
      else case sw_exe os of
        None \<Rightarrow> ([Query_Token session, Create_Env, Close_Token], False)
      | Some exe \<Rightarrow>
          ([Query_Token session, Create_Env, Create_Process (build_toast_cmdline exe aumid title body) (sw_env os)]
           @ (if sw_env os then [Destroy_Env] else [])
           @ (if sw_create os then [Close_Process] else []) @ [Close_Token],
           sw_create os))"

text \<open>\<open>open_ok\<close>: the own token opens; \<open>session\<close>: the session it tells.\<close>

definition current_session :: "bool \<Rightarrow> u32 option \<Rightarrow> u32 option" where
  "current_session open_ok session = (if open_ok then session else None)"

text \<open>The outer option is the query's success, the inner one the buffer, whose code units may not be valid.\<close>

definition console_username :: "u32 \<Rightarrow> ustring option option option \<Rightarrow> ustring option" where
  "console_username session query =
     (if session = INVALID_SESSION then None
      else case query of
        Some (Some (Some s)) \<Rightarrow> if s = [] then None else Some s
      | _ \<Rightarrow> None)"

lemma token_closed:
  "spawn_toast_in_session os session aumid title body = (calls, ok) \<Longrightarrow> sw_token os \<Longrightarrow> last calls = Close_Token \<and> count_list calls Close_Token = 1"
  by (auto simp: spawn_toast_in_session_def split: option.splits)

text \<open>The environment block is not given back when the program's path cannot be found.\<close>

lemma environment_leaked:
  "sw_token os \<Longrightarrow> sw_env os \<Longrightarrow> sw_exe os = None \<Longrightarrow> Destroy_Env \<notin> set (fst (spawn_toast_in_session os session aumid title body))"
  by (simp add: spawn_toast_in_session_def)

section \<open>Splitting a quoted line\<close>

lemma exe_arg_quoted: "34 \<notin> set t \<Longrightarrow> exe_arg True (t @ 34 # 32 # r) = (t, r)"
  by (induction t) (auto simp: is_blank_def)

lemma rest_args_word:
  assumes "list_all (\<lambda>c. \<not> is_blank c \<and> c \<noteq> 34 \<and> c \<noteq> 92) w"
  shows "rest_args q cur (w @ r) = rest_args q (cur @ w) r"
  using assms by (induction w arbitrary: cur) auto

lemma rest_args_quoted:
  assumes "34 \<notin> set t" and "t = [] \<or> last t \<noteq> 92"
  shows "rest_args True cur (t @ r) = rest_args True (cur @ t) r"
  using assms
proof (induction "length t" arbitrary: t cur rule: less_induct)
  case less
  show ?case
  proof (cases t)
    case (Cons c cs)
    show ?thesis
    proof (cases "c = 92")
      case False
      with less.prems Cons less.hyps [of cs "cur @ [c]"] show ?thesis by (auto split: if_splits)
    next
      case True
      have "\<exists>d \<in> set cs. d \<noteq> 92"
      proof (rule ccontr)
        assume "\<not> (\<exists>d \<in> set cs. d \<noteq> 92)"
        then have "last t = 92" using Cons True by (cases cs) (auto dest: last_in_set)
        with less.prems(2) Cons show False by simp
      qed
      then obtain d where "d \<in> set cs" "d \<noteq> 92" by blast
      define n where "n = Suc (length (takeWhile ((=) 92) cs))"
      define ds where "ds = dropWhile ((=) 92) cs"
      have ds: "ds \<noteq> []" "dropWhile ((=) 92) (cs @ r) = ds @ r" "takeWhile ((=) 92) (cs @ r) = takeWhile ((=) 92) cs"
        using \<open>d \<in> set cs\<close> \<open>d \<noteq> 92\<close> by (auto simp: ds_def dropWhile_append takeWhile_append)
      have t: "t = replicate n 92 @ ds"
      proof -
        have "takeWhile ((=) 92) cs = replicate (length (takeWhile ((=) 92) cs)) 92"
          by (intro replicate_eqI [symmetric, THEN sym]) (auto dest: set_takeWhileD)
        then show ?thesis using Cons True takeWhile_dropWhile_id [of "(=) 92" cs] by (simp add: n_def ds_def)
      qed
      have hd: "hd ds \<noteq> 34" using ds(1) less.prems(1) unfolding t by (cases ds) auto
      have "rest_args True cur (t @ r) = rest_args True (cur @ replicate n 92) (ds @ r)"
        using Cons True ds hd by (simp add: n_def Let_def is_blank_def)
      also have "\<dots> = rest_args True ((cur @ replicate n 92) @ ds) r"
        using less.hyps [of ds "cur @ replicate n 92"] less.prems ds(1) unfolding t by (auto simp: n_def)
      finally show ?thesis by (simp add: t)
    qed
  qed simp
qed

text \<open>What \<open>quote_arg\<close> keeps of a text, and the texts it protects.\<close>

definition arg_text :: "ustring \<Rightarrow> ustring" where
  "arg_text s = replace_char 10 8232 (filter (\<lambda>c. c \<noteq> 34 \<and> c \<noteq> 13) s)"

definition arg_safe :: "ustring \<Rightarrow> bool" where
  "arg_safe s \<longleftrightarrow> 0 \<notin> set s \<and> (arg_text s = [] \<or> last (arg_text s) \<noteq> 92)"

lemma quote_arg_text: "quote_arg s = 34 # arg_text s @ [34]"
  by (simp add: quote_arg_def arg_text_def)

lemma arg_text_no_quote: "34 \<notin> set (arg_text s)"
  by (auto simp: arg_text_def replace_char_def split: if_splits)

lemma arg_text_nul: "0 \<in> set (arg_text s) \<longleftrightarrow> 0 \<in> set s"
  by (force simp: arg_text_def replace_char_def)

lemma rest_args_quote_arg:
  assumes "arg_safe s"
  shows "rest_args False [] (quote_arg s @ 32 # r) = arg_text s # rest_args False [] (dropWhile is_blank r)"
    and "rest_args False [] (quote_arg s) = [arg_text s]"
  using assms rest_args_quoted [OF arg_text_no_quote [of s], where cur = "[]"]
  by (simp_all add: quote_arg_text arg_safe_def is_blank_def)

lemma rest_args_name:
  assumes "list_all (\<lambda>c. \<not> is_blank c \<and> c \<noteq> 34 \<and> c \<noteq> 92) w"
  shows "rest_args False [] (w @ 32 # r) = w # rest_args False [] (dropWhile is_blank r)"
  using rest_args_word [OF assms, of False "[]"] by (simp add: is_blank_def)

lemma toast_words:
  "list_all (\<lambda>c. \<not> is_blank c \<and> c \<noteq> 34 \<and> c \<noteq> 92) (lit ''toast'')"
  "list_all (\<lambda>c. \<not> is_blank c \<and> c \<noteq> 34 \<and> c \<noteq> 92) (lit ''--aumid'')"
  "list_all (\<lambda>c. \<not> is_blank c \<and> c \<noteq> 34 \<and> c \<noteq> 92) (lit ''--title'')"
  "list_all (\<lambda>c. \<not> is_blank c \<and> c \<noteq> 34 \<and> c \<noteq> 92) (lit ''--body'')"
  by (simp_all add: lit_def is_blank_def)

lemma toast_cmdline_words:
  "build_toast_cmdline exe aumid title body =
     quote_arg exe @ 32 # lit ''toast'' @ 32 # lit ''--aumid'' @ 32 # quote_arg aumid @ 32 # lit ''--title'' @ 32 #
     quote_arg title @ 32 # lit ''--body'' @ 32 # quote_arg body"
  by (simp add: build_toast_cmdline_def lit_def)

lemma toast_words_plain:
  "0 \<notin> set (lit ''toast'')" "0 \<notin> set (lit ''--aumid'')" "0 \<notin> set (lit ''--title'')" "0 \<notin> set (lit ''--body'')"
  by (simp_all add: lit_def)

lemma env_args_toast:
  assumes "0 \<notin> set exe" and "arg_safe aumid" and "arg_safe title" and "arg_safe body"
  shows "env_args (build_toast_cmdline exe aumid title body) =
    [arg_text exe, lit ''toast'', lit ''--aumid'', arg_text aumid, lit ''--title'', arg_text title, lit ''--body'', arg_text body]"
proof -
  have "0 \<notin> set (arg_text exe)" "0 \<notin> set (arg_text aumid)" "0 \<notin> set (arg_text title)" "0 \<notin> set (arg_text body)"
    by (simp_all only: arg_text_nul) (use assms in \<open>simp_all add: arg_safe_def\<close>)
  then have "0 \<notin> set (build_toast_cmdline exe aumid title body)"
    unfolding toast_cmdline_words quote_arg_text using toast_words_plain by simp
  then have nul: "takeWhile (\<lambda>c. c \<noteq> 0) (build_toast_cmdline exe aumid title body) = build_toast_cmdline exe aumid title body"
    by (subst takeWhile_eq_all_conv) (intro ballI notI, simp)
  have q: "dropWhile is_blank (quote_arg s @ r) = quote_arg s @ r" for s r by (simp add: quote_arg_text is_blank_def)
  have q': "dropWhile is_blank (quote_arg s) = quote_arg s" for s by (simp add: quote_arg_text is_blank_def)
  have w: "dropWhile is_blank (w @ r) = w @ r" if "list_all (\<lambda>c. \<not> is_blank c \<and> c \<noteq> 34 \<and> c \<noteq> 92) w" "w \<noteq> []" for w r
    using that by (cases w) auto
  have "exe_arg False (build_toast_cmdline exe aumid title body) = (arg_text exe, lit ''toast'' @ 32 # lit ''--aumid'' @ 32 # quote_arg aumid
      @ 32 # lit ''--title'' @ 32 # quote_arg title @ 32 # lit ''--body'' @ 32 # quote_arg body)"
    unfolding toast_cmdline_words quote_arg_text [of exe] append.simps append_assoc exe_arg.simps
    by (simp only: append.simps append_assoc exe_arg_quoted [OF arg_text_no_quote] simp_thms if_True)
  then show ?thesis
    by (simp only: env_args_def nul prod.case w [OF toast_words(1)] w [OF toast_words(2)] w [OF toast_words(3)] w [OF toast_words(4)]
        lit_eq_Nil list.distinct not_False_eq_True rest_args_name [OF toast_words(1)] rest_args_name [OF toast_words(2)]
        rest_args_name [OF toast_words(3)] rest_args_name [OF toast_words(4)] q q'
        rest_args_quote_arg [OF assms(2)] rest_args_quote_arg [OF assms(3)] rest_args_quote_arg [OF assms(4)])
qed

section \<open>The message arrives\<close>

text \<open>The texts of a message hold no quote, carriage return or null character but those of the organisation's name.\<close>

lemma next_reference_chars: "list_all (\<lambda>c. 45 \<le> c) (snd (next_reference n))"
  by (simp add: next_reference_def Let_def lit_def upper_hex_digit_def)

lemma sanitize_display_plain: "0 \<notin> set (sanitize_display s)" "34 \<notin> set (sanitize_display s)" "13 \<notin> set (sanitize_display s)"
  using sanitize_display_safe(2,3) [of s] by (auto simp: list_all_iff is_control_def)

lemma arg_text_append: "arg_text (s @ t) = arg_text s @ arg_text t"
  by (simp add: arg_text_def replace_char_def)

lemma arg_safe_append: "0 \<notin> set s \<Longrightarrow> arg_safe t \<Longrightarrow> arg_text t \<noteq> [] \<Longrightarrow> arg_safe (s @ t)"
  by (simp add: arg_safe_def arg_text_append)

lemma channel_label_plain: "0 \<notin> set (channel_label c)" "34 \<notin> set (channel_label c)" "13 \<notin> set (channel_label c)"
  by (simp_all add: channel_label_def lit_def)

lemma build_message_safe:
  assumes "build_message cfg inc (snd (next_reference n)) = (title, body)" and "nc_mode cfg \<noteq> NM_Covert" and "arg_safe (nc_org_name cfg)"
  shows "arg_safe title" and "arg_safe body" and "34 \<notin> set body" and "13 \<notin> set body"
proof -
  have ref: "0 \<notin> set (snd (next_reference n))" "34 \<notin> set (snd (next_reference n))" "13 \<notin> set (snd (next_reference n))"
    using next_reference_chars [of n] by (auto simp: list_all_iff)
  have by_org: "arg_safe (lit ''Blocked by '' @ nc_org_name cfg)"
  proof -
    have "0 \<notin> set (lit ''Blocked by '')" "last (arg_text (lit ''Blocked by '')) \<noteq> 92" "arg_text (lit ''Blocked by '') \<noteq> []"
      by code_simp+
    then show ?thesis using assms(3) by (auto simp: arg_safe_def arg_text_append last_append)
  qed
  have tail: "arg_safe (lit ''contact security'')" "arg_text (lit ''contact security'') \<noteq> []"
    "arg_safe (lit ''An action was blocked by security policy.'')"
    by (simp_all add: arg_safe_def arg_text_def replace_char_def lit_def)
  show "arg_safe title" using assms by_org by (auto simp: build_message_def Let_def split: notify_mode.splits)
  have standard: "\<exists>front. body = front @ lit ''contact security'' \<and> {0, 34, 13} \<inter> set front = {}" if "nc_mode cfg = NM_Standard"
  proof -
    let ?front = "(if sanitize_display (ui_file_name inc) = [] then [] else lit ''File: '' @ sanitize_display (ui_file_name inc) @ [10])
      @ lit ''Channel: '' @ channel_label (ui_channel inc) @ [10] @ lit ''Ref: '' @ snd (next_reference n) @ lit '' '' @ [8212] @ lit '' ''"
    have "body = ?front @ lit ''contact security''"
      using assms(1) that by (auto simp: build_message_def Let_def lit_def)
    moreover have "{0, 34, 13} \<inter> set ?front = {}"
      using ref sanitize_display_plain [of "ui_file_name inc"] channel_label_plain [of "ui_channel inc"] by (simp add: lit_def)
    ultimately show ?thesis by blast
  qed
  show "arg_safe body" "34 \<notin> set body" "13 \<notin> set body"
    using standard assms(1,2) tail by (cases "nc_mode cfg"; auto simp: build_message_def lit_def intro: arg_safe_append)+
qed

text \<open>
  C40. The user sees the message of the block. When the service starts the agent in the user's session to show a blocked incident, the
  arguments the child finds are the command, the application's id, the title and the body, and it renders exactly the message that was
  built, but for line separators in the body, which become line breaks, and quotes in the configured names: whatever
  the file is called, its name cannot add or change an argument. The configured names must not end in a backslash.
\<close>

theorem toast_child_shows_message:
  assumes "on_block_for_incident cfg inc now st = (st', Some (title, body))"
    and "dispatch session console exe (nc_aumid cfg) title body = [Spawn_In_Session target command_line]"
    and "0 \<notin> set exe" and "arg_safe (nc_aumid cfg)" and "arg_safe (nc_org_name cfg)"
  shows "take 2 (env_args command_line) = [arg_text exe, lit ''toast'']
    \<and> cmd_toast (drop 2 (env_args command_line)) =
        Show_Here (if arg_text (nc_aumid cfg) = [] then lit ''Resec.DLP.Agent'' else arg_text (nc_aumid cfg))
          (toast_payload (arg_text title) (replace_char 8232 10 body))"
proof -
  from assms(1) obtain n where m: "build_message cfg inc (snd (next_reference n)) = (title, body)" "nc_mode cfg \<noteq> NM_Covert"
    by (auto simp: on_block_for_incident_def Let_def split: if_splits prod.splits) (metis snd_conv)
  note safe = build_message_safe [OF m assms(5)]
  from assms(2) have c: "command_line = build_toast_cmdline exe (nc_aumid cfg) title body"
    by (auto simp: dispatch_def split: option.splits if_splits)
  have "replace_char 8232 10 (arg_text body) = replace_char 8232 10 body"
    using safe(3,4) by (induction body) (auto simp: arg_text_def replace_char_def)
  moreover have "lit ''--title'' \<noteq> lit ''--aumid''" "lit ''--body'' \<noteq> lit ''--aumid''" "lit ''--body'' \<noteq> lit ''--title''"
    by (simp_all add: lit_def)
  ultimately show ?thesis
    using env_args_toast [OF assms(3,4) safe(1,2)] by (simp add: c cmd_toast_def)
qed

lemma toast_child_shows_message_witness:
  "\<exists>title body target command_line. dispatch (Some 0) 1 [97] (nc_aumid notify_config_default) title body = [Spawn_In_Session target command_line]
     \<and> take 2 (env_args command_line) = [[97], lit ''toast'']"
proof -
  let ?st = "\<lparr>nst_throttle = throttle_init 0, nst_counter = 1\<rparr>"
  have "snd (on_block_for_incident notify_config_default blocked_incident 0 ?st) \<noteq> None"
    by (simp add: on_block_for_incident_def blocked_incident_def notify_config_default_def throttle_allow_def roll_window_def
        throttle_init_def as_secs_def Let_def split: prod.split)
  then obtain st' title body where m: "on_block_for_incident notify_config_default blocked_incident 0 ?st = (st', Some (title, body))"
    by (metis not_None_eq prod.collapse)
  have d: "dispatch (Some 0) 1 [97] (nc_aumid notify_config_default) title body
      = [Spawn_In_Session 1 (build_toast_cmdline [97] (nc_aumid notify_config_default) title body)]"
    by (simp add: dispatch_def INVALID_SESSION_def)
  have "arg_safe (nc_aumid notify_config_default)" "arg_safe (nc_org_name notify_config_default)"
    by (simp_all add: notify_config_default_def arg_safe_def arg_text_def replace_char_def lit_def)
  from toast_child_shows_message [OF m d _ this] have "take 2 (env_args (build_toast_cmdline [97] (nc_aumid notify_config_default) title body))
      = [[97], lit ''toast'']"
    by (simp add: arg_text_def replace_char_def)
  with d show ?thesis by blast
qed

text \<open>A name that ends in a backslash takes the closing quote with it: the title swallows what follows.\<close>

lemma backslash_breaks_out:
  "toast_args (drop 2 (env_args (build_toast_cmdline [97] [98] [99, 92] [100, 32, 101]))) ([], [], []) =
     ([98], [99, 34, 32] @ lit ''--body'' @ [32, 100], [])"
  by code_simp

text \<open>A line separator in a file's name survives the display filter and becomes a line break in the session.\<close>

lemma separator_breaks_line: "sanitize_display [65, 8232, 66] = [65, 8232, 66]" and "replace_char 8232 10 [65, 8232, 66] = [65, 10, 66::nat]"
  by code_simp+

end
