(* ===== verification/Service.thy ===== *)
theory Service
  imports Kguard
begin

text \<open>
  The Windows service (\<open>service.rs\<close>) and the supervision of the workers (\<open>supervised_thread\<close> and \<open>sleep_interruptible\<close> of
  \<open>main.rs\<close>): registration with the service manager, the control handler, what is reported, and how a worker is restarted
  until the stop signal. Time is counted in ticks of 200 milliseconds, the step in which a sleeping worker looks at the
  signal; the signal is a function of the tick. Shown: a worker is restarted after every end of an attempt, a panic or not,
  until the stop, no turn starts after it, and the worker exits within one attempt and one delay.
\<close>

section \<open>Registration\<close>

record service_info =
  sv_name :: ustring
  sv_display :: ustring
  sv_auto_start :: bool
  sv_executable :: ustring
  sv_arguments :: "ustring list"
  sv_dependencies :: "ustring list"
  sv_account :: "ustring option"

definition SERVICE_NAME :: ustring where
  "SERVICE_NAME = lit ''DLPAgent''"

definition SERVICE_DISPLAY :: ustring where
  "SERVICE_DISPLAY = lit ''DLP Endpoint Agent''"

text \<open>The registered services, and what the calls of the service manager answer.\<close>

type_synonym services = "ustring \<rightharpoonup> service_info"

record manager_calls =
  mg_connect :: bool
  mg_exe :: "ustring option"
  mg_create :: bool
  mg_open :: bool
  mg_delete :: bool

definition agent_service :: "ustring \<Rightarrow> service_info" where
  "agent_service exe =
     \<lparr>sv_name = SERVICE_NAME, sv_display = SERVICE_DISPLAY, sv_auto_start = True, sv_executable = exe,
      sv_arguments = [lit ''service-run''], sv_dependencies = [lit ''FltMgr''], sv_account = None\<rparr>"

text \<open>Creating a service whose name is taken fails.\<close>

definition service_install :: "manager_calls \<Rightarrow> services \<Rightarrow> services \<times> bool" where
  "service_install os reg =
     (if \<not> mg_connect os then (reg, False)
      else case mg_exe os of
        None \<Rightarrow> (reg, False)
      | Some exe \<Rightarrow>
          if \<not> mg_create os \<or> reg SERVICE_NAME \<noteq> None then (reg, False)
          else (reg(SERVICE_NAME \<mapsto> agent_service exe), True))"

definition service_uninstall :: "manager_calls \<Rightarrow> services \<Rightarrow> services \<times> bool" where
  "service_uninstall os reg =
     (if \<not> mg_connect os then (reg, False)
      else if \<not> mg_open os \<or> reg SERVICE_NAME = None then (reg, False)
      else if \<not> mg_delete os then (reg, False)
      else (reg(SERVICE_NAME := None), True))"

lemma install_uninstall:
  assumes "service_install os reg = (reg', True)" and "mg_connect os'" and "mg_open os'" and "mg_delete os'"
  shows "service_uninstall os' reg' = (reg, True)"
  using assms by (auto simp: service_install_def service_uninstall_def split: if_splits option.splits)

section \<open>The service's run\<close>

datatype service_control = SC_Stop | SC_Shutdown | SC_Interrogate | SC_Other

datatype control_result = CR_NoError | CR_NotImplemented

fun event_handler :: "service_control \<Rightarrow> bool \<Rightarrow> bool \<times> control_result" where
  "event_handler SC_Stop stop = (True, CR_NoError)"
| "event_handler SC_Shutdown stop = (True, CR_NoError)"
| "event_handler SC_Interrogate stop = (stop, CR_NoError)"
| "event_handler SC_Other stop = (stop, CR_NotImplemented)"

fun handle_controls :: "service_control list \<Rightarrow> bool \<Rightarrow> bool" where
  "handle_controls [] stop = stop"
| "handle_controls (c # cs) stop = handle_controls cs (fst (event_handler c stop))"

datatype service_state = SS_Running | SS_Stopped nat

text \<open>The states reported, given whether the handler is registered, the running state accepted, the configuration loaded, and the endpoint mode ends well.\<close>

definition run_service :: "bool \<Rightarrow> bool \<Rightarrow> bool \<Rightarrow> bool \<Rightarrow> service_state list \<times> bool" where
  "run_service registered accepted loaded endpoint_ok =
     (if \<not> registered then ([], False)
      else if \<not> accepted then ([SS_Running], False)
      else if \<not> loaded then ([SS_Running], False)
      else ([SS_Running, SS_Stopped (if endpoint_ok then 0 else 1)], endpoint_ok))"

lemma stop_requested: "handle_controls cs stop \<longleftrightarrow> stop \<or> SC_Stop \<in> set cs \<or> SC_Shutdown \<in> set cs"
proof (induction cs arbitrary: stop)
  case (Cons c cs)
  then show ?case by (cases c) auto
qed simp

text \<open>When the configuration cannot be loaded, the service has reported that it runs and never that it stopped.\<close>

lemma not_reported_stopped: "run_service True True False r = ([SS_Running], False)"
  by (simp add: run_service_def)

section \<open>Workers\<close>

text \<open>\<open>sleep_interruptible\<close> looks at the signal before each step.\<close>

fun sleep_steps :: "nat \<Rightarrow> (nat \<Rightarrow> bool) \<Rightarrow> nat \<Rightarrow> nat" where
  "sleep_steps 0 stop t = t"
| "sleep_steps (Suc n) stop t = (if stop t then t else sleep_steps n stop (Suc t))"

definition sleep_interruptible :: "u64 \<Rightarrow> (nat \<Rightarrow> bool) \<Rightarrow> nat \<Rightarrow> nat" where
  "sleep_interruptible secs stop t = sleep_steps (unat (saturating_mul secs 5)) stop t"

datatype attempt_outcome = Returned | Panicked

datatype worker_event = WE_Start nat | WE_End nat attempt_outcome | WE_Exit nat

text \<open>An attempt is given by its duration and outcome; the delay before a restart is not interruptible.\<close>

fun supervised_thread :: "(nat \<Rightarrow> bool) \<Rightarrow> nat \<Rightarrow> (nat \<times> attempt_outcome) list \<Rightarrow> nat \<Rightarrow> worker_event list" where
  "supervised_thread stop delay [] t = []"
| "supervised_thread stop delay ((duration, out) # rest) t =
     (if stop t then [WE_Exit t]
      else WE_Start t # WE_End (t + duration) out
        # (if stop (t + duration) then [WE_Exit (t + duration)] else supervised_thread stop delay rest (t + duration + delay)))"

text \<open>The check-in worker: turns with their durations and the seconds to wait after them; the start and the end of each, and the exit.\<close>

fun checkin_worker :: "(nat \<Rightarrow> bool) \<Rightarrow> (nat \<times> u64) list \<Rightarrow> nat \<Rightarrow> (nat \<times> nat) list \<times> nat" where
  "checkin_worker stop [] t = ([], t)"
| "checkin_worker stop ((duration, secs) # turns) t =
     (if stop t then ([], t)
      else case checkin_worker stop turns (sleep_interruptible secs stop (t + duration)) of
        (hist, e) \<Rightarrow> ((t, t + duration) # hist, e))"

text \<open>The re-sync worker sleeps first and looks at the signal again.\<close>

fun resync_worker :: "(nat \<Rightarrow> bool) \<Rightarrow> u64 \<Rightarrow> nat list \<Rightarrow> nat \<Rightarrow> (nat \<times> nat) list \<times> nat" where
  "resync_worker stop secs [] t = ([], t)"
| "resync_worker stop secs (duration # turns) t =
     (if stop t then ([], t)
      else let t' = sleep_interruptible secs stop t
      in if stop t' then ([], t')
         else case resync_worker stop secs turns (t' + duration) of (hist, e) \<Rightarrow> ((t', t' + duration) # hist, e))"

section \<open>Sleeping\<close>

lemma sleep_steps_bounds:
  "t \<le> sleep_steps n stop t \<and> sleep_steps n stop t \<le> t + n
   \<and> (\<forall>u. t \<le> u \<and> u < sleep_steps n stop t \<longrightarrow> \<not> stop u) \<and> (sleep_steps n stop t < t + n \<longrightarrow> stop (sleep_steps n stop t))"
proof (induction n arbitrary: t)
  case (Suc n)
  show ?case
  proof (cases "stop t")
    case False
    note ih = Suc.IH [of "Suc t"]
    have "\<not> stop u" if "t \<le> u" "u < sleep_steps n stop (Suc t)" for u
      using ih False that by (cases "u = t") simp_all
    with ih False show ?thesis by simp
  qed auto
qed auto

text \<open>The signal is raised at a tick and stays.\<close>

definition stops_at :: "nat \<Rightarrow> (nat \<Rightarrow> bool) \<Rightarrow> bool" where
  "stops_at T stop \<longleftrightarrow> (\<forall>u. stop u \<longleftrightarrow> T \<le> u)"

lemma sleep_until_stop:
  assumes "stops_at T stop"
  shows "sleep_interruptible secs stop t = (if T \<le> t then t else min T (t + unat (saturating_mul secs 5)))"
proof -
  let ?n = "unat (saturating_mul secs 5)" and ?s = "sleep_interruptible secs stop t"
  have b: "t \<le> ?s" "?s \<le> t + ?n" "\<And>u. t \<le> u \<Longrightarrow> u < ?s \<Longrightarrow> u < T" "?s < t + ?n \<Longrightarrow> T \<le> ?s"
    using sleep_steps_bounds [of t ?n stop] assms by (auto simp: stops_at_def sleep_interruptible_def not_le)
  have "?s \<le> max t T"
  proof (cases "?s = t")
    case False
    with b(1) have "t \<le> ?s - 1" "?s - 1 < ?s" by linarith+
    from b(3) [OF this] show ?thesis by linarith
  qed simp
  then show ?thesis using b by (cases "?s < t + ?n") auto
qed

section \<open>Supervision\<close>

definition follows :: "nat \<Rightarrow> nat \<Rightarrow> worker_event \<Rightarrow> worker_event \<Rightarrow> bool" where
  "follows T delay x y \<longleftrightarrow>
     (case x of
        WE_Start s \<Rightarrow> s < T \<and> (\<exists>e out. y = WE_End e out \<and> s \<le> e)
      | WE_End e out \<Rightarrow> y = (if T \<le> e then WE_Exit e else if T \<le> e + delay then WE_Exit (e + delay) else WE_Start (e + delay))
      | WE_Exit e \<Rightarrow> False)"

lemma supervised_Cons:
  assumes "stops_at T stop"
  shows "supervised_thread stop delay ((d, out) # atts) t =
     (if T \<le> t then [WE_Exit t]
      else WE_Start t # WE_End (t + d) out
        # (if T \<le> t + d then [WE_Exit (t + d)] else supervised_thread stop delay atts (t + d + delay)))"
  using assms by (simp add: stops_at_def)

lemma supervised_hd:
  "stops_at T stop \<Longrightarrow> supervised_thread stop delay atts t = [] \<or>
     (\<exists>es. supervised_thread stop delay atts t = (if T \<le> t then WE_Exit t else WE_Start t) # es)"
  by (cases atts) (auto simp: stops_at_def)

lemma supervised_follows:
  assumes "stops_at T stop"
  shows "successively (follows T delay) (supervised_thread stop delay atts t)"
proof (induction atts arbitrary: t)
  case (Cons a atts)
  obtain d out where a: "a = (d, out)" by fastforce
  show ?case
  proof (cases "T \<le> t + d")
    case True
    then show ?thesis unfolding a supervised_Cons [OF assms] by (simp add: follows_def)
  next
    case False
    have "successively (follows T delay) (WE_End (t + d) out # supervised_thread stop delay atts (t + d + delay))"
      using supervised_hd [OF assms, of delay atts "t + d + delay"] Cons.IH [of "t + d + delay"] False
      by (elim disjE exE) (simp_all add: follows_def)
    with False show ?thesis unfolding a supervised_Cons [OF assms] by (simp add: follows_def)
  qed
qed simp

lemma supervised_exits:
  assumes "stops_at T stop" and "0 < delay"
  shows "T < t + length atts \<Longrightarrow> atts \<noteq> [] \<Longrightarrow>
    \<exists>x. last (supervised_thread stop delay atts t) = WE_Exit x \<and> supervised_thread stop delay atts t \<noteq> []
    \<and> T \<le> x \<and> (x < T + delay \<or> x = t \<or> (\<exists>out. WE_End x out \<in> set (supervised_thread stop delay atts t)))"
proof (induction atts arbitrary: t)
  case (Cons a atts)
  obtain d out where a: "a = (d, out)" by fastforce
  note unfold = a supervised_Cons [OF assms(1)]
  consider "T \<le> t" | "t < T" "T \<le> t + d" | "t + d < T" by linarith
  then show ?case
  proof cases
    case 1
    then show ?thesis unfolding unfold by simp
  next
    case 2
    then show ?thesis unfolding unfold by (intro exI [of _ "t + d"]) auto
  next
    case 3
    let ?es = "supervised_thread stop delay atts (t + d + delay)"
    have l: "T < t + d + delay + length atts" "atts \<noteq> []" using Cons.prems assms(2) 3 by auto
    from Cons.IH [OF l] obtain x where x: "last ?es = WE_Exit x" "?es \<noteq> []" "T \<le> x"
      "x < T + delay \<or> x = t + d + delay \<or> (\<exists>out. WE_End x out \<in> set ?es)" by blast
    have "x < T + delay \<or> (\<exists>out. WE_End x out \<in> set ?es)" using x(4) 3 by auto
    with x(1-3) 3 show ?thesis unfolding unfold by (intro exI [of _ x]) auto
  qed
qed simp

text \<open>
  C38. Workers run until the stop and end soon after. A worker under supervision is started again, exactly the delay after every end of an
  attempt, whether it returned or panicked, as long as the stop signal is not raised; no attempt starts once it is raised;
  and the worker's thread exits: at once if it starts after the signal, within the delay, or at the end of the
  attempt that was running.
\<close>

theorem supervision_until_stop:
  assumes "stops_at T stop" and "0 < delay" and "T < t + length atts" and "atts \<noteq> []"
  shows "successively (follows T delay) (supervised_thread stop delay atts t)
    \<and> (\<exists>x. last (supervised_thread stop delay atts t) = WE_Exit x \<and> T \<le> x
         \<and> (x < T + delay \<or> x = t \<or> (\<exists>out. WE_End x out \<in> set (supervised_thread stop delay atts t))))"
  using supervised_follows [OF assms(1)] supervised_exits [OF assms] by blast

lemma supervision_until_stop_witness:
  "\<exists>x. last (supervised_thread (\<lambda>u. 7 \<le> u) 2 (replicate 9 (1, Panicked)) 0) = WE_Exit x \<and> 7 \<le> x"
  using supervision_until_stop [of 7 "\<lambda>u. 7 \<le> u" 2 0 "replicate 9 (1, Panicked)"] by (auto simp: stops_at_def)

section \<open>Turns\<close>

text \<open>Turns start before the signal, the next one only after the whole wait; the worker leaves at the signal or at the end of its last turn.\<close>

lemma checkin_turns:
  assumes "stops_at T stop" and "checkin_worker stop turns t = (hist, e)"
  shows "list_all (\<lambda>(s, _). t \<le> s \<and> s < T) hist \<and> length hist \<le> length turns
    \<and> (\<forall>i. Suc i < length hist \<longrightarrow> fst (hist ! Suc i) = snd (hist ! i) + unat (saturating_mul (snd (turns ! i)) 5))
    \<and> (length hist < length turns \<longrightarrow> T \<le> e \<and> (e = T \<or> e = t \<or> e \<in> snd ` set hist))"
  using assms(2)
proof (induction turns arbitrary: t hist e)
  case (Cons a turns)
  obtain d secs where a: "a = (d, secs)" by fastforce
  let ?t = "sleep_interruptible secs stop (t + d)"
  show ?case
  proof (cases "T \<le> t")
    case True
    with Cons.prems assms(1) show ?thesis by (simp add: a stops_at_def)
  next
    case False
    obtain rest e' where r: "checkin_worker stop turns ?t = (rest, e')" by fastforce
    with Cons.prems False assms(1) have h: "hist = (t, t + d) # rest" "e = e'" by (simp_all add: a stops_at_def)
    note ih = Cons.IH [OF r]
    have t: "t + d \<le> ?t" "?t < T \<Longrightarrow> ?t = t + d + unat (saturating_mul secs 5)" "T \<le> ?t \<Longrightarrow> ?t = T \<or> ?t = t + d"
      using sleep_until_stop [OF assms(1), of secs "t + d"] by (auto split: if_splits)
    have first: "rest \<noteq> [] \<Longrightarrow> fst (hd rest) = ?t \<and> ?t < T"
      using r assms(1) by (cases turns) (auto simp: stops_at_def split: if_splits prod.splits)
    have "list_all (\<lambda>(s, _). t \<le> s \<and> s < T) hist" using ih t(1) False by (auto simp: h list_all_iff)
    moreover have "fst (hist ! Suc i) = snd (hist ! i) + unat (saturating_mul (snd ((a # turns) ! i)) 5)" if "Suc i < length hist" for i
      using that ih first t(2) by (cases i) (auto simp: h a hd_conv_nth)
    moreover have "T \<le> e \<and> (e = T \<or> e = t \<or> e \<in> snd ` set hist)" if "length hist < length (a # turns)"
      using that ih t(3) by (auto simp: h)
    ultimately show ?thesis using ih by (simp add: h)
  qed
qed simp

end
