(* ===== verification/Storage.thy ===== *)
theory Storage
  imports Rust_Std
begin

text \<open>
  The agent's state directory (\<open>storage.rs\<close>): the sealed identity and its CA, the cached index bundle with its
  swap, the sealed keyring and the synced destinations. The directory is a map from file names to contents;
  every call of the file system may fail, and an operation yields the states the directory passes through, so
  that a crash at any point can be looked at. DPAPI is a pair of functions.
\<close>

section \<open>The directory\<close>

type_synonym state_dir = "ustring \<rightharpoonup> bytes"

text \<open>Writing a file truncates it and then appends; it may fail to open it, or stop after some bytes.\<close>

datatype write_result = WR_Ok | WR_OpenFailed | WR_Partial nat

record dir_io =
  dio_create_dir :: bool
  dio_write :: "ustring \<Rightarrow> write_result"
  dio_remove :: bool
  dio_rename :: bool
  dio_read :: "ustring \<Rightarrow> bool"

datatype storage_error =
  STE_CreateDir | STE_Seal | STE_Write ustring | STE_Remove | STE_Rename | STE_NotEnrolled | STE_Read ustring | STE_Unseal | STE_Json

record dpapi =
  dp_protect :: "bytes \<Rightarrow> bytes option"
  dp_unprotect :: "bytes \<Rightarrow> bytes option"

definition IDENTITY_FILE :: ustring where "IDENTITY_FILE = lit ''identity.sealed''"
definition CA_FILE :: ustring where "CA_FILE = lit ''ca.pem''"
definition META_FILE :: ustring where "META_FILE = lit ''agent.json''"
definition POLICY_FILE :: ustring where "POLICY_FILE = lit ''cached-policy.json''"
definition INDEX_FILE :: ustring where "INDEX_FILE = lit ''index.dlpx''"
definition INDEX_TMP :: ustring where "INDEX_TMP = lit ''index.dlpx.tmp''"
definition KEYRING_FILE :: ustring where "KEYRING_FILE = lit ''keyring.sealed''"
definition TRUSTED_DEST_FILE :: ustring where "TRUSTED_DEST_FILE = lit ''trusted-destinations.json''"

lemmas file_names = IDENTITY_FILE_def CA_FILE_def META_FILE_def POLICY_FILE_def INDEX_FILE_def INDEX_TMP_def KEYRING_FILE_def
  TRUSTED_DEST_FILE_def

record agent_meta =
  am_agent_id :: ustring
  am_checkin_interval_seconds :: u64

text \<open>The states while a file is written, and whether the write succeeded; the state an operation leaves.\<close>

definition write_steps :: "ustring \<Rightarrow> bytes \<Rightarrow> nat \<Rightarrow> state_dir \<Rightarrow> state_dir list" where
  "write_steps name bs n d = map (\<lambda>k. d(name \<mapsto> take k bs)) [0..<Suc n]"

definition file_write :: "dir_io \<Rightarrow> ustring \<Rightarrow> bytes \<Rightarrow> state_dir \<Rightarrow> state_dir list \<times> bool" where
  "file_write io name bs d =
     (case dio_write io name of
        WR_OpenFailed \<Rightarrow> ([], False)
      | WR_Partial n \<Rightarrow> (write_steps name bs n d, False)
      | WR_Ok \<Rightarrow> (write_steps name bs (length bs) d, True))"

definition left_by :: "state_dir \<Rightarrow> state_dir list \<Rightarrow> state_dir" where
  "left_by d tr = last (d # tr)"

definition file_read :: "dir_io \<Rightarrow> ustring \<Rightarrow> state_dir \<Rightarrow> bytes option" where
  "file_read io name d = (if dio_read io name then d name else None)"

definition file_exists :: "ustring \<Rightarrow> state_dir \<Rightarrow> bool" where
  "file_exists name d \<longleftrightarrow> d name \<noteq> None"

section \<open>Operations\<close>

definition has_identity :: "state_dir \<Rightarrow> bool" where
  "has_identity d = file_exists IDENTITY_FILE d"

definition store_file :: "dir_io \<Rightarrow> ustring \<Rightarrow> bytes \<Rightarrow> state_dir \<Rightarrow> state_dir list \<times> (storage_error + unit)" where
  "store_file io name bs d =
     (case file_write io name bs d of (w, ok) \<Rightarrow> (w, if ok then Inr () else Inl (STE_Write name)))"

definition save_identity ::
  "dir_io \<Rightarrow> dpapi \<Rightarrow> (agent_meta \<Rightarrow> bytes option) \<Rightarrow> bytes \<Rightarrow> bytes \<Rightarrow> agent_meta \<Rightarrow> state_dir
   \<Rightarrow> state_dir list \<times> (storage_error + unit)" where
  "save_identity io dp to_json identity_pem ca_pem meta d =
     (if \<not> dio_create_dir io then ([], Inl STE_CreateDir)
      else case dp_protect dp identity_pem of
        None \<Rightarrow> ([], Inl STE_Seal)
      | Some sealed \<Rightarrow>
          (case store_file io IDENTITY_FILE sealed d of
             (w1, Inl e) \<Rightarrow> (w1, Inl e)
           | (w1, Inr _) \<Rightarrow>
               (case store_file io CA_FILE ca_pem (left_by d w1) of
                  (w2, Inl e) \<Rightarrow> (w1 @ w2, Inl e)
                | (w2, Inr _) \<Rightarrow>
                    (case to_json meta of
                       None \<Rightarrow> (w1 @ w2, Inl STE_Json)
                     | Some js \<Rightarrow>
                         (case store_file io META_FILE js (left_by d (w1 @ w2)) of (w3, r) \<Rightarrow> (w1 @ w2 @ w3, r))))))"

definition load_identity :: "dir_io \<Rightarrow> dpapi \<Rightarrow> state_dir \<Rightarrow> storage_error + bytes \<times> bytes" where
  "load_identity io dp d =
     (if \<not> has_identity d then Inl STE_NotEnrolled
      else andthen (ok_or (STE_Read IDENTITY_FILE) (file_read io IDENTITY_FILE d)) (\<lambda>sealed.
           andthen (ok_or STE_Unseal (dp_unprotect dp sealed)) (\<lambda>identity_pem.
           andthen (ok_or (STE_Read CA_FILE) (file_read io CA_FILE d)) (\<lambda>ca_pem.
           Inr (identity_pem, ca_pem)))))"

definition load_meta :: "dir_io \<Rightarrow> (bytes \<Rightarrow> agent_meta option) \<Rightarrow> state_dir \<Rightarrow> storage_error + agent_meta" where
  "load_meta io from_json d =
     andthen (ok_or (STE_Read META_FILE) (file_read io META_FILE d)) (\<lambda>bs. ok_or STE_Json (from_json bs))"

definition cache_policy :: "dir_io \<Rightarrow> bytes \<Rightarrow> state_dir \<Rightarrow> state_dir list \<times> (storage_error + unit)" where
  "cache_policy io policy_json d = store_file io POLICY_FILE policy_json d"

definition load_index_bundle :: "dir_io \<Rightarrow> state_dir \<Rightarrow> bytes option" where
  "load_index_bundle io d = file_read io INDEX_FILE d"

definition store_index_bundle :: "dir_io \<Rightarrow> bytes \<Rightarrow> state_dir \<Rightarrow> state_dir list \<times> (storage_error + unit)" where
  "store_index_bundle io bs d =
     (if \<not> dio_create_dir io then ([], Inl STE_CreateDir)
      else case file_write io INDEX_TMP bs d of (w, ok) \<Rightarrow>
        if \<not> ok then (w, Inl (STE_Write INDEX_TMP))
        else
          let d1 = left_by d w;
              swapped = (\<lambda>d'. d'(INDEX_FILE := d' INDEX_TMP, INDEX_TMP := None))
          in if file_exists INDEX_FILE d1 then
               (if \<not> dio_remove io then (w, Inl STE_Remove)
                else
                  let d2 = d1(INDEX_FILE := None)
                  in if dio_rename io then (w @ [d2, swapped d2], Inr ()) else (w @ [d2], Inl STE_Rename))
             else if dio_rename io then (w @ [swapped d1], Inr ()) else (w, Inl STE_Rename))"

definition store_keyring :: "dir_io \<Rightarrow> dpapi \<Rightarrow> bytes \<Rightarrow> state_dir \<Rightarrow> state_dir list \<times> (storage_error + unit)" where
  "store_keyring io dp keyring_json d =
     (if \<not> dio_create_dir io then ([], Inl STE_CreateDir)
      else case dp_protect dp keyring_json of
        None \<Rightarrow> ([], Inl STE_Seal)
      | Some sealed \<Rightarrow> store_file io KEYRING_FILE sealed d)"

definition load_keyring :: "dir_io \<Rightarrow> dpapi \<Rightarrow> state_dir \<Rightarrow> storage_error + bytes option" where
  "load_keyring io dp d =
     (if \<not> file_exists KEYRING_FILE d then Inr None
      else andthen (ok_or (STE_Read KEYRING_FILE) (file_read io KEYRING_FILE d)) (\<lambda>sealed.
           andthen (ok_or STE_Unseal (dp_unprotect dp sealed)) (\<lambda>bs. Inr (Some bs))))"

definition store_trusted_destinations :: "dir_io \<Rightarrow> bytes \<Rightarrow> state_dir \<Rightarrow> state_dir list \<times> (storage_error + unit)" where
  "store_trusted_destinations io json d =
     (if \<not> dio_create_dir io then ([], Inl STE_CreateDir) else store_file io TRUSTED_DEST_FILE json d)"

definition load_trusted_destinations :: "dir_io \<Rightarrow> state_dir \<Rightarrow> bytes option" where
  "load_trusted_destinations io d = file_read io TRUSTED_DEST_FILE d"

section \<open>What a write leaves\<close>

text \<open>The documented behaviour of DPAPI: what was protected on this machine is unprotected unchanged.\<close>

definition dpapi_correct :: "dpapi \<Rightarrow> bool" where
  "dpapi_correct dp \<longleftrightarrow> (\<forall>x s. dp_protect dp x = Some s \<longrightarrow> dp_unprotect dp s = Some x)"

lemma write_steps_frame: "d' \<in> set (write_steps name bs n d) \<Longrightarrow> \<exists>k. d' = d(name \<mapsto> take k bs)"
  by (auto simp: write_steps_def)

lemma write_steps_last: "left_by d (write_steps name bs n d) = d(name \<mapsto> take n bs)"
  by (simp add: left_by_def write_steps_def)

lemma left_by_append: "left_by d (tr @ tr') = left_by (left_by d tr) tr'"
  by (induction tr' rule: rev_induct) (auto simp: left_by_def)

lemma left_by_snoc [simp]: "left_by d (tr @ [d']) = d'"
  by (simp add: left_by_def)

lemma file_write_cases:
  assumes "file_write io name bs d = (w, ok)"
  shows "list_all (\<lambda>d'. \<exists>k. d' = d(name \<mapsto> take k bs)) w"
    and "ok \<Longrightarrow> left_by d w = d(name \<mapsto> bs)"
    and "left_by d w = d \<or> (\<exists>k. left_by d w = d(name \<mapsto> take k bs))"
  using assms write_steps_frame
  by (auto simp: file_write_def list_all_iff write_steps_last left_by_def [of d "[]"] split: write_result.splits)
    (metis order_refl take_all)

lemma store_file_ok: "store_file io name bs d = (w, Inr u) \<Longrightarrow> left_by d w = d(name \<mapsto> bs)"
  using file_write_cases(2) by (fastforce simp: store_file_def split: prod.splits if_splits)

lemma store_file_frame:
  assumes "store_file io name bs d = (w, r)" and "f \<noteq> name"
  shows "list_all (\<lambda>d'. d' f = d f) w" and "left_by d w f = d f"
proof -
  from assms(1) obtain ok where w: "file_write io name bs d = (w, ok)" by (auto simp: store_file_def split: prod.splits)
  show "list_all (\<lambda>d'. d' f = d f) w" using file_write_cases(1) [OF w] assms(2) by (auto simp: list_all_iff)
  show "left_by d w f = d f" using file_write_cases(3) [OF w] assms(2) by auto
qed

section \<open>The bundle swap\<close>

definition whole_bundle :: "bytes \<Rightarrow> state_dir \<Rightarrow> state_dir \<Rightarrow> bool" where
  "whole_bundle bs d d' \<longleftrightarrow>
     (d' INDEX_FILE = d INDEX_FILE \<or> d' INDEX_FILE = Some bs \<or> d' INDEX_FILE = None \<and> d' INDEX_TMP = Some bs)
     \<and> d' |` (- {INDEX_FILE, INDEX_TMP}) = d |` (- {INDEX_FILE, INDEX_TMP})"

lemma index_names: "INDEX_FILE \<noteq> INDEX_TMP"
  by (simp add: file_names lit_def)

lemma store_index_states:
  "case store_index_bundle io bs d of (tr, r) \<Rightarrow>
     list_all (whole_bundle bs d) (d # tr)
     \<and> (case r of
          Inr _ \<Rightarrow> left_by d tr = d(INDEX_FILE \<mapsto> bs, INDEX_TMP := None)
        | Inl e \<Rightarrow> left_by d tr INDEX_FILE = d INDEX_FILE \<or> e = STE_Rename \<and> left_by d tr INDEX_FILE = None)"
proof -
  obtain w ok where w: "file_write io INDEX_TMP bs d = (w, ok)" by fastforce
  note f = file_write_cases [OF w] and ne = index_names
  have W: "list_all (whole_bundle bs d) w" "whole_bundle bs d d" and i: "left_by d w INDEX_FILE = d INDEX_FILE"
    using f(1,3) ne by (auto simp: list_all_iff whole_bundle_def)
  have S: "whole_bundle bs d (d(INDEX_TMP \<mapsto> bs, INDEX_FILE := None))"
    "whole_bundle bs d (d(INDEX_TMP \<mapsto> bs, INDEX_FILE := Some bs, INDEX_TMP := None))"
    using ne by (auto simp: whole_bundle_def)
  have e: "d(INDEX_TMP \<mapsto> bs, INDEX_FILE := Some bs, INDEX_TMP := None) = d(INDEX_FILE \<mapsto> bs, INDEX_TMP := None)"
    "d(INDEX_TMP \<mapsto> bs, INDEX_FILE := None, INDEX_FILE := Some bs, INDEX_TMP := None) = d(INDEX_FILE \<mapsto> bs, INDEX_TMP := None)"
    using ne by (auto simp: fun_eq_iff)
  show ?thesis
  proof (cases "dio_create_dir io \<and> ok")
    case True
    then have d1: "left_by d w = d(INDEX_TMP \<mapsto> bs)" using f(2) by simp
    show ?thesis
      using True w W S d1 e ne left_by_append [of d w]
      by (cases "dio_rename io"; cases "dio_remove io"; cases "d INDEX_FILE")
        (simp_all add: store_index_bundle_def Let_def file_exists_def left_by_def [of _ "[_, _]"])
  next
    case False
    then show ?thesis using w W i by (auto simp: store_index_bundle_def left_by_def [of d "[]"])
  qed
qed

text \<open>
  The bundle swap keeps a whole bundle. In every state the directory passes through while a new bundle is stored, and so
  after a crash at any point, the cached bundle is the previous one or the new one, complete, or it is absent
  while the new one is complete in the temporary file; no other file changes. A reported success leaves the
  new bundle and no temporary file; a reported error leaves the previous bundle, or none when
  only the final rename failed.
\<close>

theorem bundle_swap_crash_safe:
  "case store_index_bundle io bs d of (tr, r) \<Rightarrow>
     list_all (whole_bundle bs d) (d # tr)
     \<and> (case r of
          Inr _ \<Rightarrow> left_by d tr = d(INDEX_FILE \<mapsto> bs, INDEX_TMP := None)
        | Inl e \<Rightarrow> left_by d tr INDEX_FILE = d INDEX_FILE \<or> e = STE_Rename \<and> left_by d tr INDEX_FILE = None)"
  by (rule store_index_states)

section \<open>Keys, destinations and the identity\<close>

lemma store_keyring_at_rest:
  assumes "dpapi_correct dp" and "store_keyring io dp js d = (tr, Inr u)" and "dio_read io KEYRING_FILE"
  shows "load_keyring io dp (left_by d tr) = Inr (Some js)"
proof -
  from assms(2) obtain sealed where p: "dp_protect dp js = Some sealed" and w: "store_file io KEYRING_FILE sealed d = (tr, Inr u)"
    by (auto simp: store_keyring_def split: if_splits option.splits)
  then show ?thesis using assms(1,3) store_file_ok [OF w]
    by (auto simp: load_keyring_def file_exists_def file_read_def dpapi_correct_def)
qed

lemma store_keyring_frame:
  "store_keyring io dp js d = (tr, r) \<Longrightarrow> f \<noteq> KEYRING_FILE \<Longrightarrow> left_by d tr f = d f"
  by (auto simp: store_keyring_def left_by_def [of d "[]"] split: if_splits option.splits dest: store_file_frame(2))

lemma store_destinations_at_rest:
  "store_trusted_destinations io js d = (tr, Inr u) \<Longrightarrow> dio_read io TRUSTED_DEST_FILE \<Longrightarrow>
     load_trusted_destinations io (left_by d tr) = Some js"
  by (auto simp: store_trusted_destinations_def load_trusted_destinations_def file_read_def split: if_splits dest: store_file_ok)

lemma store_destinations_frame:
  "store_trusted_destinations io js d = (tr, r) \<Longrightarrow> f \<noteq> TRUSTED_DEST_FILE \<Longrightarrow> left_by d tr f = d f"
  by (auto simp: store_trusted_destinations_def left_by_def [of d "[]"] split: if_splits dest: store_file_frame(2))

lemma save_identity_ok:
  assumes "save_identity io dp to_json pem ca meta d = (tr, Inr u)"
  obtains sealed js where "dp_protect dp pem = Some sealed" "to_json meta = Some js"
    "left_by d tr = d(IDENTITY_FILE \<mapsto> sealed, CA_FILE \<mapsto> ca, META_FILE \<mapsto> js)"
proof -
  from assms obtain sealed w1 w2 w3 js where s: "dp_protect dp pem = Some sealed" "to_json meta = Some js"
    and w: "store_file io IDENTITY_FILE sealed d = (w1, Inr ())" "store_file io CA_FILE ca (left_by d w1) = (w2, Inr ())"
    "store_file io META_FILE js (left_by d (w1 @ w2)) = (w3, Inr u)" "tr = w1 @ w2 @ w3"
    by (auto simp: save_identity_def split: if_splits option.splits prod.splits sum.splits)
  have "left_by d tr = d(IDENTITY_FILE \<mapsto> sealed, CA_FILE \<mapsto> ca, META_FILE \<mapsto> js)"
    using store_file_ok [OF w(1)] store_file_ok [OF w(2)] store_file_ok [OF w(3)] by (simp add: w(4) left_by_append)
  with s that show thesis by blast
qed

text \<open>
  Enrolment is kept. After the identity was saved the agent is enrolled, and loading gives back the identity, the CA
  and the meta data that were saved; the key is on disk only in its protected form.
\<close>

theorem saved_identity_loads:
  assumes "dpapi_correct dp" and "save_identity io dp to_json pem ca meta d = (tr, Inr u)" and "\<And>f. dio_read io f"
    and "\<And>m js. to_json m = Some js \<Longrightarrow> from_json js = Some m"
  defines "d' \<equiv> left_by d tr"
  shows "has_identity d' \<and> load_identity io dp d' = Inr (pem, ca) \<and> load_meta io from_json d' = Inr meta
    \<and> d' IDENTITY_FILE = dp_protect dp pem"
proof -
  from save_identity_ok [OF assms(2)] obtain sealed js where s: "dp_protect dp pem = Some sealed" "to_json meta = Some js"
    and d: "d' = d(IDENTITY_FILE \<mapsto> sealed, CA_FILE \<mapsto> ca, META_FILE \<mapsto> js)" unfolding d'_def by blast
  have ne: "IDENTITY_FILE \<noteq> CA_FILE" "IDENTITY_FILE \<noteq> META_FILE" "CA_FILE \<noteq> META_FILE" by (simp_all add: file_names lit_def)
  have "dp_unprotect dp sealed = Some pem" using assms(1) s(1) by (simp add: dpapi_correct_def)
  with s ne assms(3,4) show ?thesis
    by (simp add: d has_identity_def load_identity_def load_meta_def file_exists_def file_read_def)
qed

definition plain_dpapi :: dpapi where
  "plain_dpapi = \<lparr>dp_protect = Some, dp_unprotect = Some\<rparr>"

definition sound_io :: dir_io where
  "sound_io = \<lparr>dio_create_dir = True, dio_write = (\<lambda>_. WR_Ok), dio_remove = True, dio_rename = True, dio_read = (\<lambda>_. True)\<rparr>"

lemma saved_identity_loads_witness:
  "load_identity sound_io plain_dpapi (left_by Map.empty
      (fst (save_identity sound_io plain_dpapi (\<lambda>_. Some []) [1] [2] \<lparr>am_agent_id = [], am_checkin_interval_seconds = 300\<rparr> Map.empty)))
    = Inr ([1], [2])"
proof -
  let ?m = "\<lparr>am_agent_id = [], am_checkin_interval_seconds = 300\<rparr>"
  let ?to = "\<lambda>m. if m = ?m then Some [] else None"
  obtain tr where tr: "save_identity sound_io plain_dpapi ?to [1] [2] ?m Map.empty = (tr, Inr ())"
    by (simp add: save_identity_def sound_io_def plain_dpapi_def store_file_def file_write_def)
  have same: "save_identity sound_io plain_dpapi (\<lambda>_. Some []) [1] [2] ?m Map.empty = save_identity sound_io plain_dpapi ?to [1] [2] ?m Map.empty"
    by (simp add: save_identity_def)
  have "load_identity sound_io plain_dpapi (left_by Map.empty tr) = Inr ([1], [2])"
  proof -
    have "dpapi_correct plain_dpapi" by (simp add: dpapi_correct_def plain_dpapi_def)
    moreover have "dio_read sound_io f" for f by (simp add: sound_io_def)
    moreover have "?to m = Some js \<Longrightarrow> Some ?m = Some m" for m js by (simp split: if_splits)
    ultimately show ?thesis using saved_identity_loads [OF _ tr, of "\<lambda>_. Some ?m"] by blast
  qed
  with same tr show ?thesis by simp
qed

text \<open>
  The identity file is written first and decides whether the agent counts as enrolled: a crash before the CA is written leaves a
  directory that is taken for enrolled and from which no identity can be loaded.
\<close>

lemma half_enrolled:
  assumes "dp_protect dp pem = Some sealed" and "dio_create_dir io" and "dio_write io IDENTITY_FILE = WR_Ok"
  shows "\<exists>d' \<in> set (fst (save_identity io dp to_json pem ca meta Map.empty)). has_identity d' \<and> (\<exists>e. load_identity io dp d' = Inl e)"
proof -
  let ?w = "write_steps IDENTITY_FILE sealed (length sealed) Map.empty" and ?d = "Map.empty(IDENTITY_FILE \<mapsto> sealed)"
  have "?d \<in> set ?w" by (auto simp: write_steps_def intro!: image_eqI [of _ _ "length sealed"])
  moreover have "set ?w \<subseteq> set (fst (save_identity io dp to_json pem ca meta Map.empty))"
    using assms by (auto simp: save_identity_def store_file_def [of _ IDENTITY_FILE] file_write_def [of _ IDENTITY_FILE]
        split: prod.split sum.split option.split)
  moreover have "CA_FILE \<noteq> IDENTITY_FILE" by (simp add: file_names lit_def)
  then have "has_identity ?d \<and> (\<exists>e. load_identity io dp ?d = Inl e)"
    by (auto simp: has_identity_def load_identity_def file_exists_def file_read_def andthen_def ok_or_def split: option.split sum.split)
  ultimately show ?thesis by blast
qed

text \<open>When the rename fails after the removal the agent is left without a bundle, although it had a verified one.\<close>

lemma rename_failure_loses_bundle:
  assumes "dio_create_dir io" and "dio_write io INDEX_TMP = WR_Ok" and "dio_remove io" and "\<not> dio_rename io" and "d INDEX_FILE = Some old"
  shows "load_index_bundle io (left_by d (fst (store_index_bundle io bs d))) = None"
  using assms index_names
  by (auto simp: store_index_bundle_def file_write_def write_steps_last file_exists_def Let_def load_index_bundle_def file_read_def)

end
