(* ===== verification/Server_Link.thy ===== *)
theory Server_Link
  imports Storage Trust_Sync Bundle
begin

text \<open>
  The agent's dealings with the management server: key and request generation (\<open>identity.rs\<close>), the pinned
  clients (\<open>client.rs\<close>), enrolment (\<open>enroll.rs\<close>), check-in and the trusted-configuration sync (\<open>checkin.rs\<close>),
  the index update and the choice of keyring (\<open>main.rs\<close>). The network is a function from requests
  to answers; an operation yields the requests it sent and the states of the state directory it passed
  through. Shown: what is sent does not depend on the private key, only verified bundles enter the cache,
  a synchronized configuration is in force afterwards and a failed one changes nothing.
\<close>

section \<open>The network\<close>

record http_request =
  hq_post :: bool
  hq_url :: ustring
  hq_ca :: bytes
  hq_identity :: "bytes option"
  hq_body :: bytes

record http_response =
  hr_success :: bool
  hr_body :: bytes

text \<open>A client is built from the pinned CA and perhaps an identity; a request may fail.\<close>

record network =
  nw_client :: "bytes \<Rightarrow> bytes option \<Rightarrow> bool"
  nw_send :: "http_request \<Rightarrow> http_response option"

datatype link_error =
  LE_Storage storage_error | LE_NoToken | LE_Generate | LE_ReadCa | LE_Client | LE_Request | LE_Refused bytes | LE_Parse
| LE_Status ustring | LE_Verify bundle_error

record enroll_request =
  eq_token :: ustring
  eq_csr_pem :: ustring
  eq_hostname :: ustring
  eq_os :: ustring
  eq_agent_version :: ustring

record enroll_response =
  es_agent_id :: ustring
  es_certificate :: ustring
  es_ca :: ustring
  es_checkin_interval_seconds :: u64

record checkin_response =
  cs_status :: ustring
  cs_agent_id :: ustring
  cs_checkin_interval_seconds :: u64
  cs_policy_bundle :: "bytes option"
  cs_index :: "u64 option"

record checkin_outcome =
  co_interval_seconds :: u64
  co_index_latest :: u64

text \<open>The JSON codecs of the messages and of the files.\<close>

record wire =
  wi_enroll_request :: "enroll_request \<Rightarrow> bytes"
  wi_enroll_response :: "bytes \<Rightarrow> enroll_response option"
  wi_checkin_request :: "ustring \<Rightarrow> bytes"
  wi_checkin_response :: "bytes \<Rightarrow> checkin_response option"
  wi_meta :: "agent_meta \<Rightarrow> bytes option"
  wi_trusted_config :: "bytes \<Rightarrow> trusted_config option"
  wi_keyfile_to :: "dev_keyfile \<Rightarrow> bytes option"
  wi_keyfile_from :: "bytes \<Rightarrow> ustring + dev_keyfile"
  wi_base64 :: "ustring \<Rightarrow> ustring + bytes"
  wi_json_to :: "json \<Rightarrow> bytes option"
  wi_json_from :: "bytes \<Rightarrow> json option"

record host =
  ho_hostname :: ustring
  ho_os :: ustring
  ho_version :: ustring

text \<open>
  One request: the client is built, the request sent, a status that is not a success refused, and what the
  body decodes to returned.
\<close>

definition exchange :: "network \<Rightarrow> http_request \<Rightarrow> (bytes \<Rightarrow> 'a option) \<Rightarrow> http_request list \<times> (link_error + 'a)" where
  "exchange net req decode =
     (if \<not> nw_client net (hq_ca req) (hq_identity req) then ([], Inl LE_Client)
      else case nw_send net req of
        None \<Rightarrow> ([req], Inl LE_Request)
      | Some resp \<Rightarrow>
          ([req], if \<not> hr_success resp then Inl (LE_Refused (hr_body resp)) else ok_or LE_Parse (decode (hr_body resp))))"

section \<open>Identity and enrolment\<close>

record new_key =
  nk_private_key_pem :: ustring
  nk_csr_pem :: ustring

text \<open>Key generation and encoding, and the signing of a request for a subject.\<close>

record 'k key_maker =
  km_key :: "'k option"
  km_pem :: "'k \<Rightarrow> ustring option"
  km_csr :: "'k \<Rightarrow> ustring \<Rightarrow> ustring option"

definition safe_cn :: "ustring \<Rightarrow> ustring" where
  "safe_cn common_name = map (\<lambda>c. if c \<in> {61, 44, 43} then 45 else c) common_name"

definition generate :: "'k key_maker \<Rightarrow> ustring \<Rightarrow> new_key option" where
  "generate km common_name =
     Option.bind (km_key km) (\<lambda>k.
     Option.bind (km_pem km k) (\<lambda>pem.
     Option.bind (km_csr km k (lit ''CN='' @ safe_cn common_name)) (\<lambda>csr.
     Some \<lparr>nk_private_key_pem = pem, nk_csr_pem = csr\<rparr>)))"

definition enroll_http_request :: "wire \<Rightarrow> host \<Rightarrow> config \<Rightarrow> ustring \<Rightarrow> bytes \<Rightarrow> ustring \<Rightarrow> http_request" where
  "enroll_http_request wi ho cfg token ca_pem csr_pem =
     \<lparr>hq_post = True, hq_url = enroll_url cfg, hq_ca = ca_pem, hq_identity = None,
      hq_body = wi_enroll_request wi
        \<lparr>eq_token = token, eq_csr_pem = csr_pem, eq_hostname = ho_hostname ho, eq_os = ho_os ho, eq_agent_version = ho_version ho\<rparr>\<rparr>"

definition enroll ::
  "network \<Rightarrow> dir_io \<Rightarrow> dpapi \<Rightarrow> wire \<Rightarrow> host \<Rightarrow> 'k key_maker \<Rightarrow> bytes option \<Rightarrow> config \<Rightarrow> state_dir
   \<Rightarrow> http_request list \<times> state_dir list \<times> (link_error + agent_meta)" where
  "enroll net io dp wi ho km ca_file cfg d =
     (case cfg_enrollment_token cfg of
        None \<Rightarrow> ([], [], Inl LE_NoToken)
      | Some token \<Rightarrow>
          (case generate km (ho_hostname ho) of
             None \<Rightarrow> ([], [], Inl LE_Generate)
           | Some key \<Rightarrow>
               (case ca_file of
                  None \<Rightarrow> ([], [], Inl LE_ReadCa)
                | Some ca_pem \<Rightarrow>
                    (case exchange net (enroll_http_request wi ho cfg token ca_pem (nk_csr_pem key)) (wi_enroll_response wi) of
                       (sent, Inl e) \<Rightarrow> (sent, [], Inl e)
                     | (sent, Inr er) \<Rightarrow>
                         let meta = \<lparr>am_agent_id = es_agent_id er, am_checkin_interval_seconds = es_checkin_interval_seconds er\<rparr>
                         in case save_identity io dp (wi_meta wi) (utf8 (nk_private_key_pem key @ es_certificate er)) (utf8 (es_ca er)) meta d of
                              (tr, Inl e) \<Rightarrow> (sent, tr, Inl (LE_Storage e))
                            | (tr, Inr _) \<Rightarrow> (sent, tr, Inr meta)))))"

definition ensure_enrolled ::
  "network \<Rightarrow> dir_io \<Rightarrow> dpapi \<Rightarrow> wire \<Rightarrow> host \<Rightarrow> 'k key_maker \<Rightarrow> bytes option \<Rightarrow> config \<Rightarrow> state_dir
   \<Rightarrow> http_request list \<times> state_dir list \<times> (link_error + unit)" where
  "ensure_enrolled net io dp wi ho km ca_file cfg d =
     (if \<not> has_identity d
      then case enroll net io dp wi ho km ca_file cfg d of
        (sent, tr, Inl e) \<Rightarrow> (sent, tr, Inl e) | (sent, tr, Inr _) \<Rightarrow> (sent, tr, Inr ())
      else ([], [], Inr ()))"

section \<open>Check-in\<close>

text \<open>A request with the stored identity and the CA pinned at enrolment.\<close>

definition authenticated ::
  "network \<Rightarrow> dir_io \<Rightarrow> dpapi \<Rightarrow> state_dir \<Rightarrow> bool \<Rightarrow> ustring \<Rightarrow> bytes \<Rightarrow> (bytes \<Rightarrow> 'a option) \<Rightarrow> http_request list \<times> (link_error + 'a)" where
  "authenticated net io dp d post url body decode =
     (case load_identity io dp d of
        Inl e \<Rightarrow> ([], Inl (LE_Storage e))
      | Inr (identity_pem, ca_pem) \<Rightarrow>
          exchange net \<lparr>hq_post = post, hq_url = url, hq_ca = ca_pem, hq_identity = Some identity_pem, hq_body = body\<rparr> decode)"

definition checkin_full ::
  "network \<Rightarrow> dir_io \<Rightarrow> dpapi \<Rightarrow> wire \<Rightarrow> host \<Rightarrow> config \<Rightarrow> state_dir
   \<Rightarrow> http_request list \<times> state_dir list \<times> (link_error + checkin_outcome)" where
  "checkin_full net io dp wi ho cfg d =
     (case authenticated net io dp d True (checkin_url cfg) (wi_checkin_request wi (ho_version ho)) (wi_checkin_response wi) of
        (sent, Inl e) \<Rightarrow> (sent, [], Inl e)
      | (sent, Inr cr) \<Rightarrow>
          if cs_status cr \<noteq> lit ''active'' then (sent, [], Inl (LE_Status (cs_status cr)))
          else (sent, (case cs_policy_bundle cr of Some p \<Rightarrow> fst (cache_policy io p d) | None \<Rightarrow> []),
                Inr \<lparr>co_interval_seconds = cs_checkin_interval_seconds cr,
                     co_index_latest = (case cs_index cr of Some n \<Rightarrow> n | None \<Rightarrow> 0)\<rparr>))"

definition RETRY_SECONDS :: u64 where
  "RETRY_SECONDS = 30"

text \<open>How long the heartbeat waits after a check-in.\<close>

definition checkin_wait :: "link_error + checkin_outcome \<Rightarrow> u64" where
  "checkin_wait r = (case r of Inr out \<Rightarrow> max (co_interval_seconds out) 5 | Inl _ \<Rightarrow> RETRY_SECONDS)"

section \<open>The trusted configuration\<close>

definition fetch_trusted_config ::
  "network \<Rightarrow> dir_io \<Rightarrow> dpapi \<Rightarrow> wire \<Rightarrow> config \<Rightarrow> state_dir \<Rightarrow> http_request list \<times> (link_error + trusted_config)" where
  "fetch_trusted_config net io dp wi cfg d = authenticated net io dp d False (trusted_config_url cfg) [] (wi_trusted_config wi)"

definition load_synced_destinations :: "dir_io \<Rightarrow> wire \<Rightarrow> state_dir \<Rightarrow> synced_destination list" where
  "load_synced_destinations io wi d =
     (case load_trusted_destinations io d of
        Some bs \<Rightarrow> (case parse_destinations (wi_json_from wi) bs of Some ds \<Rightarrow> ds | None \<Rightarrow> [])
      | None \<Rightarrow> [])"

definition sync_trusted_config ::
  "network \<Rightarrow> dir_io \<Rightarrow> dpapi \<Rightarrow> wire \<Rightarrow> config \<Rightarrow> state_dir \<Rightarrow> http_request list \<times> state_dir list \<times> trusted_config" where
  "sync_trusted_config net io dp wi cfg d =
     (case fetch_trusted_config net io dp wi cfg d of
        (sent, Inr tc) \<Rightarrow>
          let w1 = (case to_keyring_json (wi_keyfile_to wi) tc of Some js \<Rightarrow> fst (store_keyring io dp js d) | None \<Rightarrow> []);
              w2 = fst (store_trusted_destinations io (serialize_destinations (wi_json_to wi) (tc_destinations tc)) (left_by d w1))
          in (sent, w1 @ w2, tc)
      | (sent, Inl e) \<Rightarrow> (sent, [], \<lparr>tc_destinations = load_synced_destinations io wi d, tc_keys = []\<rparr>))"

section \<open>Keyrings\<close>

definition load_dev_keyring :: "wire \<Rightarrow> (ustring + bytes) option \<Rightarrow> keyring option" where
  "load_dev_keyring wi keyfile =
     (case keyfile of
        Some contents \<Rightarrow> (case load_dev_keyfile (wi_keyfile_from wi) (wi_base64 wi) contents of Inr ring \<Rightarrow> Some ring | Inl _ \<Rightarrow> None)
      | None \<Rightarrow> None)"

text \<open>\<open>keyfile\<close> is what reading the configured key file gives, when one is configured.\<close>

definition build_sealer_keyring :: "dir_io \<Rightarrow> dpapi \<Rightarrow> wire \<Rightarrow> (ustring + bytes) option \<Rightarrow> state_dir \<Rightarrow> keyring option" where
  "build_sealer_keyring io dp wi keyfile d =
     (case load_keyring io dp d of
        Inr (Some bs) \<Rightarrow>
          (case from_dev_json (wi_keyfile_from wi) (wi_base64 wi) bs of
             Inr ring \<Rightarrow> Some ring
           | Inl _ \<Rightarrow> load_dev_keyring wi keyfile)
      | Inr None \<Rightarrow> load_dev_keyring wi keyfile
      | Inl _ \<Rightarrow> load_dev_keyring wi keyfile)"

definition load_decrypt_keyring :: "dir_io \<Rightarrow> dpapi \<Rightarrow> wire \<Rightarrow> (ustring + bytes) option \<Rightarrow> state_dir \<Rightarrow> state_dir list \<times> keyring" where
  "load_decrypt_keyring io dp wi keyfile d =
     (let parse = from_dev_json (wi_keyfile_from wi) (wi_base64 wi);
          at_rest = ([], case load_keyring io dp d of
                           Inr (Some bs) \<Rightarrow> (case parse bs of Inr ring \<Rightarrow> ring | Inl _ \<Rightarrow> keyring_new [])
                         | _ \<Rightarrow> keyring_new [])
      in case keyfile of
           Some (Inr bs) \<Rightarrow> (case parse bs of Inr ring \<Rightarrow> (fst (store_keyring io dp bs d), ring) | Inl _ \<Rightarrow> at_rest)
         | _ \<Rightarrow> at_rest)"

section \<open>The index update\<close>

definition load_ca :: "dir_io \<Rightarrow> dpapi \<Rightarrow> bytes option \<Rightarrow> state_dir \<Rightarrow> link_error + bytes" where
  "load_ca io dp ca_file d =
     (if has_identity d
      then (case load_identity io dp d of Inl e \<Rightarrow> Inl (LE_Storage e) | Inr (_, ca) \<Rightarrow> Inr ca)
      else ok_or LE_ReadCa ca_file)"

definition update_index_bundle ::
  "network \<Rightarrow> dir_io \<Rightarrow> dpapi \<Rightarrow> ('cert, 'key, 'sig) signature_api \<Rightarrow> (bytes \<Rightarrow> header option) \<Rightarrow> config \<Rightarrow> u64 \<Rightarrow> state_dir
   \<Rightarrow> http_request list \<times> state_dir list \<times> (link_error + unit)" where
  "update_index_bundle net io dp api parse_json cfg index_latest d =
     (case load_identity io dp d of
        Inl e \<Rightarrow> ([], [], Inl (LE_Storage e))
      | Inr (identity_pem, ca_pem) \<Rightarrow>
          let current =
                (case load_index_bundle io d of
                   Some bs \<Rightarrow> (case load api parse_json bs ca_pem of Inr b \<Rightarrow> version b | Inl _ \<Rightarrow> 0)
                 | None \<Rightarrow> 0)
          in if index_latest = 0 then ([], [], Inr ())
             else if index_latest \<le> current then ([], [], Inr ())
             else case exchange net \<lparr>hq_post = False, hq_url = index_url cfg, hq_ca = ca_pem, hq_identity = Some identity_pem, hq_body = []\<rparr> Some of
               (sent, Inl e) \<Rightarrow> (sent, [], Inl e)
             | (sent, Inr bs) \<Rightarrow>
                 (case load api parse_json bs ca_pem of
                    Inl e \<Rightarrow> (sent, [], Inl (LE_Verify e))
                  | Inr b \<Rightarrow>
                      (case store_index_bundle io bs d of
                         (tr, Inl e) \<Rightarrow> (sent, tr, Inl (LE_Storage e))
                       | (tr, Inr _) \<Rightarrow> (sent, tr, Inr ()))))"

definition cmd_index_update ::
  "network \<Rightarrow> dir_io \<Rightarrow> dpapi \<Rightarrow> wire \<Rightarrow> host \<Rightarrow> 'k key_maker \<Rightarrow> bytes option \<Rightarrow> ('cert, 'key, 'sig) signature_api \<Rightarrow> (bytes \<Rightarrow> header option)
   \<Rightarrow> config \<Rightarrow> state_dir \<Rightarrow> http_request list \<times> state_dir list \<times> (link_error + unit)" where
  "cmd_index_update net io dp wi ho km ca_file api parse_json cfg d =
     (case ensure_enrolled net io dp wi ho km ca_file cfg d of
        (s1, t1, Inl e) \<Rightarrow> (s1, t1, Inl e)
      | (s1, t1, Inr _) \<Rightarrow>
          let d1 = left_by d t1
          in case checkin_full net io dp wi ho cfg d1 of
               (s2, t2, Inl e) \<Rightarrow> (s1 @ s2, t1 @ t2, Inl e)
             | (s2, t2, Inr outcome) \<Rightarrow>
                 (case update_index_bundle net io dp api parse_json cfg (co_index_latest outcome) (left_by d1 t2) of
                    (s3, t3, r) \<Rightarrow> (s1 @ s2 @ s3, t1 @ t2 @ t3, r)))"

section \<open>Enrolment\<close>

lemma exchange_sent: "fst (exchange net q decode) = [] \<or> fst (exchange net q decode) = [q]"
  by (simp add: exchange_def split: option.split)

lemma enroll_sent:
  "fst (enroll net io dp wi ho km ca_file cfg d) =
     (case (cfg_enrollment_token cfg, map_option nk_csr_pem (generate km (ho_hostname ho)), ca_file) of
        (Some token, Some csr, Some ca) \<Rightarrow> fst (exchange net (enroll_http_request wi ho cfg token ca csr) (wi_enroll_response wi))
      | _ \<Rightarrow> [])"
  by (simp add: enroll_def Let_def split: option.split prod.split sum.split)

lemma enroll_requests: "list_all (\<lambda>q. hq_identity q = None \<and> Some (hq_ca q) = ca_file) (fst (enroll net io dp wi ho km ca_file cfg d))"
proof -
  have "list_all (\<lambda>q. hq_identity q = None \<and> hq_ca q = ca) (fst (exchange net (enroll_http_request wi ho cfg token ca csr) decode))"
    for token ca csr and decode :: "bytes \<Rightarrow> enroll_response option"
    using exchange_sent [of net "enroll_http_request wi ho cfg token ca csr" decode] by (auto simp: enroll_http_request_def)
  then show ?thesis unfolding enroll_sent by (simp split: option.split)
qed

lemma enroll_stored:
  assumes "enroll net io dp wi ho km ca_file cfg d = (sent, tr, Inr meta)"
  shows "\<exists>key cert. generate km (ho_hostname ho) = Some key \<and> has_identity (left_by d tr)
    \<and> left_by d tr IDENTITY_FILE = dp_protect dp (utf8 (nk_private_key_pem key @ cert))"
proof -
  have ne: "CA_FILE \<noteq> IDENTITY_FILE" "META_FILE \<noteq> IDENTITY_FILE" by (simp_all add: file_names lit_def)
  from assms obtain key and er :: enroll_response where k: "generate km (ho_hostname ho) = Some key"
    and s: "save_identity io dp (wi_meta wi) (utf8 (nk_private_key_pem key @ es_certificate er)) (utf8 (es_ca er)) meta d = (tr, Inr ())"
    by (simp add: enroll_def Let_def split: option.splits prod.splits sum.splits)
  from save_identity_ok [OF s] obtain sealed js where "dp_protect dp (utf8 (nk_private_key_pem key @ es_certificate er)) = Some sealed"
    "left_by d tr = d(IDENTITY_FILE \<mapsto> sealed, CA_FILE \<mapsto> utf8 (es_ca er), META_FILE \<mapsto> js)" by metis
  with ne have "has_identity (left_by d tr) \<and>
      left_by d tr IDENTITY_FILE = dp_protect dp (utf8 (nk_private_key_pem key @ es_certificate er))"
    by (simp add: has_identity_def file_exists_def del: utf8_append)
  with k show ?thesis by blast
qed



definition example_maker :: "unit key_maker" where
  "example_maker = \<lparr>km_key = Some (), km_pem = (\<lambda>_. Some (lit ''K'')), km_csr = (\<lambda>_ s. Some s)\<rparr>"


section \<open>The cached bundle\<close>

text \<open>A cached bundle that is the one there before, or verified under the CA pinned at enrolment.\<close>

definition verified_bundle ::
  "dir_io \<Rightarrow> dpapi \<Rightarrow> ('cert, 'key, 'sig) signature_api \<Rightarrow> (bytes \<Rightarrow> header option) \<Rightarrow> state_dir \<Rightarrow> bytes \<Rightarrow> bool" where
  "verified_bundle io dp api parse_json d bs \<longleftrightarrow>
     (\<exists>pem ca b. load_identity io dp d = Inr (pem, ca) \<and> load api parse_json bs ca = Inr b \<and> bundle_wf b)"

definition cache_sound ::
  "dir_io \<Rightarrow> dpapi \<Rightarrow> ('cert, 'key, 'sig) signature_api \<Rightarrow> (bytes \<Rightarrow> header option) \<Rightarrow> state_dir \<Rightarrow> state_dir \<Rightarrow> bool" where
  "cache_sound io dp api parse_json d d' \<longleftrightarrow>
     d' INDEX_FILE = d INDEX_FILE
     \<or> (case d' INDEX_FILE of
          Some bs \<Rightarrow> verified_bundle io dp api parse_json d bs
        | None \<Rightarrow> (\<exists>bs. d' INDEX_TMP = Some bs \<and> verified_bundle io dp api parse_json d bs))"

lemma update_index_states:
  "case update_index_bundle net io dp api parse_json cfg latest d of (sent, tr, r) \<Rightarrow>
     list_all (cache_sound io dp api parse_json d) (d # tr)
     \<and> (case r of
          Inl e \<Rightarrow> left_by d tr INDEX_FILE = d INDEX_FILE \<or> e = LE_Storage STE_Rename \<and> left_by d tr INDEX_FILE = None
        | Inr _ \<Rightarrow> left_by d tr INDEX_FILE = d INDEX_FILE \<or> sent \<noteq> [] \<and> latest \<noteq> 0)"
proof -
  have same: "cache_sound io dp api parse_json d d" by (simp add: cache_sound_def)
  have stored: "list_all (cache_sound io dp api parse_json d) tr
      \<and> (case r of Inl e \<Rightarrow> left_by d tr INDEX_FILE = d INDEX_FILE \<or> e = STE_Rename \<and> left_by d tr INDEX_FILE = None | Inr _ \<Rightarrow> True)"
    if "store_index_bundle io bs d = (tr, r)" "verified_bundle io dp api parse_json d bs" for bs tr r
  proof -
    from store_index_states [where io = io and bs = bs and d = d] that(1) have w: "list_all (whole_bundle bs d) tr"
      "case r of Inr _ \<Rightarrow> left_by d tr = d(INDEX_FILE \<mapsto> bs, INDEX_TMP := None)
        | Inl e \<Rightarrow> left_by d tr INDEX_FILE = d INDEX_FILE \<or> e = STE_Rename \<and> left_by d tr INDEX_FILE = None" by simp_all
    have "cache_sound io dp api parse_json d d'" if "whole_bundle bs d d'" for d'
      using that \<open>verified_bundle io dp api parse_json d bs\<close> unfolding whole_bundle_def cache_sound_def by auto
    with w show ?thesis by (cases r) (auto simp: list_all_iff)
  qed
  show ?thesis
  proof (cases "load_identity io dp d")
    case (Inr ic)
    obtain pem ca where ic: "ic = (pem, ca)" by fastforce
    have v: "verified_bundle io dp api parse_json d bs" if "load api parse_json bs ca = Inr b" for bs b
      using Inr ic that load_wf by (fastforce simp: verified_bundle_def)
    show ?thesis
      using Inr ic same
      by (auto simp: update_index_bundle_def Let_def left_by_def [of d "[]"] exchange_def split: prod.split sum.split option.split if_split
          dest!: stored dest: v)
  qed (use same in \<open>simp add: update_index_bundle_def left_by_def\<close>)
qed

text \<open>Which files the operations write.\<close>

lemma update_index_frame:
  assumes "update_index_bundle net io dp api parse_json cfg latest d = (sent, tr, r)" and "f \<noteq> INDEX_FILE" and "f \<noteq> INDEX_TMP"
  shows "left_by d tr f = d f"
proof -
  have "left_by d (fst (store_index_bundle io bs d)) f = d f" for bs
  proof (cases "file_write io INDEX_TMP bs d")
    case (Pair w ok)
    with file_write_cases(3) [OF Pair] assms(2,3) show ?thesis
      by (auto simp: store_index_bundle_def Let_def left_by_def [of d "[]"] left_by_append left_by_def [of _ "_ # _"])
  qed
  then have "left_by d tr' f = d f" if "store_index_bundle io bs d = (tr', r')" for bs tr' r' using that by (metis fst_conv)
  then show ?thesis using assms(1)
    by (auto simp: update_index_bundle_def Let_def left_by_def [of d "[]"] split: sum.splits prod.splits if_splits)
qed

lemma checkin_frame:
  assumes "checkin_full net io dp wi ho cfg d = (sent, tr, r)" and "f \<noteq> POLICY_FILE"
  shows "left_by d tr f = d f"
proof -
  have "left_by d (fst (store_file io POLICY_FILE bs d)) f = d f" for bs
    using store_file_frame(2) assms(2) by (metis prod.collapse)
  then show ?thesis using assms(1)
    by (auto simp: checkin_full_def cache_policy_def left_by_def [of d "[]"] split: sum.splits prod.splits if_splits option.splits)
qed

lemma sync_frame:
  assumes "sync_trusted_config net io dp wi cfg d = (sent, tr, tc)" and "f \<noteq> KEYRING_FILE" and "f \<noteq> TRUSTED_DEST_FILE"
  shows "left_by d tr f = d f"
proof -
  have "left_by d (fst (store_keyring io dp js d)) f = d f" for js d
    using store_keyring_frame assms(2) by (metis prod.collapse)
  moreover have "left_by d (fst (store_trusted_destinations io js d)) f = d f" for js d
    using store_destinations_frame assms(3) by (metis prod.collapse)
  ultimately show ?thesis using assms(1)
    by (auto simp: sync_trusted_config_def Let_def left_by_append left_by_def [of d "[]"] split: sum.splits prod.splits option.splits)
qed


text \<open>The version inside the downloaded bundle is not compared with the cached one: an older signed bundle replaces a newer.\<close>

lemma older_bundle_accepted:
  assumes "load_identity io dp d = Inr (pem, ca)" and "load_index_bundle io d = Some old" and "load api parse_json old ca = Inr b_old"
    and "version b_old < latest" and "nw_client net ca (Some pem)" and "nw_send net \<lparr>hq_post = False, hq_url = index_url cfg, hq_ca = ca,
      hq_identity = Some pem, hq_body = []\<rparr> = Some \<lparr>hr_success = True, hr_body = bs\<rparr>"
    and "load api parse_json bs ca = Inr b" and "version b < version b_old" and "snd (store_index_bundle io bs d) = Inr ()"
  shows "case update_index_bundle net io dp api parse_json cfg latest d of (sent, tr, r) \<Rightarrow> left_by d tr INDEX_FILE = Some bs \<and> r = Inr ()"
proof -
  have "latest \<noteq> 0" "\<not> latest \<le> version b_old" using assms(4) by (auto simp: not_le)
  then show ?thesis using assms store_index_states [where io = io and bs = bs and d = d] index_names
    by (cases "store_index_bundle io bs d") (auto simp: update_index_bundle_def exchange_def)
qed

section \<open>The synchronized configuration\<close>

lemma sync_fetched:
  assumes "fetch_trusted_config net io dp wi cfg d = (sent, Inr tc)" and "to_keyring_json (wi_keyfile_to wi) tc = Some js"
  obtains w1 r1 w2 r2 where "store_keyring io dp js d = (w1, r1)"
    "store_trusted_destinations io (serialize_destinations (wi_json_to wi) (tc_destinations tc)) (left_by d w1) = (w2, r2)"
    "sync_trusted_config net io dp wi cfg d = (sent, w1 @ w2, tc)"
proof -
  obtain w1 r1 where 1: "store_keyring io dp js d = (w1, r1)" by fastforce
  obtain w2 r2 where 2: "store_trusted_destinations io (serialize_destinations (wi_json_to wi) (tc_destinations tc)) (left_by d w1) = (w2, r2)"
    by fastforce
  show thesis using that [OF 1 2] assms 1 2 by (simp add: sync_trusted_config_def)
qed

text \<open>A directory on which every call succeeds.\<close>

definition io_sound :: "dir_io \<Rightarrow> bool" where
  "io_sound io \<longleftrightarrow> dio_create_dir io \<and> (\<forall>f. dio_write io f = WR_Ok \<and> dio_read io f)"

lemma stores_sound:
  assumes "io_sound io"
  shows "dp_protect dp js \<noteq> None \<Longrightarrow> snd (store_keyring io dp js d) = Inr ()" and "snd (store_trusted_destinations io ds d) = Inr ()"
  using assms by (auto simp: store_keyring_def store_trusted_destinations_def store_file_def file_write_def io_sound_def)

lemma synced_at_rest:
  fixes net dp wi cfg keyfile
  assumes "io_sound io" and "dpapi_correct dp"
    and "\<And>kf bs. wi_keyfile_to wi kf = Some bs \<Longrightarrow> wi_keyfile_from wi bs = Inr kf"
    and "\<And>v bs. wi_json_to wi v = Some bs \<Longrightarrow> wi_json_from wi bs = Some v"
    and "wi_json_to wi (destinations_document (tc_destinations tc)) \<noteq> None" and "to_keyring_json (wi_keyfile_to wi) tc \<noteq> None"
    and "\<And>js. dp_protect dp js \<noteq> None"
    and "distinct (map sk_id (tc_keys tc))"
    and "list_all (\<lambda>k. \<exists>raw. wi_base64 wi (sk_key_b64 k) = Inr raw \<and> length raw = 32) (tc_keys tc)"
    and f: "fetch_trusted_config net io dp wi cfg d = (sent, Inr tc)"
  shows "\<exists>tr ring. sync_trusted_config net io dp wi cfg d = (sent, tr, tc)
    \<and> load_synced_destinations io wi (left_by d tr) = tc_destinations tc
    \<and> build_sealer_keyring io dp wi keyfile (left_by d tr) = Some ring \<and> keyring_wf ring
    \<and> list_all (\<lambda>k. keyring_lookup ring (sk_id k) = Inr \<lparr>kek_id = sk_id k, kek_bytes = projr (wi_base64 wi (sk_key_b64 k))\<rparr>) (tc_keys tc)
    \<and> left_by d tr |` (- {KEYRING_FILE, TRUSTED_DEST_FILE}) = d |` (- {KEYRING_FILE, TRUSTED_DEST_FILE})"
proof -
  from assms(6) obtain js kf where js: "to_keyring_json (wi_keyfile_to wi) tc = Some js"
    and kf: "keyring_document tc = Some kf" "wi_keyfile_to wi kf = Some js"
    by (auto simp: to_keyring_json_def bind_eq_Some_conv)
  from assms(5) obtain ds where ds: "wi_json_to wi (destinations_document (tc_destinations tc)) = Some ds" by auto
  from sync_fetched [OF f js] obtain w1 r1 w2 r2 where w1: "store_keyring io dp js d = (w1, r1)"
    and w2: "store_trusted_destinations io (serialize_destinations (wi_json_to wi) (tc_destinations tc)) (left_by d w1) = (w2, r2)"
    and s: "sync_trusted_config net io dp wi cfg d = (sent, w1 @ w2, tc)" .
  have ok: "r1 = Inr ()" "r2 = Inr ()"
    using stores_sound(1) [OF assms(1) assms(7), of js d] w1
      stores_sound(2) [OF assms(1), of "serialize_destinations (wi_json_to wi) (tc_destinations tc)" "left_by d w1"] w2 by simp_all
  have ne: "KEYRING_FILE \<noteq> TRUSTED_DEST_FILE" by (simp add: file_names lit_def)
  have rd: "dio_read io x" for x using assms(1) by (simp add: io_sound_def)
  let ?d = "left_by d (w1 @ w2)"
  have dests: "load_synced_destinations io wi ?d = tc_destinations tc"
    using store_destinations_at_rest [OF w2 [unfolded ok] rd] destinations_round_trip [where to_vec = "wi_json_to wi" and from_slice = "wi_json_from wi", OF ds assms(4) [OF ds]]
    by (simp add: load_synced_destinations_def left_by_append)
  have "load_keyring io dp ?d = load_keyring io dp (left_by d w1)"
    using store_destinations_frame [OF w2 ne]
    by (simp add: load_keyring_def file_exists_def file_read_def left_by_append)
  then have key: "load_keyring io dp ?d = Inr (Some js)"
    using store_keyring_at_rest [OF assms(2) w1 [unfolded ok] rd] by simp
  from synced_keyring_usable [where to_vec = "wi_keyfile_to wi" and parse = "wi_keyfile_from wi" and b64_decode = "wi_base64 wi",
      OF kf assms(3) [OF kf(2)] assms(8,9)] obtain ring where
    ring: "from_dev_json (wi_keyfile_from wi) (wi_base64 wi) js = Inr ring" "keyring_wf ring"
    and look: "\<And>k raw. k \<in> set (tc_keys tc) \<Longrightarrow> wi_base64 wi (sk_key_b64 k) = Inr raw \<Longrightarrow>
       keyring_lookup ring (sk_id k) = Inr \<lparr>kek_id = sk_id k, kek_bytes = raw\<rparr>" by blast
  have "list_all (\<lambda>k. keyring_lookup ring (sk_id k) = Inr \<lparr>kek_id = sk_id k, kek_bytes = projr (wi_base64 wi (sk_key_b64 k))\<rparr>) (tc_keys tc)"
    using look assms(9) by (fastforce simp: list_all_iff)
  moreover have "?d f = d f" if "f \<noteq> KEYRING_FILE" "f \<noteq> TRUSTED_DEST_FILE" for f
    using store_keyring_frame [OF w1] store_destinations_frame [OF w2] that by (simp add: left_by_append)
  then have "?d |` (- {KEYRING_FILE, TRUSTED_DEST_FILE}) = d |` (- {KEYRING_FILE, TRUSTED_DEST_FILE})"
    by (auto simp: restrict_map_def fun_eq_iff)
  ultimately show ?thesis using s dests key ring by (simp add: build_sealer_keyring_def)
qed

text \<open>
  C23. A synchronized configuration is in force. When the server delivers destinations and keys, with distinct ids and
  keys of 32 bytes, and the directory can be written, then afterwards the destinations read back are those delivered,
  the sealer's keyring, wherever a key file may be configured, finds every delivered key with the delivered bytes, and no
  other file has changed. When the delivery fails, nothing is written and the destinations in force are those read back
  from the last one.
\<close>

theorem synced_config_in_force:
  fixes net dp wi cfg keyfile
  assumes "io_sound io" and "dpapi_correct dp"
    and "\<And>kf bs. wi_keyfile_to wi kf = Some bs \<Longrightarrow> wi_keyfile_from wi bs = Inr kf"
    and "\<And>v bs. wi_json_to wi v = Some bs \<Longrightarrow> wi_json_from wi bs = Some v"
    and "wi_json_to wi (destinations_document (tc_destinations tc)) \<noteq> None" and "to_keyring_json (wi_keyfile_to wi) tc \<noteq> None"
    and "\<And>js. dp_protect dp js \<noteq> None"
    and "distinct (map sk_id (tc_keys tc))"
    and "list_all (\<lambda>k. \<exists>raw. wi_base64 wi (sk_key_b64 k) = Inr raw \<and> length raw = 32) (tc_keys tc)"
  shows "case fetch_trusted_config net io dp wi cfg d of
      (sent, Inr tc') \<Rightarrow> if tc' = tc then
        (\<exists>tr ring. sync_trusted_config net io dp wi cfg d = (sent, tr, tc)
          \<and> load_synced_destinations io wi (left_by d tr) = tc_destinations tc
          \<and> build_sealer_keyring io dp wi keyfile (left_by d tr) = Some ring \<and> keyring_wf ring
          \<and> list_all (\<lambda>k. keyring_lookup ring (sk_id k) = Inr \<lparr>kek_id = sk_id k, kek_bytes = projr (wi_base64 wi (sk_key_b64 k))\<rparr>) (tc_keys tc)
          \<and> left_by d tr |` (- {KEYRING_FILE, TRUSTED_DEST_FILE}) = d |` (- {KEYRING_FILE, TRUSTED_DEST_FILE})) else True
    | (sent, Inl e) \<Rightarrow> sync_trusted_config net io dp wi cfg d
        = (sent, [], \<lparr>tc_destinations = load_synced_destinations io wi d, tc_keys = []\<rparr>)"
proof (cases "snd (fetch_trusted_config net io dp wi cfg d)")
  case (Inl e)
  then show ?thesis by (cases "fetch_trusted_config net io dp wi cfg d") (simp add: sync_trusted_config_def)
next
  case (Inr tc')
  obtain sent where f: "fetch_trusted_config net io dp wi cfg d = (sent, Inr tc')" using Inr by (metis prod.collapse)
  then show ?thesis using synced_at_rest [OF assms, of net cfg d sent keyfile] by (cases "tc' = tc") simp_all
qed

definition example_wire :: wire where
  "example_wire = \<lparr>wi_enroll_request = (\<lambda>_. []), wi_enroll_response = (\<lambda>_. None), wi_checkin_request = (\<lambda>_. []),
     wi_checkin_response = (\<lambda>_. None), wi_meta = (\<lambda>_. None), wi_trusted_config = (\<lambda>_. Some example_synced),
     wi_keyfile_to = (\<lambda>kf. if keyring_document example_synced = Some kf then Some [1] else None),
     wi_keyfile_from = (\<lambda>_. Inr (the (keyring_document example_synced))), wi_base64 = (\<lambda>_. Inr (replicate 32 7)),
     wi_json_to = (\<lambda>v. if v = destinations_document [example_dest] then Some [2] else None),
     wi_json_from = (\<lambda>_. Some (destinations_document [example_dest]))\<rparr>"

definition example_network :: network where
  "example_network = \<lparr>nw_client = (\<lambda>_ _. True), nw_send = (\<lambda>_. Some \<lparr>hr_success = True, hr_body = []\<rparr>)\<rparr>"

definition enrolled_dir :: state_dir where
  "enrolled_dir = [IDENTITY_FILE \<mapsto> [9], CA_FILE \<mapsto> [8]]"

lemma example_fetch:
  "\<exists>sent. fetch_trusted_config example_network sound_io plain_dpapi example_wire cfg enrolled_dir = (sent, Inr example_synced)"
proof -
  have "IDENTITY_FILE \<noteq> CA_FILE" by (simp add: file_names lit_def)
  then show ?thesis
    by (simp add: fetch_trusted_config_def authenticated_def load_identity_def has_identity_def file_exists_def file_read_def enrolled_dir_def
        exchange_def example_network_def example_wire_def sound_io_def plain_dpapi_def)
qed

lemma synced_config_in_force_witness:
  "\<forall>cfg. \<exists>ring. build_sealer_keyring sound_io plain_dpapi example_wire None
       (left_by enrolled_dir (fst (snd (sync_trusted_config example_network sound_io plain_dpapi example_wire cfg enrolled_dir)))) = Some ring
     \<and> keyring_lookup ring (lit ''k'') = Inr \<lparr>kek_id = lit ''k'', kek_bytes = replicate 32 7\<rparr>"
proof
  fix cfg
  obtain sent where f: "fetch_trusted_config example_network sound_io plain_dpapi example_wire cfg enrolled_dir = (sent, Inr example_synced)"
    using example_fetch by blast
  obtain kf where kf: "keyring_document example_synced = Some kf"
    by (auto simp: keyring_document_def active_key_id_def example_synced_def example_dest_def lit_def)
  have "io_sound sound_io" by (simp add: io_sound_def sound_io_def)
  moreover have "dpapi_correct plain_dpapi" by (simp add: dpapi_correct_def plain_dpapi_def)
  moreover have "wi_keyfile_from example_wire bs = Inr kf'" if "wi_keyfile_to example_wire kf' = Some bs" for kf' bs
    using that by (simp add: example_wire_def split: if_splits)
  moreover have "wi_json_from example_wire bs = Some v" if "wi_json_to example_wire v = Some bs" for v bs
    using that by (simp add: example_wire_def split: if_splits)
  moreover have "wi_json_to example_wire (destinations_document (tc_destinations example_synced)) \<noteq> None"
    by (simp add: example_wire_def example_synced_def)
  moreover have "to_keyring_json (wi_keyfile_to example_wire) example_synced \<noteq> None"
    by (simp add: to_keyring_json_def example_wire_def kf)
  moreover have "dp_protect plain_dpapi js \<noteq> None" for js by (simp add: plain_dpapi_def)
  moreover have "distinct (map sk_id (tc_keys example_synced))" by (simp add: example_synced_def lit_def)
  moreover have "list_all (\<lambda>k. \<exists>raw. wi_base64 example_wire (sk_key_b64 k) = Inr raw \<and> length raw = 32) (tc_keys example_synced)"
    by (simp add: example_wire_def example_synced_def)
  ultimately have "case fetch_trusted_config example_network sound_io plain_dpapi example_wire cfg enrolled_dir of
      (sent, Inr tc') \<Rightarrow> if tc' = example_synced then
        (\<exists>tr ring. sync_trusted_config example_network sound_io plain_dpapi example_wire cfg enrolled_dir = (sent, tr, example_synced)
          \<and> load_synced_destinations sound_io example_wire (left_by enrolled_dir tr) = tc_destinations example_synced
          \<and> build_sealer_keyring sound_io plain_dpapi example_wire None (left_by enrolled_dir tr) = Some ring \<and> keyring_wf ring
          \<and> list_all (\<lambda>k. keyring_lookup ring (sk_id k) = Inr \<lparr>kek_id = sk_id k, kek_bytes = projr (wi_base64 example_wire (sk_key_b64 k))\<rparr>) (tc_keys example_synced)
          \<and> left_by enrolled_dir tr |` (- {KEYRING_FILE, TRUSTED_DEST_FILE}) = enrolled_dir |` (- {KEYRING_FILE, TRUSTED_DEST_FILE})) else True
    | (sent, Inl e) \<Rightarrow> sync_trusted_config example_network sound_io plain_dpapi example_wire cfg enrolled_dir
        = (sent, [], \<lparr>tc_destinations = load_synced_destinations sound_io example_wire enrolled_dir, tc_keys = []\<rparr>)"
    by (rule synced_config_in_force)
  with f show "\<exists>ring. build_sealer_keyring sound_io plain_dpapi example_wire None
       (left_by enrolled_dir (fst (snd (sync_trusted_config example_network sound_io plain_dpapi example_wire cfg enrolled_dir)))) = Some ring
     \<and> keyring_lookup ring (lit ''k'') = Inr \<lparr>kek_id = lit ''k'', kek_bytes = replicate 32 7\<rparr>"
    by (auto simp: example_wire_def example_synced_def)
qed

end
