(* ===== verification/Endpoint.thy ===== *)
theory Endpoint
  imports Server_Link Usb_Monitor Notify Incident_Queue Decrypt
begin

text \<open>
  The agent's composition (\<open>main.rs\<close>): the funnel that every incident passes through, to the desktop
  notification, the server and the queue; the decrypt command with its audit sink and its choice of the output; the
  production sealer; and the workers of the endpoint mode, which share the configuration and the health signal,
  as a step relation. Shown: an incident with a verdict reaches the server or the queue, plaintext is
  released only after that, the output never replaces a file, and the shared configuration is always the local one merged
  with destinations that were synchronized.
\<close>

section \<open>Delivery of incidents\<close>

fun action_taken_label :: "action_taken \<Rightarrow> ustring" where
  "action_taken_label AT_Blocked = lit ''blocked''"
| "action_taken_label AT_Audited = lit ''audited''"
| "action_taken_label AT_ReadOnly = lit ''read_only''"
| "action_taken_label AT_Encrypted = lit ''encrypted''"

record incident_request =
  ir_channel :: ustring
  ir_file_name :: ustring
  ir_file_sha256 :: ustring
  ir_verdict :: verdict
  ir_action_taken :: "ustring option"
  ir_os_user :: "ustring option"
  ir_key_id :: "ustring option"
  ir_sealed_sha256 :: "ustring option"

text \<open>What delivery uses: the network and the directory, the codecs, the user at the console, the queue's file system, clocks and process id.\<close>

record delivery =
  dl_net :: network
  dl_io :: dir_io
  dl_dp :: dpapi
  dl_to_string :: "incident_request \<Rightarrow> ustring option"
  dl_incident_id :: "bytes \<Rightarrow> ustring option"
  dl_user :: "ustring option"
  dl_fs :: fs
  dl_now :: nat
  dl_pid :: nat
  dl_instant :: nat

definition usb_incident_body :: "delivery \<Rightarrow> usb_incident \<Rightarrow> ustring option" where
  "usb_incident_body dl inc =
     Option.bind (ui_verdict inc) (\<lambda>vd.
       dl_to_string dl
         \<lparr>ir_channel = ui_channel inc, ir_file_name = ui_file_name inc, ir_file_sha256 = ui_file_sha256 inc, ir_verdict = vd,
          ir_action_taken = Some (action_taken_label (ui_action_taken inc)), ir_os_user = dl_user dl,
          ir_key_id = ui_key_id inc, ir_sealed_sha256 = ui_sealed_sha256 inc\<rparr>)"

definition post_incident_body ::
  "delivery \<Rightarrow> config \<Rightarrow> state_dir \<Rightarrow> ustring \<Rightarrow> http_request list \<times> (link_error + ustring)" where
  "post_incident_body dl cfg d body =
     authenticated (dl_net dl) (dl_io dl) (dl_dp dl) d True (incidents_url cfg) (utf8 body) (dl_incident_id dl)"

definition incident_wire_body ::
  "delivery \<Rightarrow> config \<Rightarrow> usb_incident \<Rightarrow> notify_state \<Rightarrow> notify_state \<times> (ustring \<times> ustring) option \<times> ustring option" where
  "incident_wire_body dl cfg inc nst =
     (case on_block_for_incident (cfg_notify cfg) inc (dl_instant dl) nst of (nst', toast) \<Rightarrow> (nst', toast, usb_incident_body dl inc))"

datatype delivered = Posted ustring | Queued | Lost | Local_Only

text \<open>The queue after a body was handed to it; \<open>None\<close> is a panic of the queue.\<close>

definition enqueue_body :: "delivery \<Rightarrow> ustring \<Rightarrow> dir \<Rightarrow> (delivered \<times> dir) option" where
  "enqueue_body dl body q =
     (case enqueue (dl_fs dl) DEFAULT_CAP (dl_now dl) (dl_pid dl) body q of
        None \<Rightarrow> None
      | Some (Inr _, q') \<Rightarrow> Some (Queued, q')
      | Some (Inl _, q') \<Rightarrow> Some (Lost, q'))"

text \<open>Posted when there is an identity and the server accepts it, else queued.\<close>

definition post_or_queue :: "delivery \<Rightarrow> config \<Rightarrow> state_dir \<Rightarrow> ustring \<Rightarrow> dir \<Rightarrow> (http_request list \<times> delivered \<times> dir) option" where
  "post_or_queue dl cfg d body q =
     (if has_identity d then
        (case post_incident_body dl cfg d body of
           (sent, Inr i) \<Rightarrow> Some (sent, Posted i, q)
         | (sent, Inl _) \<Rightarrow> map_option (\<lambda>(r, q'). (sent, r, q')) (enqueue_body dl body q))
      else map_option (\<lambda>(r, q'). ([], r, q')) (enqueue_body dl body q))"

definition deliver_incident ::
  "delivery \<Rightarrow> config \<Rightarrow> state_dir \<Rightarrow> usb_incident \<Rightarrow> notify_state \<Rightarrow> dir
   \<Rightarrow> ((ustring \<times> ustring) option \<times> http_request list \<times> delivered \<times> notify_state \<times> dir) option" where
  "deliver_incident dl cfg d inc nst q =
     (case incident_wire_body dl cfg inc nst of (nst', toast, body) \<Rightarrow>
        (case body of
           None \<Rightarrow> Some (toast, [], Local_Only, nst', q)
         | Some b \<Rightarrow> map_option (\<lambda>(sent, r, q'). (toast, sent, r, nst', q')) (post_or_queue dl cfg d b q)))"

section \<open>The decrypt command\<close>

text \<open>The audit sink: whether the incident was recorded, what was sent, and the queue.\<close>

definition decrypt_audit :: "delivery \<Rightarrow> config \<Rightarrow> state_dir \<Rightarrow> usb_incident \<Rightarrow> dir \<Rightarrow> (bool \<times> http_request list \<times> dir) option" where
  "decrypt_audit dl cfg d inc q =
     (case usb_incident_body dl inc of
        None \<Rightarrow> Some (False, [], q)
      | Some body \<Rightarrow> map_option (\<lambda>(sent, r, q'). (r \<noteq> Lost, sent, q')) (post_or_queue dl cfg d body q))"

text \<open>
  \<open>Path::file_name\<close> of a text on Windows without a verbatim prefix: the last component, when it is a normal one; the prefix is
  a drive or a share.
\<close>

definition is_sep :: "uchar \<Rightarrow> bool" where
  "is_sep c \<longleftrightarrow> c = 47 \<or> c = 92"

fun components_of :: "ustring \<Rightarrow> ustring list" where
  "components_of [] = [[]]"
| "components_of (c # cs) =
     (if is_sep c then [] # components_of cs else (case components_of cs of [] \<Rightarrow> [[c]] | x # xs \<Rightarrow> (c # x) # xs))"

definition drive_prefixed :: "ustring \<Rightarrow> bool" where
  "drive_prefixed s = (case s of a # b # _ \<Rightarrow> b = 58 \<and> is_ascii_alphabetic a | _ \<Rightarrow> False)"

definition after_prefix :: "ustring \<Rightarrow> ustring list" where
  "after_prefix s =
     (case s of
        a # b # rest \<Rightarrow>
          if drive_prefixed s then components_of rest
          else if is_sep a \<and> is_sep b then drop 2 (components_of rest)
          else components_of s
      | _ \<Rightarrow> components_of s)"

definition text_file_name :: "ustring \<Rightarrow> ustring option" where
  "text_file_name s =
     (case rev (filter (\<lambda>c. c \<noteq> [] \<and> c \<noteq> lit ''.'') (after_prefix s)) of
        [] \<Rightarrow> None
      | c # _ \<Rightarrow> if c = lit ''..'' then None else Some c)"

text \<open>\<open>Path::join\<close> with a single name: one that starts with a drive replaces the directory.\<close>

definition path_join :: "path \<Rightarrow> ustring \<Rightarrow> path" where
  "path_join dir n = (if drive_prefixed n then [n] else dir @ [n])"

text \<open>\<open>str::trim_end_matches\<close> with a string pattern.\<close>

definition trim_end_str :: "'a list \<Rightarrow> 'a list \<Rightarrow> 'a list" where
  "trim_end_str suf s = rev (trim_start_str (rev suf) (rev s))"

definition ENVELOPE_EXT :: ustring where
  "ENVELOPE_EXT = lit ''.dlpenc''"

datatype output_error = Refused_Overwrite | Output_Failed

text \<open>
  Where the plaintext goes: \<open>-o\<close> when given, else the name in the authenticated header, beside the input. The file system
  is a map from paths; \<open>writes\<close> tells how writing ends, which may be after a part of the plaintext. Joining an empty name gives the directory, which exists.
\<close>

definition output_path :: "path option \<Rightarrow> path \<Rightarrow> ustring \<Rightarrow> envelope_header \<Rightarrow> path" where
  "output_path output input envelope_name header =
     (case output of
        Some p \<Rightarrow> p
      | None \<Rightarrow>
          path_join (butlast input)
            (case text_file_name (eh_orig_name header) of
               Some n \<Rightarrow> n
             | None \<Rightarrow> trim_end_str ENVELOPE_EXT envelope_name))"

definition decrypt_write ::
  "(path \<Rightarrow> write_result) \<Rightarrow> path option \<Rightarrow> path \<Rightarrow> ustring \<Rightarrow> envelope_header \<Rightarrow> bytes \<Rightarrow> volume \<Rightarrow> (output_error + path) \<times> volume" where
  "decrypt_write writes output input envelope_name header plaintext fsys =
     (let out = output_path output input envelope_name header
      in if output = None \<and> (fsys out \<noteq> None \<or> last out = []) then (Inl Refused_Overwrite, fsys)
         else case writes out of
           WR_OpenFailed \<Rightarrow> (Inl Output_Failed, fsys)
         | WR_Partial n \<Rightarrow> (Inl Output_Failed, fsys(out \<mapsto> take n plaintext))
         | WR_Ok \<Rightarrow> (Inr out, fsys(out \<mapsto> plaintext)))"

definition agent_id_of :: "dir_io \<Rightarrow> (bytes \<Rightarrow> agent_meta option) \<Rightarrow> state_dir \<Rightarrow> ustring" where
  "agent_id_of io from_json d = (case load_meta io from_json d of Inr m \<Rightarrow> am_agent_id m | Inl _ \<Rightarrow> lit ''unenrolled'')"

definition envelope_name_of :: "path \<Rightarrow> ustring" where
  "envelope_name_of input = (case file_name input of Some n \<Rightarrow> n | None \<Rightarrow> display_path input)"

record decrypt_result =
  dr_result :: "decrypt_error + decrypt_summary"
  dr_files :: volume
  dr_sent :: "http_request list"
  dr_queue :: dir

text \<open>The command after its arguments were read; \<open>None\<close> when the input cannot be read, or on a panic.\<close>

definition cmd_decrypt ::
  "envelope_libs \<Rightarrow> delivery \<Rightarrow> wire \<Rightarrow> (bytes \<Rightarrow> agent_meta option) \<Rightarrow> (ustring + bytes) option \<Rightarrow> config \<Rightarrow> (path \<Rightarrow> write_result)
   \<Rightarrow> path option \<Rightarrow> path \<Rightarrow> state_dir \<Rightarrow> volume \<Rightarrow> dir \<Rightarrow> decrypt_result option" where
  "cmd_decrypt l dl wi from_json keyfile cfg writes output input d fsys q =
     (case fsys input of
        None \<Rightarrow> None
      | Some env \<Rightarrow>
          let name = envelope_name_of input;
              (w, ring) = load_decrypt_keyring (dl_io dl) (dl_dp dl) wi keyfile d;
              d1 = left_by d w;
              agent_id = agent_id_of (dl_io dl) from_json d1;
              audit = (\<lambda>inc. decrypt_audit dl cfg d1 inc q);
              write = (\<lambda>h p. decrypt_write writes output input name h p fsys);
              (effects, r) = decrypt_envelope l env name ring agent_id
                 (\<lambda>inc. case audit inc of Some (ok, _) \<Rightarrow> ok | None \<Rightarrow> False)
                 (\<lambda>h p. case write h p of (Inr _, _) \<Rightarrow> True | (Inl _, _) \<Rightarrow> False)
          in case effects of
               Audit inc # rest \<Rightarrow>
                 (case audit inc of
                    None \<Rightarrow> None
                  | Some (_, sent, q') \<Rightarrow>
                      Some \<lparr>dr_result = r,
                            dr_files = (case rest of [Write_Plaintext h p] \<Rightarrow> snd (write h p) | _ \<Rightarrow> fsys),
                            dr_sent = sent, dr_queue = q'\<rparr>)
             | _ \<Rightarrow> Some \<lparr>dr_result = r, dr_files = fsys, dr_sent = [], dr_queue = q\<rparr>)"

section \<open>The production sealer\<close>

definition seal_error_text :: "(seal_error \<Rightarrow> ustring) \<Rightarrow> volume list \<times> (seal_error + seal_outcome) \<Rightarrow> (ustring + seal_outcome) \<times> volume" where
  "seal_error_text show_error r = (case snd r of Inl e \<Rightarrow> Inl (show_error e) | Inr out \<Rightarrow> Inr out, last (fst r))"

text \<open>\<open>show_key\<close> and \<open>show_error\<close> are the \<open>Display\<close> texts; the random bytes, the file operations and the clock are given for the call.\<close>

definition make_sealer ::
  "envelope_libs \<Rightarrow> (bytes \<times> bytes \<times> bytes) \<Rightarrow> io_results \<Rightarrow> (envelope_error \<Rightarrow> ustring) \<Rightarrow> (seal_error \<Rightarrow> ustring) \<Rightarrow> u64
   \<Rightarrow> keyring option \<Rightarrow> ustring \<Rightarrow> path \<Rightarrow> ustring \<Rightarrow> volume \<Rightarrow> (ustring + seal_outcome) \<times> volume" where
  "make_sealer l drawn io show_key show_error now_unix ring agent_id p key_id vol =
     (case ring of
        None \<Rightarrow> (Inl (lit ''no keyring loaded ([crypto] keyfile unset or unreadable)''), vol)
      | Some ring \<Rightarrow>
          (case keyring_lookup ring key_id of
             Inl e \<Rightarrow> (Inl (show_key e), vol)
           | Inr kek \<Rightarrow> seal_error_text show_error (seal_file_in_place l drawn io p kek agent_id now_unix vol)))"

section \<open>The endpoint mode\<close>

text \<open>
  What the workers of \<open>run_endpoint\<close> share: the state directory, the configuration, the health signal; and the keyring the sealer
  was started with, while it runs. The machine is what does not change: data protection, codecs, host, the
  contents of the configured key file. A worker's turn is one step; the files that check-in and re-sync write are disjoint.
\<close>

record machine =
  mc_dp :: dpapi
  mc_wi :: wire
  mc_ho :: host
  mc_keyfile :: "(ustring + bytes) option"

record endpoint =
  ep_dir :: state_dir
  ep_shared :: config
  ep_health :: sealer_health
  ep_sealer :: "keyring option option"

definition endpoint_start ::
  "network \<Rightarrow> dir_io \<Rightarrow> machine \<Rightarrow> 'k key_maker \<Rightarrow> bytes option \<Rightarrow> config \<Rightarrow> state_dir \<Rightarrow> endpoint" where
  "endpoint_start net io m km ca_file cfg d =
     (let d1 = left_by d (fst (snd (ensure_enrolled net io (mc_dp m) (mc_wi m) (mc_ho m) km ca_file cfg d)));
          d2 = left_by d1 (fst (snd (sync_trusted_config net io (mc_dp m) (mc_wi m) cfg d1)));
          synced = load_synced_destinations io (mc_wi m) d2;
          keyring_present = (build_sealer_keyring io (mc_dp m) (mc_wi m) (mc_keyfile m) d2 \<noteq> None)
      in \<lparr>ep_dir = d2, ep_shared = with_synced_destinations cfg synced, ep_health = health_new keyring_present, ep_sealer = None\<rparr>)"

definition sealer_start :: "dir_io \<Rightarrow> machine \<Rightarrow> endpoint \<Rightarrow> endpoint" where
  "sealer_start io m s =
     (let ring = build_sealer_keyring io (mc_dp m) (mc_wi m) (mc_keyfile m) (ep_dir s)
      in s\<lparr>ep_health := set_keyring_present (ring \<noteq> None) (ep_health s), ep_sealer := Some ring\<rparr>)"

definition checkin_turn ::
  "network \<Rightarrow> dir_io \<Rightarrow> machine \<Rightarrow> ('cert, 'key, 'sig) signature_api \<Rightarrow> (bytes \<Rightarrow> header option) \<Rightarrow> endpoint \<Rightarrow> endpoint" where
  "checkin_turn net io m api parse_json s =
     (case checkin_full net io (mc_dp m) (mc_wi m) (mc_ho m) (ep_shared s) (ep_dir s) of
        (_, tr, Inl e) \<Rightarrow> s\<lparr>ep_dir := left_by (ep_dir s) tr\<rparr>
      | (_, tr, Inr outcome) \<Rightarrow>
          let d1 = left_by (ep_dir s) tr
          in case update_index_bundle net io (mc_dp m) api parse_json (ep_shared s) (co_index_latest outcome) d1 of
               (_, tr', _) \<Rightarrow> s\<lparr>ep_dir := left_by d1 tr'\<rparr>)"

definition resync_turn :: "network \<Rightarrow> dir_io \<Rightarrow> machine \<Rightarrow> config \<Rightarrow> endpoint \<Rightarrow> endpoint" where
  "resync_turn net io m base s =
     (case sync_trusted_config net io (mc_dp m) (mc_wi m) base (ep_dir s) of
        (_, tr, _) \<Rightarrow>
          let d' = left_by (ep_dir s) tr;
              synced = load_synced_destinations io (mc_wi m) d'
          in s\<lparr>ep_dir := d', ep_shared := with_synced_destinations base synced,
               ep_health := set_keyring_present (build_sealer_keyring io (mc_dp m) (mc_wi m) (mc_keyfile m) d' \<noteq> None) (ep_health s)\<rparr>)"

inductive endpoint_step ::
  "machine \<Rightarrow> ('cert, 'key, 'sig) signature_api \<Rightarrow> (bytes \<Rightarrow> header option) \<Rightarrow> config \<Rightarrow> endpoint \<Rightarrow> endpoint \<Rightarrow> bool"
  for m api parse_json base where
  sealer_starts: "ep_sealer s = None \<Longrightarrow> endpoint_step m api parse_json base s (sealer_start io m s)"
| sealer_polls: "ep_sealer s = Some ring \<Longrightarrow> endpoint_step m api parse_json base s (s\<lparr>ep_health := mark_alive now (ep_health s)\<rparr>)"
| sealer_ends: "ep_sealer s = Some ring \<Longrightarrow> endpoint_step m api parse_json base s (s\<lparr>ep_sealer := None\<rparr>)"
| checks_in: "endpoint_step m api parse_json base s (checkin_turn net io m api parse_json s)"
| resyncs: "endpoint_step m api parse_json base s (resync_turn net io m base s)"

section \<open>Incidents are recorded\<close>

text \<open>
  A body is recorded when the server answered its request with a success, or when it is the newest entry of the queue,
  behind those that were there.
\<close>

definition server_accepted :: "delivery \<Rightarrow> config \<Rightarrow> ustring \<Rightarrow> http_request list \<Rightarrow> bool" where
  "server_accepted dl cfg body sent \<longleftrightarrow>
     (\<exists>req resp. sent = [req] \<and> hq_url req = incidents_url cfg \<and> hq_body req = utf8 body
        \<and> hq_identity req \<noteq> None \<and> nw_send (dl_net dl) req = Some resp \<and> hr_success resp)"

definition recorded :: "delivery \<Rightarrow> config \<Rightarrow> ustring \<Rightarrow> dir \<Rightarrow> http_request list \<times> delivered \<times> dir \<Rightarrow> bool" where
  "recorded dl cfg body q x \<longleftrightarrow> (case x of (sent, r, q') \<Rightarrow>
     (\<exists>i. r = Posted i \<and> q' = q \<and> server_accepted dl cfg body sent)
     \<or> r = Queued \<and> items q' = drop (Suc (queue_len q) - DEFAULT_CAP) (items q) @ [body])"

definition queue_ready :: "delivery \<Rightarrow> dir \<Rightarrow> bool" where
  "queue_ready dl q \<longleftrightarrow> dl_fs dl = fs_ok \<and> dir_wf q \<and> before (dl_now dl) q"

lemma exchange_Inr:
  assumes "exchange net req decode = (sent, Inr a)"
  shows "sent = [req] \<and> (\<exists>resp. nw_send net req = Some resp \<and> hr_success resp)"
  using assms by (auto simp: exchange_def split: if_splits option.splits)

lemma post_accepted:
  assumes "post_incident_body dl cfg d body = (sent, Inr i)"
  shows "server_accepted dl cfg body sent"
proof -
  from assms obtain pem ca where
    "exchange (dl_net dl) \<lparr>hq_post = True, hq_url = incidents_url cfg, hq_ca = ca, hq_identity = Some pem, hq_body = utf8 body\<rparr>
       (dl_incident_id dl) = (sent, Inr i)"
    by (auto simp: post_incident_body_def authenticated_def split: sum.splits)
  from exchange_Inr [OF this] show ?thesis by (auto simp: server_accepted_def)
qed

lemma post_or_queue_accepted:
  assumes "post_or_queue dl cfg d body q = Some (sent, r, q')" and "r \<noteq> Lost"
  shows "server_accepted dl cfg body sent \<or> enqueue (dl_fs dl) DEFAULT_CAP (dl_now dl) (dl_pid dl) body q = Some (Inr (), q')"
  using assms post_accepted [of dl cfg d body]
  by (auto simp: post_or_queue_def enqueue_body_def split: if_splits prod.splits sum.splits option.splits)

lemma post_or_queue_recorded:
  assumes "queue_ready dl q"
  shows "\<exists>x. post_or_queue dl cfg d body q = Some x \<and> recorded dl cfg body q x"
proof -
  have "0 < DEFAULT_CAP" by (simp add: DEFAULT_CAP_def)
  with assms enqueue_ok [of q "dl_now dl" DEFAULT_CAP "dl_pid dl" body] obtain q' where
    q: "enqueue (dl_fs dl) DEFAULT_CAP (dl_now dl) (dl_pid dl) body q = Some (Inr (), q')"
      "items q' = drop (Suc (queue_len q) - DEFAULT_CAP) (items q) @ [body]" by (auto simp: queue_ready_def)
  have e: "enqueue_body dl body q = Some (Queued, q')" by (simp add: enqueue_body_def q)
  show ?thesis
  proof (cases "has_identity d")
    case True
    obtain sent r where p: "post_incident_body dl cfg d body = (sent, r)" by fastforce
    show ?thesis
    proof (cases r)
      case (Inr i)
      with p post_accepted have "server_accepted dl cfg body sent" by blast
      with True p Inr show ?thesis by (auto simp: post_or_queue_def recorded_def)
    qed (use True p e q(2) in \<open>auto simp: post_or_queue_def recorded_def\<close>)
  qed (use e q(2) in \<open>auto simp: post_or_queue_def recorded_def\<close>)
qed

text \<open>
  No detection is lost. On a working queue every incident that carries a verdict is delivered without a panic: the server has
  accepted it under the agent's identity, or it is the newest entry of the queue, which keeps what it held up to its bound; and the
  desktop is notified at most for a blocked action.
\<close>

theorem incident_recorded:
  assumes "queue_ready dl q" and "ui_verdict inc \<noteq> None" and "\<And>r. dl_to_string dl r \<noteq> None"
  shows "\<exists>body toast sent r nst' q'. usb_incident_body dl inc = Some body
    \<and> deliver_incident dl cfg d inc nst q = Some (toast, sent, r, nst', q') \<and> recorded dl cfg body q (sent, r, q')
    \<and> (ui_action_taken inc = AT_Blocked \<or> toast = None)"
proof -
  from assms(2) obtain vd where "ui_verdict inc = Some vd" by blast
  with assms(3) obtain body where b: "usb_incident_body dl inc = Some body"
    by (simp add: usb_incident_body_def) blast
  from post_or_queue_recorded [OF assms(1)] obtain sent r q' where
    p: "post_or_queue dl cfg d body q = Some (sent, r, q')" "recorded dl cfg body q (sent, r, q')" by (metis prod_cases3)
  obtain nst' toast where n: "on_block_for_incident (cfg_notify cfg) inc (dl_instant dl) nst = (nst', toast)" by fastforce
  then have "ui_action_taken inc = AT_Blocked \<or> toast = None"
    by (cases "ui_action_taken inc = AT_Blocked") (auto simp: on_block_for_incident_def)
  with b p n show ?thesis by (auto simp: deliver_incident_def incident_wire_body_def)
qed

definition example_delivery :: delivery where
  "example_delivery = \<lparr>dl_net = example_network, dl_io = sound_io, dl_dp = plain_dpapi, dl_to_string = (\<lambda>_. Some (lit ''b'')),
     dl_incident_id = (\<lambda>_. None), dl_user = None, dl_fs = fs_ok, dl_now = 1, dl_pid = 2, dl_instant = 0\<rparr>"

lemma example_ready: "queue_ready example_delivery []"
  by (simp add: queue_ready_def example_delivery_def dir_wf_def before_def entries_def)

lemma incident_recorded_witness:
  "\<forall>cfg nst h. \<exists>toast sent r nst' q'. deliver_incident example_delivery cfg Map.empty (decrypted_incident h [] [] []) nst [] = Some (toast, sent, r, nst', q')
     \<and> recorded example_delivery cfg (lit ''b'') [] (sent, r, q')"
proof (intro allI)
  fix cfg nst h
  have "ui_verdict (decrypted_incident h [] [] []) \<noteq> None" by (simp add: decrypted_incident_def)
  moreover have "dl_to_string example_delivery r = Some (lit ''b'')" for r by (simp add: example_delivery_def)
  ultimately show "\<exists>toast sent r nst' q'. deliver_incident example_delivery cfg Map.empty (decrypted_incident h [] [] []) nst [] = Some (toast, sent, r, nst', q')
     \<and> recorded example_delivery cfg (lit ''b'') [] (sent, r, q')"
    using incident_recorded [OF example_ready, of "decrypted_incident h [] [] []" cfg Map.empty nst]
    by (auto simp: usb_incident_body_def decrypted_incident_def)
qed

text \<open>Delivering an incident sends at most that incident: what was queued before is not sent on this way.\<close>

lemma delivery_sends_only_new:
  assumes "deliver_incident dl cfg d inc nst q = Some (toast, sent, r, nst', q')"
  shows "list_all (\<lambda>req. Some (hq_body req) = map_option utf8 (usb_incident_body dl inc)) sent"
proof -
  have sent: "list_all (\<lambda>req. hq_body req = utf8 b) (fst (post_incident_body dl cfg d b))" for b
    by (simp add: post_incident_body_def authenticated_def exchange_def split: sum.split prod.split option.split)
  show ?thesis
  proof (cases "usb_incident_body dl inc")
    case (Some b)
    with assms sent [of b] show ?thesis
      by (cases "post_incident_body dl cfg d b")
        (auto simp: deliver_incident_def incident_wire_body_def post_or_queue_def split: prod.splits if_splits sum.splits)
  qed (use assms in \<open>auto simp: deliver_incident_def incident_wire_body_def split: prod.splits\<close>)
qed

section \<open>Plaintext is released on the record\<close>

lemma decrypt_audit_accepted:
  assumes "decrypt_audit dl cfg d inc q = Some (True, sent, q')"
  shows "\<exists>body. usb_incident_body dl inc = Some body
    \<and> (server_accepted dl cfg body sent \<or> enqueue (dl_fs dl) DEFAULT_CAP (dl_now dl) (dl_pid dl) body q = Some (Inr (), q'))"
  using assms post_or_queue_accepted by (fastforce simp: decrypt_audit_def split: option.splits)

lemma components_no_sep: "x \<in> set (components_of s) \<Longrightarrow> \<not> list_ex is_sep x"
  by (induction s arbitrary: x rule: components_of.induct) (auto split: if_splits list.splits)

lemma text_file_name_no_sep: "text_file_name s = Some n \<Longrightarrow> n \<noteq> [] \<and> \<not> list_ex is_sep n"
proof -
  assume n: "text_file_name s = Some n"
  then obtain cs where "rev (filter (\<lambda>c. c \<noteq> [] \<and> c \<noteq> lit ''.'') (after_prefix s)) = n # cs"
    by (auto simp: text_file_name_def simp del: rev_eq_Cons_iff split: list.splits if_splits)
  then have "n \<in> set (rev (filter (\<lambda>c. c \<noteq> [] \<and> c \<noteq> lit ''.'') (after_prefix s)))" by (metis list.set_intros(1))
  moreover have "\<exists>t. set (after_prefix s) \<subseteq> set (components_of t)"
  proof (cases "\<exists>a b cs. s = a # b # cs")
    case True
    then obtain a b cs where "s = a # b # cs" by blast
    then show ?thesis using set_drop_subset [of 2 "components_of cs"] 
      by (auto simp: after_prefix_def simp del: components_of.simps)
  next
    case False
    then have "after_prefix s = components_of s" by (cases s; cases "tl s") (auto simp: after_prefix_def)
    then show ?thesis by auto
  qed
  ultimately show ?thesis using components_no_sep by fastforce
qed

lemma decrypt_envelope_effects:
  assumes "decrypt_envelope l env name ring agent audit write = (effects, r)"
  shows "(\<exists>i. effects = [Audit i] \<and> (\<exists>e. r = Inl e))
    \<or> (\<exists>i h p. effects = [Audit i, Write_Plaintext h p] \<and> audit i \<and> envelope_open l env ring = Inr (h, p)
         \<and> i = decrypted_incident h (hex (env_sha256 l p)) (hex (env_sha256 l env)) agent
         \<and> (write h p \<longleftrightarrow> (\<exists>sm. r = Inr sm)))"
  using assms by (auto simp: decrypt_envelope_def Let_def split: sum.splits if_splits)

text \<open>The files the plaintext may go to: the one chosen with \<open>-o\<close>, else a new one beside the envelope, or on the drive its name carries.\<close>

definition release_place :: "volume \<Rightarrow> path option \<Rightarrow> path \<Rightarrow> path \<Rightarrow> bool" where
  "release_place fsys output input out \<longleftrightarrow>
     (case output of
        Some x \<Rightarrow> out = x
      | None \<Rightarrow> fsys out = None \<and> (drive_prefixed (last out) \<or> butlast out = butlast input)
          \<and> (list_all (\<lambda>c. \<not> is_sep c) (last out) \<or> last out = trim_end_str ENVELOPE_EXT (envelope_name_of input)))"

text \<open>What a write of the plaintext left: where, and how much of it.\<close>

lemma decrypt_write_outcome:
  assumes "decrypt_write writes output input (envelope_name_of input) h p fsys = (r, fsys')"
  shows "(fsys' = fsys \<and> (\<exists>e. r = Inl e))
    \<or> (\<exists>out k. fsys' = fsys(out \<mapsto> take k p) \<and> ((\<exists>e. r = Inl e) \<or> take k p = p)
         \<and> release_place fsys output input out)"
proof (cases "fsys' = fsys \<and> (\<exists>e. r = Inl e)")
  case False
  define out where "out = output_path output input (envelope_name_of input) h"
  from assms False obtain k where k: "fsys' = fsys(out \<mapsto> take k p)" "(\<exists>e. r = Inl e) \<or> take k p = p"
    and free: "output = None \<longrightarrow> fsys out = None"
    by (auto simp: decrypt_write_def Let_def out_def [symmetric] split: if_splits write_result.splits; metis order_refl)
  have "release_place fsys output input out"
    using free text_file_name_no_sep [of "eh_orig_name h"]
    by (auto simp: release_place_def out_def output_path_def path_join_def list_all_iff list_ex_iff split: option.split)
  with k show ?thesis by blast
qed simp

lemma cmd_decrypt_cases:
  assumes "cmd_decrypt l dl wi from_json keyfile cfg writes output input d fsys q = Some res"
  obtains (kept) e where "dr_files res = fsys" and "dr_result res = Inl e"
  | (released) env h p agent body where "fsys input = Some env"
      and "envelope_open l env (snd (load_decrypt_keyring (dl_io dl) (dl_dp dl) wi keyfile d)) = Inr (h, p)"
      and "usb_incident_body dl (decrypted_incident h (hex (env_sha256 l p)) (hex (env_sha256 l env)) agent) = Some body"
      and "server_accepted dl cfg body (dr_sent res)
        \<or> enqueue (dl_fs dl) DEFAULT_CAP (dl_now dl) (dl_pid dl) body q = Some (Inr (), dr_queue res)"
      and "dr_files res = snd (decrypt_write writes output input (envelope_name_of input) h p fsys)"
      and "(\<exists>e. dr_result res = Inl e) \<or> (\<exists>x. fst (decrypt_write writes output input (envelope_name_of input) h p fsys) = Inr x)"
proof -
  from assms obtain env where env: "fsys input = Some env" by (auto simp: cmd_decrypt_def split: option.splits)
  obtain w ring where ring: "load_decrypt_keyring (dl_io dl) (dl_dp dl) wi keyfile d = (w, ring)" by fastforce
  define agent where "agent = agent_id_of (dl_io dl) from_json (left_by d w)"
  define audit where "audit inc = decrypt_audit dl cfg (left_by d w) inc q" for inc
  define put where "put h p = decrypt_write writes output input (envelope_name_of input) h p fsys" for h p
  obtain effects r where run: "decrypt_envelope l env (envelope_name_of input) ring agent
      (\<lambda>inc. case audit inc of Some (ok, _) \<Rightarrow> ok | None \<Rightarrow> False) (\<lambda>h p. case put h p of (Inr _, _) \<Rightarrow> True | (Inl _, _) \<Rightarrow> False)
      = (effects, r)" by fastforce
  note cmd = assms [unfolded cmd_decrypt_def Let_def env ring option.case prod.case, folded agent_def audit_def put_def,
      unfolded run prod.case]
  from decrypt_envelope_effects [OF run] show thesis
  proof (elim disjE exE conjE)
    fix i e assume "effects = [Audit i]" "r = Inl e"
    then show thesis using cmd by (auto split: option.splits intro: kept)
  next
    fix i h p
    assume e: "effects = [Audit i, Write_Plaintext h p]" and ok: "case audit i of Some (ok, _) \<Rightarrow> ok | None \<Rightarrow> False"
      and opened: "envelope_open l env ring = Inr (h, p)"
      and i: "i = decrypted_incident h (hex (env_sha256 l p)) (hex (env_sha256 l env)) agent"
      and r: "(case put h p of (Inr _, _) \<Rightarrow> True | (Inl _, _) \<Rightarrow> False) \<longleftrightarrow> (\<exists>sm. r = Inr sm)"
    from ok obtain sent q' where a: "audit i = Some (True, sent, q')" by (auto split: option.splits)
    then have res: "res = \<lparr>dr_result = r, dr_files = snd (put h p), dr_sent = sent, dr_queue = q'\<rparr>" using cmd by (simp add: e)
    have "(\<exists>e. r = Inl e) \<or> (\<exists>x. fst (put h p) = Inr x)"
      using r by (cases r; cases "put h p"; cases "fst (put h p)") auto
    moreover obtain body where "usb_incident_body dl i = Some body"
      "server_accepted dl cfg body sent \<or> enqueue (dl_fs dl) DEFAULT_CAP (dl_now dl) (dl_pid dl) body q = Some (Inr (), q')"
      using decrypt_audit_accepted [OF a [unfolded audit_def]] by blast
    ultimately show thesis using env ring opened i by (intro released [of env h p agent body]) (simp_all add: res put_def)
  qed
qed

text \<open>
  C16. Plaintext is released on the record. Whatever the envelope, the key file, the server, the queue and the disk do: when the
  decrypt command changes a file, the envelope opened under the agent's keyring to a plaintext, the incident of exactly this decrypt was
  accepted by the server or put into the queue, and the change is one file with the plaintext or, when writing failed, the
  beginning of it. Success is reported only for the whole plaintext. Without \<open>-o\<close> the file did not exist before, its name has no
  separator and it stands beside the envelope, unless the name carries a drive.
\<close>

theorem decrypt_on_the_record:
  "case cmd_decrypt l dl wi from_json keyfile cfg writes output input d fsys q of
     None \<Rightarrow> True
   | Some res \<Rightarrow>
       (dr_files res = fsys \<and> (\<exists>e. dr_result res = Inl e))
     \<or> (\<exists>env h p agent body out k. fsys input = Some env
         \<and> envelope_open l env (snd (load_decrypt_keyring (dl_io dl) (dl_dp dl) wi keyfile d)) = Inr (h, p)
         \<and> usb_incident_body dl (decrypted_incident h (hex (env_sha256 l p)) (hex (env_sha256 l env)) agent) = Some body
         \<and> (server_accepted dl cfg body (dr_sent res)
              \<or> enqueue (dl_fs dl) DEFAULT_CAP (dl_now dl) (dl_pid dl) body q = Some (Inr (), dr_queue res))
         \<and> dr_files res = fsys(out \<mapsto> take k p) \<and> ((\<exists>e. dr_result res = Inl e) \<or> take k p = p)
         \<and> release_place fsys output input out)"
proof (cases "cmd_decrypt l dl wi from_json keyfile cfg writes output input d fsys q")
  case (Some res)
  then show ?thesis
  proof (cases rule: cmd_decrypt_cases)
    case (kept e)
    then show ?thesis by (simp add: Some)
  next
    case (released env h p agent body)
    obtain r' fsys' where w: "decrypt_write writes output input (envelope_name_of input) h p fsys = (r', fsys')" by fastforce
    from decrypt_write_outcome [OF w] released(1-4) released(5-6) [unfolded w fst_conv snd_conv] show ?thesis
      by (simp add: Some) (metis sum.distinct(1))
  qed
qed simp

text \<open>An authenticated name whose last component carries a drive is joined away from the input's directory.\<close>

lemma drive_name_leaves_directory:
  assumes "eh_orig_name h = lit ''a/D:x''"
  shows "output_path None [lit ''C:'', lit ''docs'', lit ''f.dlpenc''] n h = [lit ''D:x'']"
  by (simp add: output_path_def assms path_join_def) code_simp

section \<open>The shared state\<close>

text \<open>The files of the identity, which no worker writes.\<close>

definition identity_files :: "ustring list" where
  "identity_files = [IDENTITY_FILE, CA_FILE, META_FILE]"

lemma identity_not_written:
  "f \<in> set identity_files \<Longrightarrow> f \<noteq> POLICY_FILE \<and> f \<noteq> INDEX_FILE \<and> f \<noteq> INDEX_TMP \<and> f \<noteq> KEYRING_FILE \<and> f \<noteq> TRUSTED_DEST_FILE"
  by (auto simp: identity_files_def file_names lit_def)

lemma checkin_turn_shared: "ep_shared (checkin_turn net io m api parse_json s) = ep_shared s"
  by (simp add: checkin_turn_def Let_def split: prod.split sum.split)

lemma checkin_turn_frame:
  "f \<in> set identity_files \<Longrightarrow> ep_dir (checkin_turn net io m api parse_json s) f = ep_dir s f"
  using identity_not_written [of f] checkin_frame [of net io "mc_dp m" "mc_wi m" "mc_ho m" "ep_shared s" "ep_dir s" _ _ _ f]
    update_index_frame [of net io "mc_dp m" api parse_json "ep_shared s" _ _ _ _ _ f]
  by (fastforce simp: checkin_turn_def Let_def split: prod.split sum.split)

lemma resync_turn_frame:
  "f \<noteq> KEYRING_FILE \<Longrightarrow> f \<noteq> TRUSTED_DEST_FILE \<Longrightarrow> ep_dir (resync_turn net io m base s) f = ep_dir s f"
  using sync_frame [of net io "mc_dp m" "mc_wi m" base "ep_dir s" _ _ _ f]
  by (auto simp: resync_turn_def Let_def split: prod.split)

text \<open>A cached bundle that was there at the start, none, or one that loads under the CA.\<close>

definition index_trusted ::
  "('cert, 'key, 'sig) signature_api \<Rightarrow> (bytes \<Rightarrow> header option) \<Rightarrow> state_dir \<Rightarrow> state_dir \<Rightarrow> bool" where
  "index_trusted api parse_json d0 d \<longleftrightarrow>
     d INDEX_FILE = d0 INDEX_FILE \<or> d INDEX_FILE = None
     \<or> (\<exists>bs ca b. d INDEX_FILE = Some bs \<and> d0 CA_FILE = Some ca \<and> load api parse_json bs ca = Inr b \<and> bundle_wf b)"

lemma load_identity_ca: "load_identity io dp d = Inr (pem, ca) \<Longrightarrow> d CA_FILE = Some ca"
  by (auto simp: load_identity_def ok_or_def file_read_def split: if_splits option.splits)

lemma update_index_trusted:
  assumes "update_index_bundle net io dp api parse_json cfg latest d = (sent, tr, r)" and "d CA_FILE = d0 CA_FILE"
    and "index_trusted api parse_json d0 d"
  shows "index_trusted api parse_json d0 (left_by d tr)"
proof -
  have "list_all (cache_sound io dp api parse_json d) (d # tr)"
    using update_index_states [where net = net and io = io and dp = dp and api = api and parse_json = parse_json and cfg = cfg and latest = latest and d = d]
      assms(1) by simp
  then have "cache_sound io dp api parse_json d (left_by d tr)"
    unfolding left_by_def list_all_iff using last_in_set [of "d # tr"] by blast
  then show ?thesis using assms(2,3) load_identity_ca [of io dp d]
    by (auto simp: cache_sound_def index_trusted_def verified_bundle_def split: option.splits)
qed

lemma checkin_turn_trusted:
  assumes "index_trusted api parse_json d0 (ep_dir s)" and "ep_dir s CA_FILE = d0 CA_FILE"
  shows "index_trusted api parse_json d0 (ep_dir (checkin_turn net io m api parse_json s))"
proof -
  obtain sent tr r where c: "checkin_full net io (mc_dp m) (mc_wi m) (mc_ho m) (ep_shared s) (ep_dir s) = (sent, tr, r)"
    by (metis prod_cases3)
  have ne: "INDEX_FILE \<noteq> POLICY_FILE" "CA_FILE \<noteq> POLICY_FILE" by (simp_all add: file_names lit_def)
  have "index_trusted api parse_json d0 (left_by (ep_dir s) tr)" "left_by (ep_dir s) tr CA_FILE = d0 CA_FILE"
    using assms checkin_frame [OF c] ne by (simp_all add: index_trusted_def)
  then show ?thesis by (auto simp: checkin_turn_def c Let_def split: sum.split prod.split dest: update_index_trusted)
qed

text \<open>The invariant of the shared state, over a start.\<close>

definition endpoint_inv ::
  "('cert, 'key, 'sig) signature_api \<Rightarrow> (bytes \<Rightarrow> header option) \<Rightarrow> config \<Rightarrow> state_dir \<Rightarrow> endpoint \<Rightarrow> bool" where
  "endpoint_inv api parse_json base d0 s \<longleftrightarrow>
     (\<exists>dests. ep_shared s = with_synced_destinations base dests)
     \<and> (\<forall>f \<in> set identity_files. ep_dir s f = d0 f) \<and> index_trusted api parse_json d0 (ep_dir s)"

lemma endpoint_start_inv: "endpoint_inv api parse_json base (ep_dir (endpoint_start net io m km ca base d)) (endpoint_start net io m km ca base d)"
  by (auto simp: endpoint_inv_def endpoint_start_def Let_def index_trusted_def)

lemma endpoint_step_inv:
  assumes "endpoint_step m api parse_json base s s'" and "endpoint_inv api parse_json base d0 s"
  shows "endpoint_inv api parse_json base d0 s'"
  using assms
proof cases
  case (checks_in net io)
  have "CA_FILE \<in> set identity_files" by (simp add: identity_files_def)
  with assms(2) show ?thesis unfolding checks_in
    by (auto simp: endpoint_inv_def checkin_turn_shared checkin_turn_frame intro: checkin_turn_trusted)
next
  case (resyncs net io)
  have "INDEX_FILE \<noteq> KEYRING_FILE" "INDEX_FILE \<noteq> TRUSTED_DEST_FILE" by (simp_all add: file_names lit_def)
  moreover have "\<exists>dests. ep_shared (resync_turn net io m base s) = with_synced_destinations base dests"
    by (auto simp: resync_turn_def Let_def split: prod.split)
  ultimately show ?thesis using assms(2) identity_not_written unfolding resyncs
    by (auto simp: endpoint_inv_def index_trusted_def resync_turn_frame)
qed (simp_all add: endpoint_inv_def sealer_start_def Let_def)

lemma endpoint_reachable_inv:
  assumes "(endpoint_step m api parse_json base)\<^sup>*\<^sup>* s s'" and "endpoint_inv api parse_json base d0 s"
  shows "endpoint_inv api parse_json base d0 s'"
  using assms by induction (auto intro: endpoint_step_inv)

lemma merged_at_least:
  "fst (usb_decide (to_policy (merge_into_usb c dests)) dev) = fst (usb_decide (to_policy c) dev)
   \<or> Encrypt \<le> fst (usb_decide (to_policy (merge_into_usb c dests)) dev)"
  using merged_decides [where dests = dests and dev = dev and c = c] by (auto split: option.splits)

text \<open>
  C17. The workers keep what was decided. In every state the endpoint mode reaches, by any interleaving of the sealer, the
  check-ins and the re-syncs and whatever the server and the disk answer: the shared configuration is the local one but for the devices,
  and a device is decided as configured locally or at least with encryption; the identity, the pinned CA and the meta data
  are those of the start; and the cached bundle is the one at the start, none, or a well-formed one that the pinned CA vouches for.
\<close>

theorem endpoint_keeps_policy:
  assumes "(endpoint_step m api parse_json base)\<^sup>*\<^sup>* (endpoint_start net io m km ca_file base d) s"
  shows "ep_shared s\<lparr>cfg_usb := cfg_usb base\<rparr> = base
    \<and> (fst (usb_decide (to_policy (cfg_usb (ep_shared s))) dev) = fst (usb_decide (to_policy (cfg_usb base)) dev)
        \<or> Encrypt \<le> fst (usb_decide (to_policy (cfg_usb (ep_shared s))) dev))
    \<and> list_all (\<lambda>f. ep_dir s f = ep_dir (endpoint_start net io m km ca_file base d) f) [IDENTITY_FILE, CA_FILE, META_FILE]
    \<and> index_trusted api parse_json (ep_dir (endpoint_start net io m km ca_file base d)) (ep_dir s)"
proof -
  from endpoint_reachable_inv [OF assms endpoint_start_inv] obtain dests where
    e: "ep_shared s = with_synced_destinations base dests"
    and f: "\<forall>f \<in> set identity_files. ep_dir s f = ep_dir (endpoint_start net io m km ca_file base d) f"
    and t: "index_trusted api parse_json (ep_dir (endpoint_start net io m km ca_file base d)) (ep_dir s)"
    by (auto simp: endpoint_inv_def)
  from f have "list_all (\<lambda>f. ep_dir s f = ep_dir (endpoint_start net io m km ca_file base d) f) [IDENTITY_FILE, CA_FILE, META_FILE]"
    by (simp add: identity_files_def)
  moreover have "ep_shared s\<lparr>cfg_usb := cfg_usb base\<rparr> = base" by (simp add: e with_synced_destinations_def)
  ultimately show ?thesis using t merged_at_least [of "cfg_usb base" dests dev] by (simp add: e with_synced_destinations_def)
qed

definition example_machine :: machine where
  "example_machine = \<lparr>mc_dp = plain_dpapi, mc_wi = example_wire, mc_ho = \<lparr>ho_hostname = [], ho_os = [], ho_version = []\<rparr>, mc_keyfile = None\<rparr>"

lemma endpoint_keeps_policy_witness:
  "\<forall>base. let s0 = endpoint_start example_network sound_io example_machine example_maker None base enrolled_dir
     in ep_shared (resync_turn example_network sound_io example_machine base s0)\<lparr>cfg_usb := cfg_usb base\<rparr> = base"
proof
  fix base
  define s0 where "s0 = endpoint_start example_network sound_io example_machine example_maker None base enrolled_dir"
  have "(endpoint_step example_machine example_api example_json base)\<^sup>*\<^sup>* s0
      (resync_turn example_network sound_io example_machine base s0)"
    using resyncs by (rule r_into_rtranclp)
  from endpoint_keeps_policy [OF this [unfolded s0_def]]
  show "let s0 = endpoint_start example_network sound_io example_machine example_maker None base enrolled_dir
     in ep_shared (resync_turn example_network sound_io example_machine base s0)\<lparr>cfg_usb := cfg_usb base\<rparr> = base"
    by (simp only: Let_def)
qed

text \<open>An agent that could not enrol at the start is not enrolled by the workers: they retry check-in, not enrolment.\<close>

lemma enrolment_not_retried:
  assumes "(endpoint_step m api parse_json base)\<^sup>*\<^sup>* (endpoint_start net io m km ca_file base d) s"
    and "\<not> has_identity (ep_dir (endpoint_start net io m km ca_file base d))"
  shows "\<not> has_identity (ep_dir s)"
  using endpoint_reachable_inv [OF assms(1) endpoint_start_inv] assms(2)
  by (simp add: endpoint_inv_def identity_files_def has_identity_def file_exists_def)

text \<open>
  The sealer keeps the keyring it was started with. When it started without one and a re-sync then delivers keys, the
  signal is healthy at the next poll, so the guard lets writes pass that are to be sealed, and every call of the sealer fails and leaves the plaintext.
\<close>

lemma healthy_without_keyring:
  fixes net io' base
  assumes "ep_sealer s = None" and "build_sealer_keyring io (mc_dp m) (mc_wi m) (mc_keyfile m) (ep_dir s) = None"
  defines "s1 \<equiv> sealer_start io m s" and "s2 \<equiv> resync_turn net io' m base (sealer_start io m s)"
  assumes "build_sealer_keyring io' (mc_dp m) (mc_wi m) (mc_keyfile m) (ep_dir s2) \<noteq> None"
  shows "\<exists>s3. (endpoint_step m api parse_json base)\<^sup>*\<^sup>* s s3 \<and> is_healthy_at (ep_health s3) now timeout
    \<and> ep_sealer s3 = Some None
    \<and> (\<exists>e. make_sealer l drawn fio show_key show_error now_unix (the (ep_sealer s3)) agent p key vol = (Inl e, vol))"
proof -
  let ?s3 = "s2\<lparr>ep_health := mark_alive now (ep_health s2)\<rparr>"
  have s1: "ep_sealer s1 = Some None" by (simp add: s1_def sealer_start_def Let_def assms(2))
  then have s2: "ep_sealer s2 = Some None" by (simp add: s2_def s1_def resync_turn_def Let_def split: prod.split)
  have "endpoint_step m api parse_json base s s1" unfolding s1_def using assms(1) by (rule sealer_starts)
  moreover have "endpoint_step m api parse_json base s1 s2" unfolding s1_def s2_def by (rule resyncs)
  moreover have "endpoint_step m api parse_json base s2 ?s3" using s2 by (rule sealer_polls)
  ultimately have "(endpoint_step m api parse_json base)\<^sup>*\<^sup>* s ?s3" by (meson converse_rtranclp_into_rtranclp r_into_rtranclp)
  moreover have "sh_keyring_present (ep_health s2)"
    using assms(5) by (auto simp: s2_def resync_turn_def Let_def set_keyring_present_def split: prod.splits)
  then have "is_healthy_at (ep_health ?s3) now timeout"
    by (auto simp: is_healthy_at_def mark_alive_def saturating_sub_def Let_def max_def)
  moreover have "ep_sealer ?s3 = Some None" by (simp add: s2)
  moreover have "\<exists>e. make_sealer l drawn fio show_key show_error now_unix (the (ep_sealer ?s3)) agent p key vol = (Inl e, vol)"
    by (simp add: s2 make_sealer_def)
  ultimately show ?thesis by blast
qed

end
