(* ===== verification/Browser_Host.thy ===== *)
theory Browser_Host
  imports Config Usb_Incident
begin

text \<open>
  The browser's native-messaging host, \<open>browser_host.rs\<close>: the framing, the mapping of a verdict to a
  disposition, the handling of a request and the loop over the input. The input is the bytes that can still be
  read; the output is the bytes written so far. The JSON and base64 codecs and the scanners are parameters.
\<close>

definition MAX_MESSAGE_BYTES :: nat where
  "MAX_MESSAGE_BYTES = 8 * 1024 * 1024"

definition MAX_SCAN_BYTES :: nat where
  "MAX_SCAN_BYTES = 4 * 1024 * 1024"

datatype scan_kind = ScanText | ScanFile | ScanBytes

record request =
  rq_version :: u32
  rq_kind :: scan_kind
  rq_text :: "ustring option"
  rq_path :: "ustring option"
  rq_content_b64 :: "ustring option"
  rq_url :: ustring
  rq_origin :: ustring
  rq_id :: u64

datatype web_verdict = WV_Allow | WV_Block | WV_Warn

record match_info =
  mi_title :: ustring
  mi_containment :: f64

record reply =
  rp_version :: u32
  rp_id :: u64
  rp_verdict :: web_verdict
  rp_reason :: "ustring option"
  rp_match :: "match_info option"

definition reply_new :: "u64 \<Rightarrow> web_verdict \<Rightarrow> ustring option \<Rightarrow> match_info option \<Rightarrow> reply" where
  "reply_new i v reason m = \<lparr>rp_version = 1, rp_id = i, rp_verdict = v, rp_reason = reason, rp_match = m\<rparr>"

section \<open>Framing\<close>

datatype io_error = InvalidData | UnexpectedEof | WriteError

text \<open>\<open>read_exact\<close>: the bytes asked for, or the end of the input before they are complete.\<close>

definition read_exact :: "nat \<Rightarrow> bytes \<Rightarrow> (bytes \<times> bytes) option" where
  "read_exact n input = (if n \<le> length input then Some (take n input, drop n input) else None)"

definition read_message :: "bytes \<Rightarrow> io_error + (bytes \<times> bytes) option" where
  "read_message input =
     (case read_exact 4 input of
        None \<Rightarrow> Inr None
      | Some (len_buf, rest) \<Rightarrow>
          let n = le_nat len_buf
          in if MAX_MESSAGE_BYTES < n then Inl InvalidData
             else case read_exact n rest of None \<Rightarrow> Inl UnexpectedEof | Some r \<Rightarrow> Inr (Some r))"

text \<open>The length is cast to 32 bits.\<close>

definition write_message :: "bytes \<Rightarrow> bytes" where
  "write_message bs = to_le 4 (length bs mod 2 ^ 32) @ bs"

section \<open>Requests\<close>

definition map_verdict :: "verdict \<Rightarrow> f64 \<Rightarrow> f64 \<Rightarrow> web_verdict \<times> match_info option" where
  "map_verdict v block_at coverage_block_at =
     (let strongest = (case vd_idm v of [] \<Rightarrow> None | m # _ \<Rightarrow> Some \<lparr>mi_title = im_title m, mi_containment = im_containment m\<rparr>);
          block = (vd_edm v \<noteq> []
            \<or> list_ex (\<lambda>m. f64_ge (im_containment m) block_at \<or> f64_ge (im_coverage m) coverage_block_at) (vd_idm v))
      in if block then (WV_Block, strongest)
         else if vd_idm v \<noteq> [] \<or> vd_edm v \<noteq> [] then (WV_Warn, strongest)
         else (WV_Allow, None))"

text \<open>
  The scanners: on text, on the file at a path (which may fail with a message), and on bytes with a name. The
  base64 decoder fails with a message.
\<close>

record scanners =
  sc_text :: "ustring \<Rightarrow> verdict"
  sc_file :: "ustring \<Rightarrow> ustring + verdict"
  sc_bytes :: "bytes \<Rightarrow> ustring \<Rightarrow> verdict"
  sc_b64 :: "ustring \<Rightarrow> ustring + bytes"
  sc_file_name :: "ustring \<Rightarrow> ustring option"

record handled =
  hd_reply :: reply
  hd_incident :: "(verdict \<times> ustring) option"

definition scan_request :: "scanners \<Rightarrow> request \<Rightarrow> ustring + verdict" where
  "scan_request sc req =
     (case rq_kind req of
        ScanText \<Rightarrow>
          (case rq_text req of
             Some t \<Rightarrow> Inr (sc_text sc t) | None \<Rightarrow> Inl (lit ''scan_text request without text''))
      | ScanFile \<Rightarrow>
          (case rq_path req of
             Some p \<Rightarrow> (case sc_file sc p of Inl e \<Rightarrow> Inl (lit ''file scan failed: '' @ e) | Inr v \<Rightarrow> Inr v)
           | None \<Rightarrow> Inl (lit ''scan_file request without path''))
      | ScanBytes \<Rightarrow>
          (case rq_content_b64 req of
             Some b64 \<Rightarrow>
               (case sc_b64 sc b64 of
                  Inr bs \<Rightarrow>
                    let bs' = (if MAX_SCAN_BYTES < length bs then take MAX_SCAN_BYTES bs else bs);
                        name = (case Option.bind (rq_path req) (sc_file_name sc) of Some n \<Rightarrow> n | None \<Rightarrow> lit ''upload'')
                    in Inr (sc_bytes sc bs' name)
                | Inl e \<Rightarrow> Inl (lit ''scan_bytes base64 decode failed: '' @ e))
           | None \<Rightarrow> Inl (lit ''scan_bytes request without content_b64'')))"

definition request_label :: "scanners \<Rightarrow> request \<Rightarrow> ustring" where
  "request_label sc req =
     (if rq_kind req = ScanText then lit ''(web upload text)''
      else case rq_path req of
             Some p \<Rightarrow> (case sc_file_name sc p of Some n \<Rightarrow> n | None \<Rightarrow> p)
           | None \<Rightarrow> lit ''(web upload file)'')"

definition handle_request :: "scanners \<Rightarrow> f64 \<Rightarrow> f64 \<Rightarrow> request \<Rightarrow> handled" where
  "handle_request sc block_at coverage_block_at req =
     (case scan_request sc req of
        Inr v \<Rightarrow>
          (let (disp, mi) = map_verdict v block_at coverage_block_at;
               reason = (case disp of
                   WV_Allow \<Rightarrow> None
                 | WV_Block \<Rightarrow> Some (lit ''matched protected content'')
                 | WV_Warn \<Rightarrow> Some (lit ''partial match '' @ [8212] @ lit '' audited''));
               incident = (if disp \<noteq> WV_Allow then Some (v, request_label sc req) else None)
           in \<lparr>hd_reply = reply_new (rq_id req) disp reason mi, hd_incident = incident\<rparr>)
      | Inl reason \<Rightarrow> \<lparr>hd_reply = reply_new (rq_id req) WV_Allow (Some reason) None, hd_incident = None\<rparr>)"

definition web_incident :: "verdict \<Rightarrow> ustring \<Rightarrow> bool \<Rightarrow> ustring \<Rightarrow> ustring \<Rightarrow> ustring \<Rightarrow> usb_incident" where
  "web_incident v label blocked url origin channel =
     \<lparr>ui_kind = IK_Match, ui_channel = channel, ui_file_name = label, ui_file_sha256 = vd_file_sha256 v, ui_verdict = Some v,
      ui_device = \<lparr>dev_drive_letter = [], dev_vendor_id = [], dev_product_id = [], dev_serial = [], dev_product_name = origin,
        dev_bus_type = lit ''web'', dev_removable = False\<rparr>,
      ui_action_taken = (if blocked then AT_Blocked else AT_Audited),
      ui_note = Some (lit ''url='' @ url @ lit '' origin='' @ origin), ui_key_id = None, ui_sealed_sha256 = None\<rparr>"

section \<open>The loop\<close>

text \<open>
  The requests are decoded and the replies encoded by the JSON codec; encoding or writing may fail, which ends
  the loop. The effects are the incidents raised and the frames written, in order.
\<close>

datatype host_effect = HE_Incident usb_incident | HE_Reply bytes

record host_codec =
  hc_decode :: "bytes \<Rightarrow> request option"
  hc_encode :: "reply \<Rightarrow> bytes option"

definition serve_one :: "host_codec \<Rightarrow> scanners \<Rightarrow> f64 \<Rightarrow> f64 \<Rightarrow> ustring \<Rightarrow> bytes \<Rightarrow> host_effect list \<times> bool" where
  "serve_one c sc block_at coverage_block_at channel body =
     (case hc_decode c body of
        None \<Rightarrow> ([], True)
      | Some req \<Rightarrow>
          let handled = handle_request sc block_at coverage_block_at req;
              blocked = (rp_verdict (hd_reply handled) = WV_Block);
              incs = (case hd_incident handled of
                        Some (v, label) \<Rightarrow> [HE_Incident (web_incident v label blocked (rq_url req) (rq_origin req) channel)]
                      | None \<Rightarrow> [])
          in case hc_encode c (hd_reply handled) of
               None \<Rightarrow> (incs, False)
             | Some bs \<Rightarrow> (incs @ [HE_Reply (write_message bs)], True))"

lemma read_message_shorter: "read_message input = Inr (Some (body, rest)) \<Longrightarrow> length rest < length input"
  by (auto simp: read_message_def read_exact_def Let_def split: if_splits)

function serve :: "host_codec \<Rightarrow> scanners \<Rightarrow> f64 \<Rightarrow> f64 \<Rightarrow> ustring \<Rightarrow> bytes \<Rightarrow> host_effect list \<times> (io_error + unit)" where
  "serve c sc block_at coverage_block_at channel input =
     (case read_message input of
        Inl e \<Rightarrow> ([], Inl e)
      | Inr None \<Rightarrow> ([], Inr ())
      | Inr (Some (body, rest)) \<Rightarrow>
          let (es, ok) = serve_one c sc block_at coverage_block_at channel body
          in if \<not> ok then (es, Inl InvalidData)
             else let (es', r) = serve c sc block_at coverage_block_at channel rest in (es @ es', r))"
  by pat_completeness auto
termination
  by (relation "measure (\<lambda>(c, sc, b, cv, ch, input). length input)") (auto dest: read_message_shorter)

declare serve.simps [simp del]

section \<open>Framing round trip\<close>

lemma read_message_frame:
  assumes "length body \<le> MAX_MESSAGE_BYTES"
  shows "read_message (write_message body @ rest) = Inr (Some (body, rest))"
proof -
  have "length body mod 2 ^ 32 = length body" using assms by (simp add: MAX_MESSAGE_BYTES_def)
  then have "le_nat (to_le 4 (length body)) = length body" "write_message body = to_le 4 (length body) @ body"
    by (simp_all add: le_nat_to_le write_message_def)
  with assms show ?thesis by (simp add: read_message_def read_exact_def Let_def)
qed

lemma read_message_end: "length rest < 4 \<Longrightarrow> read_message rest = Inr None"
  by (simp add: read_message_def read_exact_def)

lemma read_message_oversized:
  assumes "MAX_MESSAGE_BYTES < n" and "n < 2 ^ 32"
  shows "read_message (to_le 4 n @ rest) = Inl InvalidData"
  using assms by (simp add: read_message_def read_exact_def Let_def le_nat_to_le)

section \<open>The loop answers every request\<close>

lemma serve_one_effects:
  assumes "\<And>r. hc_encode c r \<noteq> None"
  shows "snd (serve_one c sc ba cv ch body)"
proof (cases "hc_decode c body")
  case (Some req)
  obtain bs where "hc_encode c (hd_reply (handle_request sc ba cv req)) = Some bs" using assms by fastforce
  with Some show ?thesis by (simp add: serve_one_def Let_def)
qed (simp add: serve_one_def)

lemma serve_frames:
  assumes "\<And>r. hc_encode c r \<noteq> None" and "list_all (\<lambda>b. length b \<le> MAX_MESSAGE_BYTES) bodies" and "length rest < 4"
  shows "serve c sc ba cv ch (concat (map write_message bodies) @ rest)
    = (concat (map (\<lambda>b. fst (serve_one c sc ba cv ch b)) bodies), Inr ())"
  using assms(2)
proof (induction bodies)
  case Nil
  show ?case by (subst serve.simps) (simp add: read_message_end [OF assms(3)])
next
  case (Cons b bodies)
  then have "read_message (concat (map write_message (b # bodies)) @ rest) = Inr (Some (b, concat (map write_message bodies) @ rest))"
    using read_message_frame [of b "concat (map write_message bodies) @ rest"] by simp
  with Cons serve_one_effects [OF assms(1), of sc ba cv ch b] show ?case
    by (subst serve.simps) (simp add: case_prod_unfold)
qed

text \<open>The dispositions by the verdict alone.\<close>

definition upload_blocked :: "f64 \<Rightarrow> f64 \<Rightarrow> verdict \<Rightarrow> bool" where
  "upload_blocked ba cv v \<longleftrightarrow> vd_edm v \<noteq> []
     \<or> (\<exists>m \<in> set (vd_idm v). f64_ge (im_containment m) ba \<or> f64_ge (im_coverage m) cv)"

lemma map_verdict_disposition:
  "fst (map_verdict v ba cv) = (if upload_blocked ba cv v then WV_Block else if verdict_has_match v then WV_Warn else WV_Allow)"
  by (auto simp: map_verdict_def upload_blocked_def verdict_has_match_def Let_def list_ex_iff)

definition replies :: "host_effect list \<Rightarrow> bytes list" where
  "replies es = List.map_filter (\<lambda>e. case e of HE_Reply b \<Rightarrow> Some b | HE_Incident _ \<Rightarrow> None) es"

definition incidents :: "host_effect list \<Rightarrow> usb_incident list" where
  "incidents es = List.map_filter (\<lambda>e. case e of HE_Incident i \<Rightarrow> Some i | HE_Reply _ \<Rightarrow> None) es"

lemma map_filter_append: "List.map_filter f (xs @ ys) = List.map_filter f xs @ List.map_filter f ys"
  by (induction xs) (simp_all split: option.split)

lemma effects_concat:
  "replies (concat (map f xs)) = concat (map (\<lambda>x. replies (f x)) xs)"
  "incidents (concat (map f xs)) = concat (map (\<lambda>x. incidents (f x)) xs)"
  by (induction xs; simp add: replies_def incidents_def map_filter_append)+

lemma handle_request_reply:
  "rp_id (hd_reply (handle_request sc ba cv req)) = rq_id req
   \<and> rp_verdict (hd_reply (handle_request sc ba cv req)) =
       (case scan_request sc req of
          Inl _ \<Rightarrow> WV_Allow
        | Inr v \<Rightarrow> if upload_blocked ba cv v then WV_Block else if verdict_has_match v then WV_Warn else WV_Allow)
   \<and> (hd_incident (handle_request sc ba cv req) = None \<longleftrightarrow> rp_verdict (hd_reply (handle_request sc ba cv req)) = WV_Allow)
   \<and> map_option fst (hd_incident (handle_request sc ba cv req)) =
       (case scan_request sc req of Inl _ \<Rightarrow> None | Inr v \<Rightarrow> if verdict_has_match v then Some v else None)"
  by (auto simp: handle_request_def reply_new_def map_verdict_disposition [symmetric] case_prod_unfold Let_def split: sum.split)
    (auto simp: map_verdict_disposition upload_blocked_def verdict_has_match_def split: if_splits)


definition quiet_verdict :: verdict where
  "quiet_verdict = \<lparr>vd_file_name = [], vd_file_sha256 = [], vd_extraction = Extraction_Ok [], vd_idm = [], vd_edm = []\<rparr>"

definition example_request :: request where
  "example_request = \<lparr>rq_version = 1, rq_kind = ScanText, rq_text = Some (lit ''hi''), rq_path = None, rq_content_b64 = None,
     rq_url = [], rq_origin = [], rq_id = 7\<rparr>"

definition example_codec :: host_codec where
  "example_codec = \<lparr>hc_decode = (\<lambda>b. if b = [1] then Some example_request else None), hc_encode = (\<lambda>r. Some [2])\<rparr>"

definition example_scanners :: scanners where
  "example_scanners = \<lparr>sc_text = (\<lambda>_. quiet_verdict), sc_file = (\<lambda>_. Inl []), sc_bytes = (\<lambda>_ _. quiet_verdict),
     sc_b64 = (\<lambda>_. Inl []), sc_file_name = (\<lambda>_. None)\<rparr>"


text \<open>
  Content that cannot be extracted carries no match: the upload is allowed and nothing is recorded.
\<close>

lemma unreadable_upload_allowed:
  assumes "scan_request sc req = Inr v" and "vd_extraction v = Extraction_Unreadable code" and "\<not> verdict_has_match v"
  shows "rp_verdict (hd_reply (handle_request sc ba cv req)) = WV_Allow \<and> hd_incident (handle_request sc ba cv req) = None"
  using assms(1,3) handle_request_reply [of sc ba cv req] by (auto simp: upload_blocked_def verdict_has_match_def)

end
