(* ===== verification/Guard_Session.thy ===== *)
theory Guard_Session
  imports Exfil Kguard "HOL-Library.AList"
begin

text \<open>
  The guard's session with the driver: the sweep of the drive letters (\<open>ntvol\<close> of \<open>kguard/mod.rs\<close>), and \<open>run\<close>, which
  connects, sends the watched prefixes, runs the pusher of process ids beside the message loop and closes the port. What the
  system answers is an argument. Shown: a path is only ever given a letter whose target now is a
  directory prefix of it, and every letter that is mapped is found.
\<close>

section \<open>The drive letters\<close>

definition drive_letter :: "nat \<Rightarrow> ustring" where
  "drive_letter i = [65 + i, 58]"

text \<open>
  One sweep: \<open>query\<close> gives the buffer of a letter that is mapped, a list of strings each ended by a zero. A target
  that two letters share keeps the later one. The order in which the \<open>HashMap\<close> is iterated is a parameter.
\<close>

definition insert_letter :: "(ustring \<Rightarrow> u16 list option) \<Rightarrow> nat \<Rightarrow> volume_map \<Rightarrow> volume_map" where
  "insert_letter query i m =
     (case query (drive_letter i) of
        None \<Rightarrow> m
      | Some buf \<Rightarrow>
          let target = takeWhile (\<lambda>c. c \<noteq> 0) buf
          in if 0 \<in> set buf \<and> target \<noteq> []
             then AList.update (to_ascii_uppercase (from_utf16_lossy (map unat target))) (drive_letter i) m
             else m)"

definition build_map :: "(volume_map \<Rightarrow> volume_map) \<Rightarrow> (ustring \<Rightarrow> u16 list option) \<Rightarrow> volume_map" where
  "build_map hash_order query = hash_order (fold (insert_letter query) [0..<26] [])"

section \<open>The session\<close>

text \<open>What the guard does at its port, in order.\<close>

datatype port_effect =
  PE_Config dlp_config
| PE_Start_Pusher
| PE_Turn "guard_effect list"
| PE_Stop_Pusher
| PE_Close

text \<open>
  \<open>initial\<close> is the configuration at the start; the events carry the one of their time. The result tells a port that could not be
  connected; sending the configuration is best effort. \<open>None\<close> is a panic in the loop.
\<close>

definition guard_run ::
  "bool \<Rightarrow> config \<Rightarrow> scorer option \<Rightarrow> volume_map option \<Rightarrow> guard_event list \<Rightarrow> (port_effect list \<times> (unit + unit)) option" where
  "guard_run connects initial scorer cache evs =
     (if \<not> connects then Some ([], Inl ())
      else
        let pusher = kc_exfil_read_block (cfg_kguard initial)
        in map_option (\<lambda>turns.
             (PE_Config (from_kguard (cfg_kguard initial))
              # (if pusher then [PE_Start_Pusher] else []) @ map PE_Turn turns
              @ (if pusher then [PE_Stop_Pusher] else []) @ [PE_Close], Inr ()))
             (message_loop scorer cache evs))"

text \<open>The pusher with its own connection, which it closes.\<close>

definition pusher_run :: "bool \<Rightarrow> (u32 list \<Rightarrow> u32 list) \<Rightarrow> u32 \<Rightarrow> (os_view \<times> bool) list \<Rightarrow> dlp_exfil_update list" where
  "pusher_run connects hash_order self_pid turns = (if connects then exfil_push_loop hash_order self_pid turns else [])"

section \<open>Letters are found\<close>

text \<open>What a letter stands for at the time of the sweep.\<close>

definition letter_target :: "(ustring \<Rightarrow> u16 list option) \<Rightarrow> nat \<Rightarrow> ustring option" where
  "letter_target query i =
     (case query (drive_letter i) of
        None \<Rightarrow> None
      | Some buf \<Rightarrow>
          if 0 \<in> set buf \<and> hd buf \<noteq> 0 then Some (to_ascii_uppercase (from_utf16_lossy (map unat (takeWhile (\<lambda>c. c \<noteq> 0) buf)))) else None)"

lemma insert_letter_target:
  "insert_letter query i m = (case letter_target query i of Some t \<Rightarrow> AList.update t (drive_letter i) m | None \<Rightarrow> m)"
  by (auto simp: insert_letter_def letter_target_def Let_def takeWhile_eq_Nil_iff split: option.split)

definition covers :: "ustring \<Rightarrow> ustring \<Rightarrow> bool" where
  "covers t p \<longleftrightarrow> (\<exists>rest. to_ascii_uppercase p = t @ rest \<and> (rest = [] \<or> hd rest = 92))"

lemma covers_iff:
  "covers t p \<longleftrightarrow> (case strip_prefix t (to_ascii_uppercase p) of Some rest \<Rightarrow> rest = [] \<or> starts_with rest [92] | None \<Rightarrow> False)"
proof -
  have "starts_with rest [92] \<longleftrightarrow> rest \<noteq> [] \<and> hd rest = (92 :: nat)" for rest
    by (cases rest) (auto simp: starts_with_def)
  then show ?thesis
    by (auto simp: covers_def strip_prefix_def starts_with_iff split: option.splits if_splits)
qed

lemma letter_for_nt_prefix_Some:
  "letter_for_nt_prefix m p = Some l \<Longrightarrow> \<exists>t. (t, l) \<in> set m \<and> covers t p"
  by (induction m p rule: letter_for_nt_prefix.induct) (fastforce simp: covers_iff split: option.splits if_splits)+

lemma letter_for_nt_prefix_None:
  "letter_for_nt_prefix m p = None \<longleftrightarrow> (\<forall>(t, l) \<in> set m. \<not> covers t p)"
  by (induction m p rule: letter_for_nt_prefix.induct) (fastforce simp: covers_iff split: option.splits if_splits)+

lemma in_set_update: "x \<in> set (AList.update k v m) \<Longrightarrow> x = (k, v) \<or> x \<in> set m"
  by (induction m) (auto split: if_splits)

lemma swept:
  "(t, l) \<in> set (fold (insert_letter query) is m) \<Longrightarrow> (t, l) \<in> set m \<or> (\<exists>i \<in> set is. letter_target query i = Some t \<and> l = drive_letter i)"
proof (induction "is" arbitrary: m)
  case (Cons i "is")
  have "(t, l) \<in> set (insert_letter query i m) \<Longrightarrow> (t, l) \<in> set m \<or> letter_target query i = Some t \<and> l = drive_letter i"
    by (auto simp: insert_letter_target update_conv' dest: in_set_update split: option.splits)
  with Cons show ?case by fastforce
qed simp

lemma swept_all:
  "i \<in> set is \<Longrightarrow> letter_target query i = Some t \<Longrightarrow> t \<in> fst ` set (fold (insert_letter query) is m)"
proof (induction "is" arbitrary: m)
  case (Cons j "is")
  have keep: "t \<in> fst ` set m \<Longrightarrow> t \<in> fst ` set (fold (insert_letter query) js m)" for m js
    by (induction js arbitrary: m) (auto simp: insert_letter_target dom_update split: option.split)
  show ?case
  proof (cases "i = j")
    case True
    with Cons.prems have "t \<in> fst ` set (insert_letter query j m)" by (simp add: insert_letter_target dom_update)
    from keep [OF this] show ?thesis by simp
  qed (use Cons in simp)
qed simp

lemma sweep_exact:
  assumes "\<And>m. set (hash_order m) = set m"
  shows "(letter_for_nt_prefix (build_map hash_order query) p = Some l
            \<longrightarrow> (\<exists>i < 26. l = drive_letter i \<and> (\<exists>t. letter_target query i = Some t \<and> covers t p)))
    \<and> (letter_for_nt_prefix (build_map hash_order query) p = None
            \<longleftrightarrow> (\<forall>i < 26. \<forall>t. letter_target query i = Some t \<longrightarrow> \<not> covers t p))"
proof -
  let ?m = "fold (insert_letter query) [0..<26] []"
  have b: "set (build_map hash_order query) = set ?m" by (simp add: build_map_def assms)
  have "\<exists>i < 26. l = drive_letter i \<and> (\<exists>t. letter_target query i = Some t \<and> covers t p)"
    if "letter_for_nt_prefix (build_map hash_order query) p = Some l"
    using letter_for_nt_prefix_Some [OF that] swept [of _ l query "[0..<26]" "[]"] unfolding b by fastforce
  moreover have "letter_for_nt_prefix (build_map hash_order query) p = None
      \<longleftrightarrow> (\<forall>i < 26. \<forall>t. letter_target query i = Some t \<longrightarrow> \<not> covers t p)"
    unfolding letter_for_nt_prefix_None b
    using swept [of _ _ query "[0..<26]" "[]"] swept_all [of _ "[0..<26]" query _ "[]"] by fastforce
  ultimately show ?thesis by blast
qed

text \<open>The port is closed last and the pusher ended before.\<close>

lemma guard_run_closes:
  assumes "guard_run True initial scorer cache evs = Some (es, r)"
  shows "last es = PE_Close \<and> count_list es PE_Close = 1
    \<and> count_list es PE_Start_Pusher = count_list es PE_Stop_Pusher \<and> r = Inr ()"
proof -
  have "count_list (map PE_Turn turns) PE_Close = 0" "count_list (map PE_Turn turns) PE_Start_Pusher = 0"
    "count_list (map PE_Turn turns) PE_Stop_Pusher = 0" for turns
    by (auto simp: count_list_0_iff)
  with assms show ?thesis
    by (cases "kc_exfil_read_block (cfg_kguard initial)") (auto simp: guard_run_def Let_def)
qed

end
