(* ===== verification/Clip_Formats.thy ===== *)
theory Clip_Formats
  imports Extract
begin

text \<open>
  The clipboard's formats, \<open>clipboard/formats.rs\<close>: decoding of the text and file-drop blobs and the
  stripping of HTML and RTF to text. A slice or index out of range would panic and is \<open>None\<close>.
\<close>

section \<open>Formats\<close>

datatype clipboard_payload =
  CP_Text ustring
| CP_Files "ustring list"
| CP_Image
| CP_Uninspected ustring

definition CF_BITMAP :: u32 where "CF_BITMAP = 2"
definition CF_DIB :: u32 where "CF_DIB = 8"
definition CF_DIBV5 :: u32 where "CF_DIBV5 = 17"
definition CF_HDROP :: u32 where "CF_HDROP = 15"
definition CF_UNICODETEXT :: u32 where "CF_UNICODETEXT = 13"

definition is_image_format :: "u32 \<Rightarrow> bool" where
  "is_image_format fmt \<longleftrightarrow> fmt = CF_BITMAP \<or> fmt = CF_DIB \<or> fmt = CF_DIBV5"

text \<open>The units up to the first NUL; a dangling byte is not a unit.\<close>

fun units_to_nul :: "nat list \<Rightarrow> nat list" where
  "units_to_nul [] = []"
| "units_to_nul (u # us) = (if u = 0 then [] else u # units_to_nul us)"

definition parse_unicode_text :: "bytes \<Rightarrow> ustring" where
  "parse_unicode_text bs = from_utf16_lossy (units_to_nul (utf16_pairs False bs))"

section \<open>File drops\<close>

definition DROPFILES_MIN :: nat where "DROPFILES_MIN = 20"
definition OFF_PFILES :: nat where "OFF_PFILES = 0"
definition OFF_FWIDE :: nat where "OFF_FWIDE = 16"

definition clip_read_u32_le :: "bytes \<Rightarrow> nat \<Rightarrow> u32 option" where
  "clip_read_u32_le buf i =
     map_option (\<lambda>bs. of_nat (le_nat bs)) (try_map (index buf) [i, i + 1, i + 2, i + 3])"

text \<open>The loop over the wide units: the string being read and the strings read so far.\<close>

fun hdrop_wide :: "nat list \<Rightarrow> ustring list \<Rightarrow> nat list \<Rightarrow> ustring list" where
  "hdrop_wide cur acc [] = acc"
| "hdrop_wide cur acc (u # us) =
     (if u = 0
      then if cur = [] then acc else hdrop_wide [] (acc @ [from_utf16_lossy cur]) us
      else hdrop_wide (cur @ [u]) acc us)"

text \<open>The loop over the narrow bytes, by index.\<close>

function hdrop_ansi :: "bytes \<Rightarrow> nat \<Rightarrow> nat \<Rightarrow> ustring list \<Rightarrow> ustring list" where
  "hdrop_ansi xs start i acc =
     (if i < length xs
      then if xs ! i = 0
           then if i = start then acc
                else hdrop_ansi xs (i + 1) (i + 1) (acc @ [from_utf8_lossy (drop start (take i xs))])
           else hdrop_ansi xs start (i + 1) acc
      else acc)"
  by pat_completeness auto
termination by (relation "measure (\<lambda>(xs, start, i, acc). length xs - i)") auto

declare hdrop_ansi.simps [simp del]

definition parse_hdrop :: "bytes \<Rightarrow> ustring list option" where
  "parse_hdrop bs =
     (if length bs < DROPFILES_MIN then Some []
      else case (clip_read_u32_le bs OFF_PFILES, clip_read_u32_le bs OFF_FWIDE) of
             (Some p, Some w) \<Rightarrow>
               if unat p = 0 \<or> length bs < unat p then Some []
               else let xs = drop (unat p) bs
                    in Some (if w \<noteq> 0 then hdrop_wide [] [] (utf16_pairs False xs) else hdrop_ansi xs 0 0 [])
           | _ \<Rightarrow> None)"

section \<open>HTML and RTF\<close>

text \<open>\<open>str::replace\<close> and \<open>str::split_whitespace\<close>.\<close>

definition replace_str :: "'a list \<Rightarrow> 'a list \<Rightarrow> 'a list \<Rightarrow> 'a list" where
  "replace_str p q s = join q (split_str p s)"

fun split_when :: "('a \<Rightarrow> bool) \<Rightarrow> 'a list \<Rightarrow> 'a list list" where
  "split_when p [] = [[]]"
| "split_when p (x # xs) =
     (if p x then [] # split_when p xs
      else case split_when p xs of w # ws \<Rightarrow> (x # w) # ws | [] \<Rightarrow> [[x]])"

definition split_whitespace :: "ustring \<Rightarrow> ustring list" where
  "split_whitespace s = filter (\<lambda>w. w \<noteq> []) (split_when is_whitespace s)"

fun strip_tags_loop :: "nat \<Rightarrow> ustring \<Rightarrow> ustring" where
  "strip_tags_loop depth [] = []"
| "strip_tags_loop depth (c # cs) =
     (if c = 60 then strip_tags_loop (depth + 1) cs
      else if c = 62 then space # strip_tags_loop (if 0 < depth then depth - 1 else depth) cs
      else if depth = 0 then c # strip_tags_loop depth cs
      else strip_tags_loop depth cs)"

definition decode_entities :: "ustring \<Rightarrow> ustring" where
  "decode_entities s =
     replace_str (lit ''&nbsp;'') [32] (replace_str (lit ''&#39;'') [39] (replace_str (lit ''&quot;'') [34]
       (replace_str (lit ''&gt;'') [62] (replace_str (lit ''&lt;'') [60] (replace_str (lit ''&amp;'') [38] s)))))"

definition strip_tags :: "ustring \<Rightarrow> ustring" where
  "strip_tags s = join [space] (split_whitespace (decode_entities (strip_tags_loop 0 s)))"

definition strip_html :: "ustring \<Rightarrow> ustring" where
  "strip_html s = strip_tags (if 60 \<in> set s then dropWhile (\<lambda>c. c \<noteq> 60) s else s)"

function strip_rtf_loop :: "ustring \<Rightarrow> ustring" where
  "strip_rtf_loop [] = []"
| "strip_rtf_loop (c # cs) =
     (if c = 92 then
        (case cs of
           [] \<Rightarrow> []
         | n # r \<Rightarrow>
             if is_ascii_alphabetic n
             then let r1 = dropWhile is_ascii_alphabetic cs;
                      r2 = dropWhile (\<lambda>m. is_ascii_digit m \<or> m = 45) r1;
                      r3 = (case r2 of m # r' \<Rightarrow> if m = space then r' else r2 | [] \<Rightarrow> [])
                  in strip_rtf_loop r3
             else n # strip_rtf_loop r)
      else if c = 123 \<or> c = 125 then strip_rtf_loop cs
      else c # strip_rtf_loop cs)"
  by pat_completeness auto
termination
proof (relation "measure length", goal_cases)
  case (2 c cs n r r1 r2 r3)
  have "length r3 \<le> length r2" using 2 by (auto split: list.splits)
  also have "length r2 \<le> length r1" unfolding 2(5) by (rule length_dropWhile_le)
  also have "length r1 \<le> length cs" unfolding 2(4) by (rule length_dropWhile_le)
  finally show ?case by simp
qed auto

definition strip_rtf :: "ustring \<Rightarrow> ustring" where
  "strip_rtf s = join [space] (split_whitespace (strip_rtf_loop s))"

section \<open>Round trips of the blobs\<close>

text \<open>Text that can be stored in a NUL-terminated string.\<close>

definition storable :: "ustring \<Rightarrow> bool" where
  "storable s \<longleftrightarrow> list_all is_scalar s \<and> 0 \<notin> set s"

definition utf16_of :: "ustring \<Rightarrow> nat list" where
  "utf16_of s = concat (map utf16_units s)"

lemma utf16_of_range: "storable s \<Longrightarrow> list_all (\<lambda>u. u < 65536 \<and> u \<noteq> 0) (utf16_of s)"
proof (induction s)
  case (Cons c s)
  have "list_all (\<lambda>u. u < 65536 \<and> u \<noteq> 0) (utf16_units c)"
    using Cons.prems by (auto simp: storable_def utf16_units_def is_scalar_def)
  with Cons show ?case by (simp add: storable_def utf16_of_def)
qed (simp add: utf16_of_def)

lemma utf16_of_empty [simp]: "utf16_of s = [] \<longleftrightarrow> s = []"
  by (cases s) (auto simp: utf16_of_def utf16_units_def)

lemma from_utf16_of: "storable s \<Longrightarrow> from_utf16_lossy (utf16_of s) = s"
  by (simp add: storable_def utf16_of_def from_utf16_lossy_utf16)

lemma utf16_pairs_units:
  "list_all (\<lambda>u. u < 65536) us \<Longrightarrow> utf16_pairs False (concat (map (to_le 2) us) @ r) = us @ utf16_pairs False r"
proof (induction us)
  case (Cons u us)
  have "to_le 2 u = [of_nat (u mod 256), of_nat (u div 256)]"
    using Cons.prems by (simp add: numeral_2_eq_2 less_mult_imp_div_less)
  moreover have "u div 256 < 256" "u mod 256 < 256" using Cons.prems by auto
  ultimately show ?case using Cons by (simp add: unat_u8)
qed simp

lemma units_to_nul_stop: "list_all (\<lambda>u. u \<noteq> 0) us \<Longrightarrow> units_to_nul (us @ 0 # r) = us"
  by (induction us) simp_all

lemma hdrop_wide_string:
  assumes "list_all (\<lambda>u. u \<noteq> 0) us" and "cur @ us \<noteq> []"
  shows "hdrop_wide cur acc (us @ 0 # r) = hdrop_wide [] (acc @ [from_utf16_lossy (cur @ us)]) r"
  using assms by (induction us arbitrary: cur) simp_all

lemma hdrop_wide_strings:
  "list_all (\<lambda>p. storable p \<and> p \<noteq> []) ps \<Longrightarrow>
     hdrop_wide [] acc (concat (map (\<lambda>p. utf16_of p @ [0]) ps) @ 0 # r) = acc @ ps"
proof (induction ps arbitrary: acc)
  case (Cons p ps)
  have "list_all (\<lambda>u. u \<noteq> 0) (utf16_of p)" using utf16_of_range [of p] Cons.prems by (auto simp: list_all_iff)
  with Cons show ?case by (simp add: hdrop_wide_string from_utf16_of)
qed simp

lemma hdrop_ansi_scan:
  "list_all (\<lambda>b. b \<noteq> 0) ys \<Longrightarrow> hdrop_ansi (pre @ ys @ r) start (length pre) acc = hdrop_ansi (pre @ ys @ r) start (length pre + length ys) acc"
proof (induction ys arbitrary: pre)
  case (Cons y ys)
  have "hdrop_ansi (pre @ (y # ys) @ r) start (length pre) acc = hdrop_ansi (pre @ (y # ys) @ r) start (length pre + 1) acc"
    using Cons.prems by (subst hdrop_ansi.simps) (simp add: nth_append)
  also have "\<dots> = hdrop_ansi (pre @ (y # ys) @ r) start (length pre + length (y # ys)) acc"
    using Cons.IH [of "pre @ [y]"] Cons.prems by simp
  finally show ?case .
qed simp

lemma hdrop_ansi_string:
  assumes "list_all (\<lambda>b. b \<noteq> 0) ys" and "ys \<noteq> []"
  shows "hdrop_ansi (pre @ ys @ 0 # r) (length pre) (length pre) acc
    = hdrop_ansi ((pre @ ys @ [0]) @ r) (length (pre @ ys @ [0])) (length (pre @ ys @ [0])) (acc @ [from_utf8_lossy ys])"
  unfolding hdrop_ansi_scan [OF assms(1)] using assms(2) by (subst hdrop_ansi.simps) (simp add: nth_append)

lemma byte_nonzero: "0 < k \<Longrightarrow> k < 256 \<Longrightarrow> (of_nat k :: u8) \<noteq> 0"
  by (simp add: word_unat_eq_iff unat_u8)

lemma utf8_no_nul: "storable s \<Longrightarrow> list_all (\<lambda>b. b \<noteq> 0) (utf8 s)"
proof (induction s)
  case (Cons c s)
  have "c \<noteq> 0" "is_scalar c" using Cons.prems by (auto simp: storable_def)
  then have "list_all (\<lambda>b. b \<noteq> 0) (utf8_char c)"
    by (auto simp: utf8_char_def is_scalar_def byte_nonzero less_mult_imp_div_less simp del: of_nat_add of_nat_numeral)
  with Cons show ?case by (simp add: storable_def utf8_def)
qed (simp add: utf8_def)

lemma hdrop_ansi_strings:
  "list_all (\<lambda>p. storable p \<and> p \<noteq> []) ps \<Longrightarrow>
     hdrop_ansi (pre @ concat (map (\<lambda>p. utf8 p @ [0]) ps) @ 0 # r) (length pre) (length pre) acc = acc @ ps"
proof (induction ps arbitrary: pre acc)
  case Nil
  show ?case by (subst hdrop_ansi.simps) (simp add: nth_append)
next
  case (Cons p ps)
  have u: "list_all (\<lambda>b. b \<noteq> 0) (utf8 p)" "utf8 p \<noteq> []" "from_utf8_lossy (utf8 p) = p"
    using Cons.prems utf8_no_nul from_utf8_lossy_utf8 by (auto simp: storable_def utf8_def)
  show ?case
    using hdrop_ansi_string [OF u(1,2), of pre "concat (map (\<lambda>p. utf8 p @ [0]) ps) @ 0 # r" acc]
      Cons.IH [of "pre @ utf8 p @ [0]" "acc @ [p]"] Cons.prems u(3) by simp
qed

text \<open>A file-drop blob as the shell builds it: the header, then the strings, then an empty one.\<close>

definition hdrop_blob :: "bool \<Rightarrow> ustring list \<Rightarrow> bytes" where
  "hdrop_blob wide ps =
     to_le 4 20 @ replicate 12 0 @ to_le 4 (if wide then 1 else 0)
     @ (if wide then concat (map (to_le 2) (concat (map (\<lambda>p. utf16_of p @ [0]) ps) @ [0]))
        else concat (map (\<lambda>p. utf8 p @ [0]) ps) @ [0])"

lemma read_u32_le_at: "length a = i \<Longrightarrow> length b = 4 \<Longrightarrow> clip_read_u32_le (a @ b @ c) i = Some (of_nat (le_nat b))"
proof -
  assume a: "length a = i" "length b = 4"
  have n: "length b = Suc (Suc (Suc (Suc 0)))" using a by simp
  then obtain b0 b1 b2 b3 where "b = [b0, b1, b2, b3]" by (auto simp: length_Suc_conv)
  with a show ?thesis by (simp add: clip_read_u32_le_def index_Some nth_append)
qed

lemma read_u32_le_Some: "i + 4 \<le> length bs \<Longrightarrow> \<exists>v. clip_read_u32_le bs i = Some v"
  by (simp add: clip_read_u32_le_def index_Some)

lemma parse_hdrop_total: "\<exists>ps. parse_hdrop bs = Some ps"
  using read_u32_le_Some [of OFF_PFILES bs] read_u32_le_Some [of OFF_FWIDE bs]
  by (auto simp: parse_hdrop_def DROPFILES_MIN_def OFF_PFILES_def OFF_FWIDE_def Let_def)

lemma parse_hdrop_blob:
  assumes "list_all (\<lambda>p. storable p \<and> p \<noteq> []) ps"
  shows "parse_hdrop (hdrop_blob wide ps @ junk) = Some ps"
proof -
  let ?b = "(if wide then concat (map (to_le 2) (concat (map (\<lambda>p. utf16_of p @ [0]) ps) @ [0]))
        else concat (map (\<lambda>p. utf8 p @ [0]) ps) @ [0]) @ junk"
  have blob: "hdrop_blob wide ps @ junk = to_le 4 20 @ replicate 12 0 @ to_le 4 (if wide then 1 else 0) @ ?b"
    by (simp add: hdrop_blob_def)
  have p: "clip_read_u32_le (hdrop_blob wide ps @ junk) 0 = Some 20"
    unfolding blob using read_u32_le_at [of "[]" 0 "to_le 4 20"] by (simp add: le_nat_to_le)
  have w: "clip_read_u32_le (hdrop_blob wide ps @ junk) 16 = Some (if wide then 1 else 0)"
    unfolding blob using read_u32_le_at [of "to_le 4 20 @ replicate 12 0" 16 "to_le 4 (if wide then 1 else 0)"]
    by (simp add: le_nat_to_le)
  have d: "drop 20 (hdrop_blob wide ps @ junk) = ?b" unfolding blob by simp
  have len: "20 \<le> length (hdrop_blob wide ps @ junk)" unfolding blob by simp
  have "list_all (\<lambda>u. u < 65536) (concat (map (\<lambda>p. utf16_of p @ [0]) ps) @ [0])"
    using assms utf16_of_range by (fastforce simp: list_all_iff)
  from utf16_pairs_units [OF this] have wide: "hdrop_wide [] [] (utf16_pairs False ?b) = ps" if wide
    using that hdrop_wide_strings [OF assms, of "[]"] by simp
  have "hdrop_ansi ?b 0 0 [] = ps" if "\<not> wide"
    using that hdrop_ansi_strings [OF assms, of "[]" junk "[]"] by simp
  with wide p w d len show ?thesis
    by (simp add: parse_hdrop_def DROPFILES_MIN_def OFF_PFILES_def OFF_FWIDE_def Let_def)
qed

text \<open>
  What was copied is what is inspected. A text blob decodes to the text up to its terminator, whatever
  follows; a file-drop blob, wide or narrow, decodes to its paths; and no buffer, however malformed,
  makes the file-drop parser panic.
\<close>

theorem clipboard_blobs_round_trip:
  assumes "storable s" and "list_all (\<lambda>p. storable p \<and> p \<noteq> []) ps"
  shows "parse_unicode_text (concat (map (to_le 2) (utf16_of s @ [0])) @ junk) = s
    \<and> parse_hdrop (hdrop_blob wide ps @ junk) = Some ps \<and> (\<exists>qs. parse_hdrop any = Some qs)"
proof -
  have "list_all (\<lambda>u. u < 65536) (utf16_of s @ [0])" "list_all (\<lambda>u. u \<noteq> 0) (utf16_of s)"
    using utf16_of_range [OF assms(1)] by (auto simp: list_all_iff)
  then have "parse_unicode_text (concat (map (to_le 2) (utf16_of s @ [0])) @ junk) = s"
    unfolding parse_unicode_text_def utf16_pairs_units [OF \<open>list_all (\<lambda>u. u < 65536) (utf16_of s @ [0])\<close>]
    by (simp add: units_to_nul_stop from_utf16_of [OF assms(1)])
  with parse_hdrop_blob [OF assms(2)] parse_hdrop_total show ?thesis by blast
qed

lemma clipboard_blobs_round_trip_witness:
  "parse_hdrop (hdrop_blob True [lit ''C:a'', lit ''b'']) = Some [lit ''C:a'', lit ''b'']"
  using clipboard_blobs_round_trip [of "lit ''x''" "[lit ''C:a'', lit ''b'']" "[]" True]
  by (simp add: storable_def is_scalar_def lit_def)

section \<open>Visible text\<close>

lemma strip_tags_loop_text: "60 \<notin> set x \<Longrightarrow> 62 \<notin> set x \<Longrightarrow> strip_tags_loop 0 (x @ r) = x @ strip_tags_loop 0 r"
  by (induction x) auto

lemma strip_tags_loop_tag: "60 \<notin> set t \<Longrightarrow> 62 \<notin> set t \<Longrightarrow> strip_tags_loop 1 (t @ 62 # r) = space # strip_tags_loop 0 r"
  by (induction t) auto

lemma strip_tags_loop_markup:
  "list_all (\<lambda>(t, x). 60 \<notin> set t \<and> 62 \<notin> set t \<and> 60 \<notin> set x \<and> 62 \<notin> set x) segs \<Longrightarrow>
     strip_tags_loop 0 (concat (map (\<lambda>(t, x). 60 # t @ 62 # x) segs)) = concat (map (\<lambda>(t, x). space # x) segs)"
proof (induction segs)
  case (Cons tx segs)
  obtain t x where tx: "tx = (t, x)" by fastforce
  with Cons show ?case by (simp add: strip_tags_loop_tag [of t, simplified] strip_tags_loop_text)
qed simp

lemma find_str_absent: "c \<notin> set s \<Longrightarrow> find_str (c # p) s = None"
  by (induction s) (auto simp: starts_with_iff)

lemma replace_str_absent: "c \<notin> set s \<Longrightarrow> replace_str (c # p) q s = s"
  by (simp add: replace_str_def split_str.simps find_str_absent)

lemma decode_entities_plain: "38 \<notin> set s \<Longrightarrow> decode_entities s = s"
  by (simp add: decode_entities_def lit_def replace_str_absent)

lemma split_when_append: "p c \<Longrightarrow> split_when p (x @ c # r) = split_when p x @ split_when p r"
proof (induction x)
  case (Cons a x)
  moreover have "split_when p x \<noteq> []" by (cases x) (auto split: list.splits)
  ultimately show ?case by (auto split: list.splits)
qed simp

lemma split_whitespace_space: "split_whitespace (x @ space # r) = split_whitespace x @ split_whitespace r"
  by (simp add: split_whitespace_def split_when_append is_whitespace_def)

lemma split_whitespace_segments:
  "split_whitespace (y @ concat (map (\<lambda>(t, x). space # x) segs)) = split_whitespace y @ concat (map (split_whitespace \<circ> snd) segs)"
  by (induction segs arbitrary: y) (auto simp: split_whitespace_space)

text \<open>
  Stripping HTML keeps the visible text and nothing else: for a document of tags and text, behind any
  descriptor header, the result is the words of the text segments, in order, separated by one space; the
  words on either side of a tag are not joined.
\<close>

theorem strip_html_visible_text:
  assumes "60 \<notin> set descriptor" and "segs \<noteq> []"
    and "list_all (\<lambda>(t, x). {60, 62} \<inter> set t = {} \<and> {38, 60, 62} \<inter> set x = {}) segs"
  shows "strip_html (descriptor @ concat (map (\<lambda>(t, x). 60 # t @ 62 # x) segs))
    = join [space] (concat (map (split_whitespace \<circ> snd) segs))"
proof -
  let ?m = "concat (map (\<lambda>(t, x). 60 # t @ 62 # x) segs)"
  obtain r where m: "?m = 60 # r" using assms(2) by (cases segs) auto
  have d: "dropWhile (\<lambda>c. c \<noteq> 60) (descriptor @ ?m) = ?m"
    unfolding m using assms(1) by (induction descriptor) auto
  have "strip_tags_loop 0 ?m = concat (map (\<lambda>(t, x). space # x) segs)"
    using assms(3) by (intro strip_tags_loop_markup) (auto simp: list_all_iff)
  moreover have "38 \<notin> set (concat (map (\<lambda>(t, x). space # x) segs))"
    using assms(3) by (auto simp: list_all_iff)
  ultimately have "strip_tags ?m = join [space] (concat (map (split_whitespace \<circ> snd) segs))"
    using split_whitespace_segments [of "[]" segs] by (simp add: strip_tags_def decode_entities_plain split_whitespace_def)
  with d m show ?thesis by (simp add: strip_html_def)
qed

lemma strip_html_visible_text_witness:
  "strip_html (lit ''V:1'' @ 60 # lit ''b'' @ 62 # lit ''hi'' @ 60 # lit ''/b'' @ 62 # lit ''all'') = lit ''hi all''"
  using strip_html_visible_text [of "lit ''V:1''" "[(lit ''b'', lit ''hi''), (lit ''/b'', lit ''all'')]"]
  by (simp add: lit_def split_whitespace_def is_whitespace_def)

text \<open>A stray opening bracket before a tag hides the text that follows the tag.\<close>

lemma stray_bracket_hides_text:
  assumes "60 \<notin> set t" "62 \<notin> set t" "60 \<notin> set x" "62 \<notin> set x"
  shows "strip_tags_loop 0 (60 # 60 # t @ 62 # x) = [space]"
proof -
  have "strip_tags_loop 1 x = []" using assms(3,4) by (induction x) auto
  moreover have "strip_tags_loop 2 (t @ 62 # x) = space # strip_tags_loop 1 x"
    using assms(1,2) by (induction t) auto
  ultimately show ?thesis by (simp add: numeral_2_eq_2)
qed

end
