(* ===== verification/Clipboard.thy ===== *)
theory Clipboard
  imports Clip_Formats Config Usb_Incident
begin

text \<open>
  The clipboard channel: the snapshot of \<open>clipboard/watch.rs\<close>, the decision of \<open>clipboard/mod.rs\<close>, the
  enforcement plan and loop guard of \<open>clipboard/enforce.rs\<close>, and the reaction to a change notification. The
  contents of the clipboard, its sequence number and the results of the calls that clear it are parameters.
\<close>

section \<open>The snapshot\<close>

text \<open>
  The clipboard as the system answers: whether one of the five attempts opens it, the ids of the two
  registered formats (0 when registration failed), the formats present, and the bytes of a format when they can
  be had.
\<close>

record clipboard_view =
  cv_opens :: "bool list"
  cv_html_fmt :: u32
  cv_rtf_fmt :: u32
  cv_available :: "u32 \<Rightarrow> bool"
  cv_read_global :: "u32 \<Rightarrow> bytes option"

definition read_format :: "clipboard_view \<Rightarrow> u32 \<Rightarrow> string \<Rightarrow> (bytes \<Rightarrow> clipboard_payload option) \<Rightarrow> clipboard_payload option" where
  "read_format view fmt missing parse =
     (case cv_read_global view fmt of Some bs \<Rightarrow> parse bs | None \<Rightarrow> Some (CP_Uninspected (lit missing)))"

definition read_snapshot :: "clipboard_view \<Rightarrow> clipboard_payload option" where
  "read_snapshot view =
     (if True \<notin> set (take 5 (cv_opens view)) then Some (CP_Uninspected (lit ''clipboard-locked''))
      else if cv_available view CF_HDROP then
        read_format view CF_HDROP ''hdrop-null'' (\<lambda>bs. map_option CP_Files (parse_hdrop bs))
      else if cv_available view CF_UNICODETEXT then
        read_format view CF_UNICODETEXT ''text-null'' (\<lambda>bs. Some (CP_Text (parse_unicode_text bs)))
      else if cv_html_fmt view \<noteq> 0 \<and> cv_available view (cv_html_fmt view) then
        read_format view (cv_html_fmt view) ''html-null'' (\<lambda>bs. Some (CP_Text (strip_html (from_utf8_lossy bs))))
      else if cv_rtf_fmt view \<noteq> 0 \<and> cv_available view (cv_rtf_fmt view) then
        read_format view (cv_rtf_fmt view) ''rtf-null'' (\<lambda>bs. Some (CP_Text (strip_rtf (from_utf8_lossy bs))))
      else if cv_available view CF_DIB \<or> cv_available view CF_BITMAP \<or> cv_available view CF_DIBV5 then Some CP_Image
      else Some (CP_Uninspected (lit ''unhandled-format'')))"

section \<open>The decision\<close>

record clipboard_decision =
  cd_block :: bool
  cd_incidents :: "usb_incident list"

definition clipboard_decision_default :: clipboard_decision where
  "clipboard_decision_default = \<lparr>cd_block = False, cd_incidents = []\<rparr>"

definition verdict_blocks :: "verdict \<Rightarrow> f64 \<Rightarrow> f64 \<Rightarrow> bool" where
  "verdict_blocks v block_at coverage_block_at =
     (if vd_edm v \<noteq> [] then True
      else list_ex (\<lambda>m. f64_ge (im_containment m) block_at \<or> f64_ge (im_coverage m) coverage_block_at) (vd_idm v))"

definition clipboard_device :: device_identity where
  "clipboard_device =
     \<lparr>dev_drive_letter = [], dev_vendor_id = [], dev_product_id = [], dev_serial = [], dev_product_name = [],
      dev_bus_type = lit ''clipboard'', dev_removable = False\<rparr>"

definition clipboard_incident ::
  "incident_kind \<Rightarrow> ustring \<Rightarrow> ustring \<Rightarrow> ustring \<Rightarrow> verdict option \<Rightarrow> bool \<Rightarrow> string \<Rightarrow> usb_incident" where
  "clipboard_incident kind channel label sha v block note =
     \<lparr>ui_kind = kind, ui_channel = channel, ui_file_name = label, ui_file_sha256 = sha, ui_verdict = v,
      ui_device = clipboard_device, ui_action_taken = (if block then AT_Blocked else AT_Audited),
      ui_note = Some (lit note), ui_key_id = None, ui_sealed_sha256 = None\<rparr>"

definition verdict_incident :: "ustring \<Rightarrow> verdict \<Rightarrow> bool \<Rightarrow> ustring \<Rightarrow> usb_incident option" where
  "verdict_incident label v block channel =
     (if vd_idm v \<noteq> [] \<or> vd_edm v \<noteq> []
      then Some (clipboard_incident IK_Match channel label (vd_file_sha256 v) (Some v) block
                   (if block then ''clipboard-blocked'' else ''clipboard-audited''))
      else case vd_extraction v of
             Extraction_Unreadable _ \<Rightarrow>
               Some (clipboard_incident IK_UnreadableOnRemovable channel label (vd_file_sha256 v) (Some v) block
                       ''clipboard-unreadable'')
           | Extraction_Ok _ \<Rightarrow> None)"

definition image_incident :: "bool \<Rightarrow> ustring \<Rightarrow> usb_incident" where
  "image_incident block channel =
     clipboard_incident IK_ClipboardImageUninspected channel (lit ''(clipboard image)'') [] None block
       (if block then ''image-clipboard-blocked'' else ''image-clipboard-uninspected'')"

text \<open>
  What \<open>inspect\<close> calls: the verdict on a text and on a file, both with the bundle applied; \<open>None\<close> is a
  panic, and \<open>Inl\<close> a file that cannot be read. The label of a path is its file name.
\<close>

record detector =
  det_text :: "ustring \<Rightarrow> verdict option"
  det_file :: "ustring \<Rightarrow> (unit + verdict) option"
  det_file_name :: "ustring \<Rightarrow> ustring option"

definition inspect_file :: "detector \<Rightarrow> clipboard_config \<Rightarrow> ustring \<Rightarrow> (bool \<times> usb_incident list) option" where
  "inspect_file det cfg path =
     (let label = (case det_file_name det path of Some n \<Rightarrow> n | None \<Rightarrow> path); channel = cc_channel_label cfg
      in map_option (\<lambda>r.
           case r of
             Inr v \<Rightarrow>
               (let b = verdict_blocks v (cc_block_at cfg) (cc_coverage_block_at cfg) \<and> cc_default_action cfg = CA_Block
                in (b, case verdict_incident label v b channel of Some i \<Rightarrow> [i] | None \<Rightarrow> []))
           | Inl _ \<Rightarrow>
               (cc_fail_block cfg,
                [clipboard_incident IK_UnreadableOnRemovable channel label [] None (cc_fail_block cfg)
                   ''clipboard-file-unreadable'']))
         (det_file det path))"

fun inspect_files :: "detector \<Rightarrow> clipboard_config \<Rightarrow> bool \<Rightarrow> usb_incident list \<Rightarrow> ustring list \<Rightarrow> clipboard_decision option" where
  "inspect_files det cfg block acc [] = Some \<lparr>cd_block = block, cd_incidents = acc\<rparr>"
| "inspect_files det cfg block acc (p # ps) =
     (case inspect_file det cfg p of
        None \<Rightarrow> None
      | Some (b, is) \<Rightarrow> inspect_files det cfg (block \<or> b) (acc @ is) ps)"

definition inspect :: "clipboard_payload \<Rightarrow> detector option \<Rightarrow> clipboard_config \<Rightarrow> clipboard_decision option" where
  "inspect payload det cfg =
     (case payload of
        CP_Text s \<Rightarrow>
          if unat (cc_max_bytes cfg) < str_len s then Some clipboard_decision_default
          else (case det of
                  None \<Rightarrow> Some \<lparr>cd_block = cc_fail_block cfg, cd_incidents = []\<rparr>
                | Some d \<Rightarrow>
                    map_option (\<lambda>v.
                      let block = verdict_blocks v (cc_block_at cfg) (cc_coverage_block_at cfg) \<and> cc_default_action cfg = CA_Block
                      in \<lparr>cd_block = block, cd_incidents =
                           (case verdict_incident (lit ''(clipboard text)'') v block (cc_channel_label cfg) of
                              Some i \<Rightarrow> [i] | None \<Rightarrow> [])\<rparr>) (det_text d s))
      | CP_Files paths \<Rightarrow>
          (case det of
             None \<Rightarrow> Some \<lparr>cd_block = cc_fail_block cfg, cd_incidents = []\<rparr>
           | Some d \<Rightarrow> inspect_files d cfg False [] paths)
      | CP_Image \<Rightarrow>
          Some \<lparr>cd_block = cc_block_images cfg, cd_incidents = [image_incident (cc_block_images cfg) (cc_channel_label cfg)]\<rparr>
      | CP_Uninspected note \<Rightarrow> Some clipboard_decision_default)"

section \<open>Enforcement\<close>

datatype clipboard_planned_action = CPA_NoChange | CPA_ClearClipboard "ustring option"

datatype clipboard_mode = CM_DryRun | CM_Live

datatype clipboard_outcome = CO_NoChange | CO_Planned clipboard_planned_action | CO_Executed clipboard_planned_action

definition clipboard_plan :: "bool \<Rightarrow> ustring option \<Rightarrow> clipboard_planned_action" where
  "clipboard_plan block notice = (if block then CPA_ClearClipboard notice else CPA_NoChange)"

text \<open>The live clear succeeds or fails as the system decides: the clipboard opens, and then it empties.\<close>

record clear_result =
  cl_opens :: bool
  cl_empties :: bool

datatype clipboard_call = OpenClipboard | EmptyClipboard | SetNotice ustring | CloseClipboard

definition clipboard_execute_live :: "clear_result \<Rightarrow> clipboard_planned_action \<Rightarrow> clipboard_call list \<times> bool" where
  "clipboard_execute_live r pl =
     (case pl of
        CPA_NoChange \<Rightarrow> ([], True)
      | CPA_ClearClipboard notice \<Rightarrow>
          if \<not> cl_opens r then ([OpenClipboard], False)
          else ([OpenClipboard, EmptyClipboard] @ (case notice of Some n \<Rightarrow> [SetNotice n] | None \<Rightarrow> []) @ [CloseClipboard],
                cl_empties r))"

definition clipboard_apply ::
  "clear_result \<Rightarrow> clipboard_planned_action \<Rightarrow> clipboard_mode \<Rightarrow> clipboard_call list \<times> (unit + clipboard_outcome)" where
  "clipboard_apply r pl mode =
     (if pl = CPA_NoChange then ([], Inr CO_NoChange)
      else case mode of
             CM_DryRun \<Rightarrow> ([], Inr (CO_Planned pl))
           | CM_Live \<Rightarrow>
               (case clipboard_execute_live r pl of
                  (calls, True) \<Rightarrow> (calls, Inr (CO_Executed pl))
                | (calls, False) \<Rightarrow> (calls, Inl ())))"

record loop_guard =
  lg_ignore_seq :: "u32 option"

definition loop_guard_new :: loop_guard where
  "loop_guard_new = \<lparr>lg_ignore_seq = None\<rparr>"

definition record_written :: "u32 \<Rightarrow> loop_guard \<Rightarrow> loop_guard" where
  "record_written seq g = g\<lparr>lg_ignore_seq := Some seq\<rparr>"

definition should_ignore :: "u32 \<Rightarrow> loop_guard \<Rightarrow> loop_guard \<times> bool" where
  "should_ignore seq g =
     (if lg_ignore_seq g = Some seq then (g\<lparr>lg_ignore_seq := None\<rparr>, True) else (g, False))"

section \<open>Reacting to a change\<close>

record clip_state =
  cs_guard :: loop_guard
  cs_last_seq :: u32

text \<open>
  One notification: the sequence number read first, the clipboard then read, how a clear would go, and the
  sequence number read after it.
\<close>

record clip_update =
  cu_seq :: u32
  cu_view :: clipboard_view
  cu_clear :: clear_result
  cu_seq_after :: u32

datatype clip_effect = CE_Report usb_incident | CE_Call clipboard_call

definition on_update ::
  "detector option \<Rightarrow> clipboard_config \<Rightarrow> bool \<Rightarrow> clip_update \<Rightarrow> clip_state \<Rightarrow> (clip_state \<times> clip_effect list) option" where
  "on_update det cfg enforce u st =
     (if cu_seq u = cs_last_seq st then Some (st, [])
      else
        let st1 = st\<lparr>cs_last_seq := cu_seq u\<rparr>; (g, ignored) = should_ignore (cu_seq u) (cs_guard st1);
            st2 = st1\<lparr>cs_guard := g\<rparr>
        in if ignored then Some (st2, [])
           else
             case Option.bind (read_snapshot (cu_view u)) (\<lambda>p. inspect p det cfg) of
               None \<Rightarrow> None
             | Some d \<Rightarrow>
                 let reports = map CE_Report (cd_incidents d)
                 in if enforce \<and> cc_enabled cfg \<and> cd_block d
                    then let pl = clipboard_plan True (Some (lit ''Copy blocked by DLP policy''));
                             (calls, r) = clipboard_apply (cu_clear u) pl (if enforce then CM_Live else CM_DryRun)
                         in Some (case r of
                                    Inr (CO_Executed _) \<Rightarrow> st2\<lparr>cs_guard := record_written (cu_seq_after u) (cs_guard st2)\<rparr>
                                  | _ \<Rightarrow> st2,
                                  reports @ map CE_Call calls)
                    else Some (st2, reports))"

fun run_updates ::
  "detector option \<Rightarrow> clipboard_config \<Rightarrow> bool \<Rightarrow> clip_update list \<Rightarrow> clip_state \<Rightarrow> (clip_state \<times> clip_effect list) option" where
  "run_updates det cfg enforce [] st = Some (st, [])"
| "run_updates det cfg enforce (u # us) st =
     (case on_update det cfg enforce u st of
        None \<Rightarrow> None
      | Some (st1, e1) \<Rightarrow> map_option (\<lambda>(st2, e2). (st2, e1 @ e2)) (run_updates det cfg enforce us st1))"

definition clip_state_init :: clip_state where
  "clip_state_init = \<lparr>cs_guard = loop_guard_new, cs_last_seq = 0\<rparr>"

section \<open>The decision is total and exact\<close>

definition bundle_detector ::
  "unicode \<Rightarrow> libs \<Rightarrow> (bytes \<Rightarrow> bytes) \<Rightarrow> index_bundle \<Rightarrow> (ustring \<Rightarrow> bytes option) \<Rightarrow> (ustring \<Rightarrow> ustring option) \<Rightarrow> detector" where
  "bundle_detector u l sha256 b read file_name_of =
     \<lparr>det_text = verdict_text u sha256 b,
      det_file = (\<lambda>p. verdict_file u l sha256 b (read p) (file_name_of p) p), det_file_name = file_name_of\<rparr>"

definition detector_total :: "detector \<Rightarrow> bool" where
  "detector_total d \<longleftrightarrow> (\<forall>s. det_text d s \<noteq> None) \<and> (\<forall>p. det_file d p \<noteq> None)"

lemma bundle_detector_total:
  assumes "bundle_wf b"
  shows "detector_total (bundle_detector u l sha256 b read file_name_of)"
proof -
  have "match_text u sha256 b s \<noteq> None" for s
    using match_text_exact [OF assms, of u s sha256] by auto
  then have "verdict_bytes u l sha256 b bs n \<noteq> None" "verdict_text u sha256 b s \<noteq> None" for bs n s
    by (simp_all add: verdict_bytes_def verdict_text_def split: sum.split)
  then show ?thesis
    by (simp add: detector_total_def bundle_detector_def verdict_file_def split: option.split)
qed

lemma inspect_file_total: "detector_total d \<Longrightarrow> inspect_file d cfg p \<noteq> None"
  by (simp add: inspect_file_def detector_total_def Let_def)

text \<open>The contribution of one file, as a function.\<close>

definition file_decision :: "detector \<Rightarrow> clipboard_config \<Rightarrow> ustring \<Rightarrow> bool \<times> usb_incident list" where
  "file_decision d cfg p = the (inspect_file d cfg p)"

lemma inspect_files_eq:
  assumes "detector_total d"
  shows "inspect_files d cfg block acc ps =
    Some \<lparr>cd_block = (block \<or> list_ex (fst \<circ> file_decision d cfg) ps), cd_incidents = acc @ concat (map (snd \<circ> file_decision d cfg) ps)\<rparr>"
proof (induction ps arbitrary: block acc)
  case (Cons p ps)
  obtain b i where "inspect_file d cfg p = Some (b, i)" using inspect_file_total [OF assms, of cfg p] by fastforce
  with Cons show ?case by (simp add: file_decision_def)
qed simp

lemma inspect_total:
  assumes "\<And>d. det = Some d \<Longrightarrow> detector_total d"
  shows "\<exists>dec. inspect payload det cfg = Some dec"
  using assms inspect_files_eq
  by (cases payload) (auto simp: inspect_def detector_total_def split: option.split)

lemma read_snapshot_total: "\<exists>p. read_snapshot view = Some p"
  using parse_hdrop_total by (auto simp: read_snapshot_def read_format_def split: option.split)

section \<open>The loop over notifications\<close>

text \<open>
  What the user does and what the system makes of it: a copy gets a sequence number, the first notification
  reads it; further notifications for it read the number that is current then, which is that of the copy or,
  after a clear, that of the clear. Sequence numbers increase, and a clipboard that opens for clearing is emptied.
\<close>

record user_copy =
  uc_seq :: u32
  uc_view :: clipboard_view
  uc_clear :: clear_result
  uc_clear_seq :: u32
  uc_extra :: nat

fun copies_wf :: "nat \<Rightarrow> user_copy list \<Rightarrow> bool" where
  "copies_wf n [] = True"
| "copies_wf n (c # cs) \<longleftrightarrow> n \<le> unat (uc_seq c) \<and> unat (uc_seq c) < unat (uc_clear_seq c)
     \<and> cl_opens (uc_clear c) = cl_empties (uc_clear c) \<and> copies_wf (Suc (unat (uc_clear_seq c))) cs"

definition copy_decision :: "detector option \<Rightarrow> clipboard_config \<Rightarrow> user_copy \<Rightarrow> clipboard_decision" where
  "copy_decision det cfg c = the (Option.bind (read_snapshot (uc_view c)) (\<lambda>p. inspect p det cfg))"

definition copy_stopped :: "detector option \<Rightarrow> clipboard_config \<Rightarrow> bool \<Rightarrow> user_copy \<Rightarrow> bool" where
  "copy_stopped det cfg enforce c \<longleftrightarrow> enforce \<and> cc_enabled cfg \<and> cd_block (copy_decision det cfg c)"

definition copy_updates :: "detector option \<Rightarrow> clipboard_config \<Rightarrow> bool \<Rightarrow> user_copy \<Rightarrow> clip_update list" where
  "copy_updates det cfg enforce c =
     (let u = \<lparr>cu_seq = uc_seq c, cu_view = uc_view c, cu_clear = uc_clear c, cu_seq_after = uc_clear_seq c\<rparr>
      in u # replicate (uc_extra c)
           (if copy_stopped det cfg enforce c \<and> cl_opens (uc_clear c) then u\<lparr>cu_seq := uc_clear_seq c\<rparr> else u))"

definition clear_calls :: "clear_result \<Rightarrow> clipboard_call list" where
  "clear_calls r =
     (if cl_opens r then [OpenClipboard, EmptyClipboard, SetNotice (lit ''Copy blocked by DLP policy''), CloseClipboard]
      else [OpenClipboard])"

definition copy_effects :: "detector option \<Rightarrow> clipboard_config \<Rightarrow> bool \<Rightarrow> user_copy \<Rightarrow> clip_effect list" where
  "copy_effects det cfg enforce c =
     map CE_Report (cd_incidents (copy_decision det cfg c))
     @ (if copy_stopped det cfg enforce c then map CE_Call (clear_calls (uc_clear c)) else [])"

definition seqs_below :: "nat \<Rightarrow> clip_state \<Rightarrow> bool" where
  "seqs_below n st \<longleftrightarrow> unat (cs_last_seq st) < n
     \<and> (case lg_ignore_seq (cs_guard st) of None \<Rightarrow> True | Some q \<Rightarrow> unat q < n)"

lemma run_updates_append:
  assumes "run_updates det cfg enforce us st = Some (st1, e1)" and "run_updates det cfg enforce vs st1 = Some (st2, e2)"
  shows "run_updates det cfg enforce (us @ vs) st = Some (st2, e1 @ e2)"
  using assms(1)
proof (induction us arbitrary: st e1)
  case (Cons u us)
  then obtain st' e e' where "on_update det cfg enforce u st = Some (st', e)"
    "run_updates det cfg enforce us st' = Some (st1, e')" "e1 = e @ e'"
    by (auto split: option.splits)
  with Cons.IH show ?case by simp
qed (simp add: assms(2))

lemma run_seen: "run_updates det cfg enforce (replicate n u) st = Some (st, [])" if "cu_seq u = cs_last_seq st"
  using that by (induction n) (simp_all add: on_update_def)

lemma run_echo:
  assumes "lg_ignore_seq (cs_guard st) = Some (cu_seq u)"
  shows "\<exists>st'. run_updates det cfg enforce (replicate n u) st = Some (st', [])
    \<and> (st' = st \<or> cs_last_seq st' = cu_seq u \<and> lg_ignore_seq (cs_guard st') = None)"
proof (cases n)
  case (Suc m)
  show ?thesis
  proof (cases "cu_seq u = cs_last_seq st")
    case False
    let ?st = "st\<lparr>cs_last_seq := cu_seq u, cs_guard := cs_guard st\<lparr>lg_ignore_seq := None\<rparr>\<rparr>"
    have "on_update det cfg enforce u st = Some (?st, [])"
      using False assms by (simp add: on_update_def should_ignore_def)
    with Suc run_seen [of u ?st det cfg enforce m] show ?thesis by simp
  qed (use run_seen in auto)
qed simp

lemma run_copy:
  assumes "\<And>d. det = Some d \<Longrightarrow> detector_total d" and "copies_wf n [c]" and "seqs_below n st"
  shows "\<exists>st'. run_updates det cfg enforce (copy_updates det cfg enforce c) st = Some (st', copy_effects det cfg enforce c)
    \<and> seqs_below (Suc (unat (uc_clear_seq c))) st'"
proof -
  let ?u = "\<lparr>cu_seq = uc_seq c, cu_view = uc_view c, cu_clear = uc_clear c, cu_seq_after = uc_clear_seq c\<rparr>"
  let ?stop = "copy_stopped det cfg enforce c" and ?open = "cl_opens (uc_clear c)"
  have fresh: "uc_seq c \<noteq> cs_last_seq st" "lg_ignore_seq (cs_guard st) \<noteq> Some (uc_seq c)"
    using assms(2,3) by (auto simp: seqs_below_def)
  have dec: "Option.bind (read_snapshot (uc_view c)) (\<lambda>p. inspect p det cfg) = Some (copy_decision det cfg c)"
    using read_snapshot_total [of "uc_view c"] inspect_total [OF assms(1), where cfg = cfg] by (fastforce simp: copy_decision_def)
  define st1 where "st1 = (let s = st\<lparr>cs_last_seq := uc_seq c\<rparr>
    in if ?stop \<and> ?open then s\<lparr>cs_guard := record_written (uc_clear_seq c) (cs_guard st)\<rparr> else s)"
  have first: "on_update det cfg enforce ?u st = Some (st1, copy_effects det cfg enforce c)"
    using fresh assms(2) by (auto simp: on_update_def dec should_ignore_def Let_def clipboard_plan_def clipboard_apply_def
        clipboard_execute_live_def copy_effects_def copy_stopped_def clear_calls_def st1_def)
  have below: "seqs_below (Suc (unat (uc_clear_seq c))) st1"
    using assms(2,3) by (auto simp: seqs_below_def st1_def Let_def record_written_def split: option.splits)
  show ?thesis
  proof (cases "?stop \<and> ?open")
    case True
    then have "lg_ignore_seq (cs_guard st1) = Some (cu_seq (?u\<lparr>cu_seq := uc_clear_seq c\<rparr>))"
      by (simp add: st1_def record_written_def)
    from run_echo [OF this, of det cfg enforce "uc_extra c"] obtain st' where
      "run_updates det cfg enforce (replicate (uc_extra c) (?u\<lparr>cu_seq := uc_clear_seq c\<rparr>)) st1 = Some (st', [])"
      "seqs_below (Suc (unat (uc_clear_seq c))) st'"
      using below by (auto simp: seqs_below_def)
    with first True show ?thesis by (simp add: copy_updates_def Let_def)
  next
    case False
    then have "cu_seq ?u = cs_last_seq st1" by (auto simp: st1_def Let_def)
    from run_seen [OF this, of det cfg enforce "uc_extra c"] first False below show ?thesis
      by (auto simp: copy_updates_def Let_def)
  qed
qed

lemma run_copies:
  assumes "\<And>d. det = Some d \<Longrightarrow> detector_total d" and "copies_wf n cs" and "seqs_below n st"
  shows "\<exists>st'. run_updates det cfg enforce (concat (map (copy_updates det cfg enforce) cs)) st
    = Some (st', concat (map (copy_effects det cfg enforce) cs))"
  using assms(2,3)
proof (induction cs arbitrary: n st)
  case (Cons c cs)
  obtain st1 where st1: "run_updates det cfg enforce (copy_updates det cfg enforce c) st = Some (st1, copy_effects det cfg enforce c)"
    "seqs_below (Suc (unat (uc_clear_seq c))) st1"
    using run_copy [OF assms(1), where n = n and c = c and st = st and cfg = cfg and enforce = enforce] Cons.prems by auto
  from Cons.IH [OF _ st1(2)] Cons.prems obtain st2 where
    "run_updates det cfg enforce (concat (map (copy_updates det cfg enforce) cs)) st1
      = Some (st2, concat (map (copy_effects det cfg enforce) cs))" by auto
  from run_updates_append [OF st1(1) this] show ?case by auto
qed simp

text \<open>
  C25. Every copy is inspected once and the agent does not react to itself. With a verified bundle, or with
  none, over any sequence of copies and however many notifications each of them and each clear causes,
  the listener never panics; for every copy it reports the incidents of its decision once and, exactly when
  it enforces, the channel is enabled and the decision is to block, it clears the clipboard once. Its own
  clears are never inspected.
\<close>

theorem clipboard_copies_handled_once:
  fixes u l sha256 read file_name_of and bdl :: "index_bundle option"
  assumes "pred_option bundle_wf bdl" and "copies_wf 1 cs"
  defines "det \<equiv> map_option (\<lambda>b. bundle_detector u l sha256 b read file_name_of) bdl"
  shows "\<exists>st. run_updates det cfg enforce (concat (map (copy_updates det cfg enforce) cs)) clip_state_init
    = Some (st, concat (map (\<lambda>c. map CE_Report (cd_incidents (copy_decision det cfg c))
        @ (if enforce \<and> cc_enabled cfg \<and> cd_block (copy_decision det cfg c)
           then map CE_Call (clear_calls (uc_clear c)) else [])) cs))"
proof -
  have "seqs_below 1 clip_state_init" by (simp add: seqs_below_def clip_state_init_def loop_guard_new_def)
  moreover have "detector_total d" if "det = Some d" for d
    using assms(1) that bundle_detector_total by (auto simp: det_def)
  ultimately show ?thesis
    using run_copies [OF _ assms(2), of det clip_state_init cfg enforce]
    unfolding copy_effects_def copy_stopped_def by blast
qed

definition image_view :: clipboard_view where
  "image_view = \<lparr>cv_opens = [True], cv_html_fmt = 0, cv_rtf_fmt = 0, cv_available = (\<lambda>f. f = CF_DIB), cv_read_global = (\<lambda>_. None)\<rparr>"

definition image_config :: clipboard_config where
  "image_config = clipboard_config_default\<lparr>cc_enabled := True, cc_block_images := True\<rparr>"

definition image_copy :: user_copy where
  "image_copy = \<lparr>uc_seq = 5, uc_view = image_view, uc_clear = \<lparr>cl_opens = True, cl_empties = True\<rparr>, uc_clear_seq = 7, uc_extra = 2\<rparr>"

lemma image_snapshot: "read_snapshot image_view = Some CP_Image"
  by (simp add: read_snapshot_def image_view_def CF_DIB_def CF_HDROP_def CF_UNICODETEXT_def)

lemma image_decision:
  "copy_decision None image_config image_copy = \<lparr>cd_block = True, cd_incidents = [image_incident True (lit ''clipboard'')]\<rparr>"
  by (simp add: copy_decision_def image_copy_def image_snapshot inspect_def image_config_def clipboard_config_default_def)

lemma clipboard_copies_handled_once_witness:
  "\<exists>st. run_updates None image_config True (copy_updates None image_config True image_copy) clip_state_init
    = Some (st, CE_Report (image_incident True (lit ''clipboard'')) # map CE_Call (clear_calls \<lparr>cl_opens = True, cl_empties = True\<rparr>))"
  using clipboard_copies_handled_once [where bdl = None and cs = "[image_copy]" and cfg = image_config and enforce = True]
  by (simp add: image_decision) (simp add: image_copy_def image_config_def)

section \<open>Limits\<close>

text \<open>
  The number recorded after a clear is read after it: when the user copies again in between, that copy has the
  recorded number and is neither inspected nor reported.
\<close>

lemma copy_during_clear_ignored:
  assumes "lg_ignore_seq (cs_guard st) = Some (cu_seq u)" and "cu_seq u \<noteq> cs_last_seq st"
  shows "\<exists>st'. on_update det cfg enforce u st = Some (st', [])"
  using assms by (simp add: on_update_def should_ignore_def)

text \<open>Without enforcement nothing is cleared, and the incident still says the copy was blocked.\<close>

lemma dry_run_reports_blocked:
  "\<exists>st i. run_updates None image_config False (copy_updates None image_config False image_copy) clip_state_init
     = Some (st, [CE_Report i]) \<and> ui_action_taken i = AT_Blocked"
  using run_copies [of None 1 "[image_copy]" clip_state_init image_config False]
  by (simp add: copy_effects_def copy_stopped_def image_decision image_incident_def clipboard_incident_def seqs_below_def
      clip_state_init_def loop_guard_new_def) (auto simp: image_copy_def)

end
