(* ===== verification/Clip_Session.thy ===== *)
theory Clip_Session
  imports Clipboard
begin

text \<open>
  The clipboard monitor at work: the listener's window and message pump and the reading of a format (\<open>clipboard/watch.rs\<close>),
  the notice that replaces a cleared copy (\<open>clipboard/enforce.rs\<close>) and \<open>run_monitor\<close> around them
  (\<open>clipboard/mod.rs\<close>). What the window system answers is an argument. Shown: the pump
  handles each update in order and nothing else, and without \<open>--enforce\<close> the clipboard is never touched.
\<close>

section \<open>Reading a format\<close>

text \<open>
  What the calls answer for a format: its handle, the size of the memory behind it and the bytes there, when it can be locked.
\<close>

record global_calls =
  gl_handle :: "u32 \<Rightarrow> nat option"
  gl_size :: "nat \<Rightarrow> nat"
  gl_lock :: "nat \<Rightarrow> bytes option"

text \<open>A handle of 0 or of all ones is invalid; the locked memory has the size that was told.\<close>

definition handle_invalid :: "nat \<Rightarrow> bool" where
  "handle_invalid h \<longleftrightarrow> h = 0 \<or> h = 2 ^ 64 - 1"

definition read_global :: "global_calls \<Rightarrow> u32 \<Rightarrow> bytes option" where
  "read_global gl fmt =
     (case gl_handle gl fmt of
        None \<Rightarrow> None
      | Some h \<Rightarrow>
          if handle_invalid h then None
          else if gl_size gl h = 0 then None
          else map_option (take (gl_size gl h)) (gl_lock gl h))"

definition register_format :: "(bytes \<Rightarrow> u32) \<Rightarrow> string \<Rightarrow> u32" where
  "register_format register name = register (concat (map (to_le 2) (utf16_of (lit name) @ [0])))"

section \<open>The notice\<close>

record notice_calls =
  nc_alloc :: bool
  nc_lock :: bool
  nc_set :: bool

definition notice_units :: "ustring \<Rightarrow> nat list" where
  "notice_units notice = utf16_of notice @ [0]"

text \<open>The data put on the clipboard, when it is put there.\<close>

definition set_clipboard_notice :: "notice_calls \<Rightarrow> ustring \<Rightarrow> (u32 \<times> bytes) option" where
  "set_clipboard_notice os notice =
     (if nc_alloc os \<and> nc_lock os \<and> nc_set os
      then Some (CF_UNICODETEXT, concat (map (to_le 2) (notice_units notice)))
      else None)"

section \<open>The pump\<close>

text \<open>What the pump takes from the queue: nothing more, an error, a change of the clipboard, another message.\<close>

datatype pump_message = PM_Quit | PM_Error | PM_Update clip_update | PM_Other

datatype listener_error = LI_Window | LI_Listener | LI_Message

text \<open>The outer option is a panic of the reaction; a pump that has not ended after the given messages has no result.\<close>

fun pump ::
  "detector option \<Rightarrow> clipboard_config \<Rightarrow> bool \<Rightarrow> pump_message list \<Rightarrow> clip_state
   \<Rightarrow> (clip_effect list \<times> (listener_error + unit) option) option" where
  "pump det cfg enforce [] st = Some ([], None)"
| "pump det cfg enforce (PM_Quit # ms) st = Some ([], Some (Inr ()))"
| "pump det cfg enforce (PM_Error # ms) st = Some ([], Some (Inl LI_Message))"
| "pump det cfg enforce (PM_Other # ms) st = pump det cfg enforce ms st"
| "pump det cfg enforce (PM_Update u # ms) st =
     (case on_update det cfg enforce u st of
        None \<Rightarrow> None
      | Some (st1, e1) \<Rightarrow> map_option (\<lambda>(e2, r). (e1 @ e2, r)) (pump det cfg enforce ms st1))"

definition run_listener ::
  "bool \<Rightarrow> bool \<Rightarrow> detector option \<Rightarrow> clipboard_config \<Rightarrow> bool \<Rightarrow> pump_message list \<Rightarrow> clip_state
   \<Rightarrow> (clip_effect list \<times> (listener_error + unit) option) option" where
  "run_listener window_ok listener_ok det cfg enforce ms st =
     (if \<not> window_ok then Some ([], Some (Inl LI_Window))
      else if \<not> listener_ok then Some ([], Some (Inl LI_Listener))
      else pump det cfg enforce ms st)"

text \<open>An error of the listener is logged, so \<open>run_monitor\<close> only has effects.\<close>

definition clipboard_run_monitor ::
  "bool \<Rightarrow> bool \<Rightarrow> detector option \<Rightarrow> clipboard_config \<Rightarrow> bool \<Rightarrow> pump_message list \<Rightarrow> clip_effect list option" where
  "clipboard_run_monitor window_ok listener_ok det cfg enforce ms =
     map_option fst (run_listener window_ok listener_ok det cfg enforce ms clip_state_init)"

section \<open>The pump handles the updates\<close>

text \<open>The updates before the end of the queue.\<close>

fun updates_of :: "pump_message list \<Rightarrow> clip_update list" where
  "updates_of [] = []"
| "updates_of (PM_Quit # ms) = []"
| "updates_of (PM_Error # ms) = []"
| "updates_of (PM_Other # ms) = updates_of ms"
| "updates_of (PM_Update u # ms) = u # updates_of ms"

lemma pump_updates:
  "map_option fst (pump det cfg enforce ms st) = map_option snd (run_updates det cfg enforce (updates_of ms) st)"
proof (induction ms arbitrary: st)
  case (Cons m ms)
  show ?case
  proof (cases m)
    case (PM_Update u)
    show ?thesis
    proof (cases "on_update det cfg enforce u st")
      case (Some r)
      obtain st1 e1 where r: "r = (st1, e1)" by fastforce
      obtain p s where ps: "p = pump det cfg enforce ms st1" "s = run_updates det cfg enforce (updates_of ms) st1" by blast
      have "map_option fst p = map_option snd s" unfolding ps by (rule Cons.IH)
      then have "map_option fst (map_option (\<lambda>(e2, r). (e1 @ e2, r)) p) = map_option snd (map_option (\<lambda>(st2, e2). (st2, e1 @ e2)) s)"
        by (cases p; cases s) (auto split: prod.split)
      then show ?thesis by (simp only: PM_Update Some r ps pump.simps updates_of.simps run_updates.simps option.case prod.case)
    qed (simp add: PM_Update)
  qed (simp_all add: Cons.IH)
qed simp

lemma clipboard_run_monitor_updates:
  "clipboard_run_monitor True True det cfg enforce ms = map_option snd (run_updates det cfg enforce (updates_of ms) clip_state_init)"
  by (simp add: clipboard_run_monitor_def run_listener_def pump_updates)

definition calls_of :: "clip_effect list \<Rightarrow> clipboard_call list" where
  "calls_of es = List.map_filter (\<lambda>e. case e of CE_Call c \<Rightarrow> Some c | CE_Report _ \<Rightarrow> None) es"

definition reports_of :: "clip_effect list \<Rightarrow> usb_incident list" where
  "reports_of es = List.map_filter (\<lambda>e. case e of CE_Report i \<Rightarrow> Some i | CE_Call _ \<Rightarrow> None) es"

lemma calls_of_Nil [simp]: "calls_of [] = []"
  by (simp add: calls_of_def)

lemma calls_of_append [simp]: "calls_of (xs @ ys) = calls_of xs @ calls_of ys"
  by (induction xs) (simp_all add: calls_of_def split: clip_effect.split)

lemma calls_of_reports [simp]: "calls_of (map CE_Report is) = []"
  by (induction "is") (simp_all add: calls_of_def)

lemma on_update_audit: "on_update det cfg False u st = Some (st', es) \<Longrightarrow> calls_of es = []"
  by (auto simp: on_update_def Let_def split: if_splits option.splits prod.splits)

lemma run_updates_audit: "run_updates det cfg False us st = Some (st', es) \<Longrightarrow> calls_of es = []"
proof (induction us arbitrary: st es)
  case (Cons u us)
  then obtain st1 e1 e2 where "on_update det cfg False u st = Some (st1, e1)" "run_updates det cfg False us st1 = Some (st', e2)" "es = e1 @ e2"
    by (auto split: option.splits prod.splits)
  with Cons.IH on_update_audit [of det cfg u st st1 e1] show ?case by simp
qed simp

text \<open>An audit never touches the clipboard, however many changes it sees.\<close>

lemma audit_never_clears:
  assumes "clipboard_run_monitor w l det cfg False ms = Some es"
  shows "calls_of es = []"
proof (cases "w \<and> l")
  case True
  with assms clipboard_run_monitor_updates [of det cfg False ms] run_updates_audit show ?thesis by fastforce
next
  case False
  with assms show ?thesis by (auto simp: clipboard_run_monitor_def run_listener_def split: if_splits)
qed

section \<open>The notice is read as text\<close>

lemma notice_read_back:
  assumes "list_all is_scalar notice" and "0 \<notin> set notice" and "set_clipboard_notice os notice = Some (fmt, bs)"
  shows "fmt = CF_UNICODETEXT \<and> parse_unicode_text bs = notice"
proof -
  have u: "list_all (\<lambda>u. u < 65536) (utf16_of notice @ [0])" "list_all (\<lambda>u. u \<noteq> 0) (utf16_of notice)"
    using utf16_of_range [of notice] assms(1,2) by (auto simp: list_all_iff storable_def)
  have b: "fmt = CF_UNICODETEXT" "bs = concat (map (to_le 2) (utf16_of notice @ [0])) @ []"
    using assms(3) by (auto simp: set_clipboard_notice_def notice_units_def split: if_splits)
  show ?thesis
    unfolding b parse_unicode_text_def utf16_pairs_units [OF u(1)]
    using u(2) from_utf16_of [of notice] assms(1,2) by (simp add: units_to_nul_stop storable_def)
qed

end
