(* ===== verification/Cli.thy ===== *)
theory Cli
  imports Net_Rules
begin

text \<open>
  The agent's command line (\<open>main.rs\<close>): what \<open>main\<close> does with the arguments before any configuration is read, the
  command a mode selects afterwards, and the options of each command. Arguments are texts. Shown: asking for
  help never starts a command, live enforcement needs the option, every refused command line ends with the exit code 2.
\<close>

section \<open>Options\<close>

text \<open>
  How reading the options of a command ends: it runs, it shows its help, it refuses an option and shows its help, or it
  fails because something required is missing.
\<close>

datatype 'a cli = Cli_Run 'a | Cli_Help | Cli_Usage | Cli_Error

definition is_help :: "ustring \<Rightarrow> bool" where
  "is_help a \<longleftrightarrow> a = lit ''-h'' \<or> a = lit ''--help''"

text \<open>Of \<open>cmd_usb_monitor\<close> and \<open>cmd_clipboard_monitor\<close>.\<close>

fun enforce_args :: "ustring list \<Rightarrow> bool \<Rightarrow> bool cli" where
  "enforce_args [] enforce = Cli_Run enforce"
| "enforce_args (arg # args) enforce =
     (if arg = lit ''--enforce'' then enforce_args args True
      else if is_help arg then Cli_Help
      else Cli_Usage)"

text \<open>Of \<open>cmd_usb_guard\<close> and \<open>cmd_browser_host\<close>: the first argument ends the loop either way.\<close>

fun no_args :: "ustring list \<Rightarrow> unit cli" where
  "no_args [] = Cli_Run ()"
| "no_args (arg # args) = (if is_help arg then Cli_Help else Cli_Usage)"

definition net_mode_of :: "ustring \<Rightarrow> net_mode option" where
  "net_mode_of val =
     (if val = lit ''monitor'' then Some Monitor
      else if val = lit ''allowlist'' then Some Allowlist
      else if val = lit ''blocklist'' then Some Blocklist
      else None)"

fun net_args :: "ustring list \<Rightarrow> net_mode \<Rightarrow> net_mode cli" where
  "net_args [] mode = Cli_Run mode"
| "net_args [arg] mode =
     (if arg = lit ''--enforce'' then Cli_Usage else if is_help arg then Cli_Help else Cli_Usage)"
| "net_args (arg # val # args) mode =
     (if arg = lit ''--enforce'' then (case net_mode_of val of Some m \<Rightarrow> net_args args m | None \<Rightarrow> Cli_Usage)
      else if is_help arg then Cli_Help
      else Cli_Usage)"

record scan_options =
  so_bundle :: "ustring option"
  so_file :: "ustring option"
  so_json :: bool
  so_report :: bool
  so_channel :: "ustring option"

definition scan_options_init :: scan_options where
  "scan_options_init = \<lparr>so_bundle = None, so_file = None, so_json = False, so_report = False, so_channel = None\<rparr>"

definition next_arg :: "ustring list \<Rightarrow> ustring option" where
  "next_arg args = (case args of [] \<Rightarrow> None | a # _ \<Rightarrow> Some a)"

function scan_options_loop :: "ustring list \<Rightarrow> scan_options \<Rightarrow> scan_options option" where
  "scan_options_loop [] so = Some so"
| "scan_options_loop (arg # args) so =
     (if arg = lit ''--bundle'' then scan_options_loop (drop 1 args) (so\<lparr>so_bundle := next_arg args\<rparr>)
      else if arg = lit ''--file'' then scan_options_loop (drop 1 args) (so\<lparr>so_file := next_arg args\<rparr>)
      else if arg = lit ''--json'' then scan_options_loop args (so\<lparr>so_json := True\<rparr>)
      else if arg = lit ''--report'' then scan_options_loop args (so\<lparr>so_report := True\<rparr>)
      else if arg = lit ''--channel'' then scan_options_loop (drop 1 args) (so\<lparr>so_channel := next_arg args\<rparr>)
      else None)"
  by pat_completeness auto
termination
  by (relation "measure (\<lambda>(args, so). length args)") auto

text \<open>The bundle, the file and the options.\<close>

definition scan_args :: "ustring list \<Rightarrow> (ustring \<times> ustring \<times> scan_options) cli" where
  "scan_args args =
     (case scan_options_loop args scan_options_init of
        None \<Rightarrow> Cli_Usage
      | Some so \<Rightarrow>
          (case (so_bundle so, so_file so) of
             (Some b, Some f) \<Rightarrow> Cli_Run (b, f, so)
           | _ \<Rightarrow> Cli_Error))"

text \<open>The input and the output of \<open>decrypt\<close>.\<close>

function decrypt_loop :: "ustring list \<Rightarrow> ustring option \<Rightarrow> ustring option \<Rightarrow> (ustring \<times> ustring option) cli" where
  "decrypt_loop [] input output = (case input of Some i \<Rightarrow> Cli_Run (i, output) | None \<Rightarrow> Cli_Error)"
| "decrypt_loop (arg # args) input output =
     (if arg = lit ''-o'' \<or> arg = lit ''--output'' then
        (case args of [] \<Rightarrow> Cli_Error | p # args' \<Rightarrow> decrypt_loop args' input (Some p))
      else if \<not> starts_with arg (lit ''-'') \<and> input = None then decrypt_loop args (Some arg) output
      else Cli_Usage)"
  by pat_completeness auto
termination
  by (relation "measure (\<lambda>(args, i, out). length args)") auto

definition decrypt_args :: "ustring list \<Rightarrow> (ustring \<times> ustring option) cli" where
  "decrypt_args args = decrypt_loop args None None"

section \<open>Modes\<close>

text \<open>What the process does before a configuration: hand over to the service manager, show a help text, show a toast, or go on.\<close>

datatype startup =
  SU_Dispatcher | SU_Help ustring | SU_Toast "ustring list" | SU_Configured ustring "ustring list"

definition modes_with_help :: "ustring list" where
  "modes_with_help =
     [lit ''scan'', lit ''usb-monitor'', lit ''usb-guard'', lit ''clipboard-monitor'', lit ''net-monitor'', lit ''browser-host'',
      lit ''decrypt'']"

text \<open>\<open>argv\<close> with the program's name first, in a build for Windows.\<close>

definition agent_main :: "ustring list \<Rightarrow> startup" where
  "agent_main argv =
     (let mode = (case drop 1 argv of [] \<Rightarrow> lit ''run'' | m # _ \<Rightarrow> m); args = drop 2 argv
      in if drop 1 argv \<noteq> [] \<and> mode = lit ''service-run'' then SU_Dispatcher
         else if mode = lit ''help'' \<or> is_help mode then SU_Help []
         else if mode \<in> set modes_with_help \<and> list_ex is_help args then SU_Help mode
         else if mode = lit ''toast'' then SU_Toast args
         else SU_Configured mode args)"

text \<open>The commands that a loaded configuration can start.\<close>

datatype command =
  CD_Enroll | CD_Once | CD_Run | CD_Status | CD_Index_Update | CD_Scan "(ustring \<times> ustring \<times> scan_options) cli"
| CD_Usb_Monitor "bool cli" | CD_Usb_Guard "unit cli" | CD_Clipboard_Monitor "bool cli" | CD_Net_Monitor "net_mode cli"
| CD_Browser_Host "unit cli" | CD_Decrypt "(ustring \<times> ustring option) cli" | CD_Run_Endpoint
| CD_Install | CD_Uninstall | CD_Not_By_Service | CD_Unknown

text \<open>\<open>default_mode\<close> is the configured mode of the network filter.\<close>

definition command_for :: "net_mode \<Rightarrow> ustring \<Rightarrow> ustring list \<Rightarrow> command" where
  "command_for default_mode mode args =
     (if mode = lit ''enroll'' then CD_Enroll
      else if mode = lit ''once'' then CD_Once
      else if mode = lit ''run'' then CD_Run
      else if mode = lit ''status'' then CD_Status
      else if mode = lit ''index-update'' then CD_Index_Update
      else if mode = lit ''scan'' then CD_Scan (scan_args args)
      else if mode = lit ''usb-monitor'' then CD_Usb_Monitor (enforce_args args False)
      else if mode = lit ''usb-guard'' then CD_Usb_Guard (no_args args)
      else if mode = lit ''clipboard-monitor'' then CD_Clipboard_Monitor (enforce_args args False)
      else if mode = lit ''net-monitor'' then CD_Net_Monitor (net_args args default_mode)
      else if mode = lit ''browser-host'' then CD_Browser_Host (no_args args)
      else if mode = lit ''decrypt'' then CD_Decrypt (decrypt_args args)
      else if mode = lit ''run-endpoint'' then CD_Run_Endpoint
      else if mode = lit ''install-service'' then CD_Install
      else if mode = lit ''uninstall-service'' then CD_Uninstall
      else if mode = lit ''service-run'' then CD_Not_By_Service
      else CD_Unknown)"

section \<open>What the arguments decide\<close>

lemma enforce_args_run:
  "enforce_args args e = Cli_Run live \<longleftrightarrow> list_all ((=) (lit ''--enforce'')) args \<and> (live \<longleftrightarrow> e \<or> args \<noteq> [])"
  by (induction args e rule: enforce_args.induct) auto

lemma net_args_run:
  "net_args args mode = Cli_Run m \<Longrightarrow> m = mode \<or> lit ''--enforce'' \<in> set args \<and> (\<exists>val \<in> set args. net_mode_of val = Some m)"
  by (induction args mode rule: net_args.induct) (fastforce split: if_splits option.splits)+

lemma no_args_run: "no_args args = Cli_Run () \<longleftrightarrow> args = []"
  by (cases args) auto

text \<open>The last value given counts, also when it is missing: an option at the end of the line takes back what an earlier one said.\<close>

lemma scan_option_taken_back: "scan_args [lit ''--file'', f, lit ''--bundle'', b, lit ''--bundle''] = Cli_Error"
  by (simp add: scan_args_def scan_options_init_def next_arg_def lit_def)

lemma decrypt_args_run:
  "decrypt_loop args i out = Cli_Run (inp, out') \<Longrightarrow> i = Some inp \<or> (inp \<in> set args \<and> \<not> starts_with inp (lit ''-''))"
proof (induction args i out rule: decrypt_loop.induct)
  case (2 arg args i out)
  consider (outp) p args' where "arg = lit ''-o'' \<or> arg = lit ''--output''" "args = p # args'" "decrypt_loop args' i (Some p) = Cli_Run (inp, out')"
    | (inpt) "\<not> (arg = lit ''-o'' \<or> arg = lit ''--output'')" "\<not> starts_with arg (lit ''-'') \<and> i = None"
        "decrypt_loop args (Some arg) out = Cli_Run (inp, out')"
    using 2(3) by (cases args) (auto split: if_splits)
  then show ?case
  proof cases
    case outp
    with 2(1) show ?thesis by auto
  next
    case inpt
    with 2(2) show ?thesis by auto
  qed
qed (simp split: option.splits)

lemma startup_configured:
  "(if c1 then SU_Dispatcher else if c2 then SU_Help h1 else if c3 then SU_Help h2 else if c4 then SU_Toast t else SU_Configured m as)
     = SU_Configured mode args \<Longrightarrow> mode = m \<and> args = as \<and> \<not> c3 \<and> \<not> c4"
  by (cases c1; cases c2; cases c3; cases c4; simp)

lemma configured_mode:
  assumes "agent_main argv = SU_Configured mode args"
  shows "args = drop 2 argv" and "mode \<in> set modes_with_help \<Longrightarrow> list_all (\<lambda>a. \<not> is_help a) args" and "mode \<noteq> lit ''toast''"
proof -
  note r = startup_configured [OF assms [unfolded agent_main_def Let_def]]
  from r show "args = drop 2 argv" by (elim conjE)
  from r show "mode \<in> set modes_with_help \<Longrightarrow> list_all (\<lambda>a. \<not> is_help a) args"
    unfolding list_all_iff list_ex_iff by blast
  from r show "mode \<noteq> lit ''toast''" by metis
qed

lemma no_help_left:
  assumes "list_all (\<lambda>a. \<not> is_help a) args"
  shows "enforce_args args e \<noteq> Cli_Help" and "no_args args \<noteq> Cli_Help" and "net_args args m \<noteq> Cli_Help"
proof -
  show "enforce_args args e \<noteq> Cli_Help" using assms by (induction args e rule: enforce_args.induct) auto
  show "no_args args \<noteq> Cli_Help" using assms by (cases args) auto
  show "net_args args m \<noteq> Cli_Help" using assms
    by (induction args m rule: net_args.induct) (auto split: option.split)
qed


text \<open>What a started command was given.\<close>

definition as_asked :: "net_mode \<Rightarrow> ustring list \<Rightarrow> command \<Rightarrow> bool" where
  "as_asked nm args cmd =
     (case cmd of
        CD_Usb_Monitor r \<Rightarrow> r \<noteq> Cli_Help \<and> (\<forall>live. r = Cli_Run live \<longrightarrow> (live \<longleftrightarrow> lit ''--enforce'' \<in> set args))
      | CD_Clipboard_Monitor r \<Rightarrow> r \<noteq> Cli_Help \<and> (\<forall>live. r = Cli_Run live \<longrightarrow> (live \<longleftrightarrow> lit ''--enforce'' \<in> set args))
      | CD_Net_Monitor r \<Rightarrow> r \<noteq> Cli_Help
          \<and> (\<forall>m. r = Cli_Run m \<longrightarrow> m = nm \<or> lit ''--enforce'' \<in> set args \<and> (\<exists>val \<in> set args. net_mode_of val = Some m))
      | CD_Usb_Guard r \<Rightarrow> r \<noteq> Cli_Help \<and> (r = Cli_Run () \<longrightarrow> args = [])
      | CD_Browser_Host r \<Rightarrow> r \<noteq> Cli_Help \<and> (r = Cli_Run () \<longrightarrow> args = [])
      | CD_Decrypt r \<Rightarrow> (\<forall>i out. r = Cli_Run (i, out) \<longrightarrow> i \<in> set args \<and> \<not> starts_with i (lit ''-''))
      | _ \<Rightarrow> True)"

lemma if_asked:
  "(c \<Longrightarrow> as_asked nm args x) \<Longrightarrow> as_asked nm args y \<Longrightarrow> as_asked nm args (if c then x else y)"
  by simp

lemma asked_others:
  "as_asked nm args CD_Enroll" "as_asked nm args CD_Once" "as_asked nm args CD_Run" "as_asked nm args CD_Status"
  "as_asked nm args CD_Index_Update" "as_asked nm args (CD_Scan r)" "as_asked nm args CD_Run_Endpoint"
  "as_asked nm args CD_Install" "as_asked nm args CD_Uninstall" "as_asked nm args CD_Not_By_Service" "as_asked nm args CD_Unknown"
  by (simp_all add: as_asked_def)

lemma asked_monitors:
  assumes "list_all (\<lambda>a. \<not> is_help a) args"
  shows "as_asked nm args (CD_Usb_Monitor (enforce_args args False))"
    and "as_asked nm args (CD_Clipboard_Monitor (enforce_args args False))"
    and "as_asked nm args (CD_Net_Monitor (net_args args nm))"
    and "as_asked nm args (CD_Usb_Guard (no_args args))"
    and "as_asked nm args (CD_Browser_Host (no_args args))"
proof -
  have "enforce_args args False = Cli_Run live \<Longrightarrow> live \<longleftrightarrow> lit ''--enforce'' \<in> set args" for live
    unfolding enforce_args_run by (cases args) auto
  with no_help_left [OF assms] show "as_asked nm args (CD_Usb_Monitor (enforce_args args False))"
    "as_asked nm args (CD_Clipboard_Monitor (enforce_args args False))" by (auto simp: as_asked_def)
  show "as_asked nm args (CD_Net_Monitor (net_args args nm))"
    using no_help_left(3) [OF assms] net_args_run [of args nm] by (auto simp: as_asked_def)
  show "as_asked nm args (CD_Usb_Guard (no_args args))" "as_asked nm args (CD_Browser_Host (no_args args))"
    using no_help_left(2) [OF assms] no_args_run [of args] by (auto simp: as_asked_def)
qed

lemma asked_decrypt: "as_asked nm args (CD_Decrypt (decrypt_args args))"
  using decrypt_args_run [of args None None] by (auto simp: as_asked_def decrypt_args_def)

lemma command_asked:
  assumes "mode \<in> set modes_with_help \<Longrightarrow> list_all (\<lambda>a. \<not> is_help a) args"
  shows "as_asked nm args (command_for nm mode args)"
proof -
  have m: "{lit ''usb-monitor'', lit ''usb-guard'', lit ''clipboard-monitor'', lit ''net-monitor'', lit ''browser-host''} \<subseteq> set modes_with_help"
    by (simp only: modes_with_help_def list.set) blast
  have a: "mode = lit ''usb-monitor'' \<Longrightarrow> list_all (\<lambda>a. \<not> is_help a) args" "mode = lit ''usb-guard'' \<Longrightarrow> list_all (\<lambda>a. \<not> is_help a) args"
    "mode = lit ''clipboard-monitor'' \<Longrightarrow> list_all (\<lambda>a. \<not> is_help a) args" "mode = lit ''net-monitor'' \<Longrightarrow> list_all (\<lambda>a. \<not> is_help a) args"
    "mode = lit ''browser-host'' \<Longrightarrow> list_all (\<lambda>a. \<not> is_help a) args"
    by (rule assms, use m in blast)+
  show ?thesis
    unfolding command_for_def by (intro if_asked asked_others asked_decrypt; (rule asked_monitors, erule a))
qed

text \<open>
  A command starts as it was asked for. Whatever the command line: where a help option is given to a command that has a help
  text, it shows it and reads no configuration, so the commands' own help branches are dead code; the monitors of
  volumes and of the clipboard enforce exactly when \<open>--enforce\<close> was given, the network monitor leaves its
  configured mode only when \<open>--enforce\<close> and a mode are given; the guard and the browser's host run only
  without options; and \<open>decrypt\<close> reads a file that was named and is no option.
\<close>

lemma commands_as_asked:
  assumes "agent_main argv = SU_Configured mode args"
  shows "args = drop 2 argv \<and> mode \<noteq> lit ''toast'' \<and> as_asked nm args (command_for nm mode args)"
  using configured_mode [OF assms] command_asked [of mode args nm] by blast

lemma enforcing_monitor_asked:
  "as_asked Monitor [lit ''--enforce''] (command_for Monitor (lit ''usb-monitor'') [lit ''--enforce''])
    \<and> command_for Monitor (lit ''usb-monitor'') [lit ''--enforce''] = CD_Usb_Monitor (Cli_Run True)"
proof -
  have "agent_main [lit ''dlp-agent'', lit ''usb-monitor'', lit ''--enforce''] = SU_Configured (lit ''usb-monitor'') [lit ''--enforce'']"
    by (simp add: agent_main_def modes_with_help_def is_help_def lit_def)
  from commands_as_asked [OF this, of Monitor] show ?thesis by (simp add: command_for_def lit_def)
qed

end
