(* ===== verification/Sessions.thy ===== *)
theory Sessions
  imports Endpoint Browser_Host Net_Monitor Guard_Session Clip_Session Cli
begin

text \<open>
  The agent's commands put together (\<open>main.rs\<close>): what a monitoring command does at its start (synchronize the trusted
  destinations, send what was queued), the monitor it runs and the delivery of every incident the monitor raises. Shown: on
  a working queue a session loses nothing, what was queued before included; without \<open>--enforce\<close> the
  volumes are left as they are; and what the browser's host answers with and without a bundle.
\<close>

section \<open>The queue at the start\<close>

text \<open>
  The closure that flushing calls: the exchanges so far and what was sent. Each exchange has its own network.
\<close>

definition flush_send ::
  "(nat \<Rightarrow> delivery) \<Rightarrow> config \<Rightarrow> state_dir \<Rightarrow> nat \<times> http_request list \<Rightarrow> ustring \<Rightarrow> bool \<times> nat \<times> http_request list" where
  "flush_send dls cfg d s body =
     (case post_incident_body (dls (fst s)) cfg d body of
        (sent, Inr _) \<Rightarrow> (True, Suc (fst s), snd s @ sent)
      | (sent, Inl _) \<Rightarrow> (False, Suc (fst s), snd s @ sent))"

definition flush_queued :: "(nat \<Rightarrow> delivery) \<Rightarrow> config \<Rightarrow> state_dir \<Rightarrow> dir \<Rightarrow> nat \<times> http_request list \<times> dir" where
  "flush_queued dls cfg d q =
     (if has_identity d \<and> \<not> queue_is_empty q
      then (case flush (dl_fs (dls 0)) (flush_send dls cfg d) (0, []) q of (flushed, (_, sent), q') \<Rightarrow> (flushed, sent, q'))
      else (0, [], q))"

section \<open>The sink\<close>

type_synonym sink_log = "((ustring \<times> ustring) option \<times> http_request list \<times> delivered) list"

text \<open>The incidents in the order they are raised; \<open>dls\<close> is the network, clock and file system of each.\<close>

fun deliver_all ::
  "(nat \<Rightarrow> delivery) \<Rightarrow> config \<Rightarrow> state_dir \<Rightarrow> usb_incident list \<Rightarrow> notify_state \<Rightarrow> dir \<Rightarrow> (sink_log \<times> notify_state \<times> dir) option" where
  "deliver_all dls cfg d [] nst q = Some ([], nst, q)"
| "deliver_all dls cfg d (inc # incs) nst q =
     (case deliver_incident (dls 0) cfg d inc nst q of
        None \<Rightarrow> None
      | Some (toast, sent, r, nst1, q1) \<Rightarrow>
          map_option (\<lambda>(log, nst2, q2). ((toast, sent, r) # log, nst2, q2)) (deliver_all (\<lambda>k. dls (Suc k)) cfg d incs nst1 q1))"

record session =
  ss_flushed :: "http_request list"
  ss_log :: sink_log
  ss_notify :: notify_state
  ss_queue :: dir

definition run_channel ::
  "(nat \<Rightarrow> delivery) \<Rightarrow> (nat \<Rightarrow> delivery) \<Rightarrow> config \<Rightarrow> state_dir \<Rightarrow> usb_incident list \<Rightarrow> notify_state \<Rightarrow> dir \<Rightarrow> session option" where
  "run_channel fls dls cfg d incs nst q =
     (case flush_queued fls cfg d q of
        (_, sent, q1) \<Rightarrow>
          map_option (\<lambda>(log, nst', q2). \<lparr>ss_flushed = sent, ss_log = log, ss_notify = nst', ss_queue = q2\<rparr>)
            (deliver_all dls cfg d incs nst q1))"

section \<open>The commands\<close>

text \<open>The start of the two volume commands: the state directory and the configuration merged with what was synchronized.\<close>

definition synced_start :: "network \<Rightarrow> dir_io \<Rightarrow> machine \<Rightarrow> config \<Rightarrow> state_dir \<Rightarrow> http_request list \<times> state_dir \<times> config" where
  "synced_start net io m cfg d =
     (case sync_trusted_config net io (mc_dp m) (mc_wi m) cfg d of
        (sent, tr, _) \<Rightarrow>
          let d' = left_by d tr
          in (sent, d', with_synced_destinations cfg (load_synced_destinations io (mc_wi m) d')))"

text \<open>The surroundings a command is started in: CA file, signatures, parser, network of each exchange.\<close>

record ('c, 'k, 's) surroundings =
  sr_net :: network
  sr_io :: dir_io
  sr_machine :: machine
  sr_ca_file :: "bytes option"
  sr_api :: "('c, 'k, 's) signature_api"
  sr_parse :: "bytes \<Rightarrow> header option"
  sr_flush :: "nat \<Rightarrow> delivery"
  sr_sink :: "nat \<Rightarrow> delivery"
  sr_meta :: "bytes \<Rightarrow> agent_meta option"

definition cached_bundle :: "('c, 'k, 's) surroundings \<Rightarrow> state_dir \<Rightarrow> index_bundle option" where
  "cached_bundle sr d =
     load_verified_bundle (sr_api sr) (sr_parse sr)
       (case load_ca (sr_io sr) (mc_dp (sr_machine sr)) (sr_ca_file sr) d of Inr ca \<Rightarrow> Some ca | Inl _ \<Rightarrow> None)
       (load_index_bundle (sr_io sr) d)"

text \<open>The sealer of the command; each call has its own random bytes, file operations and clock.\<close>

record sealing =
  sg_libs :: envelope_libs
  sg_call :: "nat \<Rightarrow> (bytes \<times> bytes \<times> bytes) \<times> io_results \<times> u64"
  sg_show_key :: "envelope_error \<Rightarrow> ustring"
  sg_show_error :: "seal_error \<Rightarrow> ustring"

definition counted_sealer ::
  "sealing \<Rightarrow> keyring option \<Rightarrow> ustring \<Rightarrow> path \<Rightarrow> ustring \<Rightarrow> nat \<times> volume \<Rightarrow> (ustring + seal_outcome) \<times> nat \<times> volume" where
  "counted_sealer sg ring agent_id p key_id s =
     (case sg_call sg (fst s) of (drawn, io, now) \<Rightarrow>
        (case make_sealer (sg_libs sg) drawn io (sg_show_key sg) (sg_show_error sg) now ring agent_id p key_id (snd s) of
           (r, vol) \<Rightarrow> (r, Suc (fst s), vol)))"

text \<open>
  \<open>env\<close> gives the iteration order and the worker pool, the views what each turn of the loop sees; the configuration is
  fixed and nothing stops the loop. Besides the session the result has the system and the sealed files.
\<close>

definition usb_monitor_run ::
  "('c, 'k, 's) surroundings \<Rightarrow> sealing \<Rightarrow> (nat \<times> volume) monitor_env \<Rightarrow> config \<Rightarrow> bool \<Rightarrow> poll_view list
   \<Rightarrow> state_dir \<Rightarrow> win_state \<Rightarrow> volume \<Rightarrow> (usb_incident list \<times> (nat \<times> volume) usb_monitor) option" where
  "usb_monitor_run sr sg env cfg enforce views d sys vol =
     (let m = sr_machine sr;
          ring = build_sealer_keyring (sr_io sr) (mc_dp m) (mc_wi m) (mc_keyfile m) d;
          env' = env\<lparr>me_enforce := enforce, me_bundle := cached_bundle sr d \<noteq> None,
                     me_sealer := counted_sealer sg ring (agent_id_of (sr_io sr) (sr_meta sr) d)\<rparr>
      in usb_run_monitor env' (map (\<lambda>v. v\<lparr>pv_stop := False, pv_config := cfg\<rparr>) views) (usb_monitor_init sys (0, vol) None))"

definition cmd_usb_monitor ::
  "('c, 'k, 's) surroundings \<Rightarrow> sealing \<Rightarrow> (nat \<times> volume) monitor_env \<Rightarrow> config \<Rightarrow> bool \<Rightarrow> poll_view list
   \<Rightarrow> state_dir \<Rightarrow> win_state \<Rightarrow> volume \<Rightarrow> notify_state \<Rightarrow> dir \<Rightarrow> (session \<times> usb_incident list \<times> (nat \<times> volume) usb_monitor) option" where
  "cmd_usb_monitor sr sg env cfg enforce views d sys vol nst q =
     (case synced_start (sr_net sr) (sr_io sr) (sr_machine sr) cfg d of
        (_, d', cfg') \<Rightarrow>
          Option.bind (usb_monitor_run sr sg env cfg' enforce views d' sys vol) (\<lambda>(incs, um).
            map_option (\<lambda>s. (s, incs, um)) (run_channel (sr_flush sr) (sr_sink sr) cfg' d' incs nst q)))"

text \<open>The guard of this command has the merged configuration and no health signal.\<close>

definition standalone_event :: "config \<Rightarrow> guard_event \<Rightarrow> guard_event" where
  "standalone_event cfg e =
     (case e of EV_Message m \<Rightarrow> EV_Message (m\<lparr>gm_config := cfg, gm_health := None\<rparr>) | EV_Stop \<Rightarrow> EV_Stop | EV_RecvError \<Rightarrow> EV_RecvError)"

definition guard_reports :: "port_effect list \<Rightarrow> usb_incident list" where
  "guard_reports es =
     concat (map (\<lambda>e. case e of
         PE_Turn t \<Rightarrow> List.map_filter (\<lambda>g. case g of GE_Report i \<Rightarrow> Some i | _ \<Rightarrow> None) t
       | _ \<Rightarrow> []) es)"

definition cmd_usb_guard ::
  "('c, 'k, 's) surroundings \<Rightarrow> (index_bundle \<Rightarrow> scorer) \<Rightarrow> bool \<Rightarrow> volume_map option \<Rightarrow> guard_event list \<Rightarrow> config
   \<Rightarrow> state_dir \<Rightarrow> notify_state \<Rightarrow> dir \<Rightarrow> (session \<times> port_effect list \<times> (unit + unit)) option" where
  "cmd_usb_guard sr scorer_of connects cache evs cfg d nst q =
     (case synced_start (sr_net sr) (sr_io sr) (sr_machine sr) cfg d of
        (_, d', cfg') \<Rightarrow>
          (case guard_run connects cfg' (map_option scorer_of (cached_bundle sr d')) cache
                  (map (standalone_event cfg') (filter (\<lambda>e. e \<noteq> EV_Stop) evs)) of
             None \<Rightarrow> None
           | Some (es, r) \<Rightarrow> map_option (\<lambda>s. (s, es, r)) (run_channel (sr_flush sr) (sr_sink sr) cfg' d' (guard_reports es) nst q)))"

definition cmd_clipboard_monitor ::
  "('c, 'k, 's) surroundings \<Rightarrow> (index_bundle \<Rightarrow> detector) \<Rightarrow> bool \<Rightarrow> bool \<Rightarrow> bool \<Rightarrow> pump_message list \<Rightarrow> config
   \<Rightarrow> state_dir \<Rightarrow> notify_state \<Rightarrow> dir \<Rightarrow> (session \<times> clip_effect list) option" where
  "cmd_clipboard_monitor sr detect window_ok listener_ok enforce ms cfg d nst q =
     (case clipboard_run_monitor window_ok listener_ok (map_option detect (cached_bundle sr d)) (cfg_clipboard cfg) enforce ms of
        None \<Rightarrow> None
      | Some es \<Rightarrow> map_option (\<lambda>s. (s, es)) (run_channel (sr_flush sr) (sr_sink sr) cfg d (reports_of es) nst q))"

definition cmd_net_monitor ::
  "('c, 'k, 's) surroundings \<Rightarrow> net_mode \<Rightarrow> (u32 \<times> ustring) list list \<Rightarrow> config \<Rightarrow> state_dir \<Rightarrow> notify_state \<Rightarrow> dir
   \<Rightarrow> (session \<times> net_effect list) option" where
  "cmd_net_monitor sr mode passes cfg d nst q =
     (let es = run_monitor (cfg_netfilter cfg) mode passes
      in map_option (\<lambda>s. (s, es)) (run_channel (sr_flush sr) (sr_sink sr) cfg d (reported es) nst q))"

text \<open>Without a bundle every content is taken for clean.\<close>

definition clean_verdict :: verdict where
  "clean_verdict = \<lparr>vd_file_name = [], vd_file_sha256 = [], vd_extraction = Extraction_Ok (lit ''none''), vd_idm = [], vd_edm = []\<rparr>"

definition host_scanners :: "(index_bundle \<Rightarrow> scanners) \<Rightarrow> scanners \<Rightarrow> index_bundle option \<Rightarrow> scanners" where
  "host_scanners scan std bundle =
     (case bundle of
        Some b \<Rightarrow> scan b
      | None \<Rightarrow> std\<lparr>sc_text := (\<lambda>_. clean_verdict), sc_file := (\<lambda>_. Inr clean_verdict), sc_bytes := (\<lambda>_ _. clean_verdict)\<rparr>)"

definition WEB_CHANNEL :: ustring where
  "WEB_CHANNEL = lit ''web-upload''"

definition cmd_browser_host ::
  "('c, 'k, 's) surroundings \<Rightarrow> (index_bundle \<Rightarrow> scanners) \<Rightarrow> scanners \<Rightarrow> host_codec \<Rightarrow> bytes \<Rightarrow> config \<Rightarrow> state_dir \<Rightarrow> notify_state \<Rightarrow> dir
   \<Rightarrow> (session \<times> host_effect list \<times> (io_error + unit)) option" where
  "cmd_browser_host sr scan std c input cfg d nst q =
     (case serve c (host_scanners scan std (cached_bundle sr d)) (kc_block_at (cfg_kguard cfg)) (kc_coverage_block_at (cfg_kguard cfg))
             WEB_CHANNEL input of
        (es, r) \<Rightarrow> map_option (\<lambda>s. (s, es, r)) (run_channel (sr_flush sr) (sr_sink sr) cfg d (incidents es) nst q))"

section \<open>Flushing\<close>

lemma flush_loop_subset: "set (snd (snd (flush_loop fs send ps s d k))) \<subseteq> set d"
proof (induction ps arbitrary: s d k)
  case (Cons p ps)
  have "set (remove_file fs p d) \<subseteq> set d" by (auto simp: remove_file_def dir_del_def)
  with Cons show ?case by (auto simp: Let_def split: option.split prod.split) blast+
qed simp

lemma before_subset: "before now d \<Longrightarrow> set d' \<subseteq> set d \<Longrightarrow> before now d'"
  by (fastforce simp: before_def set_entries)

text \<open>A body was accepted in one of the exchanges whose requests are \<open>all\<close>.\<close>

definition accepted_in :: "(nat \<Rightarrow> delivery) \<Rightarrow> config \<Rightarrow> http_request list \<Rightarrow> ustring \<Rightarrow> bool" where
  "accepted_in dls cfg all b \<longleftrightarrow> (\<exists>k sent. server_accepted (dls k) cfg b sent \<and> set sent \<subseteq> set all)"

lemma flush_send_ok:
  "flush_send dls cfg d s b = (True, s') \<Longrightarrow> accepted_in dls cfg (snd s') b"
  "snd (flush_send dls cfg d s b) = s' \<Longrightarrow> set (snd s) \<subseteq> set (snd s')"
  using post_accepted [of "dls (fst s)" cfg d b]
  by (auto simp: flush_send_def accepted_in_def split: prod.splits sum.splits) blast

lemma accepted_in_mono: "accepted_in dls cfg xs b \<Longrightarrow> set xs \<subseteq> set ys \<Longrightarrow> accepted_in dls cfg ys b"
  unfolding accepted_in_def by blast

lemma flush_spec_accepted:
  assumes "flush_spec (flush_send dls cfg d) bs s = (n, s', rest)"
  shows "rest = drop n bs \<and> list_all (accepted_in dls cfg (snd s')) (take n bs) \<and> set (snd s) \<subseteq> set (snd s')"
  using assms
proof (induction bs arbitrary: s n s' rest)
  case (Cons b bs)
  obtain ok s1 where o: "flush_send dls cfg d s b = (ok, s1)" using prod.exhaust by metis
  show ?case
  proof (cases ok)
    case True
    obtain m s2 r where f: "flush_spec (flush_send dls cfg d) bs s1 = (m, s2, r)" by (metis prod_cases3)
    with Cons.prems o True have e: "n = Suc m" "s2 = s'" "r = rest" by auto
    from Cons.IH [OF f] flush_send_ok [of dls cfg d s b s1] o True show ?thesis
      unfolding e by (auto intro: accepted_in_mono)
  next
    case False
    with Cons.prems o flush_send_ok(2) [of dls cfg d s b s1] show ?thesis by auto
  qed
qed simp

lemma flush_queued_ok:
  assumes "dl_fs (dls 0) = fs_ok" and "dir_wf q" and "flush_queued dls cfg d q = (n, sent, q')"
  shows "dir_wf q' \<and> set q' \<subseteq> set q \<and> items q' = drop n (items q) \<and> list_all (accepted_in dls cfg sent) (take n (items q))"
proof (cases "has_identity d \<and> \<not> queue_is_empty q")
  case True
  obtain m s rest where f: "flush_spec (flush_send dls cfg d) (items q) (0, []) = (m, s, rest)" by (metis prod_cases3)
  from flush_ok_spec [OF assms(2) f] obtain q2 where q2: "flush fs_ok (flush_send dls cfg d) (0, []) q = (m, s, q2)" "dir_wf q2" "items q2 = rest"
    by blast
  with assms(1,3) True have e: "m = n" "q2 = q'" "snd s = sent" by (auto simp: flush_queued_def split: prod.splits)
  have "set q2 \<subseteq> set q" using flush_loop_subset [of fs_ok "flush_send dls cfg d" "entries q" "(0, [])" q 0] q2(1) by (simp add: flush_def)
  with q2 flush_spec_accepted [OF f] show ?thesis by (auto simp: e)
next
  case False
  with assms show ?thesis by (auto simp: flush_queued_def)
qed

section \<open>A session loses nothing\<close>

fun queued_bodies :: "(nat \<Rightarrow> delivery) \<Rightarrow> usb_incident list \<Rightarrow> sink_log \<Rightarrow> ustring list" where
  "queued_bodies dls (inc # incs) ((toast, sent, r) # lg) =
     (if r = Queued then [the (usb_incident_body (dls 0) inc)] else []) @ queued_bodies (\<lambda>k. dls (Suc k)) incs lg"
| "queued_bodies dls _ _ = []"

text \<open>Clocks that advance from one incident to the next, and a queue from before the first.\<close>

definition clocks_advance :: "nat \<Rightarrow> (nat \<Rightarrow> delivery) \<Rightarrow> dir \<Rightarrow> bool" where
  "clocks_advance n dls q \<longleftrightarrow>
     (\<forall>k < n. dl_fs (dls k) = fs_ok \<and> before (dl_now (dls k)) q \<and> (\<forall>j < k. dl_now (dls j) < dl_now (dls k)))"

definition incident_kept :: "delivery \<Rightarrow> config \<Rightarrow> usb_incident \<Rightarrow> (ustring \<times> ustring) option \<times> http_request list \<times> delivered \<Rightarrow> bool" where
  "incident_kept dl cfg inc x \<longleftrightarrow>
     (\<forall>b. usb_incident_body dl inc = Some b \<longrightarrow> snd (snd x) = Queued \<or> server_accepted dl cfg b (fst (snd x)))
     \<and> (ui_action_taken inc = AT_Blocked \<or> fst x = None)"

lemma post_or_queue_kept:
  assumes "queue_ready dl q" and "length (items q) < DEFAULT_CAP"
  shows "\<exists>sent r q'. post_or_queue dl cfg d b q = Some (sent, r, q') \<and> (r = Queued \<or> server_accepted dl cfg b sent) \<and> dir_wf q'
    \<and> items q' = items q @ (if r = Queued then [b] else [])
    \<and> (\<forall>now'. before now' q \<longrightarrow> dl_now dl < now' \<longrightarrow> before now' q')"
proof -
  have c: "0 < DEFAULT_CAP" by (simp add: DEFAULT_CAP_def)
  have k: "Suc (queue_len q) - DEFAULT_CAP = 0" using assms(2) by (simp add: items_def queue_len_def)
  from assms(1) enqueue_ok [of q "dl_now dl" DEFAULT_CAP "dl_pid dl" b, OF _ _ c] obtain q1 where
    q1: "enqueue fs_ok DEFAULT_CAP (dl_now dl) (dl_pid dl) b q = Some (Inr (), q1)" "dir_wf q1"
      "entries q1 = entries q @ [entry_stem (dl_now dl) (dl_pid dl) @ lit ''.json'']" "items q1 = items q @ [b]"
    by (auto simp: queue_ready_def k)
  have e: "enqueue_body dl b q = Some (Queued, q1)" using assms(1) q1(1) by (simp add: enqueue_body_def queue_ready_def)
  have bf: "before now' q1" if "before now' q" "dl_now dl < now'" for now'
    using that by (auto simp: before_def q1(3))
  show ?thesis
  proof (cases "\<exists>sent i. has_identity d \<and> post_incident_body dl cfg d b = (sent, Inr i)")
    case True
    then obtain sent i where p: "has_identity d" "post_incident_body dl cfg d b = (sent, Inr i)" by blast
    with post_accepted [OF p(2)] assms(1) show ?thesis
      by (intro exI [of _ sent] exI [of _ "Posted i"] exI [of _ q]) (simp add: post_or_queue_def queue_ready_def)
  next
    case False
    obtain sent r where p: "post_incident_body dl cfg d b = (sent, r)" by fastforce
    with False have "post_or_queue dl cfg d b q = Some (if has_identity d then sent else [], Queued, q1)"
      by (cases r) (auto simp: post_or_queue_def e)
    with q1(2,4) bf show ?thesis by auto
  qed
qed

lemma deliver_kept:
  assumes "queue_ready dl q" and "length (items q) < DEFAULT_CAP"
  shows "\<exists>x nst' q'. deliver_incident dl cfg d inc nst q = Some (fst x, fst (snd x), snd (snd x), nst', q')
    \<and> incident_kept dl cfg inc x \<and> dir_wf q'
    \<and> items q' = items q @ (if snd (snd x) = Queued then [the (usb_incident_body dl inc)] else [])
    \<and> (\<forall>now'. before now' q \<longrightarrow> dl_now dl < now' \<longrightarrow> before now' q')"
proof -
  obtain nst' toast where n: "on_block_for_incident (cfg_notify cfg) inc (dl_instant dl) nst = (nst', toast)" by fastforce
  then have t: "ui_action_taken inc = AT_Blocked \<or> toast = None"
    by (cases "ui_action_taken inc = AT_Blocked") (auto simp: on_block_for_incident_def)
  show ?thesis
  proof (cases "usb_incident_body dl inc")
    case None
    with n t assms(1) show ?thesis
      by (intro exI [of _ "(toast, [], Local_Only)"] exI [of _ nst'] exI [of _ q])
        (simp add: deliver_incident_def incident_wire_body_def incident_kept_def queue_ready_def)
  next
    case (Some b)
    from post_or_queue_kept [OF assms, of cfg d b] obtain sent r q' where p:
      "post_or_queue dl cfg d b q = Some (sent, r, q')" "r = Queued \<or> server_accepted dl cfg b sent" "dir_wf q'"
      "items q' = items q @ (if r = Queued then [b] else [])"
      "\<forall>now'. before now' q \<longrightarrow> dl_now dl < now' \<longrightarrow> before now' q'" by blast
    with n t Some show ?thesis
      by (intro exI [of _ "(toast, sent, r)"] exI [of _ nst'] exI [of _ q'])
        (simp add: deliver_incident_def incident_wire_body_def incident_kept_def)
  qed
qed

lemma deliver_all_kept:
  assumes "dir_wf q" and "clocks_advance (length incs) dls q" and "length (items q) + length incs \<le> DEFAULT_CAP"
  shows "\<exists>log nst' q'. deliver_all dls cfg d incs nst q = Some (log, nst', q') \<and> length log = length incs
    \<and> (\<forall>k < length incs. incident_kept (dls k) cfg (incs ! k) (log ! k))
    \<and> items q' = items q @ queued_bodies dls incs log"
  using assms
proof (induction incs arbitrary: dls nst q)
  case (Cons inc incs)
  have "queue_ready (dls 0) q" "length (items q) < DEFAULT_CAP"
    using Cons.prems by (auto simp: queue_ready_def clocks_advance_def)
  from deliver_kept [OF this, of cfg d inc nst] obtain x nst1 q1 where
    x: "deliver_incident (dls 0) cfg d inc nst q = Some (fst x, fst (snd x), snd (snd x), nst1, q1)"
      "incident_kept (dls 0) cfg inc x" "dir_wf q1"
      "items q1 = items q @ (if snd (snd x) = Queued then [the (usb_incident_body (dls 0) inc)] else [])"
      "\<forall>now'. before now' q \<longrightarrow> dl_now (dls 0) < now' \<longrightarrow> before now' q1" by blast
  have "clocks_advance (length incs) (\<lambda>k. dls (Suc k)) q1"
    using Cons.prems(2) x(5) by (auto simp: clocks_advance_def)
  moreover have "length (items q1) + length incs \<le> DEFAULT_CAP" using Cons.prems(3) x(4) by simp
  ultimately obtain log nst' q' where l: "deliver_all (\<lambda>k. dls (Suc k)) cfg d incs nst1 q1 = Some (log, nst', q')"
    "length log = length incs" "\<forall>k < length incs. incident_kept (dls (Suc k)) cfg (incs ! k) (log ! k)"
    "items q' = items q1 @ queued_bodies (\<lambda>k. dls (Suc k)) incs log"
    using Cons.IH [OF x(3), of "\<lambda>k. dls (Suc k)" nst1] by blast
  have "deliver_all dls cfg d (inc # incs) nst q = Some (x # log, nst', q')"
    by (simp add: x(1) l(1))
  moreover have "\<forall>k < length (inc # incs). incident_kept (dls k) cfg ((inc # incs) ! k) ((x # log) ! k)"
    using x(2) l(3) by (simp add: less_Suc_eq_0_disj) fastforce
  moreover have "items q' = items q @ queued_bodies dls (inc # incs) (x # log)"
    using l(4) x(4) by (cases x) simp
  ultimately show ?case using l(2) by fastforce
qed simp

text \<open>
  What a session leaves: the bodies at the front of the queue that the flush took were accepted, each incident with a body was
  accepted or queued, and the queue is what was left of it followed by the newly queued ones.
\<close>

definition session_kept ::
  "(nat \<Rightarrow> delivery) \<Rightarrow> (nat \<Rightarrow> delivery) \<Rightarrow> config \<Rightarrow> usb_incident list \<Rightarrow> dir \<Rightarrow> session \<Rightarrow> bool" where
  "session_kept fls dls cfg incs q s \<longleftrightarrow>
     (\<exists>n. list_all (accepted_in fls cfg (ss_flushed s)) (take n (items q))
        \<and> items (ss_queue s) = drop n (items q) @ queued_bodies dls incs (ss_log s))
     \<and> length (ss_log s) = length incs
     \<and> (\<forall>k < length incs. incident_kept (dls k) cfg (incs ! k) (ss_log s ! k))"

lemma run_channel_kept:
  assumes "dl_fs (fls 0) = fs_ok" and "dir_wf q" and "clocks_advance (length incs) dls q"
    and "length (items q) + length incs \<le> DEFAULT_CAP"
  shows "\<exists>s. run_channel fls dls cfg d incs nst q = Some s \<and> session_kept fls dls cfg incs q s"
proof -
  obtain n sent q1 where f: "flush_queued fls cfg d q = (n, sent, q1)" by (metis prod_cases3)
  note fq = flush_queued_ok [where dls = fls, OF assms(1,2) f]
  have "clocks_advance (length incs) dls q1"
    using assms(3) fq by (auto simp: clocks_advance_def intro: before_subset)
  moreover have "length (items q1) + length incs \<le> DEFAULT_CAP" using assms(4) fq by simp
  ultimately obtain lg nst' q2 where l: "deliver_all dls cfg d incs nst q1 = Some (lg, nst', q2)" "length lg = length incs"
    "\<forall>k < length incs. incident_kept (dls k) cfg (incs ! k) (lg ! k)" "items q2 = items q1 @ queued_bodies dls incs lg"
    using deliver_all_kept [of q1 incs dls cfg d nst] fq by blast
  show ?thesis
    using fq l by (auto simp: run_channel_def f session_kept_def)
qed

section \<open>The volume monitor\<close>

lemma on_event_audit: "\<not> me_enforce env \<Longrightarrow> um_system (snd (on_event env v e st)) = um_system st"
  by (cases e) (simp_all add: Let_def)

lemma on_events_audit: "\<not> me_enforce env \<Longrightarrow> um_system (snd (on_events env v es st)) = um_system st"
  by (induction es arbitrary: st) (simp_all add: on_event_audit case_prod_unfold Let_def)

lemma audit_volumes_system: "um_system (snd (audit_volumes env v ls st)) = um_system st"
proof (induction ls arbitrary: st)
  case (Cons l ls)
  have "um_system (snd (audit_volume env v l st)) = um_system st"
    by (auto simp: audit_volume_def Let_def case_prod_unfold split: option.split)
  with Cons show ?case by (simp add: case_prod_unfold Let_def)
qed simp

lemma monitor_audit_system:
  "\<not> me_enforce env \<Longrightarrow> usb_run_monitor env vs st = Some (incs, st') \<Longrightarrow> um_system st' = um_system st"
proof (induction vs arbitrary: st incs)
  case (Cons v vs)
  show ?case
  proof (cases "pv_stop v")
    case False
    with Cons.prems(2) obtain incs1 st1 incs2 where t: "monitor_turn env v st = Some (incs1, st1)" "usb_run_monitor env vs st1 = Some (incs2, st')"
      by (auto split: option.splits prod.splits)
    have "um_system st1 = um_system st"
      using t(1)
      by (auto simp: monitor_turn_def case_prod_unfold Let_def audit_volumes_system on_events_audit [OF Cons.prems(1)] split: option.splits)
    with Cons.IH [OF Cons.prems(1) t(2)] show ?thesis by simp
  qed (use Cons.prems(2) in simp)
qed simp

lemma usb_monitor_run_total:
  "\<exists>incs um. usb_monitor_run sr sg env cfg enforce views d sys vol = Some (incs, um) \<and> (\<not> enforce \<longrightarrow> um_system um = sys)"
proof -
  define env' where "env' = env\<lparr>me_enforce := enforce, me_bundle := cached_bundle sr d \<noteq> None,
    me_sealer := counted_sealer sg (build_sealer_keyring (sr_io sr) (mc_dp (sr_machine sr)) (mc_wi (sr_machine sr)) (mc_keyfile (sr_machine sr)) d)
      (agent_id_of (sr_io sr) (sr_meta sr) d)\<rparr>"
  define vs where "vs = map (\<lambda>v. v\<lparr>pv_stop := False, pv_config := cfg\<rparr>) views"
  have "mounted_of (usb_monitor_init sys (0 :: nat, vol) None) l = None" for l
    by (simp add: mounted_of_def usb_monitor_init_def)
  then obtain incs um where r: "usb_run_monitor env' vs (usb_monitor_init sys (0, vol) None) = Some (incs, um)"
    using usb_run_monitor_mounted [of "usb_monitor_init sys (0, vol) None" env' vs]
    by (auto simp: usb_monitor_init_def watcher_new_def)
  moreover have "um_system um = sys" if "\<not> enforce"
    using monitor_audit_system [OF _ r] that by (simp add: env'_def usb_monitor_init_def)
  ultimately show ?thesis by (auto simp: usb_monitor_run_def Let_def env'_def vs_def)
qed

lemma session_kept_merged:
  "session_kept fls dls (with_synced_destinations cfg ds) incs q s = session_kept fls dls cfg incs q s"
proof -
  have u: "incidents_url (with_synced_destinations cfg ds) = incidents_url cfg"
    by (simp add: with_synced_destinations_def incidents_url_def server_endpoint_def)
  show ?thesis
    unfolding session_kept_def incident_kept_def accepted_in_def [abs_def] server_accepted_def u ..
qed


definition example_surroundings :: "(unit, unit, bytes) surroundings" where
  "example_surroundings = \<lparr>sr_net = example_network, sr_io = sound_io, sr_machine = example_machine, sr_ca_file = None,
     sr_api = example_api, sr_parse = example_json, sr_flush = (\<lambda>_. example_delivery),
     sr_sink = (\<lambda>k. example_delivery\<lparr>dl_now := Suc k\<rparr>), sr_meta = (\<lambda>_. None)\<rparr>"


section \<open>Incidents without a verdict\<close>

text \<open>The network monitor's incidents have no verdict: none of them reaches the server or the queue.\<close>

lemma monitor_pass_metadata:
  "list_all (\<lambda>i. ui_verdict i = None) (reported (snd (monitor_pass policy ch ps st)))"
  by (induction ps arbitrary: st)
    (auto simp: monitor_process_def report_step_def block_step_def network_incident_def Let_def case_prod_unfold split: option.split)

lemma run_monitor_metadata: "list_all (\<lambda>i. ui_verdict i = None) (reported (run_monitor nf mode passes))"
proof -
  have "list_all (\<lambda>i. ui_verdict i = None) (reported (snd (monitor_passes policy ch pss st)))" for policy ch pss st
    by (induction pss arbitrary: st) (simp_all add: monitor_pass_metadata case_prod_unfold Let_def)
  then show ?thesis by (simp add: run_monitor_def start_effects_def Let_def)
qed

lemma deliver_all_metadata:
  "list_all (\<lambda>i. ui_verdict i = None) incs \<Longrightarrow> deliver_all dls cfg d incs nst q = Some (lg, nst', q')
     \<Longrightarrow> q' = q \<and> list_all (\<lambda>x. fst (snd x) = [] \<and> snd (snd x) = Local_Only) lg"
proof (induction incs arbitrary: dls nst lg)
  case (Cons inc incs)
  then have b: "usb_incident_body (dls 0) inc = None" by (simp add: usb_incident_body_def)
  from Cons.prems(2) obtain toast nst1 lg' where
    "deliver_all (\<lambda>k. dls (Suc k)) cfg d incs nst1 q = Some (lg', nst', q')" "lg = (toast, [], Local_Only) # lg'"
    by (auto simp: deliver_incident_def incident_wire_body_def b split: option.splits prod.splits)
  with Cons.IH [of "\<lambda>k. dls (Suc k)" nst1 lg'] Cons.prems(1) show ?case by simp
qed simp

lemma net_session_local:
  assumes "cmd_net_monitor sr mode passes cfg d nst q = Some (s, es)"
  shows "list_all (\<lambda>x. fst (snd x) = [] \<and> snd (snd x) = Local_Only) (ss_log s)"
  using assms deliver_all_metadata [OF run_monitor_metadata]
  by (fastforce simp: cmd_net_monitor_def run_channel_def Let_def split: prod.splits)

section \<open>The browser's host\<close>

lemma no_policy_scans:
  "scan_request (host_scanners scan std None) req \<in> insert (Inr clean_verdict) (range Inl)"
  by (auto simp: scan_request_def host_scanners_def Let_def split: scan_kind.split option.split sum.split)

lemma no_policy_allows:
  "rp_verdict (hd_reply (handle_request (host_scanners scan std None) ba cv req)) = WV_Allow
   \<and> hd_incident (handle_request (host_scanners scan std None) ba cv req) = None"
proof -
  have "\<not> upload_blocked ba cv clean_verdict" "\<not> verdict_has_match clean_verdict"
    by (simp_all add: upload_blocked_def verdict_has_match_def clean_verdict_def)
  then show ?thesis
    using no_policy_scans [of scan std req] handle_request_reply [of "host_scanners scan std None" ba cv req]
    by (auto split: sum.splits)
qed

lemma serve_incidents:
  assumes "\<And>req. hd_incident (handle_request sc ba cv req) = None"
  shows "incidents (fst (serve c sc ba cv ch input)) = []"
proof (induction "length input" arbitrary: input rule: less_induct)
  case less
  have one: "incidents (fst (serve_one c sc ba cv ch body)) = []" for body
    by (simp add: serve_one_def Let_def assms incidents_def split: option.split)
  show ?case
  proof (cases "read_message input")
    case (Inr r)
    show ?thesis
    proof (cases r)
      case (Some p)
      obtain body rest where p: "p = (body, rest)" by fastforce
      have i: "incidents (fst (serve c sc ba cv ch rest)) = []"
        using less read_message_shorter Inr Some p by blast
      show ?thesis
        using one [of body] i
        by (subst serve.simps) (simp add: Inr Some p case_prod_unfold Let_def incidents_def map_filter_append)
    qed (subst serve.simps, simp add: Inr incidents_def)
  qed (subst serve.simps, simp add: incidents_def)
qed

text \<open>
  Without a policy nothing is stopped and with one the block signal decides. Whatever the browser sends: with no verified
  bundle every answer allows, no incident is raised and none delivered; and with a bundle the answer is allow where the
  content could not be scanned, else block on a block signal at the configured thresholds, warn on a lesser match, allow otherwise.
\<close>

lemma browser_host_answers:
  assumes "cmd_browser_host sr scan std c input cfg d nst q = Some (s, es, r)"
  defines "ans \<equiv> \<lambda>req. rp_verdict (hd_reply (handle_request (host_scanners scan std (cached_bundle sr d))
      (kc_block_at (cfg_kguard cfg)) (kc_coverage_block_at (cfg_kguard cfg)) req))"
  shows "case cached_bundle sr d of
      None \<Rightarrow> ans req = WV_Allow \<and> incidents es = [] \<and> ss_log s = []
    | Some b \<Rightarrow> ans req = (case scan_request (scan b) req of
           Inl _ \<Rightarrow> WV_Allow
         | Inr v \<Rightarrow> if should_block v (cfg_kguard cfg) then WV_Block else if verdict_has_match v then WV_Warn else WV_Allow)"
proof (cases "cached_bundle sr d")
  case None
  have "incidents es = []"
    using assms(1) serve_incidents [of "host_scanners scan std None"] no_policy_allows [of scan std]
    by (auto simp: cmd_browser_host_def None split: prod.splits) (metis fst_conv)
  moreover from this assms(1) have "ss_log s = []"
    by (auto simp: cmd_browser_host_def run_channel_def split: prod.splits)
  ultimately show ?thesis by (simp add: None ans_def no_policy_allows)
next
  case (Some b)
  have "upload_blocked (kc_block_at (cfg_kguard cfg)) (kc_coverage_block_at (cfg_kguard cfg)) v = should_block v (cfg_kguard cfg)" for v
    by (simp add: upload_blocked_def should_block_def list_ex_iff)
  with handle_request_reply [of "scan b" "kc_block_at (cfg_kguard cfg)" "kc_coverage_block_at (cfg_kguard cfg)" req]
  show ?thesis by (auto simp: Some ans_def host_scanners_def split: sum.split)
qed

section \<open>Scanning one file\<close>

definition report_incident :: "delivery \<Rightarrow> config \<Rightarrow> state_dir \<Rightarrow> ustring \<Rightarrow> verdict \<Rightarrow> http_request list \<times> bool" where
  "report_incident dl cfg d channel v =
     (case dl_to_string dl
             \<lparr>ir_channel = channel, ir_file_name = vd_file_name v, ir_file_sha256 = vd_file_sha256 v, ir_verdict = v,
              ir_action_taken = None, ir_os_user = None, ir_key_id = None, ir_sealed_sha256 = None\<rparr> of
        None \<Rightarrow> ([], False)
      | Some body \<Rightarrow>
          (case post_incident_body dl cfg d body of (sent, Inr _) \<Rightarrow> (sent, True) | (sent, Inl _) \<Rightarrow> (sent, False)))"

datatype scan_error = SE_Ca | SE_Read_Bundle | SE_Load_Bundle bundle_error | SE_Read_File | SE_No_Channel | SE_Report

text \<open>
  The verdict printed, what was sent and how the command ends; \<open>read\<close> is the file system, \<open>judge\<close> the verdict
  on a path, which may fail to be read. \<open>None\<close> is a panic of the detector. Printing always succeeds.
\<close>

record scan_result =
  sn_printed :: "verdict option"
  sn_sent :: "http_request list"
  sn_end :: "scan_error + unit"

definition scan_failed :: "scan_error \<Rightarrow> scan_result" where
  "scan_failed e = \<lparr>sn_printed = None, sn_sent = [], sn_end = Inl e\<rparr>"

definition cmd_scan ::
  "('c, 'k, 's) surroundings \<Rightarrow> (ustring \<Rightarrow> bytes option) \<Rightarrow> (index_bundle \<Rightarrow> ustring \<Rightarrow> (unit + verdict) option)
   \<Rightarrow> config \<Rightarrow> ustring \<times> ustring \<times> scan_options \<Rightarrow> state_dir \<Rightarrow> scan_result option" where
  "cmd_scan sr read judge cfg args d =
     (case args of (bundle_path, file_path, so) \<Rightarrow>
        (case load_ca (sr_io sr) (mc_dp (sr_machine sr)) (sr_ca_file sr) d of
           Inl _ \<Rightarrow> Some (scan_failed SE_Ca)
         | Inr ca_pem \<Rightarrow>
             (case read bundle_path of
                None \<Rightarrow> Some (scan_failed SE_Read_Bundle)
              | Some bs \<Rightarrow>
                  (case load (sr_api sr) (sr_parse sr) bs ca_pem of
                     Inl e \<Rightarrow> Some (scan_failed (SE_Load_Bundle e))
                   | Inr b \<Rightarrow>
                       (case judge b file_path of
                          None \<Rightarrow> None
                        | Some (Inl _) \<Rightarrow> Some (scan_failed SE_Read_File)
                        | Some (Inr v) \<Rightarrow>
                            if \<not> so_report so then Some \<lparr>sn_printed = Some v, sn_sent = [], sn_end = Inr ()\<rparr>
                            else case so_channel so of
                              None \<Rightarrow> Some \<lparr>sn_printed = Some v, sn_sent = [], sn_end = Inl SE_No_Channel\<rparr>
                            | Some channel \<Rightarrow>
                                (case report_incident (sr_sink sr 0) cfg d channel v of
                                   (sent, ok) \<Rightarrow>
                                     Some \<lparr>sn_printed = Some v, sn_sent = sent, sn_end = (if ok then Inr () else Inl SE_Report)\<rparr>))))))"

text \<open>
  A verdict is only given under a bundle the trusted CA vouches for, and nothing is sent unless the report was asked for. The
  exit code is documented as 0 whenever the scan executes; a scan whose report has no channel or is refused has executed and fails.
\<close>

lemma scan_verdict_verified:
  assumes "cmd_scan sr read judge cfg (bp, fp, so) d = Some r" and "sn_printed r = Some v"
  shows "\<exists>ca bs b. load_ca (sr_io sr) (mc_dp (sr_machine sr)) (sr_ca_file sr) d = Inr ca \<and> read bp = Some bs
    \<and> load (sr_api sr) (sr_parse sr) bs ca = Inr b \<and> judge b fp = Some (Inr v) \<and> (so_report so \<or> sn_sent r = [] \<and> sn_end r = Inr ())"
  using assms by (auto simp: cmd_scan_def scan_failed_def split: sum.splits option.splits if_splits prod.splits)

lemma executed_scan_fails:
  assumes "cmd_scan sr read judge cfg (bp, fp, so) d = Some r" and "sn_printed r = Some v" and "so_report so" and "so_channel so = None"
  shows "sn_end r = Inl SE_No_Channel"
  using assms by (auto simp: cmd_scan_def scan_failed_def split: sum.splits option.splits)

section \<open>Status\<close>

definition CERT_BEGIN :: ustring where
  "CERT_BEGIN = lit ''-----BEGIN CERTIFICATE-----''"

definition CERT_END :: ustring where
  "CERT_END = lit ''-----END CERTIFICATE-----''"

text \<open>The first block between the markers; \<open>None\<close> is the slice whose end lies before its start.\<close>

definition extract_cert_pem :: "bytes \<Rightarrow> ustring option option" where
  "extract_cert_pem identity =
     (let s = from_utf8_lossy identity
      in case find_str CERT_BEGIN s of
           None \<Rightarrow> Some None
         | Some start \<Rightarrow>
             (case find_str CERT_END s of
                None \<Rightarrow> Some None
              | Some e \<Rightarrow>
                  let end = e + length CERT_END
                  in if start \<le> end then Some (Some (take (end - start) (drop start s))) else None))"

datatype 'x status =
  ST_Not_Enrolled | ST_Enrolled agent_meta "'x option option"

text \<open>What \<open>status\<close> prints: the meta data and, when there is one, the certificate or that it cannot be parsed.\<close>

definition print_status ::
  "dir_io \<Rightarrow> dpapi \<Rightarrow> (bytes \<Rightarrow> agent_meta option) \<Rightarrow> (ustring \<Rightarrow> 'x option) \<Rightarrow> state_dir \<Rightarrow> (storage_error + 'x status) option" where
  "print_status io dp from_json parse_cert d =
     (if \<not> has_identity d then Some (Inr ST_Not_Enrolled)
      else case load_meta io from_json d of
        Inl e \<Rightarrow> Some (Inl e)
      | Inr m \<Rightarrow>
          (case load_identity io dp d of
             Inl _ \<Rightarrow> Some (Inr (ST_Enrolled m None))
           | Inr (pem, _) \<Rightarrow>
               map_option (\<lambda>c. Inr (ST_Enrolled m (map_option parse_cert c))) (extract_cert_pem pem)))"

lemma certificate_extracted:
  assumes "list_all is_scalar (key @ CERT_BEGIN @ body @ CERT_END @ rest)"
    and "find_str CERT_BEGIN (key @ CERT_BEGIN @ body @ CERT_END @ rest) = Some (length key)"
    and "find_str CERT_END (key @ CERT_BEGIN @ body @ CERT_END @ rest) = Some (length key + length CERT_BEGIN + length body)"
  shows "extract_cert_pem (utf8 (key @ CERT_BEGIN @ body @ CERT_END @ rest)) = Some (Some (CERT_BEGIN @ body @ CERT_END))"
  unfolding extract_cert_pem_def from_utf8_lossy_utf8 [OF assms(1)] by (simp add: Let_def assms(2,3))

text \<open>A stored certificate whose end marker also stands before its start makes the command panic.\<close>

lemma status_panics: "extract_cert_pem (utf8 (CERT_END @ lit ''x'' @ CERT_BEGIN)) = None"
  by (simp add: extract_cert_pem_def from_utf8_lossy_utf8 CERT_END_def CERT_BEGIN_def lit_def is_scalar_def starts_with_def)

section \<open>The guard and the sealer of the endpoint mode\<close>

text \<open>
  One attempt of each worker: the bundle, the keyring and the agent's id are those at its start, in \<open>d\<close>; the configuration
  of a turn is in its events or views. Delivery reads the configuration again, of which it uses what synchronizing leaves as it is.
\<close>

definition guard_worker ::
  "('c, 'k, 's) surroundings \<Rightarrow> (index_bundle \<Rightarrow> scorer) \<Rightarrow> bool \<Rightarrow> config \<Rightarrow> volume_map option \<Rightarrow> guard_event list
   \<Rightarrow> state_dir \<Rightarrow> notify_state \<Rightarrow> dir \<Rightarrow> (port_effect list \<times> sink_log \<times> notify_state \<times> dir) option" where
  "guard_worker sr scorer_of connects shared cache evs d nst q =
     (case guard_run connects shared (map_option scorer_of (cached_bundle sr d)) cache evs of
        None \<Rightarrow> None
      | Some (es, _) \<Rightarrow> map_option (Pair es) (deliver_all (sr_sink sr) shared d (guard_reports es) nst q))"

definition sealer_worker ::
  "('c, 'k, 's) surroundings \<Rightarrow> sealing \<Rightarrow> (nat \<times> volume) monitor_env \<Rightarrow> config \<Rightarrow> sealer_health \<Rightarrow> poll_view list
   \<Rightarrow> state_dir \<Rightarrow> win_state \<Rightarrow> volume \<Rightarrow> notify_state \<Rightarrow> dir
   \<Rightarrow> ((nat \<times> volume) usb_monitor \<times> sink_log \<times> notify_state \<times> dir) option" where
  "sealer_worker sr sg env shared health views d sys vol nst q =
     (let m = sr_machine sr;
          ring = build_sealer_keyring (sr_io sr) (mc_dp m) (mc_wi m) (mc_keyfile m) d;
          health' = set_keyring_present (ring \<noteq> None) health;
          env' = env\<lparr>me_enforce := False, me_bundle := cached_bundle sr d \<noteq> None,
                     me_sealer := counted_sealer sg ring (agent_id_of (sr_io sr) (sr_meta sr) d)\<rparr>
      in case usb_run_monitor env' views (usb_monitor_init sys (0, vol) (Some health')) of
           None \<Rightarrow> None
         | Some (incs, um) \<Rightarrow> map_option (Pair um) (deliver_all (sr_sink sr) shared d incs nst q))"

text \<open>The sealer's worker leaves the devices alone whatever its turns see.\<close>

lemma sealer_worker_system:
  "sealer_worker sr sg env shared health views d sys vol nst q = Some (um, r) \<Longrightarrow> um_system um = sys"
  by (auto simp: sealer_worker_def Let_def usb_monitor_init_def split: option.splits dest!: monitor_audit_system [rotated])

text \<open>Synchronizing does not change how an incident is delivered.\<close>

lemma deliver_merged:
  "deliver_incident dl (with_synced_destinations cfg ds) d inc nst q = deliver_incident dl cfg d inc nst q"
proof -
  have "post_or_queue dl (with_synced_destinations cfg ds) d b q = post_or_queue dl cfg d b q" for b
  proof -
    have p: "post_incident_body dl (with_synced_destinations cfg ds) d b = post_incident_body dl cfg d b"
      by (simp add: post_incident_body_def with_synced_destinations_def incidents_url_def server_endpoint_def)
    show ?thesis by (simp only: post_or_queue_def p)
  qed
  moreover have "cfg_notify (with_synced_destinations cfg ds) = cfg_notify cfg" by (simp add: with_synced_destinations_def)
  ultimately show ?thesis by (simp add: deliver_incident_def incident_wire_body_def split: prod.split option.split)
qed

lemma unscored_read:
  assumes "rq_reason (gm_request m) = DLP_REASON_READ" and "\<not> kc_fail_block (cfg_kguard (gm_config m))"
  shows "message_decision None m cache = Some ((False, None), cache)"
  using assms
  by (auto simp: message_decision_def guard_decide_def envelope_passthrough_def decide_scored_def Let_def split: option.split)

lemma unscored_loop:
  assumes "\<forall>m. EV_Message m \<in> set evs \<longrightarrow> rq_reason (gm_request m) = DLP_REASON_READ \<and> \<not> kc_fail_block (cfg_kguard (gm_config m))"
  shows "\<exists>turns. message_loop None cache evs = Some turns
    \<and> list_all (\<lambda>t. \<exists>f. t = [GE_Reply \<lparr>rp_file_id = f, rp_verdict = DLP_VERDICT_ALLOW\<rparr>]) turns"
  using assms
proof (induction evs)
  case (Cons e evs)
  show ?case
  proof (cases e)
    case (EV_Message m)
    with Cons.prems have "message_decision None m cache = Some ((False, None), cache)" by (intro unscored_read) auto
    moreover have "message_effects (gm_request m) (False, None)
        = [GE_Reply \<lparr>rp_file_id = rq_file_id (gm_request m), rp_verdict = DLP_VERDICT_ALLOW\<rparr>]"
      by (simp add: message_effects_def should_reset_connections_def)
    ultimately show ?thesis using Cons by (auto simp: EV_Message)
  qed simp_all
qed simp

text \<open>
  The guard loads the bundle when its attempt starts and never again. On an endpoint that starts without one, every read scan is
  allowed without an incident for as long as the attempt runs, whatever bundle the check-in worker stores meanwhile.
\<close>

lemma first_bundle_ignored:
  assumes "cached_bundle sr d = None"
    and "\<forall>m. EV_Message m \<in> set evs \<longrightarrow> rq_reason (gm_request m) = DLP_REASON_READ \<and> \<not> kc_fail_block (cfg_kguard (gm_config m))"
  shows "\<exists>es. guard_worker sr scorer_of True shared cache evs d nst q = Some (es, [], nst, q)
    \<and> list_all (\<lambda>e. \<forall>t. e = PE_Turn t \<longrightarrow> (\<exists>f. t = [GE_Reply \<lparr>rp_file_id = f, rp_verdict = DLP_VERDICT_ALLOW\<rparr>])) es"
proof -
  from unscored_loop [OF assms(2)] obtain turns where t: "message_loop None cache evs = Some turns"
    "list_all (\<lambda>t. \<exists>f. t = [GE_Reply \<lparr>rp_file_id = f, rp_verdict = DLP_VERDICT_ALLOW\<rparr>]) turns" by blast
  have "guard_reports (map PE_Turn turns) = []"
    using t(2) by (induction turns) (auto simp: guard_reports_def)
  then have r: "guard_reports (PE_Config c # (if x then [PE_Start_Pusher] else []) @ map PE_Turn turns
      @ (if x then [PE_Stop_Pusher] else []) @ [PE_Close]) = []" for c x
    by (simp add: guard_reports_def)
  from t(2) have "list_all (\<lambda>e. \<forall>t. e = PE_Turn t \<longrightarrow> (\<exists>f. t = [GE_Reply \<lparr>rp_file_id = f, rp_verdict = DLP_VERDICT_ALLOW\<rparr>]))
      (PE_Config c # (if x then [PE_Start_Pusher] else []) @ map PE_Turn turns @ (if x then [PE_Stop_Pusher] else []) @ [PE_Close])" for c x
    by (auto simp: list_all_iff)
  with t(1) r show ?thesis
    by (simp add: guard_worker_def assms(1) guard_run_def Let_def)
qed

end
