(* ===== verification/Spec2Isabelle.thy ===== *)
theory Spec2Isabelle
  imports Bundle_Builder Verdict Decrypt Incident_Queue Usb_Policy Exfil Trust_Dest Trust_Sync Scan_Pool Kguard
    Usb_Monitor Toast_Child Service Sessions
begin

text \<open>
  A verification development for the endpoint agent of a data-loss-prevention system
  (\<open>src/dlp-agent/src\<close>, Rust). The agent receives from the management server a signed index
  of the protected documents and data records, decides for content about to leave the machine
  whether it matches, and acts on the removable volumes, network connections, writes seen by the
  kernel guard and the clipboard: it blocks, encrypts in place, or records an incident in a queue
  that is sent to the server.

  \<^bold>\<open>Parts, theories and sources.\<close> Paths are relative to \<open>src/dlp-agent/src\<close>. A theory opens with
  the definitions, in the order of the source and under the names of the source, and goes on to
  the lemmas.

    \<^item> \<open>Prelude\<close>, \<open>Rust_Std\<close>, \<open>Text_Codec\<close>, \<open>Float64\<close>: the vocabulary. Machine integers are
      \<open>word\<close>s, fallible code returns \<open>error + value\<close>, a panic is \<open>None\<close>. Strings are lists of
      Unicode scalar values with UTF-8 written out; scores are IEEE doubles, of which the agent
      uses the rounded quotient of two counts and comparison.

    \<^item> \<open>Fingerprint\<close> (\<open>detect/normalize.rs\<close>, \<open>detect/shingle.rs\<close>, \<open>detect/mod.rs\<close>): normal form,
      shingles, winnowing, containment. Shown: the normal form against a reference definition,
      the winnowed positions are the rightmost window minima, a shared passage is always found.

    \<^item> \<open>Bundle\<close> (\<open>detect/bundle.rs\<close>) and \<open>Bundle_Builder\<close>
      (\<open>src/dlp-management-server/lib/indexBundle.js\<close>): the loader in its two passes and the
      writer. Shown: nothing is interpreted before the signature is verified, a loaded bundle
      satisfies the invariant of the lookups, the lookups equal a linear filter, what the server
      writes the agent reads back.

    \<^item> \<open>Edm\<close> (\<open>detect/edm.rs\<close>), \<open>Extract\<close> (\<open>detect/extract.rs\<close>), \<open>Verdict\<close>
      (\<open>detect/verdict.rs\<close>): exact data matching, text extraction with its budgets, and the
      verdict. Shown: the row criterion as a specification, archive text within budget and
      refusal of encrypted members, round trips of the text formats, and the verdict equal to its
      specification for every well-formed bundle.

    \<^item> \<open>Keyring\<close> (\<open>crypto/keyring.rs\<close>), \<open>Envelope\<close> (\<open>crypto/envelope.rs\<close>): the ring invariant,
      destruction is final, sealing and opening are inverse, opening authenticates every part.

    \<^item> \<open>Incident_Queue\<close> (\<open>usb/queue.rs\<close>): the queue directory refines a bounded first-in
      first-out queue; the flush sends in order and keeps what was not accepted.

    \<^item> \<open>First_Match\<close>: the interface of an ordered rule list, interpreted by \<open>Usb_Policy\<close>
      (\<open>usb/device.rs\<close>, \<open>usb/policy.rs\<close>, \<open>usb/enforce.rs\<close>) and \<open>Net_Rules\<close>
      (\<open>netfilter/rules.rs\<close>, \<open>netfilter/remote_tools.rs\<close>). Shown: descriptor parsing is total,
      which rule decides, default deny, prefix membership.

    \<^item> \<open>Trust_Dest\<close> (\<open>trustdest.rs\<close>, the health signal of \<open>supervise.rs\<close>), \<open>Config\<close>
      (\<open>config.rs\<close>), \<open>Trust_Sync\<close> (\<open>trustsync.rs\<close>): the seal decision and its monotonicity, the
      configuration with its defaults, and how synced destinations and keys enter both.

    \<^item> \<open>Usb_Incident\<close>, \<open>Copy_Auditor\<close>, \<open>Seal_Pipeline\<close>, \<open>Scan_Pool\<close> (\<open>usb/audit.rs\<close>): incidents,
      the poll with its settle rule, sealing in place over a volume whose every operation may
      fail, and the worker pool as a step relation over interleavings.

    \<^item> \<open>Kguard\<close> (\<open>kguard/mod.rs\<close>): the messages of the driver's port, the decision on reads and
      writes, and the message loop with its effects in order.

    \<^item> \<open>Wfp\<close>, \<open>Net_Monitor\<close> (\<open>netfilter/wfp.rs\<close>, \<open>netfilter/mod.rs\<close>) and \<open>Exfil\<close>
      (\<open>netfilter/tcpreset.rs\<close>, \<open>exfil.rs\<close>, the pusher of \<open>kguard/mod.rs\<close>): native filters, their
      installation as a transaction over an engine that may refuse any call, the monitor's effects,
      the connection reset and the set of processes the driver is told. Shown: a rule's filters
      select what the rule matches, the installation is all or nothing, each effect happens once,
      public addresses are those outside the registered local blocks.

    \<^item> \<open>Clip_Formats\<close>, \<open>Clipboard\<close> (\<open>clipboard/formats.rs\<close>, \<open>watch.rs\<close>, \<open>mod.rs\<close>, \<open>enforce.rs\<close>),
      \<open>Browser_Host\<close> (\<open>browser_host.rs\<close>), \<open>Decrypt\<close> (\<open>decrypt.rs\<close>), \<open>Notify\<close>
      (\<open>notify/mod.rs\<close>): the other channels. Shown: clipboard blobs are read back, every copy is
      decided once and the agent does not react to its own clear, every upload request is answered
      once, plaintext is released only after its audit, toasts are bounded and reveal nothing of
      the detection.

    \<^item> \<open>Usb_Enforce\<close>, \<open>Usb_Monitor\<close> (\<open>usb/enforce.rs\<close>, \<open>usb/watch.rs\<close>, \<open>usb/mod.rs\<close>, the listing of
      \<open>usb/device.rs\<close>): live enforcement over a registry and volumes whose calls may be refused, and
      the monitor loop over the listings, configurations and trees each turn sees. Shown: success
      means the plan is in place and nothing else changed, the volumes under audit are those a
      specification over the listings gives, a volume to be sealed fails secure without a bundle.

    \<^item> \<open>Storage\<close>, \<open>Server_Link\<close>, \<open>Endpoint\<close> (\<open>storage.rs\<close>, \<open>identity.rs\<close>, \<open>client.rs\<close>,
      \<open>enroll.rs\<close>, \<open>checkin.rs\<close>, \<open>main.rs\<close>): the state directory with writes as sequences of states,
      the dealings with the server over a network that answers or fails, delivery of incidents, the
      decrypt command, and the workers of the endpoint mode as a step relation over their shared
      state. Shown: replacing the bundle is safe against crashes and keeps it verified, the private
      key is not sent, a synced configuration is in force, incidents are posted or queued, plaintext
      is released on the record, and no interleaving of the workers weakens the configuration.

    \<^item> \<open>Cli\<close>, \<open>Guard_Session\<close>, \<open>Clip_Session\<close>, \<open>Sessions\<close>, \<open>Toast_Child\<close>, \<open>Service\<close> (\<open>main.rs\<close>, \<open>service.rs\<close>, the
      outer parts of \<open>kguard/mod.rs\<close>, \<open>clipboard/watch.rs\<close> and \<open>notify/mod.rs\<close>): the command line, the monitoring commands from
      their options to the delivery of every incident, the process that shows a toast in the user's session, the service and the
      supervision of its workers. Shown: within the queue's bound a session loses no incident and keeps the order, an audit changes nothing,
      commands start as they were asked for, the toast's process renders the message that was built, a worker runs until the stop
      and ends soon after, the letters of volumes are found exactly.

  This theory joins the parts: from the documents the server compiled to the agent's verdict and
  what the trusted destination, the clipboard, the browser's host and the guard decide on it.

  \<^bold>\<open>Parameters.\<close> Code outside the repository is an argument of the definitions that call it, with
  its documented laws as named hypotheses where a theorem needs them: the Unicode tables, SHA-256
  and HMAC, X.509 and RSA verification, AES-GCM, the JSON, TOML and base64 codecs, the \<open>zip\<close> and
  \<open>pdf_extract\<close> crates, the clock and the operating system's calls. Each theorem with such a
  hypothesis has a witness that instantiates the parameter with a concrete function.

  \<^bold>\<open>Loops and bounds.\<close> Loops over data are structural recursions or functions with a measure and
  need no fuel. The walk of nested archives is bounded by the depth the source counts; the walk of
  a volume by the source's own depth limit; binary search by the length of the slice. Only loops
  that the program runs for ever (polls, the message loop, the pool's workers) are sequences of
  inputs or step relations, and what they must achieve is stated as reachability within a number
  of steps.

  \<^bold>\<open>Not modelled.\<close> What Windows does behind a call (the registry, volumes, DPAPI, the port of the
  driver, rendering a toast, the clipboard's memory, the service manager) and what the network does
  behind a request: the calls are parameters that succeed or fail. The texts that are printed and
  logged, the set-up of the log file and the \<open>Display\<close> texts of errors have no decision of their own. The minifilter (C), the
  management server apart from the bundle writer, the web front end and the browser extension are
  programs in other languages; of the minifilter's protocol the agent's side is modelled.
\<close>

section \<open>From the server's corpus to the agent's verdict\<close>

text \<open>
  The data of a compiled bundle: the documents and their hashes come from the document rows,
  the exact-data records are those of the sources, the parameters are the ones the agent
  accepts.
\<close>

definition compiled_from :: "doc_row list \<Rightarrow> bundle_data \<Rightarrow> bool" where
  "compiled_from rows d \<longleftrightarrow>
     compile_docs rows = (hdr_docs (dat_header d), dat_idm d) \<and> length rows < 2 ^ 32
     \<and> list_all (\<lambda>r. distinct (row_hashes r)) rows
     \<and> hdr_params (dat_header d) = \<lparr>prm_k = DEFAULT_K, prm_w = DEFAULT_W, prm_hash_bits = 64\<rparr>
     \<and> distinct (map edm_key (dat_edm d))
     \<and> list_all (\<lambda>e. unat (edm_source_index e) < length (hdr_edm_sources (dat_header d))) (dat_edm d)"

text \<open>The agent holds a bundle that the server compiled from the rows, built and signed.\<close>

definition deployed ::
  "('cert, 'key, 'sig) signature_api \<Rightarrow> (bytes \<Rightarrow> header option) \<Rightarrow> bytes \<Rightarrow> (header \<Rightarrow> bytes) \<Rightarrow> (bytes \<Rightarrow> bytes)
   \<Rightarrow> doc_row list \<Rightarrow> bytes \<Rightarrow> bool" where
  "deployed api parse_json ca to_json sign rows bs \<longleftrightarrow>
     (\<exists>d. compiled_from rows d \<and> build_bundle to_json sign d = Some bs \<and> length bs \<le> usize_max
        \<and> parse_json (to_json (built_header d)) = Some (built_header d))
     \<and> (\<forall>msg. verify_signature api msg (sign msg) ca = Inr ())"

lemma compiled_data_wf:
  assumes "compiled_from rows d"
  shows "data_wf d"
proof -
  have c: "compile_docs rows = (hdr_docs (dat_header d), dat_idm d)" "length rows < 2 ^ 32"
    "list_all (\<lambda>r. distinct (row_hashes r)) rows"
    using assms by (simp_all add: compiled_from_def)
  have "length (hdr_docs (dat_header d)) = length rows"
    by (simp add: arg_cong [OF c(1), of fst, symmetric, simplified] compile_docs_eq)
  moreover have "distinct (map idm_key (dat_idm d))"
    using compile_docs_distinct [OF c(2,3)] by (simp only: c(1) snd_conv)
  moreover have "unat (idm_doc_index e) < length rows" if "e \<in> set (dat_idm d)" for e
    using that compile_docs_entry [OF c(2), of e] by (auto simp only: c(1) snd_conv)
  ultimately show ?thesis
    using assms unfolding compiled_from_def data_wf_def list_all_iff by simp
qed

lemma deployed_loads:
  assumes "deployed api parse_json ca to_json sign rows bs"
  shows "\<exists>b. load api parse_json bs ca = Inr b \<and> bundle_wf b \<and> hdr_docs (bdl_header b) = map row_doc rows
    \<and> (\<forall>i h. i < length rows \<longrightarrow>
         (bundle_bloom_has b h = Some True \<and> \<lparr>idm_hash = h, idm_doc_index = of_nat i\<rparr> \<in> set (bdl_idm b)
          \<longleftrightarrow> h \<in> set (row_hashes (rows ! i))))"
proof -
  from assms obtain d where d: "compiled_from rows d" "build_bundle to_json sign d = Some bs" "length bs \<le> usize_max"
    "parse_json (to_json (built_header d)) = Some (built_header d)"
    and sig: "\<And>msg. verify_signature api msg (sign msg) ca = Inr ()"
    by (auto simp: deployed_def)
  from server_bundle_loads [OF d(2,3) compiled_data_wf [OF d(1)], of parse_json api ca] d(4) sig obtain b where
    b: "load api parse_json bs ca = Inr b" "bdl_header b = built_header d" "set (bdl_idm b) = set (dat_idm d)"
    "\<And>e. e \<in> set (dat_idm d) \<Longrightarrow> bundle_bloom_has b (idm_hash e) = Some True"
    by (metis set_mset_mset)
  have c: "compile_docs rows = (hdr_docs (dat_header d), dat_idm d)" "length rows < 2 ^ 32"
    using d(1) by (simp_all add: compiled_from_def)
  have "hdr_docs (bdl_header b) = map row_doc rows"
    using c(1) compile_docs_eq [of rows] by (simp add: b(2) built_header_def)
  moreover have "bundle_bloom_has b h = Some True \<and> \<lparr>idm_hash = h, idm_doc_index = of_nat i\<rparr> \<in> set (bdl_idm b)
      \<longleftrightarrow> h \<in> set (row_hashes (rows ! i))" if "i < length rows" for i h
  proof -
    have "unat (of_nat i :: u32) = i" using that c(2) by (simp add: unat_of_nat_in_range)
    then have "\<lparr>idm_hash = h, idm_doc_index = of_nat i\<rparr> \<in> set (dat_idm d) \<longleftrightarrow> h \<in> set (row_hashes (rows ! i))"
      using compile_docs_entry [OF c(2), of "\<lparr>idm_hash = h, idm_doc_index = of_nat i\<rparr>"] that c(1) by simp
    with b(3,4) show ?thesis by force
  qed
  ultimately show ?thesis using b(1) load_wf by blast
qed

text \<open>A text that shares a hash with a document: the match the bundle gives, whatever way the text came.\<close>

lemma deployed_match_text:
  assumes "deployed api parse_json ca to_json sign rows bs" and "i < length rows"
    and "fingerprint_text u s DEFAULT_K DEFAULT_W = Some fs"
    and "set (row_hashes (rows ! i)) \<inter> to_hash_set (fingerprints fs) \<noteq> {}"
  shows "\<exists>b idm edm m. load api parse_json bs ca = Inr b \<and> bundle_wf b \<and> match_text u sha256 b s = Some (idm, edm)
    \<and> m \<in> set idm \<and> im_document_id m = row_document_id (rows ! i)
    \<and> im_containment m = score (card (set (row_hashes (rows ! i)) \<inter> to_hash_set (fingerprints fs)))
        (length (row_hashes (rows ! i)))"
proof -
  let ?H = "to_hash_set (fingerprints fs)" and ?R = "set (row_hashes (rows ! i))"
  from deployed_loads [OF assms(1)] obtain b where b: "load api parse_json bs ca = Inr b" "bundle_wf b"
    "hdr_docs (bdl_header b) = map row_doc rows"
    "\<And>h. bundle_bloom_has b h = Some True \<and> \<lparr>idm_hash = h, idm_doc_index = of_nat i\<rparr> \<in> set (bdl_idm b) \<longleftrightarrow> h \<in> ?R"
    using assms(2) by blast
  obtain scanned idm edm where m: "scanned_hashes b (tokens (normalize u s)) = Some scanned"
    "match_text u sha256 b s = Some (idm, edm)" "mset idm = idm_spec b scanned"
    using match_text_exact [OF b(2)] by blast
  have scanned: "set scanned = ?H" "distinct scanned"
    using scanned_hashes_fingerprints [OF b(2) m(1) assms(3)] by auto
  have nat: "unat (of_nat i :: u32) = i"
    using assms(1,2) by (auto simp: deployed_def compiled_from_def unat_of_nat_in_range)
  have dh: "doc_hashes b scanned (of_nat i) = filter (\<lambda>h. h \<in> ?R) scanned"
    by (simp add: doc_hashes_def b(4))
  have set: "set (doc_hashes b scanned (of_nat i)) = ?R \<inter> ?H"
    using scanned(1) by (auto simp: dh)
  have len: "length (doc_hashes b scanned (of_nat i)) = card (?R \<inter> ?H)"
    using distinct_card [of "doc_hashes b scanned (of_nat i)"] scanned(2) by (simp add: set) (simp add: dh)
  have "doc_hashes b scanned (of_nat i) \<noteq> []" using assms(4) set by auto
  then have "match_of_doc (row_doc (rows ! i)) (doc_hashes b scanned (of_nat i)) (length scanned) \<in># mset idm"
    using assms(2) by (auto simp: m(3) idm_spec_def b(3) nat intro!: image_eqI [of _ _ "of_nat i"])
  moreover have "0 < length (row_hashes (rows ! i))" using assms(4) by auto
  ultimately show ?thesis
    using b(1,2) m(2) by (fastforce simp: match_of_doc_def row_doc_def len score_def)
qed

lemma deployed_match:
  assumes "deployed api parse_json ca to_json sign rows bs" and "i < length rows"
    and "extract_text l content name = Inr e"
    and "fingerprint_text u (ext_text e) DEFAULT_K DEFAULT_W = Some fs"
    and "set (row_hashes (rows ! i)) \<inter> to_hash_set (fingerprints fs) \<noteq> {}"
  shows "\<exists>b v m. load api parse_json bs ca = Inr b \<and> verdict_bytes u l sha256 b content name = Some v
    \<and> vd_extraction v = Extraction_Ok (ext_format e)
    \<and> m \<in> set (vd_idm v) \<and> im_document_id m = row_document_id (rows ! i)
    \<and> im_containment m = score (card (set (row_hashes (rows ! i)) \<inter> to_hash_set (fingerprints fs)))
        (length (row_hashes (rows ! i)))"
  using deployed_match_text [OF assms(1,2,4,5), of sha256] by (fastforce simp: verdict_bytes_def assms(3))

text \<open>A text that holds the whole token sequence of a document has the full score for it.\<close>

lemma deployed_document_text:
  assumes "deployed api parse_json ca to_json sign rows bs" and "i < length rows"
    and "fingerprint_text u original DEFAULT_K DEFAULT_W = Some fp"
    and "set (row_hashes (rows ! i)) = to_hash_set (fingerprints fp)"
    and "DEFAULT_K + DEFAULT_W - 1 \<le> length (tokens (normalize u original))"
    and "tokens (normalize u s) = pre @ tokens (normalize u original) @ post"
  shows "\<exists>b idm edm m. load api parse_json bs ca = Inr b \<and> bundle_wf b \<and> match_text u sha256 b s = Some (idm, edm)
    \<and> m \<in> set idm \<and> im_document_id m = row_document_id (rows ! i) \<and> im_containment m = Fin 1"
proof -
  have kw: "1 \<le> DEFAULT_K" "1 \<le> DEFAULT_W" by (simp_all add: DEFAULT_K_def DEFAULT_W_def)
  let ?R = "set (row_hashes (rows ! i))"
  obtain fs where fs: "fingerprint_text u s DEFAULT_K DEFAULT_W = Some fs"
    using fingerprint_text_total [OF kw] by blast
  have "?R \<subseteq> to_hash_set (fingerprints fs)"
    using whole_document_hashes [OF kw assms(3) fs _ assms(6)] assms(4,5) token_count_tokens [OF assms(3)] by simp
  then have eq: "?R \<inter> to_hash_set (fingerprints fs) = ?R" by blast
  have ne: "?R \<noteq> {}"
    using shared_passage_hash [OF kw assms(3,3), of 0 0] assms(4,5) token_count_tokens [OF assms(3)] by auto
  have "distinct (row_hashes (rows ! i))"
    using assms(1,2) by (auto simp: deployed_def compiled_from_def list_all_length)
  then have "score (card ?R) (length (row_hashes (rows ! i))) = Fin 1"
    using ne by (simp add: distinct_card)
  with deployed_match_text [OF assms(1,2) fs, of sha256] eq ne show ?thesis by auto
qed

text \<open>A corpus of one document of fifteen equal words, deployed, and a file that holds it.\<close>

definition demo_text :: ustring where
  "demo_text = lit ''a a a a a a a a a a a a a a a''"

definition demo_rows :: "fingerprint_result \<Rightarrow> doc_row list" where
  "demo_rows fp = [\<lparr>row_version_id = lit ''v'', row_document_id = lit ''d'', row_collection_id = lit ''c'',
     row_title = lit ''t'', row_hashes = dedup_seen {} (map fp_hash (fingerprints fp))\<rparr>]"

lemma demo_tokens: "tokens (normalize ascii_tables demo_text) = replicate 15 (lit ''a'')"
  by code_simp

lemma demo_extract:
  "extract_text example_libs (utf8 demo_text) (lit ''a.txt'') = Inr \<lparr>ext_text = demo_text, ext_format = lit ''text''\<rparr>"
proof -
  have "extension_of example_libs (lit ''a.txt'') = lit ''txt''" by code_simp
  moreover have "decode_plain_text (utf8 demo_text) = Inr demo_text"
    by (rule decode_plain_text_utf8(1)) (simp_all add: demo_text_def lit_def is_scalar_def)
  moreover have "length (utf8 demo_text) \<le> MAX_BUFFER_BYTES"
    by (simp add: demo_text_def lit_def utf8_def utf8_char_def MAX_BUFFER_BYTES_def)
  ultimately show ?thesis
    by (simp add: extract_text_def Let_def extract_by_extension.simps is_text_extension_def)
qed

lemma demo_fingerprint:
  "\<exists>h fp. fingerprint_text ascii_tables demo_text DEFAULT_K DEFAULT_W = Some fp
     \<and> map fp_hash (fingerprints fp) = [h]"
proof -
  obtain fp where fp: "fingerprint_text ascii_tables demo_text DEFAULT_K DEFAULT_W = Some fp"
    using fingerprint_text_total [of DEFAULT_K DEFAULT_W] by (auto simp: DEFAULT_K_def DEFAULT_W_def)
  let ?hs = "text_hashes ascii_tables demo_text DEFAULT_K"
  have tc: "token_count fp = 15" using token_count_tokens [OF fp] by (simp add: demo_tokens)
  have w: "winnow ?hs DEFAULT_W = Some (fingerprints fp)" and len: "length ?hs = 8"
    using fingerprint_text_hashes [OF fp] tc by (simp_all add: DEFAULT_K_def)
  have "fingerprints fp = map (fp_at ?hs) (remdups_adj (window_minima ?hs DEFAULT_W))"
    using w len winnow_windows [of DEFAULT_W ?hs] by (simp add: DEFAULT_W_def)
  then have "fingerprints fp = [fp_at ?hs (min_index_in ?hs 0 8)]"
    by (simp add: window_minima_def len DEFAULT_W_def)
  with fp show ?thesis by simp
qed

lemma demo_deployed:
  assumes "map fp_hash (fingerprints fp) = [h]"
  shows "\<exists>bs. deployed example_api example_json [] (\<lambda>_. [123, 125]) (\<lambda>_. [1, 2]) (demo_rows fp) bs"
proof -
  obtain bs where bs: "build_bundle (\<lambda>_. [123, 125]) (\<lambda>_. [1, 2]) (example_data h) = Some bs"
    and len: "length bs \<le> usize_max"
    using example_build_length by blast
  have "compiled_from (demo_rows fp) (example_data h)"
    using assms by (simp add: compiled_from_def compile_docs_def compile_doc_def demo_rows_def example_data_def
      example_header_def DEFAULT_K_def DEFAULT_W_def)
  moreover have "example_json [123, 125] = Some (built_header (example_data h))"
    by (simp add: example_built_header example_json_def)
  moreover have "verify_signature example_api msg [1, 2] [] = Inr ()" for msg
    by (simp add: verify_signature_def example_api_def)
  ultimately show ?thesis using bs len by (auto simp: deployed_def)
qed

section \<open>Properties\<close>







end
